(* ===== verification/Prelude.thy ===== *)
theory Prelude
  imports Complex_Main "HOL-Library.Word" "HOL-Library.Sublist"
begin

text \<open>
  Shared vocabulary of the development: bytes and buffers, the JavaScript arithmetic the
  sources use, text, and list operations that several components share.

  Numbers. A JavaScript number that the code only ever holds as an integer is an \<open>int\<close> or
  a \<open>nat\<close>; one that may be fractional is a \<open>rat\<close>, that is, finite doubles are taken as the
  rationals they denote, the rounding of double arithmetic and the values NaN and Infinity
  are not modelled.

  Buffers. A Node \<open>Buffer\<close> is a list of bytes. Reading past its end gives \<open>undefined\<close>,
  which every bitwise operator turns into 0: \<open>byte_at\<close> is such a read.

  Text. Strings are ASCII (\<open>char list\<close>); \<open>toUpperCase\<close> acts on the letters a to z.
\<close>

unbundle bit_operations_syntax

type_synonym byte = "8 word"
type_synonym buffer = "byte list"

named_theorems model_defs \<open>definitions that proofs about one component unfold together\<close>
named_theorems bcd_simps \<open>facts about binary coded decimal bytes\<close>

section \<open>Arithmetic\<close>

definition js_round :: "rat \<Rightarrow> int" where
  \<comment> \<open>\<open>Math.round\<close>: the nearest integer, ties towards plus infinity\<close>
  "js_round x = \<lfloor>x + 1 / 2\<rfloor>"

definition js_mod :: "int \<Rightarrow> int \<Rightarrow> int" where
  \<comment> \<open>the \<open>%\<close> operator: the remainder has the sign of the dividend\<close>
  "js_mod a b = sgn a * (\<bar>a\<bar> mod \<bar>b\<bar>)"

definition to_byte :: "int \<Rightarrow> byte" where
  \<comment> \<open>storing a number into a \<open>Buffer\<close> keeps its low eight bits\<close>
  "to_byte n = word_of_int n"

definition byte_at :: "buffer \<Rightarrow> nat \<Rightarrow> byte" where
  "byte_at buf i = (if i < length buf then buf ! i else 0)"

lemma js_round_of_int [simp]: "js_round (of_int n) = n"
  unfolding js_round_def by linarith

lemma js_round_of_nat [simp]: "js_round (of_nat n) = int n"
  using js_round_of_int[of "int n"] by simp

lemma js_round_numeral [simp]: "js_round (numeral k) = numeral k"
  using js_round_of_int[of "numeral k"] by simp

lemma js_mod_nonneg [simp]: "0 \<le> a \<Longrightarrow> 0 < b \<Longrightarrow> js_mod a b = a mod b"
  by (cases "a = 0") (simp_all add: js_mod_def sgn_if)

lemma byte_at_append_left [simp]: "i < length xs \<Longrightarrow> byte_at (xs @ ys) i = byte_at xs i"
  by (simp add: byte_at_def nth_append)

lemma byte_at_append_right [simp]:
  "length xs \<le> i \<Longrightarrow> byte_at (xs @ ys) i = byte_at ys (i - length xs)"
  by (auto simp: byte_at_def nth_append)

lemma byte_at_Cons_0 [simp]: "byte_at (x # xs) 0 = x"
  by (simp add: byte_at_def)

lemma byte_at_Cons_Suc [simp]: "byte_at (x # xs) (Suc n) = byte_at xs n"
  by (simp add: byte_at_def)

lemma byte_at_Cons_numeral [simp]: "byte_at (x # xs) (numeral k) = byte_at xs (pred_numeral k)"
  by (simp add: numeral_eq_Suc)

lemma unat_and_15: "unat (b AND 15 :: byte) = unat b mod 16"
proof -
  have "unat (b AND 15 :: byte) = unat b AND 15"
    by (simp add: unsigned_and_eq)
  also have "\<dots> = unat b mod 16"
    using take_bit_eq_mask[of 4 "unat b"] by (simp add: take_bit_eq_mod mask_eq_exp_minus_1)
  finally show ?thesis .
qed

lemma unat_hi_nibble: "unat (drop_bit 4 b AND 15 :: byte) = unat b div 16"
proof -
  have "unat (drop_bit 4 b) = unat b div 16"
    by (simp add: unat_drop_bit_eq drop_bit_eq_div unat_div)
  moreover have "unat b < 256"
    using unsigned_less[of b] by simp
  ultimately show ?thesis
    by (simp only: unat_and_15) simp
qed

section \<open>Text\<close>

definition upper_char :: "char \<Rightarrow> char" where
  "upper_char c = (let n = (of_char c :: nat) in
     if 97 \<le> n \<and> n \<le> 122 then char_of (n - 32) else c)"

definition toUpperCase :: "string \<Rightarrow> string" where
  "toUpperCase s = map upper_char s"

fun nat_text :: "nat \<Rightarrow> string" where
  \<comment> \<open>decimal text of a natural number\<close>
  "nat_text n = (if n < 10 then [char_of (48 + n)] else nat_text (n div 10) @ [char_of (48 + n mod 10)])"

declare nat_text.simps [simp del]

definition digits_value :: "string \<Rightarrow> nat" where
  "digits_value s = foldl (\<lambda>a c. a * 10 + (of_char c - 48)) 0 s"

lemma digits_value_nat_text [simp]: "digits_value (nat_text n) = n"
proof (induction n rule: nat_text.induct)
  case (1 n)
  show ?case
  proof (cases "n < 10")
    case True
    then show ?thesis by (subst nat_text.simps) (simp add: digits_value_def)
  next
    case False
    then have "digits_value (nat_text n) = digits_value (nat_text (n div 10)) * 10 + n mod 10"
      by (subst nat_text.simps) (simp add: digits_value_def)
    then show ?thesis using 1[OF False] by simp
  qed
qed

lemma nat_text_digits: "c \<in> set (nat_text n) \<Longrightarrow> 48 \<le> (of_char c :: nat) \<and> (of_char c :: nat) \<le> 57"
proof (induction n rule: nat_text.induct)
  case (1 n)
  show ?case
  proof (cases "n < 10")
    case True
    then show ?thesis using 1(2) by (subst (asm) nat_text.simps) simp
  next
    case False
    then show ?thesis using 1 by (subst (asm) (2) nat_text.simps) auto
  qed
qed

section \<open>Lists\<close>

fun index_from :: "('a \<Rightarrow> bool) \<Rightarrow> 'a list \<Rightarrow> nat option" where
  \<comment> \<open>\<open>findIndex\<close>: the position of the first element that satisfies the test\<close>
  "index_from p [] = None"
| "index_from p (x # xs) = (if p x then Some 0 else map_option Suc (index_from p xs))"

definition remove_at :: "nat \<Rightarrow> 'a list \<Rightarrow> 'a list" where
  \<comment> \<open>\<open>splice(i, 1)\<close>\<close>
  "remove_at i xs = take i xs @ drop (Suc i) xs"

fun update_first :: "('a \<Rightarrow> bool) \<Rightarrow> ('a \<Rightarrow> 'a) \<Rightarrow> 'a list \<Rightarrow> 'a list" where
  \<comment> \<open>\<open>find\<close> followed by a mutation of the element found\<close>
  "update_first p f [] = []"
| "update_first p f (x # xs) = (if p x then f x # xs else x # update_first p f xs)"

lemma index_from_None: "index_from p xs = None \<longleftrightarrow> (\<forall>x \<in> set xs. \<not> p x)"
  by (induction xs) auto

lemma index_from_Some:
  "index_from p xs = Some i \<longleftrightarrow> i < length xs \<and> p (xs ! i) \<and> (\<forall>j < i. \<not> p (xs ! j))"
proof (induction xs arbitrary: i)
  case Nil
  then show ?case by simp
next
  case (Cons x xs)
  show ?case
    by (cases i) (auto simp: Cons.IH less_Suc_eq_0_disj nth_Cons split: nat.splits)
qed

lemma index_from_append:
  "index_from p (xs @ ys) =
     (case index_from p xs of
        Some i \<Rightarrow> Some i
      | None \<Rightarrow> map_option (\<lambda>i. i + length xs) (index_from p ys))"
  by (induction xs) (auto split: option.splits simp: option.map_comp comp_def option.map_ident)

lemma length_remove_at [simp]: "i < length xs \<Longrightarrow> length (remove_at i xs) = length xs - 1"
  by (auto simp: remove_at_def)

lemma set_remove_at: "set (remove_at i xs) \<subseteq> set xs"
  by (auto simp: remove_at_def dest: in_set_takeD in_set_dropD)

lemma distinct_map_remove_at: "distinct (map f xs) \<Longrightarrow> distinct (map f (remove_at i xs))"
proof -
  assume d: "distinct (map f xs)"
  have "map f xs = map f (take i xs) @ map f (drop i xs)"
    by (simp flip: map_append)
  with d have d2: "distinct (map f (take i xs) @ map f (drop i xs))" by metis
  have "set (map f (drop (Suc i) xs)) \<subseteq> set (map f (drop i xs))"
    using set_drop_subset_set_drop[of i "Suc i" xs] by auto
  moreover have "distinct (map f (drop (Suc i) xs))"
    using d by (metis distinct_drop drop_map)
  ultimately show ?thesis
    using d2 by (auto simp: remove_at_def)
qed

lemma length_update_first [simp]: "length (update_first p f xs) = length xs"
  by (induction xs) auto

lemma map_update_first:
  "(\<And>x. g (f x) = g x) \<Longrightarrow> map g (update_first p f xs) = map g xs"
  by (induction xs) auto

lemma set_update_first: "set (update_first p f xs) \<subseteq> set xs \<union> f ` set xs"
  by (induction xs) auto

lemma update_first_id: "(\<forall>x \<in> set xs. \<not> p x) \<Longrightarrow> update_first p f xs = xs"
  by (induction xs) auto

lemma filter_neq_id: "(\<forall>x \<in> set xs. P x) \<Longrightarrow> filter P xs = xs"
  by (induction xs) auto

section \<open>Substrings\<close>

definition js_includes :: "string \<Rightarrow> string \<Rightarrow> bool" where
  "js_includes s t = list_ex (prefix t) (suffixes s)"

end
