(* ===== verification/CivTypes.thy ===== *)
theory CivTypes
  imports Prelude
begin

text \<open>
  The CI-V constants, address tables and conversions of \<open>bridge/src/civ/types.ts\<close>. A
  \<open>Record\<close> constant is an association list in source order, read with \<open>map_of\<close>; the
  reverse tables are built from the forward ones by swapping the pairs, as
  \<open>Object.fromEntries\<close> does.
\<close>

section \<open>Frame constants and addresses\<close>

definition CIV_PREAMBLE :: byte where "CIV_PREAMBLE = 0xfe"
definition CIV_EOM :: byte where "CIV_EOM = 0xfd"
definition CIV_OK :: byte where "CIV_OK = 0xfb"
definition CIV_NG :: byte where "CIV_NG = 0xfa"
definition CIV_CONTROLLER_ADDR :: byte where "CIV_CONTROLLER_ADDR = 0xe0"
definition CIV_BROADCAST_ADDR :: byte where "CIV_BROADCAST_ADDR = 0x00"

lemmas civ_frame_consts [simp] =
  CIV_PREAMBLE_def CIV_EOM_def CIV_OK_def CIV_NG_def

record CivAddress =
  radio :: byte
  controller :: byte

definition ICOM_MODELS :: "(byte \<times> string) list" where
  "ICOM_MODELS =
    [(0x94, ''IC-7300''), (0xb6, ''IC-7300MK2''), (0xa4, ''IC-705''), (0xa2, ''IC-9700''),
     (0x98, ''IC-7610''), (0x8e, ''IC-7851''), (0x96, ''IC-R8600''), (0x70, ''IC-7100''),
     (0x76, ''IC-7200''), (0x5c, ''IC-746''), (0x7c, ''IC-746PRO''), (0x6e, ''IC-756PROIII'')]"

definition ICOM_MODEL_ADDRESSES :: "(string \<times> byte) list" where
  "ICOM_MODEL_ADDRESSES = map (\<lambda>(addr, name). (name, addr)) ICOM_MODELS"

section \<open>Commands and sub-commands\<close>

datatype CivCmd = READ_FREQ | READ_MODE | SET_FREQ | SET_MODE | SET_VFO | SPLIT | LEVELS
  | METERS | FUNCTIONS | EXTENDED | PTT | RIT_XIT | SCOPE_CTRL | SCOPE_DATA

fun cmd_byte :: "CivCmd \<Rightarrow> byte" where
  "cmd_byte READ_FREQ = 0x03"
| "cmd_byte READ_MODE = 0x04"
| "cmd_byte SET_FREQ = 0x05"
| "cmd_byte SET_MODE = 0x06"
| "cmd_byte SET_VFO = 0x07"
| "cmd_byte SPLIT = 0x0f"
| "cmd_byte LEVELS = 0x14"
| "cmd_byte METERS = 0x15"
| "cmd_byte FUNCTIONS = 0x16"
| "cmd_byte EXTENDED = 0x1a"
| "cmd_byte PTT = 0x1c"
| "cmd_byte RIT_XIT = 0x21"
| "cmd_byte SCOPE_CTRL = 0x27"
| "cmd_byte SCOPE_DATA = 0x27"

definition CIV_MODE_TO_STRING :: "(byte \<times> string) list" where
  "CIV_MODE_TO_STRING =
    [(0x00, ''LSB''), (0x01, ''USB''), (0x02, ''AM''), (0x03, ''CW''), (0x04, ''RTTY''),
     (0x05, ''FM''), (0x06, ''WFM''), (0x07, ''CW-R''), (0x08, ''RTTY-R''), (0x17, ''DV''),
     (0x22, ''DD'')]"

definition CIV_STRING_TO_MODE :: "(string \<times> byte) list" where
  "CIV_STRING_TO_MODE = map (\<lambda>(byte, name). (name, byte)) CIV_MODE_TO_STRING"

definition CIV_LEVEL_SUB :: "(string \<times> byte) list" where
  "CIV_LEVEL_SUB =
    [(''AF'', 0x01), (''RF'', 0x02), (''SQL'', 0x03), (''IF_SHIFT'', 0x07),
     (''RFPOWER'', 0x0a), (''MICGAIN'', 0x0b), (''KEYSPD'', 0x0c), (''NOTCH_FREQ'', 0x0d),
     (''COMP'', 0x12), (''MONITOR'', 0x15), (''VOXGAIN'', 0x16), (''ANTIVOX'', 0x17),
     (''NR_LEVEL'', 0x06), (''NB_LEVEL'', 0x05)]"

definition CIV_FUNC_SUB :: "(string \<times> byte) list" where
  "CIV_FUNC_SUB =
    [(''PREAMP'', 0x02), (''AGC'', 0x12), (''NB'', 0x22), (''NR'', 0x40), (''ANF'', 0x41),
     (''TONE'', 0x42), (''TSQL'', 0x43), (''COMP'', 0x44), (''MONITOR'', 0x45),
     (''VOX'', 0x46), (''BKIN'', 0x47), (''MANUAL_NOTCH'', 0x48)]"

definition CIV_METER_SUB :: "(string \<times> byte) list" where
  "CIV_METER_SUB =
    [(''SMETER'', 0x02), (''SQUELCH'', 0x05), (''RFPOWER'', 0x11), (''SWR'', 0x12),
     (''ALC'', 0x13), (''COMP'', 0x14), (''VD'', 0x15), (''ID'', 0x16)]"

datatype CIV_VFO = VFO_A | VFO_B | VFO_EQUAL | VFO_SWAP

fun vfo_byte :: "CIV_VFO \<Rightarrow> byte" where
  "vfo_byte VFO_A = 0x00"
| "vfo_byte VFO_B = 0x01"
| "vfo_byte VFO_EQUAL = 0xa0"
| "vfo_byte VFO_SWAP = 0xb0"

section \<open>Scope constants\<close>

datatype ScopeMode = Center | Fixed | ScrollCenter | ScrollFixed

fun scope_mode_byte :: "ScopeMode \<Rightarrow> byte" where
  "scope_mode_byte Center = 0x00"
| "scope_mode_byte Fixed = 0x01"
| "scope_mode_byte ScrollCenter = 0x02"
| "scope_mode_byte ScrollFixed = 0x03"

datatype CIV_SCOPE_SUB = WAVE_DATA | SCOPE_ON | DATA_OUTPUT | SCOPE_MODE | SPAN | EDGE | HOLD
  | REF | SPEED

fun scope_sub_byte :: "CIV_SCOPE_SUB \<Rightarrow> byte" where
  "scope_sub_byte WAVE_DATA = 0x00"
| "scope_sub_byte SCOPE_ON = 0x10"
| "scope_sub_byte DATA_OUTPUT = 0x11"
| "scope_sub_byte SCOPE_MODE = 0x14"
| "scope_sub_byte SPAN = 0x15"
| "scope_sub_byte EDGE = 0x16"
| "scope_sub_byte HOLD = 0x17"
| "scope_sub_byte REF = 0x19"
| "scope_sub_byte SPEED = 0x1a"

text \<open>
  The scope mode of a line is the raw byte of the header frame: the source casts it to
  \<open>ScopeMode\<close> without a check.
\<close>

record CivSpectrumLine =
  centerHz :: rat
  spanHz :: int
  line_pixels :: buffer
  line_scopeMode :: byte
  line_scopeIndex :: byte

section \<open>S-meter and pixel conversion\<close>

definition SMETER_MAX_RAW :: rat where "SMETER_MAX_RAW = 241"
definition DB_FLOOR :: rat where "DB_FLOOR = -125"
definition DB_RANGE :: rat where "DB_RANGE = 85"
definition MAX_PIXEL_VALUE :: rat where "MAX_PIXEL_VALUE = 200"

definition rawSmeterToDbm :: "rat \<Rightarrow> rat" where
  "rawSmeterToDbm raw =
     (let clamped = max 0 (min SMETER_MAX_RAW raw) in
      if clamped \<le> 0 then -127
      else if clamped \<le> 120 then -127 + (clamped / 120) * 54
      else -73 + ((clamped - 120) / 121) * 60)"

definition pixelToDb :: "rat \<Rightarrow> rat" where
  "pixelToDb pixel = DB_FLOOR + (pixel / MAX_PIXEL_VALUE) * DB_RANGE"

lemma rawSmeterToDbm_mono: "a \<le> b \<Longrightarrow> rawSmeterToDbm a \<le> rawSmeterToDbm b"
  by (auto simp: rawSmeterToDbm_def Let_def SMETER_MAX_RAW_def min_def max_def field_simps)

lemma rawSmeterToDbm_range: "-127 \<le> rawSmeterToDbm raw" "rawSmeterToDbm raw \<le> -13"
  by (auto simp: rawSmeterToDbm_def Let_def SMETER_MAX_RAW_def min_def max_def)

section \<open>The tables are one to one\<close>

lemma mode_names_distinct: "distinct (map snd CIV_MODE_TO_STRING)" "distinct (map fst CIV_MODE_TO_STRING)"
  by (simp_all add: CIV_MODE_TO_STRING_def)

lemma model_names_distinct: "distinct (map snd ICOM_MODELS)" "distinct (map fst ICOM_MODELS)"
  by (simp_all add: ICOM_MODELS_def)

lemma map_of_swap:
  "distinct (map fst xs) \<Longrightarrow> distinct (map snd xs) \<Longrightarrow>
    map_of (map (\<lambda>(a, b). (b, a)) xs) y = Some x \<longleftrightarrow> map_of xs x = Some y"
proof (induction xs)
  case Nil
  then show ?case by simp
next
  case (Cons p xs)
  obtain a b where p: "p = (a, b)" by (cases p)
  from Cons.prems p have "b \<notin> snd ` set xs" "a \<notin> fst ` set xs" by auto
  then have nb: "map_of xs x \<noteq> Some b" and na: "map_of (map (\<lambda>(a, b). (b, a)) xs) y \<noteq> Some a"
    by (force dest: map_of_SomeD)+
  show ?case
  proof (cases "y = b")
    case True
    with p nb show ?thesis by auto
  next
    case False
    with p Cons na show ?thesis by auto
  qed
qed

lemma mode_table_inverse:
  "map_of CIV_STRING_TO_MODE name = Some b \<longleftrightarrow> map_of CIV_MODE_TO_STRING b = Some name"
  unfolding CIV_STRING_TO_MODE_def by (rule map_of_swap[OF mode_names_distinct(2,1)])

lemma model_table_inverse:
  "map_of ICOM_MODEL_ADDRESSES name = Some b \<longleftrightarrow> map_of ICOM_MODELS b = Some name"
  unfolding ICOM_MODEL_ADDRESSES_def by (rule map_of_swap[OF model_names_distinct(2,1)])

end
