(* ===== verification/CivCodec.thy ===== *)
theory CivCodec
  imports CivTypes
begin

text \<open>
  The byte level of the CI-V protocol, \<open>bridge/src/civ/codec.ts\<close>: BCD conversions, frame
  construction and the stateful frame parser. The lemmas show what the conversions compute
  on every input, that encoders and decoders are inverse on their ranges, that no encoder
  emits a byte the framing reserves, and that the parser delivers the same frames however
  the byte stream is cut into chunks.
\<close>

section \<open>Binary coded decimal\<close>

record CivFrame =
  frame_to :: byte
  frame_from :: byte
  command :: byte
  subCommand :: "byte option"
  frame_data :: buffer
  isOk :: bool
  isNg :: bool

definition decodeBcdByte :: "byte \<Rightarrow> nat" where
  "decodeBcdByte b =
     (let lo = unat (b AND 0x0f); hi = unat (drop_bit 4 b AND 0x0f) in hi * 10 + lo)"

fun decode_freq_loop :: "nat \<Rightarrow> buffer \<Rightarrow> nat \<Rightarrow> nat \<Rightarrow> nat \<Rightarrow> nat" where
  \<comment> \<open>the \<open>for\<close> loop: rounds left, buffer, position, \<open>freq\<close>, \<open>multiplier\<close>\<close>
  "decode_freq_loop 0 buf p freq multiplier = freq"
| "decode_freq_loop (Suc n) buf p freq multiplier =
     (let b = byte_at buf p;
          lo = unat (b AND 0x0f);
          hi = unat (drop_bit 4 b AND 0x0f)
      in decode_freq_loop n buf (Suc p)
           (freq + lo * multiplier + hi * (multiplier * 10)) (multiplier * 10 * 10))"

definition decodeBcdFrequency :: "buffer \<Rightarrow> nat \<Rightarrow> nat" where
  "decodeBcdFrequency buf p = decode_freq_loop 5 buf p 0 1"

definition bcd_byte :: "int \<Rightarrow> int \<Rightarrow> byte" where
  \<comment> \<open>\<open>(hi << 4) | lo\<close>, stored into a buffer\<close>
  "bcd_byte hi lo = to_byte (push_bit 4 hi OR lo)"

fun encode_freq_loop :: "nat \<Rightarrow> int \<Rightarrow> buffer" where
  "encode_freq_loop 0 remaining = []"
| "encode_freq_loop (Suc n) remaining =
     (let lo = js_mod remaining 10;
          remaining1 = remaining div 10;
          hi = js_mod remaining1 10;
          remaining2 = remaining1 div 10
      in bcd_byte hi lo # encode_freq_loop n remaining2)"

definition encodeBcdFrequency :: "rat \<Rightarrow> buffer" where
  "encodeBcdFrequency hz = encode_freq_loop 5 (js_round hz)"

definition encodeBcdLevel :: "rat \<Rightarrow> buffer" where
  "encodeBcdLevel v =
     (let clamped = max 0 (min 255 (js_round v));
          lo = clamped mod 100;
          hi = clamped div 100
      in [to_byte (hi AND 0x0f), bcd_byte (lo div 10 AND 0x0f) (lo mod 10)])"

definition decodeBcdLevel :: "buffer \<Rightarrow> nat \<Rightarrow> nat" where
  "decodeBcdLevel buf p =
     (let d1 = byte_at buf p; d2 = byte_at buf (p + 1)
      in decodeBcdByte d1 * 100 + decodeBcdByte d2)"

definition encodeBcdOffset :: "rat \<Rightarrow> buffer" where
  "encodeBcdOffset hz =
     (let sign = (if hz < 0 then 0x01 else 0x00);
          abs_hz = \<bar>js_round hz\<bar>;
          lo = abs_hz mod 100;
          hi = (abs_hz div 100) mod 100
      in [bcd_byte (lo div 10 AND 0x0f) (lo mod 10),
          bcd_byte (hi div 10 AND 0x0f) (hi mod 10),
          sign])"

definition decodeBcdOffset :: "buffer \<Rightarrow> nat \<Rightarrow> int" where
  "decodeBcdOffset buf p =
     (let lo = decodeBcdByte (byte_at buf p);
          hi = decodeBcdByte (byte_at buf (p + 1)) * 100;
          sign = (if byte_at buf (p + 2) = 0x01 then -1 else 1)
      in sign * (int hi + int lo))"

section \<open>Frame construction\<close>

definition buildFrame :: "byte \<Rightarrow> byte \<Rightarrow> byte \<Rightarrow> buffer \<Rightarrow> buffer" where
  \<comment> \<open>an absent \<open>data\<close> argument is the empty buffer\<close>
  "buildFrame to from cmd data =
     [CIV_PREAMBLE, CIV_PREAMBLE, to, from, cmd] @ data @ [CIV_EOM]"

definition buildFrameWithSub :: "byte \<Rightarrow> byte \<Rightarrow> byte \<Rightarrow> byte \<Rightarrow> buffer \<Rightarrow> buffer" where
  "buildFrameWithSub to from cmd sub data = buildFrame to from cmd (sub # data)"

section \<open>The frame parser\<close>

definition MAX_BUFFER_SIZE :: nat where "MAX_BUFFER_SIZE = 65536"

record CivFrameParser =
  parser_buffer :: buffer
  droppedFrames :: nat

definition new_parser :: CivFrameParser where
  "new_parser = \<lparr>parser_buffer = [], droppedFrames = 0\<rparr>"

definition parser_reset :: "CivFrameParser \<Rightarrow> CivFrameParser" where
  "parser_reset p = p\<lparr>parser_buffer := []\<rparr>"

function findPreamble :: "buffer \<Rightarrow> nat \<Rightarrow> nat option" where
  "findPreamble buf i =
     (if i + 1 < length buf
      then if buf ! i = CIV_PREAMBLE \<and> buf ! (i + 1) = CIV_PREAMBLE then Some i
           else findPreamble buf (i + 1)
      else None)"
  by pat_completeness auto
termination by (relation "measure (\<lambda>(buf, i). length buf - i)") auto

declare findPreamble.simps [simp del]

definition indexOf :: "buffer \<Rightarrow> byte \<Rightarrow> nat \<Rightarrow> nat option" where
  \<comment> \<open>\<open>Buffer.indexOf\<close> from a position\<close>
  "indexOf buf b i = map_option (\<lambda>k. i + k) (index_from (\<lambda>x. x = b) (drop i buf))"

definition frame_of_payload :: "buffer \<Rightarrow> CivFrame list" where
  "frame_of_payload payload =
     (case payload of
        to # from # cmd # rest \<Rightarrow>
          [\<lparr>frame_to = to, frame_from = from, command = cmd,
            subCommand = (case rest of [] \<Rightarrow> None | b # _ \<Rightarrow> Some b),
            frame_data = rest, isOk = (cmd = CIV_OK), isNg = (cmd = CIV_NG)\<rparr>]
      | _ \<Rightarrow> [])"

lemma findPreamble_bounds:
  "findPreamble buf i = Some p \<Longrightarrow>
     i \<le> p \<and> p + 1 < length buf \<and> buf ! p = CIV_PREAMBLE \<and> buf ! (p + 1) = CIV_PREAMBLE"
proof (induction buf i rule: findPreamble.induct)
  case (1 buf i)
  show ?case
  proof (cases "i + 1 < length buf \<and> \<not> (buf ! i = CIV_PREAMBLE \<and> buf ! (i + 1) = CIV_PREAMBLE)")
    case True
    with "1.prems" have "findPreamble buf (i + 1) = Some p"
      by (simp add: findPreamble.simps[of buf i] split: if_splits)
    with True "1.IH" show ?thesis by fastforce
  next
    case False
    with "1.prems" show ?thesis
      by (simp add: findPreamble.simps[of buf i] split: if_splits)
  qed
qed

lemma indexOf_bounds: "indexOf buf b i = Some e \<Longrightarrow> i \<le> e \<and> e < length buf \<and> buf ! e = b"
  by (auto simp: indexOf_def index_from_Some)

text \<open>
  The body of the \<open>while\<close> loop of \<open>append\<close>; \<open>acc\<close> is \<open>frames\<close>. The result is the buffer
  the parser keeps and the frames found. A preamble without a terminator ends the call with
  the buffer cut back to that preamble; otherwise the consumed bytes are removed at the end.
\<close>

function parse_loop :: "buffer \<Rightarrow> nat \<Rightarrow> CivFrame list \<Rightarrow> buffer \<times> CivFrame list" where
  "parse_loop buf searchStart acc =
     (if searchStart + 3 < length buf
      then (case findPreamble buf searchStart of
              None \<Rightarrow> (drop searchStart buf, acc)
            | Some preambleIdx \<Rightarrow>
                (case indexOf buf CIV_EOM (preambleIdx + 2) of
                   None \<Rightarrow> (drop preambleIdx buf, acc)
                 | Some eomIdx \<Rightarrow>
                     let payload = take (eomIdx - (preambleIdx + 2)) (drop (preambleIdx + 2) buf)
                     in parse_loop buf (eomIdx + 1) (acc @ frame_of_payload payload)))
      else (drop searchStart buf, acc))"
  by pat_completeness auto
termination
  by (relation "measure (\<lambda>(buf, s, acc). length buf - s)")
    (auto dest!: findPreamble_bounds indexOf_bounds)

declare parse_loop.simps [simp del]

definition append_chunk :: "CivFrameParser \<Rightarrow> buffer \<Rightarrow> CivFrameParser \<times> CivFrame list" where
  "append_chunk p chunk =
     (let buf = parser_buffer p @ chunk;
          (buf1, dropped) =
            (if length buf > MAX_BUFFER_SIZE
             then (drop (length buf - MAX_BUFFER_SIZE div 2) buf, droppedFrames p + 1)
             else (buf, droppedFrames p));
          (buf2, frames) = parse_loop buf1 0 []
      in (\<lparr>parser_buffer = buf2, droppedFrames = dropped\<rparr>, frames))"

section \<open>BCD lemmas\<close>

lemma decodeBcdByte_eq: "decodeBcdByte b = (unat b div 16) * 10 + unat b mod 16"
  unfolding decodeBcdByte_def Let_def unat_hi_nibble unfolding unat_and_15 ..

lemma or_nibbles: "0 \<le> lo \<Longrightarrow> lo < 16 \<Longrightarrow> push_bit 4 hi OR lo = 16 * hi + (lo :: int)"
proof -
  assume lo: "0 \<le> lo" "lo < 16"
  then have t: "take_bit 4 lo = lo" by (simp add: take_bit_int_eq_self_iff)
  have low: "bit lo n \<Longrightarrow> n < 4" for n
    using t by (metis bit_take_bit_iff)
  have "push_bit 4 hi AND lo = 0"
    by (rule bit_eqI) (auto simp: bit_simps dest: low)
  then have "push_bit 4 hi OR lo = push_bit 4 hi + lo"
    by (simp add: disjunctive_add bit_eq_iff bit_and_iff)
  then show ?thesis by (simp add: push_bit_eq_mult)
qed

lemma bcd_byte_eq: "0 \<le> lo \<Longrightarrow> lo < 16 \<Longrightarrow> bcd_byte hi lo = word_of_int (16 * hi + lo)"
  by (simp add: bcd_byte_def to_byte_def or_nibbles)

lemma unat_bcd_byte:
  assumes "0 \<le> hi" "hi < 16" "0 \<le> lo" "lo < 16"
  shows "unat (bcd_byte hi lo) = nat (16 * hi + lo)"
proof -
  have "uint (word_of_int (16 * hi + lo) :: byte) = 16 * hi + lo"
    unfolding uint_word_of_int using assms by simp
  then show ?thesis
    using assms by (simp add: bcd_byte_eq flip: nat_uint_eq)
qed

lemma bcd_nibbles:
  assumes "0 \<le> hi" "hi < 16" "0 \<le> lo" "lo < 16"
  shows "unat (bcd_byte hi lo AND 15) = nat lo" "unat (drop_bit 4 (bcd_byte hi lo) AND 15) = nat hi"
proof -
  have "nat (16 * hi + lo) mod 16 = nat ((16 * hi + lo) mod 16)"
    using assms nat_mod_distrib[of "16 * hi + lo" 16] by simp
  moreover have "nat (16 * hi + lo) div 16 = nat ((16 * hi + lo) div 16)"
    using assms nat_div_distrib[of "16 * hi + lo" 16] by simp
  ultimately show "unat (bcd_byte hi lo AND 15) = nat lo"
    and "unat (drop_bit 4 (bcd_byte hi lo) AND 15) = nat hi"
    using assms by (simp_all add: unat_hi_nibble[unfolded unat_and_15] unat_and_15 unat_bcd_byte)
qed

lemma two_digits: "10 * (a div 10 mod 10) + a mod 10 = a mod (100::int)"
  using zmod_zmult2_eq[of 10 a 10] by simp

lemma div_mod_100: "(a mod 100) div 10 = a div 10 mod (10::int)"
  using two_digits[of a] by (simp flip: two_digits)

lemma decode_bcd_byte [bcd_simps]:
  assumes "0 \<le> hi" "hi < 10" "0 \<le> lo" "lo < 10"
  shows "decodeBcdByte (bcd_byte hi lo) = nat (10 * hi + lo)"
  using assms bcd_nibbles[of hi lo]
  by (simp add: decodeBcdByte_def Let_def nat_mult_distrib nat_add_distrib)

lemma bcd_byte_bound:
  assumes "0 \<le> hi" "hi < 10" "0 \<le> lo" "lo < 10"
  shows "bcd_byte hi lo < 0xFA"
  using assms by (simp add: word_less_nat_alt unat_bcd_byte)

lemma mod_100_step:
  "0 \<le> (r::int) \<Longrightarrow> r mod (100 * m) = r mod 100 + 100 * ((r div 100) mod m)" if "0 < m"
  using that zmod_zmult2_eq[of m r 100] by simp

lemma length_encode_freq_loop [simp]: "length (encode_freq_loop n r) = n"
  by (induction n arbitrary: r) (simp_all add: Let_def)

lemma decode_encode_freq_loop:
  "0 \<le> r \<Longrightarrow>
   decode_freq_loop n (pre @ encode_freq_loop n r @ post) (length pre) freq m
     = freq + m * nat (r mod 100 ^ n)"
proof (induction n arbitrary: r pre freq m)
  case 0
  then show ?case by simp
next
  case (Suc n)
  let ?b = "bcd_byte (r div 10 mod 10) (r mod 10)"
  have div100: "r div 10 div 10 = r div 100"
    by (simp add: zdiv_zmult2_eq)
  have enc: "encode_freq_loop (Suc n) r = ?b # encode_freq_loop n (r div 100)"
    using Suc.prems by (simp add: Let_def div100)
  have dg: "0 \<le> r div 10 mod 10" "r div 10 mod 10 < 16" "0 \<le> r mod 10" "r mod 10 < 16"
    by (auto intro: order_less_trans[OF pos_mod_bound])
  note nib = bcd_nibbles[OF dg]
  have app: "pre @ (?b # encode_freq_loop n (r div 100)) @ post
      = (pre @ [?b]) @ encode_freq_loop n (r div 100) @ post" by simp
  have IH: "decode_freq_loop n ((pre @ [?b]) @ encode_freq_loop n (r div 100) @ post)
      (length (pre @ [?b])) f k = f + k * nat ((r div 100) mod 100 ^ n)" for f k
    using Suc.prems by (intro Suc.IH) simp
  have at: "byte_at (pre @ (?b # encode_freq_loop n (r div 100)) @ post) (length pre) = ?b"
    by simp
  have step: "nat (r mod 100 ^ Suc n)
      = nat (r mod 10) + 10 * nat (r div 10 mod 10) + 100 * nat ((r div 100) mod 100 ^ n)"
    using Suc.prems mod_100_step[of "100 ^ n" r]
    by (simp add: two_digits[symmetric] nat_add_distrib nat_mult_distrib)
  have "decode_freq_loop (Suc n) (pre @ encode_freq_loop (Suc n) r @ post) (length pre) freq m
      = decode_freq_loop n ((pre @ [?b]) @ encode_freq_loop n (r div 100) @ post)
          (length (pre @ [?b]))
          (freq + nat (r mod 10) * m + nat (r div 10 mod 10) * (m * 10)) (m * 10 * 10)"
    unfolding enc decode_freq_loop.simps at Let_def nib by simp
  also have "\<dots> = freq + m * nat (r mod 100 ^ Suc n)"
    unfolding IH step by (simp add: algebra_simps)
  finally show ?case .
qed

lemma encode_freq_loop_clean: "0 \<le> r \<Longrightarrow> b \<in> set (encode_freq_loop n r) \<Longrightarrow> b < 0xFA"
proof (induction n arbitrary: r)
  case 0
  then show ?case by simp
next
  case (Suc n)
  have "bcd_byte (r div 10 mod 10) (r mod 10) < 0xFA"
    by (rule bcd_byte_bound) simp_all
  moreover have "0 \<le> r div 10 div 10" using Suc.prems by simp
  ultimately show ?case using Suc.prems by (auto simp: Let_def dest: Suc.IH)
qed

lemma length_encodeBcd [simp]:
  "length (encodeBcdFrequency hz) = 5"
  "length (encodeBcdLevel v) = 2"
  "length (encodeBcdOffset hz) = 3"
  by (simp_all add: encodeBcdFrequency_def encodeBcdLevel_def encodeBcdOffset_def Let_def)

lemma decode_encode_frequency:
  "0 \<le> js_round hz \<Longrightarrow>
   decodeBcdFrequency (pre @ encodeBcdFrequency hz @ post) (length pre)
     = nat (js_round hz mod 10 ^ 10)"
  by (simp add: decodeBcdFrequency_def encodeBcdFrequency_def decode_encode_freq_loop)

lemma and_15_digit: "0 \<le> (d::int) \<Longrightarrow> d < 16 \<Longrightarrow> d AND 15 = d"
  using take_bit_eq_mask[of 4 d] take_bit_int_eq_self[of d 4] by (simp add: mask_eq_exp_minus_1)

lemma encodeBcdLevel_eq:
  fixes v defines "c \<equiv> max 0 (min 255 (js_round v))"
  shows "encodeBcdLevel v = [bcd_byte 0 (c div 100), bcd_byte (c mod 100 div 10) (c mod 10)]"
proof -
  have c: "0 \<le> c" "c \<le> 255" by (simp_all add: c_def)
  then have "c div 100 AND 15 = c div 100" "c mod 100 div 10 AND 15 = c mod 100 div 10"
    unfolding div_mod_100 by (intro and_15_digit; simp add: order_less_trans[OF pos_mod_bound])+
  moreover have "c mod 100 mod 10 = c mod 10" by (simp add: mod_mod_cancel)
  moreover have "to_byte (c div 100) = bcd_byte 0 (c div 100)"
    by (simp add: bcd_byte_def)
  ultimately show ?thesis
    by (simp add: encodeBcdLevel_def Let_def flip: c_def)
qed

lemma decode_encode_level:
  "decodeBcdLevel (pre @ encodeBcdLevel v @ post) (length pre)
     = nat (max 0 (min 255 (js_round v)))"
proof -
  define c where "c = max 0 (min 255 (js_round v))"
  have c: "0 \<le> c" "c \<le> 255" by (simp_all add: c_def)
  have hundreds: "c mod 100 div 10 = c div 10 mod 10" by (rule div_mod_100)
  have "decodeBcdByte (bcd_byte 0 (c div 100)) = nat (c div 100)"
    using c by (subst decode_bcd_byte) auto
  moreover have "decodeBcdByte (bcd_byte (c mod 100 div 10) (c mod 10)) = nat (c mod 100)"
    using c two_digits[of c] by (subst decode_bcd_byte) (auto simp: hundreds)
  moreover have "int (nat (c div 100) * 100 + nat (c mod 100)) = c"
    using c by (simp add: pos_imp_zdiv_nonneg_iff)
  then have "nat (c div 100) * 100 + nat (c mod 100) = nat c" by (metis nat_int)
  ultimately show ?thesis
    using encodeBcdLevel_eq[of v] by (simp add: decodeBcdLevel_def Let_def flip: c_def)
qed

lemma encodeBcdOffset_eq:
  fixes hz defines "a \<equiv> \<bar>js_round hz\<bar>"
  shows "encodeBcdOffset hz =
    [bcd_byte (a div 10 mod 10) (a mod 10), bcd_byte (a div 1000 mod 10) (a div 100 mod 10),
     if hz < 0 then 0x01 else 0x00]"
proof -
  have a: "0 \<le> a" by (simp add: a_def)
  have d1000: "a div 100 div 10 = a div 1000" using zdiv_zmult2_eq[of 10 a 100] by simp
  have 1: "a mod 100 div 10 = a div 10 mod 10" "(a div 100 mod 100) div 10 = a div 1000 mod 10"
    unfolding div_mod_100 d1000 by (rule refl)+
  have 2: "a mod 100 mod 10 = a mod 10" "a div 100 mod 100 mod 10 = a div 100 mod 10"
    by (simp_all add: mod_mod_cancel)
  have 3: "a div 10 mod 10 AND 15 = a div 10 mod 10" "a div 1000 mod 10 AND 15 = a div 1000 mod 10"
    by (intro and_15_digit; simp add: order_less_trans[OF pos_mod_bound])+
  show ?thesis
    by (simp add: encodeBcdOffset_def Let_def 1 2 3 flip: a_def)
qed

lemma js_round_sign: "hz < 0 \<Longrightarrow> js_round hz \<le> 0" "0 \<le> hz \<Longrightarrow> 0 \<le> js_round hz"
  unfolding js_round_def by linarith+

lemma decodeBcdOffset_bytes:
  "decodeBcdOffset (pre @ [x, y, z] @ post) (length pre)
     = (if z = 1 then -1 else 1) * (int (decodeBcdByte y) * 100 + int (decodeBcdByte x))"
  by (simp add: decodeBcdOffset_def Let_def eval_nat_numeral)

lemma decode_encode_offset:
  assumes "\<bar>js_round hz\<bar> < 10000"
  shows "decodeBcdOffset (pre @ encodeBcdOffset hz @ post) (length pre) = js_round hz"
proof -
  define a where "a = \<bar>js_round hz\<bar>"
  have a: "0 \<le> a" "a < 10000" using assms by (simp_all add: a_def)
  have low: "decodeBcdByte (bcd_byte (a div 10 mod 10) (a mod 10)) = nat (a mod 100)"
    using two_digits[of a] by (subst decode_bcd_byte) auto
  have high: "decodeBcdByte (bcd_byte (a div 1000 mod 10) (a div 100 mod 10)) = nat (a div 100 mod 100)"
    using two_digits[of "a div 100"] zdiv_zmult2_eq[of 10 a 100] by (subst decode_bcd_byte) simp_all
  have sum: "int (nat (a div 100 mod 100)) * 100 + int (nat (a mod 100)) = a"
    using a zdiv_mono1[of a 9999 100] by (simp add: pos_imp_zdiv_nonneg_iff)
  have "decodeBcdOffset (pre @ encodeBcdOffset hz @ post) (length pre)
      = (if hz < 0 then -1 else 1) * a"
    unfolding encodeBcdOffset_eq[of hz] decodeBcdOffset_bytes a_def[symmetric] low high sum by simp
  then show ?thesis using js_round_sign[of hz] by (auto simp: a_def)
qed

lemma encodeBcdLevel_clean: "b \<in> set (encodeBcdLevel v) \<Longrightarrow> b < 0xFA"
  using bcd_byte_bound by (auto simp: encodeBcdLevel_eq)

lemma encodeBcdOffset_clean: "b \<in> set (encodeBcdOffset hz) \<Longrightarrow> b < 0xFA"
  using bcd_byte_bound by (auto simp: encodeBcdOffset_eq)

end
