(* ===== verification/CivFraming.thy ===== *)
theory CivFraming
  imports CivCodec
begin

text \<open>
  What the stateful parser of \<open>codec.ts\<close> promises. The abstract specification is an
  automaton that reads one byte at a time and has three states: hunting for a preamble,
  one preamble byte seen, collecting a payload. \<open>append_chunk\<close> is shown to refine it: the
  buffer the parser keeps stands for the automaton's state after the bytes so far, and the
  frames a chunk yields are those the automaton emits on it. Everything about the parser
  follows from that: independence of chunking, recovery of built frames, the memory bound.
\<close>

section \<open>The byte automaton\<close>

datatype scan = Hunt | HalfSync | Collect buffer

fun scan_byte :: "scan \<Rightarrow> byte \<Rightarrow> scan \<times> CivFrame list" where
  "scan_byte Hunt b = ((if b = CIV_PREAMBLE then HalfSync else Hunt), [])"
| "scan_byte HalfSync b = ((if b = CIV_PREAMBLE then Collect [] else Hunt), [])"
| "scan_byte (Collect p) b =
     (if b = CIV_EOM then (Hunt, frame_of_payload p) else (Collect (p @ [b]), []))"

fun scan_run :: "scan \<Rightarrow> buffer \<Rightarrow> scan \<times> CivFrame list" where
  "scan_run st [] = (st, [])"
| "scan_run st (b # bs) =
     (let (st1, fs) = scan_byte st b; (st2, gs) = scan_run st1 bs in (st2, fs @ gs))"

lemma scan_run_append:
  "scan_run st (xs @ ys) =
     (let (st1, fs) = scan_run st xs; (st2, gs) = scan_run st1 ys in (st2, fs @ gs))"
  by (induction xs arbitrary: st) (auto simp: Let_def split: prod.splits)

lemma scan_run_Collect:
  "CIV_EOM \<notin> set ys \<Longrightarrow> scan_run (Collect p) ys = (Collect (p @ ys), [])"
  by (induction ys arbitrary: p) auto

lemma scan_run_Collect_eom:
  assumes "CIV_EOM \<notin> set ys"
  shows "scan_run (Collect p) (ys @ CIV_EOM # zs)
    = (let (st, fs) = scan_run Hunt zs in (st, frame_of_payload (p @ ys) @ fs))"
  using assms by (simp add: scan_run_append scan_run_Collect del: CIV_EOM_def)

lemma frame_of_payload_short: "length p < 3 \<Longrightarrow> frame_of_payload p = []"
  by (auto simp: frame_of_payload_def split: list.splits)

section \<open>The index loops against the automaton\<close>

fun pre_pos :: "buffer \<Rightarrow> nat option" where
  "pre_pos (a # b # xs) =
     (if a = CIV_PREAMBLE \<and> b = CIV_PREAMBLE then Some 0 else map_option Suc (pre_pos (b # xs)))"
| "pre_pos xs = None"

lemma findPreamble_pre_pos: "findPreamble buf i = map_option (\<lambda>k. i + k) (pre_pos (drop i buf))"
proof (induction buf i rule: findPreamble.induct)
  case (1 buf i)
  show ?case
  proof (cases "i + 1 < length buf")
    case True
    then have "drop i buf = buf ! i # buf ! (i + 1) # drop (i + 2) buf"
      by (metis Cons_nth_drop_Suc Suc_eq_plus1 add_2_eq_Suc' add_lessD1)
    moreover have "drop (i + 1) buf = buf ! (i + 1) # drop (i + 2) buf"
      using True by (metis Cons_nth_drop_Suc Suc_eq_plus1 add_2_eq_Suc')
    ultimately show ?thesis
      using True "1.IH"
      by (simp add: findPreamble.simps[of buf i] option.map_comp comp_def)
  next
    case False
    then have "drop i buf = [] \<or> (\<exists>x. drop i buf = [x])"
      by (cases "drop i buf"; cases "tl (drop i buf)")
        (auto dest: arg_cong[where f = length])
    with False show ?thesis by (auto simp: findPreamble.simps[of buf i])
  qed
qed

lemma scan_run_no_preamble: "pre_pos xs = None \<Longrightarrow> snd (scan_run Hunt xs) = []"
proof (induction xs rule: pre_pos.induct)
  case (1 a b xs)
  then show ?case
    by (cases "a = CIV_PREAMBLE") (auto split: if_splits prod.splits)
qed (auto split: prod.splits)

lemma scan_run_preamble:
  "pre_pos xs = Some p \<Longrightarrow> scan_run Hunt xs = scan_run (Collect []) (drop (p + 2) xs)"
proof (induction xs arbitrary: p rule: pre_pos.induct)
  case (1 a b xs)
  show ?case
  proof (cases "a = CIV_PREAMBLE \<and> b = CIV_PREAMBLE")
    case True
    with "1.prems" show ?thesis by (auto split: prod.splits)
  next
    case False
    with "1.prems" obtain q where q: "pre_pos (b # xs) = Some q" "p = Suc q"
      by (auto split: if_splits)
    have "scan_run Hunt (a # b # xs) = scan_run Hunt (b # xs)"
      using False by (auto split: prod.splits)
    with "1.IH"[OF False] q show ?thesis by simp
  qed
qed auto

lemma pre_pos_drop: "pre_pos xs = Some p \<Longrightarrow> pre_pos (drop p xs) = Some 0"
proof (induction xs arbitrary: p rule: pre_pos.induct)
  case (1 a b xs)
  then show ?case
    by (cases "a = CIV_PREAMBLE \<and> b = CIV_PREAMBLE") (auto split: if_splits)
qed auto

lemma index_eom_split:
  assumes "index_from (\<lambda>x. x = b) ys = Some e"
  shows "ys = take e ys @ b # drop (e + 1) ys" "b \<notin> set (take e ys)"
proof -
  from assms have e: "e < length ys" "ys ! e = b" "\<forall>j < e. ys ! j \<noteq> b"
    by (auto simp: index_from_Some)
  then show "ys = take e ys @ b # drop (e + 1) ys"
    using id_take_nth_drop[of e ys] by simp
  show "b \<notin> set (take e ys)"
    using e by (auto simp: in_set_conv_nth)
qed

text \<open>A buffer \<open>stands_for\<close> the automaton state it leads to without completing a frame.\<close>

definition stands_for :: "buffer \<Rightarrow> scan \<Rightarrow> bool" where
  "stands_for buf st \<longleftrightarrow> scan_run Hunt buf = (st, [])"

lemma short_no_frames: "length xs \<le> 3 \<Longrightarrow> snd (scan_run Hunt xs) = []"
proof (cases "pre_pos xs")
  case None
  then show ?thesis by (rule scan_run_no_preamble)
next
  case (Some p)
  assume "length xs \<le> 3"
  then have len: "length (drop (p + 2) xs) \<le> 1" by simp
  show ?thesis
  proof (cases "drop (p + 2) xs")
    case Nil
    with Some show ?thesis by (simp add: scan_run_preamble)
  next
    case (Cons b bs)
    with len have "length (b # bs) \<le> 1" by metis
    then have "bs = []" by simp
    with Some Cons show ?thesis
      by (simp add: scan_run_preamble frame_of_payload_def split: prod.splits)
  qed
qed

lemma parse_loop_refines:
  assumes "parse_loop buf s acc = (rest, fs)" "scan_run Hunt (drop s buf) = (st, gs)"
  shows "fs = acc @ gs \<and> stands_for rest st"
  using assms
proof (induction buf s acc arbitrary: gs rule: parse_loop.induct)
  case (1 buf s acc)
  let ?xs = "drop s buf"
  note step = "1.prems"(1)[unfolded parse_loop.simps[of buf s acc]]
  show ?case
  proof (cases "s + 3 < length buf")
    case False
    with step have "rest = ?xs" "fs = acc" by auto
    moreover have "gs = []" using False short_no_frames[of ?xs] "1.prems"(2) by simp
    ultimately show ?thesis using "1.prems"(2) by (simp add: stands_for_def)
  next
    case long: True
    show ?thesis
    proof (cases "findPreamble buf s")
      case None
      with step long have "rest = ?xs" "fs = acc" by auto
      moreover have "gs = []"
        using None scan_run_no_preamble[of ?xs] "1.prems"(2) by (simp add: findPreamble_pre_pos)
      ultimately show ?thesis using "1.prems"(2) by (simp add: stands_for_def)
    next
      case (Some p)
      then obtain k where k: "pre_pos ?xs = Some k" "p = s + k"
        by (auto simp: findPreamble_pre_pos)
      then have dp: "drop p buf = drop k ?xs" by (simp add: add.commute)
      have body: "scan_run Hunt ?xs = scan_run (Collect []) (drop (p + 2) buf)"
        using scan_run_preamble[OF k(1)] k(2) by (simp add: ac_simps)
      show ?thesis
      proof (cases "indexOf buf CIV_EOM (p + 2)")
        case None
        with step long Some have r: "rest = drop p buf" "fs = acc" by auto
        have "CIV_EOM \<notin> set (drop (p + 2) buf)"
          using None by (auto simp: indexOf_def index_from_None)
        then have "scan_run Hunt ?xs = (Collect (drop (p + 2) buf), [])"
          using body by (simp add: scan_run_Collect)
        moreover have "scan_run Hunt rest = scan_run (Collect []) (drop (p + 2) buf)"
          using scan_run_preamble[OF pre_pos_drop[OF k(1)]] r(1) dp k(2) by (simp add: ac_simps)
        ultimately show ?thesis
          using r body "1.prems"(2) by (simp add: stands_for_def)
      next
        case eom: (Some e)
        let ?ys = "drop (p + 2) buf"
        define j where "j = e - (p + 2)"
        from eom have j: "index_from (\<lambda>x. x = CIV_EOM) ?ys = Some j" and e: "e = p + 2 + j"
          by (auto simp: indexOf_def j_def)
        note sp = index_eom_split[OF j]
        obtain st' gs' where rec: "scan_run Hunt (drop (e + 1) buf) = (st', gs')"
          by (cases "scan_run Hunt (drop (e + 1) buf)")
        have de: "drop (e + 1) buf = drop (j + 1) ?ys" using e by (simp add: ac_simps)
        have "scan_run Hunt ?xs = (st', frame_of_payload (take j ?ys) @ gs')"
          unfolding body using scan_run_Collect_eom[OF sp(2), of "[]" "drop (j + 1) ?ys"]
            sp(1) rec de by simp
        then have st: "st' = st" "gs = frame_of_payload (take j ?ys) @ gs'"
          using "1.prems"(2) by auto
        have "parse_loop buf (e + 1) (acc @ frame_of_payload (take j ?ys)) = (rest, fs)"
          using step long Some eom by (simp add: j_def)
        then have "fs = (acc @ frame_of_payload (take j ?ys)) @ gs' \<and> stands_for rest st'"
          using "1.IH"[OF long Some eom refl] rec st(1) by (simp add: j_def)
        with st show ?thesis by simp
      qed
    qed
  qed
qed

section \<open>Chunks\<close>

definition holds :: "CivFrameParser \<Rightarrow> scan \<Rightarrow> bool" where
  "holds p st \<longleftrightarrow> stands_for (parser_buffer p) st"

fun feed :: "CivFrameParser \<Rightarrow> buffer list \<Rightarrow> CivFrameParser \<times> CivFrame list" where
  "feed p [] = (p, [])"
| "feed p (c # cs) =
     (let (p1, fs) = append_chunk p c; (p2, gs) = feed p1 cs in (p2, fs @ gs))"

fun fits :: "CivFrameParser \<Rightarrow> buffer list \<Rightarrow> bool" where
  \<comment> \<open>no chunk makes the buffered bytes exceed the parser's limit\<close>
  "fits p [] = True"
| "fits p (c # cs) \<longleftrightarrow>
     length (parser_buffer p) + length c \<le> MAX_BUFFER_SIZE \<and> fits (fst (append_chunk p c)) cs"

lemma new_parser_holds: "holds new_parser Hunt"
  by (simp add: holds_def stands_for_def new_parser_def)

lemma append_chunk_refines:
  assumes "holds p st" "length (parser_buffer p) + length c \<le> MAX_BUFFER_SIZE"
    "append_chunk p c = (p', fs)" "scan_run st c = (st', gs)"
  shows "fs = gs \<and> holds p' st' \<and> droppedFrames p' = droppedFrames p"
proof -
  obtain rest fr where pl: "parse_loop (parser_buffer p @ c) 0 [] = (rest, fr)"
    by (cases "parse_loop (parser_buffer p @ c) 0 []")
  from assms(2,3) pl have r: "p' = \<lparr>parser_buffer = rest, droppedFrames = droppedFrames p\<rparr>" "fs = fr"
    by (auto simp: append_chunk_def Let_def)
  have "scan_run Hunt (drop 0 (parser_buffer p @ c)) = (st', gs)"
    using assms(1,4) by (simp add: holds_def stands_for_def scan_run_append)
  from parse_loop_refines[OF pl this] r show ?thesis by (simp add: holds_def)
qed

lemma feed_refines:
  "holds p st \<Longrightarrow> fits p cs \<Longrightarrow>
     holds (fst (feed p cs)) (fst (scan_run st (concat cs))) \<and>
     snd (feed p cs) = snd (scan_run st (concat cs))"
proof (induction cs arbitrary: p st)
  case Nil
  then show ?case by simp
next
  case (Cons c cs)
  obtain p1 fs where a: "append_chunk p c = (p1, fs)" by (cases "append_chunk p c")
  obtain st1 gs where sc: "scan_run st c = (st1, gs)" by (cases "scan_run st c")
  from Cons.prems append_chunk_refines[OF _ _ a sc] have "fs = gs" "holds p1 st1" by simp_all
  with Cons.IH[of p1 st1] Cons.prems(2) a sc show ?case
    by (auto simp: scan_run_append split: prod.splits)
qed

lemma length_parse_loop:
  "length (fst (parse_loop buf s acc)) \<le> length buf"
proof (induction buf s acc rule: parse_loop.induct)
  case (1 buf s acc)
  then show ?case
    by (simp add: parse_loop.simps[of buf s acc] Let_def split: option.splits)
qed

lemma append_chunk_bound: "length (parser_buffer (fst (append_chunk p c))) \<le> MAX_BUFFER_SIZE"
proof -
  define buf where "buf = (if length (parser_buffer p @ c) > MAX_BUFFER_SIZE
      then drop (length (parser_buffer p @ c) - MAX_BUFFER_SIZE div 2) (parser_buffer p @ c)
      else parser_buffer p @ c)"
  have "length buf \<le> MAX_BUFFER_SIZE"
    by (auto simp: buf_def MAX_BUFFER_SIZE_def)
  moreover have "parser_buffer (fst (append_chunk p c)) = fst (parse_loop buf 0 [])"
    by (simp add: append_chunk_def buf_def Let_def split: prod.splits)
  ultimately show ?thesis using length_parse_loop[of buf 0 "[]"] by simp
qed

lemma append_chunk_length:
  "length (parser_buffer p) + length c \<le> MAX_BUFFER_SIZE \<Longrightarrow>
     length (parser_buffer (fst (append_chunk p c))) \<le> length (parser_buffer p) + length c"
  using length_parse_loop[of "parser_buffer p @ c" 0 "[]"]
  by (simp add: append_chunk_def Let_def case_prod_beta)

lemma fits_small: "length (parser_buffer p) + length (concat cs) \<le> MAX_BUFFER_SIZE \<Longrightarrow> fits p cs"
proof (induction cs arbitrary: p)
  case Nil
  then show ?case by simp
next
  case (Cons c cs)
  then have "length (parser_buffer (fst (append_chunk p c))) + length (concat cs) \<le> MAX_BUFFER_SIZE"
    using append_chunk_length[of p c] by simp
  with Cons show ?case by simp
qed

section \<open>Built frames come back\<close>

definition frame_of :: "byte \<Rightarrow> byte \<Rightarrow> byte \<Rightarrow> buffer \<Rightarrow> CivFrame" where
  "frame_of to from cmd data =
     \<lparr>frame_to = to, frame_from = from, command = cmd,
      subCommand = (case data of [] \<Rightarrow> None | b # _ \<Rightarrow> Some b),
      frame_data = data, isOk = (cmd = CIV_OK), isNg = (cmd = CIV_NG)\<rparr>"

definition frame_clean :: "byte \<Rightarrow> byte \<Rightarrow> byte \<Rightarrow> buffer \<Rightarrow> bool" where
  "frame_clean to from cmd data \<longleftrightarrow> CIV_EOM \<notin> set (to # from # cmd # data)"

lemma scan_buildFrame:
  assumes "frame_clean to from cmd data"
  shows "scan_run Hunt (buildFrame to from cmd data) = (Hunt, [frame_of to from cmd data])"
proof -
  let ?p = "to # from # cmd # data"
  have "scan_run Hunt (buildFrame to from cmd data) = scan_run (Collect []) (?p @ CIV_EOM # [])"
    by (simp add: buildFrame_def split: prod.splits)
  also have "\<dots> = (Hunt, frame_of_payload ?p)"
    using assms unfolding frame_clean_def by (subst scan_run_Collect_eom) auto
  finally show ?thesis by (simp add: frame_of_payload_def frame_of_def)
qed

text \<open>A message is the four arguments of \<open>buildFrame\<close>; a stream of messages is their frames in order.\<close>

type_synonym message = "byte \<times> byte \<times> byte \<times> buffer"

definition message_bytes :: "message \<Rightarrow> buffer" where
  "message_bytes m = (case m of (to, from, cmd, data) \<Rightarrow> buildFrame to from cmd data)"

definition message_frame :: "message \<Rightarrow> CivFrame" where
  "message_frame m = (case m of (to, from, cmd, data) \<Rightarrow> frame_of to from cmd data)"

definition message_clean :: "message \<Rightarrow> bool" where
  "message_clean m = (case m of (to, from, cmd, data) \<Rightarrow> frame_clean to from cmd data)"

lemma scan_messages:
  "list_all message_clean ms \<Longrightarrow>
     scan_run Hunt (concat (map message_bytes ms)) = (Hunt, map message_frame ms)"
  by (induction ms)
    (auto simp: scan_run_append scan_buildFrame message_bytes_def message_frame_def
      message_clean_def split: prod.splits)

definition received :: "buffer \<Rightarrow> CivFrame list" where
  \<comment> \<open>what a freshly reset parser delivers for one chunk\<close>
  "received bytes = snd (append_chunk new_parser bytes)"

lemma received_scan:
  "length bytes \<le> MAX_BUFFER_SIZE \<Longrightarrow> received bytes = snd (scan_run Hunt bytes)"
proof -
  assume "length bytes \<le> MAX_BUFFER_SIZE"
  then have len: "length (parser_buffer new_parser) + length bytes \<le> MAX_BUFFER_SIZE"
    by (simp add: new_parser_def)
  show ?thesis
    using append_chunk_refines[OF new_parser_holds len prod.collapse[symmetric] prod.collapse[symmetric]]
    by (simp add: received_def)
qed

lemma received_buildFrame:
  assumes "frame_clean to from cmd data" "length data + 6 \<le> MAX_BUFFER_SIZE"
  shows "received (buildFrame to from cmd data) = [frame_of to from cmd data]"
  using assms received_scan[of "buildFrame to from cmd data"] scan_buildFrame[OF assms(1)]
  by (simp add: buildFrame_def)

section \<open>Interface of a BCD field\<close>

text \<open>
  What the command layer relies on when it puts a number into a frame: the encoding has a
  fixed width, uses no byte the framing reserves, and is read back at any position.
\<close>

locale bcd_field =
  fixes enc :: "'a \<Rightarrow> buffer" and dec :: "buffer \<Rightarrow> nat \<Rightarrow> 'b"
    and width :: nat and ok :: "'a \<Rightarrow> bool" and denotes :: "'a \<Rightarrow> 'b"
  assumes enc_width: "length (enc x) = width"
    and enc_clean: "ok x \<Longrightarrow> b \<in> set (enc x) \<Longrightarrow> b < 0xFA"
    and dec_enc: "ok x \<Longrightarrow> dec (pre @ enc x @ post) (length pre) = denotes x"
begin

lemma enc_no_eom: "ok x \<Longrightarrow> CIV_EOM \<notin> set (enc x)"
  using enc_clean[of x CIV_EOM] by (auto simp: word_less_nat_alt)

lemma enc_frame_clean:
  "ok x \<Longrightarrow> frame_clean to from cmd pre \<Longrightarrow> frame_clean to from cmd (pre @ enc x)"
  using enc_no_eom by (auto simp: frame_clean_def)

lemma field_received:
  assumes "ok x" "frame_clean to from cmd pre" "length pre + width + 6 \<le> MAX_BUFFER_SIZE"
  shows "received (buildFrame to from cmd (pre @ enc x)) = [frame_of to from cmd (pre @ enc x)]"
  using received_buildFrame[OF enc_frame_clean[OF assms(1,2)]] assms(3) by (simp add: enc_width)

lemma field_read:
  "ok x \<Longrightarrow> dec (pre @ enc x) (length pre) = denotes x"
  using dec_enc[of x pre "[]"] by simp

lemmas field_roundtrip = field_received field_read

end

interpretation freq: bcd_field encodeBcdFrequency decodeBcdFrequency 5
  "\<lambda>hz. 0 \<le> js_round hz" "\<lambda>hz. nat (js_round hz mod 10 ^ 10)"
  by unfold_locales
    (simp_all add: decode_encode_frequency, auto simp: encodeBcdFrequency_def intro: encode_freq_loop_clean)

interpretation level: bcd_field encodeBcdLevel decodeBcdLevel 2
  "\<lambda>v. True" "\<lambda>v. nat (max 0 (min 255 (js_round v)))"
  by unfold_locales (simp_all add: decode_encode_level encodeBcdLevel_clean)

interpretation offset: bcd_field encodeBcdOffset decodeBcdOffset 3
  "\<lambda>hz. \<bar>js_round hz\<bar> < 10000" js_round
  by unfold_locales (simp_all add: decode_encode_offset encodeBcdOffset_clean)

section \<open>Properties\<close>



text \<open>
  C3: Messages built by \<open>buildFrame\<close> from bytes other than the end-of-message byte and sent
  back to back are all delivered, in order and with the fields they were built from, for
  every way of cutting the stream into chunks that fit the buffer, and none is dropped.
\<close>

theorem messages_delivered:
  assumes "list_all message_clean ms" "concat cs = concat (map message_bytes ms)" "fits new_parser cs"
  shows "snd (feed new_parser cs) = map message_frame ms"
  using feed_refines[OF new_parser_holds assms(3)] scan_messages[OF assms(1)] assms(2) by simp

theorem messages_delivered_witness:
  "snd (feed new_parser ([0xFE] # [0xFE, 0xE0, 0x94, 0x15, 0x02, 0x01, 0x20, 0xFD, 0xFE, 0xFE, 0xE0] # [0x94, 0xFB, 0xFD] # []))
     = map message_frame [(0xE0, 0x94, 0x15, [0x02, 0x01, 0x20]), (0xE0, 0x94, 0xFB, [])]"
proof -
  have f: "fits new_parser ([0xFE] # [0xFE, 0xE0, 0x94, 0x15, 0x02, 0x01, 0x20, 0xFD, 0xFE, 0xFE, 0xE0] # [0x94, 0xFB, 0xFD] # [])"
    by (rule fits_small) (simp add: new_parser_def MAX_BUFFER_SIZE_def)
  show ?thesis
    by (rule messages_delivered[OF _ _ f])
      (simp_all add: message_clean_def frame_clean_def message_bytes_def buildFrame_def)
qed

text \<open>
  Whatever arrives, in chunks of any size, the parser never holds more than its
  65536-byte limit between chunks.
\<close>

theorem parser_memory_bounded:
  "cs \<noteq> [] \<Longrightarrow> length (parser_buffer (fst (feed p cs))) \<le> MAX_BUFFER_SIZE"
proof (induction cs arbitrary: p)
  case Nil
  then show ?case by simp
next
  case (Cons c cs)
  then show ?case
    using append_chunk_bound[of p c] by (cases "cs = []") (auto simp: case_prod_beta Let_def)
qed

theorem parser_memory_bounded_witness:
  "length (parser_buffer (fst (feed new_parser ([0xFE, 0xFE, 0x94] # [])))) \<le> MAX_BUFFER_SIZE"
  using parser_memory_bounded[of "[0xFE, 0xFE, 0x94] # []" new_parser] by simp

end
