(* ===== verification/CivCommands.thy ===== *)
theory CivCommands
  imports CivFraming
begin

text \<open>
  Command builders and response parsers of \<open>bridge/src/civ/commands.ts\<close>. A builder that can
  throw returns a sum, \<open>Inl\<close> for the thrown error; a parser that returns \<open>null\<close> on a short
  payload returns an option. The lemmas show that what a builder sends, the matching parser
  reads back from the frame that travels over the link.
\<close>

datatype civ_error = UnknownMode string | UnknownMeter string | UnknownLevel string
  | UnknownFunction string

section \<open>Hexadecimal text\<close>

definition hex_value :: "char \<Rightarrow> nat option" where
  "hex_value c = (let n = (of_char c :: nat) in
     if 48 \<le> n \<and> n \<le> 57 then Some (n - 48)
     else if 65 \<le> n \<and> n \<le> 70 then Some (n - 55)
     else if 97 \<le> n \<and> n \<le> 102 then Some (n - 87)
     else None)"

fun hex_prefix :: "nat \<Rightarrow> string \<Rightarrow> nat" where
  \<comment> \<open>the value of the longest prefix of hexadecimal digits, on top of the digits read\<close>
  "hex_prefix acc [] = acc"
| "hex_prefix acc (c # cs) =
     (case hex_value c of None \<Rightarrow> acc | Some d \<Rightarrow> hex_prefix (16 * acc + d) cs)"

definition is_js_space :: "char \<Rightarrow> bool" where
  "is_js_space c = (let n = (of_char c :: nat) in n = 32 \<or> (9 \<le> n \<and> n \<le> 13))"

definition strip_0x :: "string \<Rightarrow> string" where
  "strip_0x s = (case s of
     a # b # cs \<Rightarrow> if a = CHR ''0'' \<and> (b = CHR ''x'' \<or> b = CHR ''X'') then cs else s
   | _ \<Rightarrow> s)"

definition parseInt16 :: "string \<Rightarrow> int option" where
  \<comment> \<open>\<open>parseInt(s, 16)\<close>; \<open>None\<close> is \<open>NaN\<close>\<close>
  "parseInt16 s =
     (let s1 = dropWhile is_js_space s;
          (neg, s2) = (case s1 of
              c # cs \<Rightarrow> if c = CHR ''-'' then (True, cs) else if c = CHR ''+'' then (False, cs)
                        else (False, s1)
            | [] \<Rightarrow> (False, []));
          s3 = strip_0x s2
      in case s3 of
           [] \<Rightarrow> None
         | c # _ \<Rightarrow> if hex_value c = None then None
                    else Some ((if neg then -1 else 1) * int (hex_prefix 0 s3)))"

definition hex_digit :: "nat \<Rightarrow> char" where
  "hex_digit n = (if n < 10 then char_of (48 + n) else char_of (87 + n))"

definition byte_hex :: "byte \<Rightarrow> string" where
  \<comment> \<open>\<open>toString(16)\<close> of a byte\<close>
  "byte_hex b = (let n = unat b in
     if n < 16 then [hex_digit n] else [hex_digit (n div 16), hex_digit (n mod 16)])"

section \<open>Frequency and mode\<close>

definition readFrequency :: "CivAddress \<Rightarrow> buffer" where
  "readFrequency addr = buildFrame (radio addr) (controller addr) (cmd_byte READ_FREQ) []"

definition setFrequency :: "CivAddress \<Rightarrow> rat \<Rightarrow> buffer" where
  "setFrequency addr hz =
     buildFrame (radio addr) (controller addr) (cmd_byte SET_FREQ) (encodeBcdFrequency hz)"

definition parseFrequencyResponse :: "CivFrame \<Rightarrow> nat option" where
  "parseFrequencyResponse frame =
     (if length (frame_data frame) < 5 then None else Some (decodeBcdFrequency (frame_data frame) 0))"

definition readMode :: "CivAddress \<Rightarrow> buffer" where
  "readMode addr = buildFrame (radio addr) (controller addr) (cmd_byte READ_MODE) []"

definition setMode :: "CivAddress \<Rightarrow> string \<Rightarrow> int option \<Rightarrow> civ_error + buffer" where
  "setMode addr mode filt =
     (let send = (\<lambda>b. buildFrame (radio addr) (controller addr) (cmd_byte SET_MODE)
            (case filt of Some f \<Rightarrow> [b, to_byte f] | None \<Rightarrow> [b]))
      in case map_of CIV_STRING_TO_MODE (toUpperCase mode) of
           None \<Rightarrow> (case parseInt16 mode of
                      None \<Rightarrow> Inl (UnknownMode mode)
                    | Some parsed \<Rightarrow> Inr (send (to_byte parsed)))
         | Some modeByte \<Rightarrow> Inr (send modeByte))"

definition parseModeResponse :: "CivFrame \<Rightarrow> (string \<times> byte) option" where
  "parseModeResponse frame =
     (if length (frame_data frame) < 1 then None
      else let modeByte = byte_at (frame_data frame) 0;
               mode = (case map_of CIV_MODE_TO_STRING modeByte of
                         Some name \<Rightarrow> name | None \<Rightarrow> ''0x'' @ byte_hex modeByte);
               filt = (if length (frame_data frame) \<ge> 2 then byte_at (frame_data frame) 1 else 1)
           in Some (mode, filt))"

section \<open>PTT, VFO, split\<close>

definition readPtt :: "CivAddress \<Rightarrow> buffer" where
  "readPtt addr = buildFrameWithSub (radio addr) (controller addr) (cmd_byte PTT) 0x00 []"

definition setPtt :: "CivAddress \<Rightarrow> bool \<Rightarrow> buffer" where
  "setPtt addr on = buildFrameWithSub (radio addr) (controller addr) (cmd_byte PTT) 0x00
     [if on then 0x01 else 0x00]"

definition parsePttResponse :: "CivFrame \<Rightarrow> bool option" where
  "parsePttResponse frame =
     (if length (frame_data frame) < 2 then None else Some (byte_at (frame_data frame) 1 \<noteq> 0x00))"

definition setVfo :: "CivAddress \<Rightarrow> bool \<Rightarrow> buffer" where
  \<comment> \<open>the argument says whether the VFO is A\<close>
  "setVfo addr isA = buildFrame (radio addr) (controller addr) (cmd_byte SET_VFO)
     [if isA then vfo_byte VFO_A else vfo_byte VFO_B]"

definition vfoEqual :: "CivAddress \<Rightarrow> buffer" where
  "vfoEqual addr = buildFrame (radio addr) (controller addr) (cmd_byte SET_VFO) [vfo_byte VFO_EQUAL]"

definition vfoSwap :: "CivAddress \<Rightarrow> buffer" where
  "vfoSwap addr = buildFrame (radio addr) (controller addr) (cmd_byte SET_VFO) [vfo_byte VFO_SWAP]"

definition setSplit :: "CivAddress \<Rightarrow> bool \<Rightarrow> buffer" where
  "setSplit addr on = buildFrame (radio addr) (controller addr) (cmd_byte SPLIT)
     [if on then 0x01 else 0x00]"

definition readSplit :: "CivAddress \<Rightarrow> buffer" where
  "readSplit addr = buildFrame (radio addr) (controller addr) (cmd_byte SPLIT) []"

definition parseSplitResponse :: "CivFrame \<Rightarrow> bool option" where
  "parseSplitResponse frame =
     (if length (frame_data frame) < 1 then None else Some (byte_at (frame_data frame) 0 \<noteq> 0x00))"

section \<open>Meters, levels, functions\<close>

definition readMeter :: "CivAddress \<Rightarrow> string \<Rightarrow> civ_error + buffer" where
  "readMeter addr meter =
     (case map_of CIV_METER_SUB (toUpperCase meter) of
        None \<Rightarrow> Inl (UnknownMeter meter)
      | Some sub \<Rightarrow> Inr (buildFrameWithSub (radio addr) (controller addr) (cmd_byte METERS) sub []))"

definition readSmeter :: "CivAddress \<Rightarrow> civ_error + buffer" where
  "readSmeter addr = readMeter addr ''SMETER''"

definition readPowerMeter :: "CivAddress \<Rightarrow> civ_error + buffer" where
  "readPowerMeter addr = readMeter addr ''RFPOWER''"

definition readSwrMeter :: "CivAddress \<Rightarrow> civ_error + buffer" where
  "readSwrMeter addr = readMeter addr ''SWR''"

definition readAlcMeter :: "CivAddress \<Rightarrow> civ_error + buffer" where
  "readAlcMeter addr = readMeter addr ''ALC''"

definition parseMeterResponse :: "CivFrame \<Rightarrow> nat option" where
  "parseMeterResponse frame =
     (if length (frame_data frame) < 3 then None else Some (decodeBcdLevel (frame_data frame) 1))"

definition readLevel :: "CivAddress \<Rightarrow> string \<Rightarrow> civ_error + buffer" where
  "readLevel addr name =
     (case map_of CIV_LEVEL_SUB (toUpperCase name) of
        None \<Rightarrow> Inl (UnknownLevel name)
      | Some sub \<Rightarrow> Inr (buildFrameWithSub (radio addr) (controller addr) (cmd_byte LEVELS) sub []))"

definition setLevel :: "CivAddress \<Rightarrow> string \<Rightarrow> rat \<Rightarrow> civ_error + buffer" where
  "setLevel addr name v =
     (case map_of CIV_LEVEL_SUB (toUpperCase name) of
        None \<Rightarrow> Inl (UnknownLevel name)
      | Some sub \<Rightarrow> Inr (buildFrameWithSub (radio addr) (controller addr) (cmd_byte LEVELS) sub
            (encodeBcdLevel v)))"

definition parseLevelResponse :: "CivFrame \<Rightarrow> nat option" where
  "parseLevelResponse frame =
     (if length (frame_data frame) < 3 then None else Some (decodeBcdLevel (frame_data frame) 1))"

definition readFunction :: "CivAddress \<Rightarrow> string \<Rightarrow> civ_error + buffer" where
  "readFunction addr name =
     (case map_of CIV_FUNC_SUB (toUpperCase name) of
        None \<Rightarrow> Inl (UnknownFunction name)
      | Some sub \<Rightarrow> Inr (buildFrameWithSub (radio addr) (controller addr) (cmd_byte FUNCTIONS) sub []))"

definition setFunction :: "CivAddress \<Rightarrow> string \<Rightarrow> bool \<Rightarrow> civ_error + buffer" where
  "setFunction addr name on =
     (case map_of CIV_FUNC_SUB (toUpperCase name) of
        None \<Rightarrow> Inl (UnknownFunction name)
      | Some sub \<Rightarrow> Inr (buildFrameWithSub (radio addr) (controller addr) (cmd_byte FUNCTIONS) sub
            [if on then 0x01 else 0x00]))"

definition parseFunctionResponse :: "CivFrame \<Rightarrow> bool option" where
  "parseFunctionResponse frame =
     (if length (frame_data frame) < 2 then None else Some (byte_at (frame_data frame) 1 \<noteq> 0x00))"

section \<open>AGC, RIT and XIT\<close>

definition setAgc :: "CivAddress \<Rightarrow> int \<Rightarrow> buffer" where
  \<comment> \<open>\<open>CIV_FUNC_SUB.AGC\<close> is 0x12\<close>
  "setAgc addr mode = buildFrameWithSub (radio addr) (controller addr) (cmd_byte FUNCTIONS)
     (the (map_of CIV_FUNC_SUB ''AGC'')) [to_byte (max 0 (min 3 mode))]"

definition parseAgcResponse :: "CivFrame \<Rightarrow> byte option" where
  "parseAgcResponse frame =
     (if length (frame_data frame) < 2 then None else Some (byte_at (frame_data frame) 1))"

definition offset_frames :: "CivAddress \<Rightarrow> rat option \<Rightarrow> buffer list" where
  \<comment> \<open>the second half of \<open>setRit\<close> and \<open>setXit\<close>: both write the shared offset register\<close>
  "offset_frames addr offsetHz =
     (case offsetHz of
        None \<Rightarrow> []
      | Some hz \<Rightarrow> [buildFrameWithSub (radio addr) (controller addr) (cmd_byte RIT_XIT) 0x03
                      (encodeBcdOffset hz)])"

definition setRit :: "CivAddress \<Rightarrow> bool \<Rightarrow> rat option \<Rightarrow> buffer" where
  "setRit addr enabled offsetHz =
     concat ([buildFrameWithSub (radio addr) (controller addr) (cmd_byte RIT_XIT) 0x01
                [if enabled then 0x01 else 0x00]] @ offset_frames addr offsetHz)"

definition setXit :: "CivAddress \<Rightarrow> bool \<Rightarrow> rat option \<Rightarrow> buffer" where
  "setXit addr enabled offsetHz =
     concat ([buildFrameWithSub (radio addr) (controller addr) (cmd_byte RIT_XIT) 0x02
                [if enabled then 0x01 else 0x00]] @ offset_frames addr offsetHz)"

definition readRit :: "CivAddress \<Rightarrow> buffer" where
  "readRit addr = buildFrameWithSub (radio addr) (controller addr) (cmd_byte RIT_XIT) 0x01 []"

definition readXit :: "CivAddress \<Rightarrow> buffer" where
  "readXit addr = buildFrameWithSub (radio addr) (controller addr) (cmd_byte RIT_XIT) 0x02 []"

definition readRitXitOffset :: "CivAddress \<Rightarrow> buffer" where
  "readRitXitOffset addr = buildFrameWithSub (radio addr) (controller addr) (cmd_byte RIT_XIT) 0x03 []"

definition parseRitXitEnableResponse :: "CivFrame \<Rightarrow> bool option" where
  "parseRitXitEnableResponse frame =
     (if length (frame_data frame) < 2 then None else Some (byte_at (frame_data frame) 1 \<noteq> 0x00))"

definition parseRitXitOffsetResponse :: "CivFrame \<Rightarrow> int option" where
  "parseRitXitOffsetResponse frame =
     (if length (frame_data frame) < 4 then None else Some (decodeBcdOffset (frame_data frame) 1))"

section \<open>CW speed, IF shift, antenna\<close>

definition setCwSpeed :: "CivAddress \<Rightarrow> rat \<Rightarrow> civ_error + buffer" where
  "setCwSpeed addr wpm = setLevel addr ''KEYSPD'' wpm"

definition readCwSpeed :: "CivAddress \<Rightarrow> civ_error + buffer" where
  "readCwSpeed addr = readLevel addr ''KEYSPD''"

definition if_shift_level :: "rat \<Rightarrow> int" where
  \<comment> \<open>\<open>normalized\<close> in \<open>setIfShift\<close>\<close>
  "if_shift_level hz = js_round (((hz + 1200) / 2400) * 255)"

definition setIfShift :: "CivAddress \<Rightarrow> rat \<Rightarrow> civ_error + buffer" where
  "setIfShift addr hz = setLevel addr ''IF_SHIFT'' (of_int (if_shift_level hz))"

definition readIfShift :: "CivAddress \<Rightarrow> civ_error + buffer" where
  "readIfShift addr = readLevel addr ''IF_SHIFT''"

definition parseIfShiftResponse :: "rat \<Rightarrow> int" where
  "parseIfShiftResponse raw = js_round ((raw / 255) * 2400 - 1200)"

definition setAntenna :: "CivAddress \<Rightarrow> int \<Rightarrow> buffer" where
  "setAntenna addr port =
     buildFrame (radio addr) (controller addr) 0x12 [to_byte (port AND 0xff)]"

definition broadcastReadFrequency :: "byte \<Rightarrow> buffer" where
  "broadcastReadFrequency controllerAddr = buildFrame 0x00 controllerAddr (cmd_byte READ_FREQ) []"

section \<open>Scope\<close>

definition scope_ctrl :: "CivAddress \<Rightarrow> CIV_SCOPE_SUB \<Rightarrow> byte \<Rightarrow> buffer" where
  "scope_ctrl addr sub v = buildFrameWithSub (radio addr) (controller addr) (cmd_byte SCOPE_CTRL)
     (scope_sub_byte sub) [v]"

definition startScope :: "CivAddress \<Rightarrow> buffer" where
  "startScope addr = scope_ctrl addr SCOPE_ON 0x01"

definition stopScope :: "CivAddress \<Rightarrow> buffer" where
  "stopScope addr = scope_ctrl addr SCOPE_ON 0x00"

definition startScopeDataOutput :: "CivAddress \<Rightarrow> buffer" where
  "startScopeDataOutput addr = scope_ctrl addr DATA_OUTPUT 0x01"

definition stopScopeDataOutput :: "CivAddress \<Rightarrow> buffer" where
  "stopScopeDataOutput addr = scope_ctrl addr DATA_OUTPUT 0x00"

record ScopeHeader =
  hdr_scopeIndex :: byte
  hdr_seq :: nat
  hdr_seqMax :: nat
  hdr_scopeMode :: byte
  hdr_startFreqHz :: nat
  hdr_endFreqHz :: nat

definition parseScopeHeader :: "buffer \<Rightarrow> ScopeHeader option" where
  "parseScopeHeader scopeData =
     (if length scopeData < 15 then None
      else Some \<lparr>hdr_scopeIndex = byte_at scopeData 0,
                 hdr_seq = decodeBcdByte (byte_at scopeData 1),
                 hdr_seqMax = decodeBcdByte (byte_at scopeData 2),
                 hdr_scopeMode = byte_at scopeData 3,
                 hdr_startFreqHz = decodeBcdFrequency scopeData 4,
                 hdr_endFreqHz = decodeBcdFrequency scopeData 9\<rparr>)"

record ScopePixels =
  px_scopeIndex :: byte
  px_seq :: nat
  px_seqMax :: nat
  px_pixels :: buffer

definition parseScopePixels :: "buffer \<Rightarrow> ScopePixels option" where
  "parseScopePixels scopeData =
     (if length scopeData < 4 then None
      else Some \<lparr>px_scopeIndex = byte_at scopeData 0,
                 px_seq = decodeBcdByte (byte_at scopeData 1),
                 px_seqMax = decodeBcdByte (byte_at scopeData 2),
                 px_pixels = drop 3 scopeData\<rparr>)"

section \<open>Sent and read back\<close>

definition addr_clean :: "CivAddress \<Rightarrow> bool" where
  "addr_clean addr \<longleftrightarrow> radio addr \<noteq> CIV_EOM \<and> controller addr \<noteq> CIV_EOM"

lemma MAX_large: "n \<le> 100 \<Longrightarrow> n \<le> MAX_BUFFER_SIZE"
  by (simp add: MAX_BUFFER_SIZE_def)

lemma addr_frame_clean:
  "addr_clean addr \<Longrightarrow> cmd \<noteq> CIV_EOM \<Longrightarrow> CIV_EOM \<notin> set data \<Longrightarrow>
     frame_clean (radio addr) (controller addr) cmd data"
  by (auto simp: addr_clean_def frame_clean_def)

lemma cmd_byte_clean: "cmd_byte c \<noteq> CIV_EOM"
  by (cases c) simp_all

lemma map_of_clean:
  "list_all (\<lambda>p. snd p \<noteq> CIV_EOM) xs \<Longrightarrow> map_of xs n = Some b \<Longrightarrow> b \<noteq> CIV_EOM"
  by (auto dest!: map_of_SomeD simp: list_all_iff)

lemma tables_clean:
  "list_all (\<lambda>p. snd p \<noteq> CIV_EOM) CIV_LEVEL_SUB" "list_all (\<lambda>p. snd p \<noteq> CIV_EOM) CIV_FUNC_SUB"
  "list_all (\<lambda>p. snd p \<noteq> CIV_EOM) CIV_METER_SUB" "list_all (\<lambda>p. snd p \<noteq> CIV_EOM) CIV_STRING_TO_MODE"
  by (simp_all add: CIV_LEVEL_SUB_def CIV_FUNC_SUB_def CIV_METER_SUB_def CIV_STRING_TO_MODE_def
      CIV_MODE_TO_STRING_def)

lemmas table_clean = tables_clean[THEN map_of_clean]

lemma frame_of_data [simp]:
  "frame_data (frame_of to from cmd data) = data" "command (frame_of to from cmd data) = cmd"
  by (simp_all add: frame_of_def)

lemma received_addressed:
  "addr_clean addr \<Longrightarrow> CIV_EOM \<notin> set data \<Longrightarrow> length data \<le> 90 \<Longrightarrow>
     received (buildFrame (radio addr) (controller addr) (cmd_byte c) data)
       = [frame_of (radio addr) (controller addr) (cmd_byte c) data]"
  by (intro received_buildFrame addr_frame_clean cmd_byte_clean MAX_large) auto

lemma freq_data_clean: "0 \<le> js_round hz \<Longrightarrow> CIV_EOM \<notin> set (encodeBcdFrequency hz)"
  by (rule freq.enc_no_eom)

lemma level_data_clean: "CIV_EOM \<notin> set (encodeBcdLevel v)"
  by (rule level.enc_no_eom) simp

text \<open>Setting a frequency and reading it back over the link: for an integer frequency
  below \<open>10^10\<close> Hz the frame \<open>setFrequency\<close> builds is delivered by the frame parser as one
  frame with the set-frequency command, and \<open>parseFrequencyResponse\<close> of it is that frequency.\<close>

theorem set_frequency_roundtrip:
  assumes "addr_clean addr" "0 \<le> hz" "hz < 10 ^ 10"
  shows "\<exists>f. received (setFrequency addr (of_int hz)) = [f] \<and> command f = cmd_byte SET_FREQ \<and>
    parseFrequencyResponse f = Some (nat hz)"
  using assms received_addressed[OF assms(1), of "encodeBcdFrequency (of_int hz)" SET_FREQ]
    freq_data_clean[of "of_int hz"] freq.field_read[of "of_int hz" "[]"]
  by (simp add: setFrequency_def parseFrequencyResponse_def)

theorem set_frequency_roundtrip_witness:
  "\<exists>f. received (setFrequency \<lparr>radio = 0x94, controller = 0xe0\<rparr> (of_int 14074000)) = [f] \<and>
     command f = cmd_byte SET_FREQ \<and> parseFrequencyResponse f = Some 14074000"
  using set_frequency_roundtrip[of "\<lparr>radio = 0x94, controller = 0xe0\<rparr>" 14074000]
  by (simp add: addr_clean_def)

lemma set_level_read:
  assumes "addr_clean addr" "setLevel addr name v = Inr buf"
  shows "\<exists>f. received buf = [f] \<and> command f = cmd_byte LEVELS \<and>
    parseLevelResponse f = Some (nat (max 0 (min 255 (js_round v))))"
proof -
  from assms(2) obtain sub where sub: "map_of CIV_LEVEL_SUB (toUpperCase name) = Some sub"
    and buf: "buf = buildFrame (radio addr) (controller addr) (cmd_byte LEVELS) (sub # encodeBcdLevel v)"
    by (auto simp: setLevel_def buildFrameWithSub_def split: option.splits)
  have "received buf = [frame_of (radio addr) (controller addr) (cmd_byte LEVELS) (sub # encodeBcdLevel v)]"
    unfolding buf using table_clean(1)[OF sub] level_data_clean[of v]
    by (intro received_addressed assms) auto
  then show ?thesis
    using level.field_read[of "[sub]" v] by (simp add: parseLevelResponse_def)
qed

text \<open>Setting a named level: whenever the name is known, the frame is delivered as one
  level command whose payload parses back to the requested value clamped to 0..255 and
  rounded; an unknown name is the thrown error and no frame.\<close>

theorem set_level_roundtrip:
  assumes "addr_clean addr" "setLevel addr name v = Inr buf"
  shows "\<exists>f. received buf = [f] \<and> command f = cmd_byte LEVELS \<and>
    parseLevelResponse f = Some (nat (max 0 (min 255 (js_round v))))"
  using assms by (rule set_level_read)

theorem set_level_roundtrip_witness:
  "\<exists>f. received (buildFrame 0x94 0xe0 0x14 [0x0a, 0x02, 0x55]) = [f] \<and>
     command f = cmd_byte LEVELS \<and> parseLevelResponse f = Some 255"
proof -
  have "bcd_byte 0 2 = 2" "bcd_byte 5 5 = 0x55"
    by (simp_all add: bcd_byte_eq)
  then have "setLevel \<lparr>radio = 0x94, controller = 0xe0\<rparr> ''RFPOWER'' 300
      = Inr (buildFrame 0x94 0xe0 0x14 [0x0a, 0x02, 0x55])"
    by (simp add: setLevel_def buildFrameWithSub_def encodeBcdLevel_eq toUpperCase_def upper_char_def
        Let_def CIV_LEVEL_SUB_def)
  from set_level_roundtrip[OF _ this] show ?thesis
    by (simp add: addr_clean_def)
qed

text \<open>RIT with an offset is two frames on the wire, and a receiver gets both: the first
  carries the on/off state, the second the signed offset, exactly, for every offset below
  10000 Hz in magnitude. The same holds for XIT with its own enable sub-command.\<close>

theorem set_rit_xit_roundtrip:
  assumes "addr_clean addr" "\<bar>hz\<bar> < 10000"
  shows "(\<exists>f g. received (setRit addr en (Some (of_int hz))) = [f, g] \<and>
      parseRitXitEnableResponse f = Some en \<and> parseRitXitOffsetResponse g = Some hz) \<and>
    (\<exists>f g. received (setXit addr en (Some (of_int hz))) = [f, g] \<and>
      parseRitXitEnableResponse f = Some en \<and> parseRitXitOffsetResponse g = Some hz)"
proof -
  let ?m = "\<lambda>d. (radio addr, controller addr, cmd_byte RIT_XIT, d)"
  let ?on = "if en then 1 else (0::byte)"
  let ?off = "3 # encodeBcdOffset (of_int hz)"
  have clean: "message_clean (?m d)" if "CIV_EOM \<notin> set d" for d
    unfolding message_clean_def using addr_frame_clean[OF assms(1) cmd_byte_clean[of RIT_XIT] that] by simp
  have off: "CIV_EOM \<notin> set ?off"
    using assms(2) offset.enc_no_eom[of "of_int hz"] by simp
  have two: "received (message_bytes (?m [sub, ?on]) @ message_bytes (?m ?off))
      = [message_frame (?m [sub, ?on]), message_frame (?m ?off)]" if "sub \<noteq> CIV_EOM" for sub
  proof -
    have "list_all message_clean [?m [sub, ?on], ?m ?off]"
      using clean[of "[sub, ?on]"] clean[OF off] that by simp
    from scan_messages[OF this] show ?thesis
      by (subst received_scan) (simp_all add: message_bytes_def buildFrame_def MAX_BUFFER_SIZE_def)
  qed
  have parse: "parseRitXitOffsetResponse (message_frame (?m ?off)) = Some hz"
    using assms(2) offset.field_read[of "of_int hz" "[3]"]
    by (simp add: message_frame_def parseRitXitOffsetResponse_def)
  have enable: "parseRitXitEnableResponse (message_frame (?m [sub, ?on])) = Some en" for sub
    by (simp add: message_frame_def parseRitXitEnableResponse_def)
  have rit: "setRit addr en (Some (of_int hz)) = message_bytes (?m [1, ?on]) @ message_bytes (?m ?off)"
    and xit: "setXit addr en (Some (of_int hz)) = message_bytes (?m [2, ?on]) @ message_bytes (?m ?off)"
    by (simp_all add: setRit_def setXit_def offset_frames_def message_bytes_def buildFrameWithSub_def)
  show ?thesis
    unfolding rit xit using two[of 1] two[of 2] parse enable[of 1] enable[of 2] by simp
qed

theorem set_rit_xit_roundtrip_witness:
  "(\<exists>f g. received (setRit \<lparr>radio = 0x94, controller = 0xe0\<rparr> True (Some (of_int (-1250)))) = [f, g] \<and>
      parseRitXitEnableResponse f = Some True \<and> parseRitXitOffsetResponse g = Some (-1250)) \<and>
   (\<exists>f g. received (setXit \<lparr>radio = 0x94, controller = 0xe0\<rparr> False (Some (of_int 9999))) = [f, g] \<and>
      parseRitXitEnableResponse f = Some False \<and> parseRitXitOffsetResponse g = Some 9999)"
  using set_rit_xit_roundtrip[of "\<lparr>radio = 0x94, controller = 0xe0\<rparr>" "-1250" True]
    set_rit_xit_roundtrip[of "\<lparr>radio = 0x94, controller = 0xe0\<rparr>" 9999 False]
  by (simp add: addr_clean_def)

lemma set_mode_read:
  assumes "addr_clean addr" "map_of CIV_STRING_TO_MODE (toUpperCase mode) = Some b"
    "\<forall>f. filt = Some f \<longrightarrow> to_byte f \<noteq> CIV_EOM"
  shows "\<exists>buf f. setMode addr mode filt = Inr buf \<and> received buf = [f] \<and>
    parseModeResponse f = Some (toUpperCase mode, case filt of Some k \<Rightarrow> to_byte k | None \<Rightarrow> 1)"
proof -
  let ?data = "case filt of Some k \<Rightarrow> [b, to_byte k] | None \<Rightarrow> [b]"
  have "received (buildFrame (radio addr) (controller addr) (cmd_byte SET_MODE) ?data)
      = [frame_of (radio addr) (controller addr) (cmd_byte SET_MODE) ?data]"
    using table_clean(4)[OF assms(2)] assms(3)
    by (intro received_addressed assms(1)) (auto split: option.splits)
  moreover have "map_of CIV_MODE_TO_STRING b = Some (toUpperCase mode)"
    using assms(2) by (simp add: mode_table_inverse)
  ultimately show ?thesis
    using assms(2) by (auto simp: setMode_def parseModeResponse_def split: option.splits)
qed

text \<open>Setting a mode of the table is read back as that mode: the delivered frame parses
  to the upper-cased name, and to the filter sent or 1 when none was.\<close>

theorem set_mode_roundtrip:
  assumes "addr_clean addr" "map_of CIV_STRING_TO_MODE (toUpperCase mode) = Some b"
    "\<forall>f. filt = Some f \<longrightarrow> to_byte f \<noteq> CIV_EOM"
  shows "\<exists>buf f. setMode addr mode filt = Inr buf \<and> received buf = [f] \<and>
    parseModeResponse f = Some (toUpperCase mode, case filt of Some k \<Rightarrow> to_byte k | None \<Rightarrow> 1)"
  by (rule set_mode_read[OF assms])

theorem set_mode_roundtrip_witness:
  "\<exists>buf f. setMode \<lparr>radio = 0x94, controller = 0xe0\<rparr> ''cw-r'' (Some 2) = Inr buf \<and> received buf = [f] \<and>
     parseModeResponse f = Some (''CW-R'', 2)"
proof -
  have "toUpperCase ''cw-r'' = ''CW-R''"
    by code_simp
  then show ?thesis
    using set_mode_roundtrip[of "\<lparr>radio = 0x94, controller = 0xe0\<rparr>" "''cw-r''" 7 "Some 2"]
    by (simp add: addr_clean_def to_byte_def CIV_STRING_TO_MODE_def CIV_MODE_TO_STRING_def)
qed

text \<open>\<open>setMode\<close> throws exactly when the name is neither in the table nor starts, after
  white space, a sign and an optional 0x, with a hexadecimal digit. So names the radio does
  not have are sent as bytes: FT8 as mode 0x0f, C4FM as 0x4f, and FD as the end-of-message
  byte, which cuts the delivered frame down to an empty payload.\<close>

theorem set_mode_unknown:
  "((\<exists>e. setMode addr mode filt = Inl e) \<longleftrightarrow>
      map_of CIV_STRING_TO_MODE (toUpperCase mode) = None \<and> parseInt16 mode = None) \<and>
   setMode addr ''FT8'' None = Inr (buildFrame (radio addr) (controller addr) 0x06 [0x0f]) \<and>
   setMode addr ''C4FM'' None = Inr (buildFrame (radio addr) (controller addr) 0x06 [0x4f]) \<and>
   setMode \<lparr>radio = 0x94, controller = 0xe0\<rparr> ''FD'' None = Inr (buildFrame 0x94 0xe0 0x06 [0xfd]) \<and>
   map frame_data (received (buildFrame 0x94 0xe0 0x06 [0xfd])) = [[]]"
proof (intro conjI)
  show "(\<exists>e. setMode addr mode filt = Inl e) \<longleftrightarrow>
      map_of CIV_STRING_TO_MODE (toUpperCase mode) = None \<and> parseInt16 mode = None"
    by (auto simp: setMode_def Let_def split: option.splits)
  have up: "toUpperCase ''FT8'' = ''FT8''" "toUpperCase ''C4FM'' = ''C4FM''" "toUpperCase ''FD'' = ''FD''"
    by code_simp+
  have pi: "parseInt16 ''FT8'' = Some 15" "parseInt16 ''C4FM'' = Some 3151" "parseInt16 ''FD'' = Some 253"
    by code_simp+
  have tb: "to_byte 15 = 0x0f" "to_byte 3151 = 0x4f" "to_byte 253 = 0xfd"
    by code_simp+
  note u = setMode_def up pi tb Let_def CIV_STRING_TO_MODE_def CIV_MODE_TO_STRING_def
  show "setMode addr ''FT8'' None = Inr (buildFrame (radio addr) (controller addr) 0x06 [0x0f])"
    and "setMode addr ''C4FM'' None = Inr (buildFrame (radio addr) (controller addr) 0x06 [0x4f])"
    and "setMode \<lparr>radio = 0x94, controller = 0xe0\<rparr> ''FD'' None = Inr (buildFrame 0x94 0xe0 0x06 [0xfd])"
    by (simp_all add: u)
  have "scan_run Hunt (buildFrame 0x94 0xe0 0x06 [0xfd]) = (Hunt, [frame_of 0x94 0xe0 0x06 []])"
    by (simp add: buildFrame_def frame_of_payload_def frame_of_def)
  then show "map frame_data (received (buildFrame 0x94 0xe0 0x06 [0xfd])) = [[]]"
    by (subst received_scan) (simp_all add: buildFrame_def MAX_BUFFER_SIZE_def)
qed

text \<open>IF shift: for every whole offset from -1200 to 1200 Hz the command is delivered,
  its level reads back in 0..255, and converting the level back gives the offset up to 5 Hz.
  The centre is not exact: setting 0 Hz reads back as 5 Hz.\<close>

lemma js_round_bounds: "of_int (js_round x) \<le> x + 1 / 2" "x - 1 / 2 < of_int (js_round x)"
  unfolding js_round_def by linarith+

lemma if_shift_error:
  assumes "-1200 \<le> hz" "hz \<le> 1200"
  defines "l \<equiv> if_shift_level (of_int hz)"
  shows "0 \<le> l" "l \<le> 255" "\<bar>parseIfShiftResponse (of_int l) - hz\<bar> \<le> 5"
proof -
  define h where "h = (of_int hz :: rat)"
  define p where "p = parseIfShiftResponse (of_int l)"
  have h: "-1200 \<le> h" "h \<le> 1200"
    using assms(1,2) unfolding h_def by linarith+
  have lx: "of_int l \<le> ((h + 1200) / 2400) * 255 + 1/2" "((h + 1200) / 2400) * 255 - 1/2 < of_int l"
    using js_round_bounds[of "((h + 1200) / 2400) * 255"] by (simp_all add: l_def if_shift_level_def h_def)
  then have ly: "2400 * of_int l \<le> 255 * h + 307200" "255 * h + 304800 < 2400 * of_int l"
    by (simp_all add: field_simps)
  then have "(-1 :: rat) < of_int l" "(of_int l :: rat) < 256"
    using h by linarith+
  then show "0 \<le> l" "l \<le> 255" by linarith+
  have px: "(of_int p :: rat) \<le> (of_int l / 255) * 2400 - 1200 + 1 / 2"
    "(of_int l / 255) * 2400 - 1200 - 1 / 2 < (of_int p :: rat)"
    using js_round_bounds[of "(of_int l / 255) * 2400 - 1200"]
    by (simp_all add: p_def parseIfShiftResponse_def)
  then have "510 * (of_int p :: rat) \<le> 4800 * of_int l - 611745" "4800 * of_int l - 612255 < 510 * (of_int p :: rat)"
    by (simp_all add: field_simps)
  then have "of_int p < h + 6" "h - 6 < of_int p"
    using ly by linarith+
  then have "p < hz + 6" "hz - 6 < p"
    unfolding h_def by linarith+
  then show "\<bar>parseIfShiftResponse (of_int l) - hz\<bar> \<le> 5"
    by (simp add: p_def)
qed

theorem if_shift_roundtrip:
  assumes "addr_clean addr" "-1200 \<le> hz" "hz \<le> 1200"
  shows "(\<exists>buf f raw. setIfShift addr (of_int hz) = Inr buf \<and> received buf = [f] \<and>
      parseLevelResponse f = Some raw \<and> raw \<le> 255 \<and>
      \<bar>parseIfShiftResponse (of_nat raw) - hz\<bar> \<le> 5) \<and>
    parseIfShiftResponse (of_int (if_shift_level 0)) = 5"
proof -
  define l where "l = if_shift_level (of_int hz)"
  note err = if_shift_error[OF assms(2,3), folded l_def]
  have up: "toUpperCase ''IF_SHIFT'' = ''IF_SHIFT''" by code_simp
  obtain buf where buf: "setLevel addr ''IF_SHIFT'' (of_int l) = Inr buf"
    by (simp add: setLevel_def up CIV_LEVEL_SUB_def)
  obtain f where f: "received buf = [f]" "parseLevelResponse f = Some (nat l)"
    using set_level_read[OF assms(1) buf] err(1,2) by auto
  have "\<bar>parseIfShiftResponse (of_nat (nat l)) - hz\<bar> \<le> 5" "nat l \<le> 255"
    using err by simp_all
  with buf f have "\<exists>buf f raw. setIfShift addr (of_int hz) = Inr buf \<and> received buf = [f] \<and>
      parseLevelResponse f = Some raw \<and> raw \<le> 255 \<and>
      \<bar>parseIfShiftResponse (of_nat raw) - hz\<bar> \<le> 5"
    unfolding setIfShift_def l_def by blast
  moreover have "parseIfShiftResponse (of_int (if_shift_level 0)) = 5"
    by (simp add: parseIfShiftResponse_def if_shift_level_def js_round_def floor_eq_iff)
  ultimately show ?thesis ..
qed

theorem if_shift_roundtrip_witness:
  "\<exists>buf f raw. setIfShift \<lparr>radio = 0x94, controller = 0xe0\<rparr> (of_int (-350)) = Inr buf \<and>
      received buf = [f] \<and> parseLevelResponse f = Some raw \<and> raw \<le> 255 \<and>
      \<bar>parseIfShiftResponse (of_nat raw) + 350\<bar> \<le> 5"
  using if_shift_roundtrip[of "\<lparr>radio = 0x94, controller = 0xe0\<rparr>" "-350"]
  by (simp add: addr_clean_def)

end
