(* ===== verification/PromiseQueue.thy ===== *)
theory PromiseQueue
  imports Prelude "HOL-Library.Multiset" "HOL-Library.Sublist"
begin

text \<open>
  The contract of a promise-chained operation queue. Two classes of the bridge serialise
  their work the same way (\<open>run = tail.then(op, op); tail = run.then(noop, noop)\<close>): the
  manual-PTT controller and the CI-V session. Both are step functions over events; the
  contract says that a step keeps an invariant and that every call is in exactly one place:
  still open, or answered. From that follows, once for both, that over any run no call is
  lost and none is answered twice, and that operations start in the order of the calls.
\<close>

fun steps :: "('s \<Rightarrow> 'e \<Rightarrow> 's \<times> 'o list) \<Rightarrow> 's \<Rightarrow> 'e list \<Rightarrow> 's \<times> 'o list" where
  "steps f s [] = (s, [])"
| "steps f s (e # es) = (let (s1, o1) = f s e; (s2, o2) = steps f s1 es in (s2, o1 @ o2))"

lemma steps_append:
  "steps f s (es @ fs) =
     (let (s1, o1) = steps f s es; (s2, o2) = steps f s1 fs in (s2, o1 @ o2))"
  by (induction es arbitrary: s) (auto simp: Let_def split: prod.splits)

lemma steps_ok:
  "(\<And>s e. ok s \<Longrightarrow> ok (fst (f s e))) \<Longrightarrow> ok s \<Longrightarrow> ok (fst (steps f s es))"
proof (induction es arbitrary: s)
  case Nil
  then show ?case by simp
next
  case (Cons e es)
  have "ok (fst (f s e))" using Cons.prems by blast
  from Cons.IH[OF Cons.prems(1) this] show ?case by (simp add: Let_def case_prod_beta)
qed

locale promise_queue =
  fixes stp :: "'s \<Rightarrow> 'e \<Rightarrow> 's \<times> 'o list"
    and ok :: "'s \<Rightarrow> bool"
    and opens :: "'s \<Rightarrow> 'id list"
    and calls :: "'e \<Rightarrow> 'id list"
    and closes :: "'o list \<Rightarrow> 'id list"
  assumes ok_step: "ok s \<Longrightarrow> ok (fst (stp s e))"
    and closes_append: "closes (xs @ ys) = closes xs @ closes ys"
    and balance: "ok s \<Longrightarrow>
      mset (closes (snd (stp s e))) + mset (opens (fst (stp s e))) = mset (opens s) + mset (calls e)"
begin

lemma closes_Nil: "closes [] = []"
  using closes_append[of "[]" "[]"] by simp

lemma run_ok: "ok s \<Longrightarrow> ok (fst (steps stp s es))"
  using steps_ok[of ok stp s es] ok_step by blast

lemma run_balance:
  "ok s \<Longrightarrow> mset (closes (snd (steps stp s es))) + mset (opens (fst (steps stp s es)))
     = mset (opens s) + mset (concat (map calls es))"
proof (induction es arbitrary: s)
  case Nil
  then show ?case by (simp add: closes_Nil)
next
  case (Cons e es)
  obtain s1 o1 where st: "stp s e = (s1, o1)" by (cases "stp s e")
  obtain s2 o2 where r: "steps stp s1 es = (s2, o2)" by (cases "steps stp s1 es")
  have "ok s1" using ok_step[OF Cons.prems, of e] st by simp
  from Cons.IH[OF this] r have "mset (closes o2) + mset (opens s2)
      = mset (opens s1) + mset (concat (map calls es))" by simp
  moreover have "mset (closes o1) + mset (opens s1) = mset (opens s) + mset (calls e)"
    using balance[OF Cons.prems, of e] st by simp
  ultimately show ?case
    using st r by (simp add: closes_append ac_simps)
qed

lemma answered_once:
  assumes "ok s" "opens s = []" "distinct (concat (map calls es))"
  shows "distinct (closes (snd (steps stp s es)) @ opens (fst (steps stp s es)))"
    and "set (closes (snd (steps stp s es))) \<subseteq> set (concat (map calls es))"
proof -
  have b: "mset (closes (snd (steps stp s es)) @ opens (fst (steps stp s es)))
      = mset (concat (map calls es))"
    using run_balance[OF assms(1), of es] assms(2) by simp
  then show "distinct (closes (snd (steps stp s es)) @ opens (fst (steps stp s es)))"
    using assms(3) mset_eq_imp_distinct_iff by blast
  show "set (closes (snd (steps stp s es))) \<subseteq> set (concat (map calls es))"
    using mset_eq_setD[OF b] by auto
qed

end

locale fifo_queue = promise_queue stp ok opens calls closes
  for stp :: "'s \<Rightarrow> 'e \<Rightarrow> 's \<times> 'o list" and ok opens
    and calls :: "'e \<Rightarrow> 'id list" and closes +
  fixes waits :: "'s \<Rightarrow> 'id list" and starts :: "'o list \<Rightarrow> 'id list"
  assumes starts_append: "starts (xs @ ys) = starts xs @ starts ys"
    and order: "ok s \<Longrightarrow>
      subseq (starts (snd (stp s e)) @ waits (fst (stp s e))) (waits s @ calls e)"
begin

lemma starts_Nil: "starts [] = []"
  using starts_append[of "[]" "[]"] by simp

lemma run_order:
  "ok s \<Longrightarrow> subseq (starts (snd (steps stp s es)) @ waits (fst (steps stp s es)))
     (waits s @ concat (map calls es))"
proof (induction es arbitrary: s)
  case Nil
  then show ?case by (simp add: starts_Nil)
next
  case (Cons e es)
  obtain s1 o1 where st: "stp s e = (s1, o1)" by (cases "stp s e")
  obtain s2 o2 where r: "steps stp s1 es = (s2, o2)" by (cases "steps stp s1 es")
  have "ok s1" using ok_step[OF Cons.prems, of e] st by simp
  from Cons.IH[OF this] r have "subseq (starts o2 @ waits s2) (waits s1 @ concat (map calls es))"
    by simp
  then have "subseq (starts o1 @ starts o2 @ waits s2)
      ((starts o1 @ waits s1) @ concat (map calls es))" by (simp add: list_emb_append_mono)
  moreover have "subseq ((starts o1 @ waits s1) @ concat (map calls es))
      ((waits s @ calls e) @ concat (map calls es))"
    using order[OF Cons.prems, of e] by (simp only: subseq_append st fst_conv snd_conv)
  ultimately show ?case
    using st r subseq_order.trans by (fastforce simp: starts_append)
qed

lemma subseq_prefix: "subseq xs (xs @ ys)"
  using list_emb_append_mono[of "(=)" xs xs "[]" ys] by simp

lemma starts_in_order:
  "ok s \<Longrightarrow> waits s = [] \<Longrightarrow> subseq (starts (snd (steps stp s es))) (concat (map calls es))"
  using run_order[of s es] by (auto intro: subseq_order.trans[OF subseq_prefix])

end

end
