(* ===== verification/CivSession.thy ===== *)
theory CivSession
  imports CivCommands PromiseQueue
begin

text \<open>
  The CI-V session of \<open>bridge/src/civ/session.ts\<close>: the half-duplex command queue, the
  dispatcher of incoming frames and the assembly of scope sweeps (polling and the rig-control
  setters are in CivPolling).

  The queue is a promise chain: a task starts when the promise of the task before it has
  settled. The model keeps the tasks not yet started in \<open>waiting\<close> and the one whose promise
  is open in \<open>active\<close>. What the environment does is an event: a call, the start of the next
  task (the microtask that the chain schedules), the callback of a write, a timer, incoming
  bytes. A timer or a callback may fire at any time, also late: the guards of the code decide
  whether it has an effect. Log output is left out, the log counters are kept.
\<close>

section \<open>State\<close>

definition COMMAND_TIMEOUT_MS :: int where "COMMAND_TIMEOUT_MS = 500"
definition ASSEMBLY_TIMEOUT_MS :: int where "ASSEMBLY_TIMEOUT_MS = 500"

datatype CivResponseKind = Ack | Data

record TxMeter =
  powerW :: "rat option"
  swr :: "rat option"
  alc :: "rat option"

record RigStatus =
  connected :: bool
  frequency :: "nat option"
  rig_mode :: "string option"
  power :: "rat option"
  ptt :: "bool option"
  vfo_isA :: "bool option"
  split_on :: "bool option"
  smeter :: "rat option"
  rit :: "(bool \<times> int) option"
  xit :: "(bool \<times> int) option"
  anf :: "bool option"
  qsk :: "bool option"
  vox :: "bool option"
  txAntenna :: "string option"
  txMeter :: "TxMeter option"
  cwSpeed :: "nat option"
  ifShift :: "int option"
  agcMode :: "byte option"

record LineAssembly =
  as_scopeMode :: byte
  as_scopeIndex :: byte
  startFreqHz :: nat
  endFreqHz :: nat
  seqMax :: nat
  lastSeq :: nat
  pixels :: buffer
  lastUpdateMs :: int

record PendingCommand =
  expectedCmd :: byte
  expectedSub :: "byte option"
  responseKind :: CivResponseKind
  pend_id :: nat \<comment> \<open>identifies the promise and the timer of the command\<close>

datatype task = SendTask nat buffer CivResponseKind | RawTask nat buffer

fun task_id :: "task \<Rightarrow> nat" where
  "task_id (SendTask i _ _) = i"
| "task_id (RawTask i _) = i"

record CivSession =
  frameParser :: CivFrameParser
  pendingCommand :: "PendingCommand option"
  active :: "task option"
  waiting :: "task list"
  unsolicitedFrameCount :: nat
  scopeFrameCount :: nat
  spectrumLineCount :: nat
  assembly :: "LineAssembly option"
  assemblyTimer :: bool
  spectrumEnabled :: bool
  pollTimer :: bool
  pollInFlight :: bool
  pollCount :: nat
  consecutiveErrors :: nat
  lastStatus :: "RigStatus option"
  lastSmeterDbm :: "rat option"
  warnedUnsupported :: "string list"

definition new_session :: CivSession where
  "new_session = \<lparr>frameParser = new_parser, pendingCommand = None, active = None, waiting = [],
     unsolicitedFrameCount = 0, scopeFrameCount = 0, spectrumLineCount = 0, assembly = None,
     assemblyTimer = False, spectrumEnabled = False, pollTimer = False, pollInFlight = False,
     pollCount = 0, consecutiveErrors = 0, lastStatus = None, lastSmeterDbm = None,
     warnedUnsupported = []\<rparr>"

text \<open>What the session does to the outside: settles promises, writes bytes, calls handlers.\<close>

datatype out =
    Wrote nat buffer
  | Resolved nat "CivFrame option"
  | RawSettled nat bool
  | SpectrumLine CivSpectrumLine
  | UnsolicitedFrequency nat
  | UnsolicitedMode string
  | StatusOut RigStatus
  | SmeterOut rat
  | FatalPollError nat

section \<open>Matching responses\<close>

definition commandUsesSubCommand :: "byte \<Rightarrow> bool" where
  "commandUsesSubCommand cmd \<longleftrightarrow>
     cmd = cmd_byte PTT \<or> cmd = cmd_byte LEVELS \<or> cmd = cmd_byte METERS \<or>
     cmd = cmd_byte FUNCTIONS \<or> cmd = cmd_byte RIT_XIT \<or> cmd = cmd_byte SCOPE_CTRL"

definition pending_of :: "nat \<Rightarrow> buffer \<Rightarrow> CivResponseKind \<Rightarrow> PendingCommand" where
  "pending_of i frame kind =
     (let cmd = byte_at frame 4 in
      \<lparr>expectedCmd = cmd,
       expectedSub = (if commandUsesSubCommand cmd \<and> length frame > 6 then Some (byte_at frame 5) else None),
       responseKind = kind, pend_id = i\<rparr>)"

definition sub_ok :: "PendingCommand \<Rightarrow> CivFrame \<Rightarrow> bool" where
  \<comment> \<open>the two checks both halves of \<open>matchesPending\<close> end with\<close>
  "sub_ok p frame \<longleftrightarrow> command frame = expectedCmd p \<and>
     (expectedSub p = None \<or> subCommand frame = expectedSub p)"

definition matchesPending :: "PendingCommand \<Rightarrow> CivFrame \<Rightarrow> bool" where
  "matchesPending p frame =
     (case responseKind p of
        Ack \<Rightarrow> if isOk frame \<or> isNg frame then True else sub_ok p frame
      | Data \<Rightarrow> if isOk frame then False else if isNg frame then True else sub_ok p frame)"

section \<open>Scope assembly\<close>

definition clearAssemblyTimeout :: "CivSession \<Rightarrow> CivSession" where
  "clearAssemblyTimeout s = s\<lparr>assemblyTimer := False\<rparr>"

definition resetAssemblyTimeout :: "CivSession \<Rightarrow> CivSession" where
  "resetAssemblyTimeout s = s\<lparr>assemblyTimer := True\<rparr>"

definition emitCompleteLine :: "CivSession \<Rightarrow> CivSession \<times> out list" where
  "emitCompleteLine s0 =
     (let s = clearAssemblyTimeout s0 in
      case assembly s of
        None \<Rightarrow> (s\<lparr>assembly := None\<rparr>, [])
      | Some a \<Rightarrow>
          if length (pixels a) = 0 then (s\<lparr>assembly := None\<rparr>, [])
          else
            let (center, span) =
                  (if as_scopeMode a = scope_mode_byte Center
                   then (of_nat (startFreqHz a) :: rat, int (endFreqHz a) * 2)
                   else ((of_nat (startFreqHz a) + of_nat (endFreqHz a)) / 2,
                         int (endFreqHz a) - int (startFreqHz a)))
            in if span \<le> 0 then (s\<lparr>assembly := None\<rparr>, [])
               else (s\<lparr>assembly := None, spectrumLineCount := spectrumLineCount s + 1\<rparr>,
                     [SpectrumLine \<lparr>centerHz = center, spanHz = span, line_pixels = pixels a,
                        line_scopeMode = as_scopeMode a, line_scopeIndex = as_scopeIndex a\<rparr>]))"

definition handleScopeHeader ::
    "int \<Rightarrow> CivSession \<Rightarrow> buffer \<Rightarrow> byte \<Rightarrow> nat \<Rightarrow> CivSession \<times> out list" where
  "handleScopeHeader now s scopeData scopeIndex seq_max =
     (if length scopeData < 15 then (s, [])
      else
        let a = \<lparr>as_scopeMode = byte_at scopeData 3, as_scopeIndex = scopeIndex,
                 startFreqHz = decodeBcdFrequency scopeData 4,
                 endFreqHz = decodeBcdFrequency scopeData 9,
                 seqMax = seq_max, lastSeq = 1, pixels = [], lastUpdateMs = now\<rparr>
        in if seq_max = 1
           then emitCompleteLine (s\<lparr>assembly := Some (a\<lparr>pixels := drop 15 scopeData\<rparr>)\<rparr>)
           else (resetAssemblyTimeout (s\<lparr>assembly := Some a\<rparr>), []))"

definition handleScopePixels :: "int \<Rightarrow> CivSession \<Rightarrow> buffer \<Rightarrow> nat \<Rightarrow> CivSession \<times> out list" where
  "handleScopePixels now s scopeData seq =
     (case assembly s of
        None \<Rightarrow> (s, [])
      | Some a \<Rightarrow>
          if seq \<noteq> lastSeq a + 1 then (s\<lparr>assembly := None\<rparr>, [])
          else
            let a1 = a\<lparr>lastSeq := seq, lastUpdateMs := now, pixels := pixels a @ drop 3 scopeData\<rparr>;
                s1 = s\<lparr>assembly := Some a1\<rparr>
            in if seq = seqMax a then emitCompleteLine s1 else (resetAssemblyTimeout s1, []))"

definition setSpectrumEnabled :: "CivSession \<Rightarrow> bool \<Rightarrow> CivSession" where
  "setSpectrumEnabled s enabled =
     (let s1 = s\<lparr>spectrumEnabled := enabled\<rparr> in
      if \<not> enabled then (clearAssemblyTimeout s1)\<lparr>assembly := None\<rparr> else s1)"

definition resetSpectrum :: "CivSession \<Rightarrow> CivSession" where
  "resetSpectrum s = (setSpectrumEnabled s False)\<lparr>spectrumLineCount := 0\<rparr>"

section \<open>Incoming frames\<close>

definition scope_frame :: "int \<Rightarrow> CivSession \<Rightarrow> CivFrame \<Rightarrow> CivSession \<times> out list" where
  \<comment> \<open>the scope branch of \<open>handleUnsolicitedFrame\<close>\<close>
  "scope_frame now s0 frame =
     (let s = s0\<lparr>scopeFrameCount := scopeFrameCount s0 + 1\<rparr>;
          scopeData = drop 1 (frame_data frame)
      in if length scopeData \<ge> 3
         then let scopeIndex = byte_at scopeData 0;
                  seq = decodeBcdByte (byte_at scopeData 1);
                  seq_max = decodeBcdByte (byte_at scopeData 2)
              in if seq \<ge> 1 \<and> seq_max \<ge> 1
                 then if seq = 1 then handleScopeHeader now s scopeData scopeIndex seq_max
                      else handleScopePixels now s scopeData seq
                 else (s, [])
         else (s, []))"

definition unsolicited_frequency :: "CivSession \<Rightarrow> CivFrame \<Rightarrow> CivSession \<times> out list" where
  "unsolicited_frequency s frame =
     (if (command frame = 0x00 \<or> command frame = cmd_byte READ_FREQ) \<and> length (frame_data frame) \<ge> 5
      then let freq = decodeBcdFrequency (frame_data frame) 0 in
           if freq > 0
           then (case lastStatus s of
                   None \<Rightarrow> (s, [UnsolicitedFrequency freq])
                 | Some st \<Rightarrow> let st1 = st\<lparr>frequency := Some freq\<rparr> in
                     (s\<lparr>lastStatus := Some st1\<rparr>, [UnsolicitedFrequency freq, StatusOut st1]))
           else (s, [])
      else (s, []))"

definition unsolicited_mode :: "CivSession \<Rightarrow> CivFrame \<Rightarrow> CivSession \<times> out list" where
  "unsolicited_mode s frame =
     (if (command frame = 0x01 \<or> command frame = cmd_byte READ_MODE) \<and> length (frame_data frame) \<ge> 1
      then (case map_of CIV_MODE_TO_STRING (byte_at (frame_data frame) 0) of
              None \<Rightarrow> (s, [])
            | Some mode \<Rightarrow>
                (case lastStatus s of
                   None \<Rightarrow> (s, [UnsolicitedMode mode])
                 | Some st \<Rightarrow> let st1 = st\<lparr>rig_mode := Some mode\<rparr> in
                     (s\<lparr>lastStatus := Some st1\<rparr>, [UnsolicitedMode mode, StatusOut st1])))
      else (s, []))"

definition handleUnsolicitedFrame :: "int \<Rightarrow> CivSession \<Rightarrow> CivFrame \<Rightarrow> CivSession \<times> out list" where
  "handleUnsolicitedFrame now s0 frame =
     (let s = s0\<lparr>unsolicitedFrameCount := unsolicitedFrameCount s0 + 1\<rparr> in
      if command frame = cmd_byte SCOPE_DATA \<and>
         subCommand frame = Some (scope_sub_byte WAVE_DATA) \<and> spectrumEnabled s
      then scope_frame now s frame
      else let (s1, o1) = unsolicited_frequency s frame;
               (s2, o2) = unsolicited_mode s1 frame
           in (s2, o1 @ o2))"

definition settle :: "nat \<Rightarrow> CivFrame option \<Rightarrow> CivSession \<Rightarrow> CivSession \<times> out list" where
  \<comment> \<open>\<open>resolve\<close> of a command's promise: no effect when it has settled before\<close>
  "settle i r s =
     (case active s of
        Some (SendTask j f k) \<Rightarrow> if i = j then (s\<lparr>active := None\<rparr>, [Resolved i r]) else (s, [])
      | _ \<Rightarrow> (s, []))"

definition dispatch_frame :: "int \<Rightarrow> CivSession \<Rightarrow> CivFrame \<Rightarrow> CivSession \<times> out list" where
  "dispatch_frame now s frame =
     (case pendingCommand s of
        Some p \<Rightarrow> if matchesPending p frame
                  then settle (pend_id p) (Some frame) (s\<lparr>pendingCommand := None\<rparr>)
                  else handleUnsolicitedFrame now s frame
      | None \<Rightarrow> handleUnsolicitedFrame now s frame)"

fun dispatch_frames :: "int \<Rightarrow> CivSession \<Rightarrow> CivFrame list \<Rightarrow> CivSession \<times> out list" where
  "dispatch_frames now s [] = (s, [])"
| "dispatch_frames now s (f # fs) =
     (let (s1, o1) = dispatch_frame now s f; (s2, o2) = dispatch_frames now s1 fs in (s2, o1 @ o2))"

definition handleIncomingData :: "int \<Rightarrow> CivSession \<Rightarrow> buffer \<Rightarrow> CivSession \<times> out list" where
  "handleIncomingData now s data =
     (let (p, frames) = append_chunk (frameParser s) data
      in dispatch_frames now (s\<lparr>frameParser := p\<rparr>) frames)"

definition resetParser :: "CivSession \<Rightarrow> CivSession" where
  "resetParser s = s\<lparr>frameParser := parser_reset (frameParser s),
     unsolicitedFrameCount := 0, scopeFrameCount := 0\<rparr>"

section \<open>The command queue\<close>

definition cancelPending :: "CivSession \<Rightarrow> CivSession \<times> out list" where
  "cancelPending s =
     (case pendingCommand s of
        None \<Rightarrow> (s, [])
      | Some p \<Rightarrow> let (s1, o1) = settle (pend_id p) None s in (s1\<lparr>pendingCommand := None\<rparr>, o1))"

definition sendCommand :: "nat \<Rightarrow> bool \<Rightarrow> CivSession \<Rightarrow> buffer \<Rightarrow> CivResponseKind \<Rightarrow> CivSession \<times> out list" where
  "sendCommand i ready s frame kind =
     (if \<not> ready then (s, [Resolved i None])
      else (s\<lparr>waiting := waiting s @ [SendTask i frame kind]\<rparr>, []))"

definition sendRaw :: "nat \<Rightarrow> CivSession \<Rightarrow> buffer \<Rightarrow> CivSession \<times> out list" where
  "sendRaw i s data = (s\<lparr>waiting := waiting s @ [RawTask i data]\<rparr>, [])"

definition start_next :: "bool \<Rightarrow> CivSession \<Rightarrow> CivSession \<times> out list" where
  \<comment> \<open>\<open>runInCommandQueue\<close>: the body of the next task, once the one before it has settled\<close>
  "start_next ready s =
     (case active s of
        Some _ \<Rightarrow> (s, [])
      | None \<Rightarrow>
          (case waiting s of
             [] \<Rightarrow> (s, [])
           | RawTask i data # ts \<Rightarrow>
               (s\<lparr>waiting := ts, active := Some (RawTask i data)\<rparr>, [Wrote i data])
           | SendTask i frame kind # ts \<Rightarrow>
               if \<not> ready then (s\<lparr>waiting := ts\<rparr>, [Resolved i None])
               else
                 let old = (case pendingCommand s of None \<Rightarrow> [] | Some p \<Rightarrow> [Resolved (pend_id p) None])
                 in (s\<lparr>waiting := ts, active := Some (SendTask i frame kind),
                       pendingCommand := Some (pending_of i frame kind)\<rparr>,
                     old @ [Wrote i frame])))"

definition pending_is :: "nat \<Rightarrow> CivSession \<Rightarrow> bool" where
  \<comment> \<open>\<open>this.pendingCommand?.timer === timer\<close>\<close>
  "pending_is i s \<longleftrightarrow> (case pendingCommand s of None \<Rightarrow> False | Some p \<Rightarrow> pend_id p = i)"

definition command_timeout :: "nat \<Rightarrow> CivSession \<Rightarrow> CivSession \<times> out list" where
  "command_timeout i s =
     (if pending_is i s then settle i None (s\<lparr>pendingCommand := None\<rparr>) else (s, []))"

definition write_callback :: "nat \<Rightarrow> bool \<Rightarrow> CivSession \<Rightarrow> CivSession \<times> out list" where
  "write_callback i err s =
     (case active s of
        Some (RawTask j data) \<Rightarrow>
          if i = j then (s\<lparr>active := None\<rparr>, [RawSettled i (\<not> err)]) else (s, [])
      | _ \<Rightarrow>
          if err then settle i None (if pending_is i s then s\<lparr>pendingCommand := None\<rparr> else s)
          else (s, []))"

definition assembly_timeout :: "CivSession \<Rightarrow> CivSession" where
  "assembly_timeout s = (if assemblyTimer s then s\<lparr>assemblyTimer := False, assembly := None\<rparr> else s)"

section \<open>Runs\<close>

datatype event =
    CallSend nat bool buffer CivResponseKind
  | CallRaw nat buffer
  | StartNext bool
  | WriteCallback nat bool
  | TimerFires nat
  | Incoming int buffer
  | CancelPending
  | ResetParser
  | SetSpectrum bool
  | ResetSpectrum
  | AssemblyTimeout

fun step :: "CivSession \<Rightarrow> event \<Rightarrow> CivSession \<times> out list" where
  "step s (CallSend i ready frame kind) = sendCommand i ready s frame kind"
| "step s (CallRaw i data) = sendRaw i s data"
| "step s (StartNext ready) = start_next ready s"
| "step s (WriteCallback i err) = write_callback i err s"
| "step s (TimerFires i) = command_timeout i s"
| "step s (Incoming now data) = handleIncomingData now s data"
| "step s CancelPending = cancelPending s"
| "step s ResetParser = (resetParser s, [])"
| "step s (SetSpectrum b) = (setSpectrumEnabled s b, [])"
| "step s ResetSpectrum = (resetSpectrum s, [])"
| "step s AssemblyTimeout = (assembly_timeout s, [])"

abbreviation run :: "CivSession \<Rightarrow> event list \<Rightarrow> CivSession \<times> out list" where
  "run \<equiv> steps step"

section \<open>The queue contract holds\<close>

fun out_closed :: "out \<Rightarrow> nat list" where
  "out_closed (Resolved i r) = [i]"
| "out_closed (RawSettled i b) = [i]"
| "out_closed _ = []"

fun out_written :: "out \<Rightarrow> nat list" where
  "out_written (Wrote i b) = [i]"
| "out_written _ = []"

definition closed_ids :: "out list \<Rightarrow> nat list" where
  "closed_ids os = concat (map out_closed os)"

definition written_ids :: "out list \<Rightarrow> nat list" where
  "written_ids os = concat (map out_written os)"

fun called_ids :: "event \<Rightarrow> nat list" where
  "called_ids (CallSend i ready f k) = [i]"
| "called_ids (CallRaw i d) = [i]"
| "called_ids _ = []"

definition waiting_ids :: "CivSession \<Rightarrow> nat list" where
  "waiting_ids s = map task_id (waiting s)"

definition open_ids :: "CivSession \<Rightarrow> nat list" where
  "open_ids s = (case active s of None \<Rightarrow> [] | Some t \<Rightarrow> [task_id t]) @ waiting_ids s"

definition session_ok :: "CivSession \<Rightarrow> bool" where
  \<comment> \<open>a command is pending exactly while its task is the active one\<close>
  "session_ok s \<longleftrightarrow> pendingCommand s =
     (case active s of Some (SendTask i f k) \<Rightarrow> Some (pending_of i f k) | _ \<Rightarrow> None)"

definition queue_part :: "CivSession \<Rightarrow> PendingCommand option \<times> task option \<times> task list" where
  "queue_part s = (pendingCommand s, active s, waiting s)"

definition quiet :: "CivSession \<Rightarrow> CivSession \<times> out list \<Rightarrow> bool" where
  \<comment> \<open>the queue is untouched and no promise or write is among the outputs\<close>
  "quiet s r \<longleftrightarrow> queue_part (fst r) = queue_part s \<and>
     closed_ids (snd r) = [] \<and> written_ids (snd r) = []"

lemma ids_append [simp]:
  "closed_ids (xs @ ys) = closed_ids xs @ closed_ids ys"
  "written_ids (xs @ ys) = written_ids xs @ written_ids ys"
  by (simp_all add: closed_ids_def written_ids_def)

lemma ids_simps [simp]:
  "closed_ids [] = []" "written_ids [] = []"
  "closed_ids (x # xs) = out_closed x @ closed_ids xs"
  "written_ids (x # xs) = out_written x @ written_ids xs"
  by (simp_all add: closed_ids_def written_ids_def)

lemma queue_part_cong:
  "queue_part s = queue_part t \<Longrightarrow> session_ok s = session_ok t \<and> open_ids s = open_ids t \<and>
     waiting_ids s = waiting_ids t"
  by (simp add: queue_part_def session_ok_def open_ids_def waiting_ids_def)

lemmas scope_defs = clearAssemblyTimeout_def resetAssemblyTimeout_def emitCompleteLine_def
  handleScopeHeader_def handleScopePixels_def scope_frame_def Let_def

lemma quiet_emit: "quiet s (emitCompleteLine s)"
  by (simp add: quiet_def queue_part_def emitCompleteLine_def clearAssemblyTimeout_def Let_def
      split: option.splits)

lemma quiet_scope: "quiet s (scope_frame now s f)"
  using quiet_emit
  by (auto simp: quiet_def queue_part_def scope_frame_def handleScopeHeader_def
      handleScopePixels_def resetAssemblyTimeout_def Let_def split: option.splits)

lemma quiet_unsolicited: "quiet s (handleUnsolicitedFrame now s f)"
proof -
  have "quiet s (scope_frame now (s\<lparr>unsolicitedFrameCount := n\<rparr>) f)" for n
    using quiet_scope[of "s\<lparr>unsolicitedFrameCount := n\<rparr>" now f] by (simp add: quiet_def queue_part_def)
  then show ?thesis
    by (auto simp: handleUnsolicitedFrame_def unsolicited_frequency_def unsolicited_mode_def
        quiet_def queue_part_def Let_def split: option.splits prod.splits if_splits)
qed

definition balanced :: "CivSession \<Rightarrow> nat list \<Rightarrow> CivSession \<times> out list \<Rightarrow> bool" where
  \<comment> \<open>one step's part of the contract: invariant, every call open or answered once, order\<close>
  "balanced s called r \<longleftrightarrow> session_ok (fst r) \<and>
     mset (closed_ids (snd r)) + mset (open_ids (fst r)) = mset (open_ids s) + mset called \<and>
     subseq (written_ids (snd r) @ waiting_ids (fst r)) (waiting_ids s @ called)"

lemma quiet_balanced: "quiet s r \<Longrightarrow> session_ok s \<Longrightarrow> balanced s [] r"
  using queue_part_cong[of "fst r" s] by (simp add: quiet_def balanced_def)

lemma balanced_cong: "queue_part s = queue_part t \<Longrightarrow> balanced s cs r = balanced t cs r"
  using queue_part_cong[of s t] by (simp add: balanced_def)

lemma settle_active_balanced:
  "active s = Some (SendTask i f k) \<Longrightarrow> balanced s [] (settle i r (s\<lparr>pendingCommand := None\<rparr>))"
  by (simp add: balanced_def settle_def session_ok_def open_ids_def waiting_ids_def)

lemma session_ok_pending:
  "session_ok s \<Longrightarrow> pendingCommand s = Some p \<Longrightarrow>
     \<exists>f k. active s = Some (SendTask (pend_id p) f k) \<and> p = pending_of (pend_id p) f k"
  by (auto simp: session_ok_def pending_of_def Let_def split: option.splits task.splits)

lemma dispatch_frame_balanced: "session_ok s \<Longrightarrow> balanced s [] (dispatch_frame now s f)"
proof (cases "pendingCommand s")
  case None
  assume "session_ok s"
  with None show ?thesis
    by (simp add: dispatch_frame_def quiet_balanced quiet_unsolicited)
next
  case (Some p)
  assume ok: "session_ok s"
  then obtain g k where "active s = Some (SendTask (pend_id p) g k)"
    using session_ok_pending Some by blast
  with ok Some show ?thesis
    by (simp add: dispatch_frame_def quiet_balanced quiet_unsolicited settle_active_balanced)
qed

lemma balanced_seq:
  assumes "balanced s cs (s1, o1)" "balanced s1 [] (s2, o2)"
  shows "balanced s cs (s2, o1 @ o2)"
proof -
  from assms(2) have "subseq (written_ids o2 @ waiting_ids s2) (waiting_ids s1)"
    by (simp add: balanced_def)
  then have "subseq (written_ids o1 @ written_ids o2 @ waiting_ids s2) (written_ids o1 @ waiting_ids s1)"
    by (simp add: list_emb_append_mono)
  then have "subseq ((written_ids o1 @ written_ids o2) @ waiting_ids s2) (waiting_ids s @ cs)"
    using assms(1) subseq_order.trans by (fastforce simp: balanced_def)
  with assms show ?thesis by (simp add: balanced_def ac_simps)
qed

lemma dispatch_frames_balanced: "session_ok s \<Longrightarrow> balanced s [] (dispatch_frames now s fs)"
proof (induction fs arbitrary: s)
  case Nil
  then show ?case by (simp add: balanced_def)
next
  case (Cons f fs)
  obtain s1 o1 where d: "dispatch_frame now s f = (s1, o1)" by (cases "dispatch_frame now s f")
  have b: "balanced s [] (s1, o1)" using dispatch_frame_balanced[OF Cons.prems, of now f] d by simp
  then have "session_ok s1" by (simp add: balanced_def)
  from balanced_seq[OF b] Cons.IH[OF this] d show ?case
    by (cases "dispatch_frames now s1 fs") simp
qed

lemma step_balanced: "session_ok s \<Longrightarrow> balanced s (called_ids e) (step s e)"
proof (cases e)
  case (Incoming now data)
  assume ok: "session_ok s"
  obtain p frames where a: "append_chunk (frameParser s) data = (p, frames)"
    by (cases "append_chunk (frameParser s) data")
  have q: "queue_part (s\<lparr>frameParser := p\<rparr>) = queue_part s" by (simp add: queue_part_def)
  with ok have "session_ok (s\<lparr>frameParser := p\<rparr>)" using queue_part_cong by blast
  from dispatch_frames_balanced[OF this] a Incoming show ?thesis
    by (simp add: handleIncomingData_def balanced_cong[OF q])
next
  case CancelPending
  assume ok: "session_ok s"
  then show ?thesis
  proof (cases "pendingCommand s")
    case None
    with ok CancelPending show ?thesis by (simp add: cancelPending_def balanced_def)
  next
    case (Some p)
    then obtain g k where "active s = Some (SendTask (pend_id p) g k)"
      using session_ok_pending[OF ok] by blast
    with Some CancelPending show ?thesis
      by (simp add: cancelPending_def settle_def balanced_def session_ok_def open_ids_def waiting_ids_def)
  qed
next
  case (TimerFires i)
  assume ok: "session_ok s"
  show ?thesis
  proof (cases "pending_is i s")
    case False
    with ok TimerFires show ?thesis by (simp add: command_timeout_def balanced_def)
  next
    case True
    then obtain p where "pendingCommand s = Some p" "pend_id p = i"
      by (auto simp: pending_is_def split: option.splits)
    then obtain g k where "active s = Some (SendTask i g k)"
      using session_ok_pending[OF ok] by blast
    with True TimerFires show ?thesis by (simp add: command_timeout_def settle_active_balanced)
  qed
next
  case (WriteCallback i err)
  assume ok: "session_ok s"
  show ?thesis
  proof (cases "active s")
    case None
    with ok have "pendingCommand s = None" by (simp add: session_ok_def)
    with None ok WriteCallback show ?thesis
      by (simp add: write_callback_def settle_def pending_is_def balanced_def)
  next
    case (Some t)
    show ?thesis
    proof (cases t)
      case (RawTask j d)
      with Some ok WriteCallback show ?thesis
        by (simp add: write_callback_def balanced_def session_ok_def open_ids_def waiting_ids_def)
    next
      case (SendTask j g k)
      with Some ok have "pendingCommand s = Some (pending_of j g k)" by (simp add: session_ok_def)
      then have "pending_is i s \<longleftrightarrow> i = j"
        by (auto simp: pending_is_def pending_of_def Let_def)
      with Some SendTask ok WriteCallback show ?thesis
        using settle_active_balanced[of s j g k None]
        by (auto simp: write_callback_def balanced_def settle_def)
    qed
  qed
next
  case (StartNext ready)
  assume "session_ok s"
  with StartNext show ?thesis
    by (auto simp: start_next_def balanced_def session_ok_def open_ids_def waiting_ids_def
        split: option.splits list.splits task.splits)
qed (auto simp: sendCommand_def sendRaw_def balanced_def session_ok_def open_ids_def waiting_ids_def
      resetParser_def resetSpectrum_def setSpectrumEnabled_def clearAssemblyTimeout_def
      assembly_timeout_def Let_def split: option.splits task.splits)

interpretation cq: fifo_queue step session_ok open_ids called_ids closed_ids waiting_ids written_ids
  using step_balanced by unfold_locales (simp_all add: balanced_def)

lemma new_session_ok [simp]: "session_ok new_session" "open_ids new_session = []" "waiting_ids new_session = []"
  by (simp_all add: new_session_def session_ok_def open_ids_def waiting_ids_def)

lemma reachable_ok: "session_ok (fst (run new_session es))"
  using cq.run_ok[of new_session es] by simp

section \<open>Responses\<close>

lemma quiet_no_answer: "quiet s r \<Longrightarrow> Resolved i x \<notin> set (snd r)"
proof
  assume "quiet s r" "Resolved i x \<in> set (snd r)"
  then have "i \<in> set (closed_ids (snd r))"
    by (force simp: closed_ids_def)
  with \<open>quiet s r\<close> show False by (simp add: quiet_def)
qed

definition answers :: "CivSession \<Rightarrow> nat \<Rightarrow> CivFrame \<Rightarrow> bool" where
  \<comment> \<open>the frame is a response the active command accepts\<close>
  "answers s i f \<longleftrightarrow> (\<exists>g k. active s = Some (SendTask i g k) \<and> matchesPending (pending_of i g k) f)"

lemma answers_cong: "queue_part s = queue_part t \<Longrightarrow> answers s i f = answers t i f"
  by (simp add: queue_part_def answers_def)

lemma dispatch_frames_no_active:
  "active s = None \<Longrightarrow> session_ok s \<Longrightarrow> Resolved i x \<notin> set (snd (dispatch_frames now s fs))"
proof (induction fs arbitrary: s)
  case Nil
  then show ?case by simp
next
  case (Cons f fs)
  then have p: "pendingCommand s = None" by (simp add: session_ok_def)
  obtain s1 o1 where d: "handleUnsolicitedFrame now s f = (s1, o1)"
    by (cases "handleUnsolicitedFrame now s f")
  have q: "quiet s (s1, o1)" using quiet_unsolicited[of s now f] d by simp
  then have "active s1 = None" "session_ok s1"
    using Cons.prems queue_part_cong[of s1 s] by (auto simp: quiet_def queue_part_def)
  with Cons.IH[of s1] p d quiet_no_answer[OF q] show ?case
    by (cases "dispatch_frames now s1 fs") (simp add: dispatch_frame_def)
qed

lemma dispatch_frames_answer:
  "session_ok s \<Longrightarrow> Resolved i (Some f) \<in> set (snd (dispatch_frames now s fs)) \<Longrightarrow> answers s i f"
proof (induction fs arbitrary: s)
  case Nil
  then show ?case by simp
next
  case (Cons g fs)
  obtain s1 o1 where d: "dispatch_frame now s g = (s1, o1)" by (cases "dispatch_frame now s g")
  have ok1: "session_ok s1"
    using dispatch_frame_balanced[OF Cons.prems(1), of now g] d by (simp add: balanced_def)
  show ?case
  proof (cases "\<exists>p. pendingCommand s = Some p \<and> matchesPending p g")
    case True
    then obtain p where p: "pendingCommand s = Some p" "matchesPending p g" by blast
    with session_ok_pending[OF Cons.prems(1)] obtain h k where
      act: "active s = Some (SendTask (pend_id p) h k)" "p = pending_of (pend_id p) h k" by blast
    from p act d have "active s1 = None" "o1 = [Resolved (pend_id p) (Some g)]"
      by (auto simp: dispatch_frame_def settle_def)
    with Cons.prems(2) d dispatch_frames_no_active[of s1 i "Some f" now fs] ok1
    have "i = pend_id p" "f = g"
      by (auto simp: case_prod_beta Let_def)
    with p(2) act show ?thesis by (auto simp: answers_def)
  next
    case False
    then have d2: "handleUnsolicitedFrame now s g = (s1, o1)"
      using d by (auto simp: dispatch_frame_def split: option.splits if_splits)
    have q: "quiet s (s1, o1)" using quiet_unsolicited[of s now g] d2 by simp
    with Cons.prems(2) d quiet_no_answer[OF q, of i "Some f"]
    have "Resolved i (Some f) \<in> set (snd (dispatch_frames now s1 fs))"
      by (auto simp: case_prod_beta Let_def)
    from Cons.IH[OF ok1 this] q show ?thesis
      using answers_cong[of s1 s] by (simp add: quiet_def)
  qed
qed

lemma step_answer:
  assumes "session_ok s" "Resolved i (Some f) \<in> set (snd (step s e))"
  shows "answers s i f"
proof (cases e)
  case (Incoming now data)
  obtain p frames where a: "append_chunk (frameParser s) data = (p, frames)"
    by (cases "append_chunk (frameParser s) data")
  have q: "queue_part (s\<lparr>frameParser := p\<rparr>) = queue_part s" by (simp add: queue_part_def)
  then have "session_ok (s\<lparr>frameParser := p\<rparr>)" using assms(1) queue_part_cong by blast
  from dispatch_frames_answer[OF this] assms(2) a Incoming have "answers (s\<lparr>frameParser := p\<rparr>) i f"
    by (simp add: handleIncomingData_def)
  then show ?thesis using answers_cong[OF q] by simp
qed (use assms in \<open>auto simp: sendCommand_def sendRaw_def start_next_def write_callback_def
      command_timeout_def cancelPending_def settle_def split: option.splits task.splits list.splits if_splits\<close>)

section \<open>Properties of the queue\<close>

text \<open>C4: No command is lost and none is answered twice: after any sequence of events from
  the initial session, the calls answered (with a frame, with null, or for a raw write with
  its outcome) together with the calls still queued or in flight are exactly the calls made.\<close>

theorem session_conserves_calls:
  "mset (closed_ids (snd (run new_session es))) + mset (open_ids (fst (run new_session es)))
     = mset (concat (map called_ids es))"
  using cq.run_balance[of new_session es] by simp

text \<open>Commands are written to the radio in the order they were called; a command that is
  dropped because the transport was not ready is skipped, never reordered.\<close>

theorem session_writes_in_order:
  "subseq (written_ids (snd (run new_session es))) (concat (map called_ids es))"
  using cq.starts_in_order[of new_session es] by simp

text \<open>The queue cannot stall on a silent radio: in every reachable state with a command in
  flight, that command's timeout answers it with null and frees the queue, and the next
  queued command is then written (transport ready).\<close>

theorem session_timeout_frees_queue:
  assumes "s = fst (run new_session es)" "active s = Some (SendTask i f k)"
    "waiting s = SendTask j g l # ts"
  shows "step s (TimerFires i)
      = (s\<lparr>pendingCommand := None, active := None\<rparr>, [Resolved i None]) \<and>
    snd (run s [TimerFires i, StartNext True]) = [Resolved i None, Wrote j g]"
proof -
  have "pendingCommand s = Some (pending_of i f k)"
    using reachable_ok[of es] assms(1,2) by (simp add: session_ok_def)
  then have "step s (TimerFires i)
      = (s\<lparr>pendingCommand := None, active := None\<rparr>, [Resolved i None])"
    using assms(2) by (simp add: command_timeout_def pending_is_def pending_of_def settle_def Let_def)
  then show ?thesis
    using assms(3) by (simp add: start_next_def)
qed

theorem session_timeout_frees_queue_witness:
  "snd (run (fst (run new_session [CallSend 1 True [0xfe, 0xfe, 0x94, 0xe0, 0x03, 0xfd] Data,
       CallSend 2 True [0xfe, 0xfe, 0x94, 0xe0, 0x04, 0xfd] Data, StartNext True]))
     [TimerFires 1, StartNext True]) = [Resolved 1 None, Wrote 2 [0xfe, 0xfe, 0x94, 0xe0, 0x04, 0xfd]]"
  using session_timeout_frees_queue[OF refl, of "[CallSend 1 True [0xfe, 0xfe, 0x94, 0xe0, 0x03, 0xfd] Data,
       CallSend 2 True [0xfe, 0xfe, 0x94, 0xe0, 0x04, 0xfd] Data, StartNext True]" 1
       "[0xfe, 0xfe, 0x94, 0xe0, 0x03, 0xfd]" Data 2 "[0xfe, 0xfe, 0x94, 0xe0, 0x04, 0xfd]" Data "[]"]
  by (simp add: sendCommand_def start_next_def new_session_def)

text \<open>A response frame only ever answers the command in flight, and only when it matches
  it: the radio refused (NG), or the command byte (and the sub-command, where the command has
  one) is the one sent, or the call waits for an acknowledgement and this is an OK. So a late
  OK never completes a data read.\<close>

theorem session_answer_matches:
  assumes "Resolved i (Some f) \<in> set (snd (step (fst (run new_session es)) e))"
  shows "\<exists>g k. active (fst (run new_session es)) = Some (SendTask i g k) \<and>
    (isNg f \<or> (k = Ack \<and> isOk f) \<or> (\<not> isOk f \<or> k = Ack) \<and> command f = byte_at g 4 \<and>
       (commandUsesSubCommand (byte_at g 4) \<and> length g > 6 \<longrightarrow> subCommand f = Some (byte_at g 5)))"
proof -
  from step_answer[OF reachable_ok assms] obtain g k where
    "active (fst (run new_session es)) = Some (SendTask i g k)" "matchesPending (pending_of i g k) f"
    by (auto simp: answers_def)
  moreover from this(2) have "isNg f \<or> (k = Ack \<and> isOk f) \<or> (\<not> isOk f \<or> k = Ack) \<and> command f = byte_at g 4 \<and>
       (commandUsesSubCommand (byte_at g 4) \<and> length g > 6 \<longrightarrow> subCommand f = Some (byte_at g 5))"
    by (cases k) (auto simp: matchesPending_def pending_of_def sub_ok_def Let_def split: if_splits)
  ultimately show ?thesis by blast
qed

theorem session_answer_matches_witness:
  "\<exists>g k. active (fst (run new_session [CallSend 1 True [0xfe, 0xfe, 0x94, 0xe0, 0x04, 0xfd] Data, StartNext True]))
       = Some (SendTask 1 g k) \<and>
     (let f = frame_of 0xe0 0x94 0x04 [0x01, 0x02] in
        isNg f \<or> (k = Ack \<and> isOk f) \<or> (\<not> isOk f \<or> k = Ack) \<and> command f = byte_at g 4 \<and>
       (commandUsesSubCommand (byte_at g 4) \<and> length g > 6 \<longrightarrow> subCommand f = Some (byte_at g 5)))"
proof -
  have "Resolved 1 (Some (frame_of 0xe0 0x94 0x04 [0x01, 0x02])) \<in>
    set (snd (step (fst (run new_session
      [CallSend 1 True [0xfe, 0xfe, 0x94, 0xe0, 0x04, 0xfd] Data, StartNext True]))
      (Incoming 0 [0xfe, 0xfe, 0xe0, 0x94, 0x04, 0x01, 0x02, 0xfd])))"
    by code_simp
  from session_answer_matches[OF this] show ?thesis by (simp add: Let_def)
qed

section \<open>A scope sweep becomes one line\<close>

definition seq_byte :: "nat \<Rightarrow> byte" where
  "seq_byte k = bcd_byte (int (k div 10)) (int (k mod 10))"

definition wave_frame :: "byte \<Rightarrow> byte \<Rightarrow> buffer \<Rightarrow> CivFrame" where
  \<comment> \<open>a wave-data frame as the radio sends it\<close>
  "wave_frame to from scopeData = frame_of to from (cmd_byte SCOPE_DATA) (scope_sub_byte WAVE_DATA # scopeData)"

definition header_data :: "byte \<Rightarrow> nat \<Rightarrow> byte \<Rightarrow> rat \<Rightarrow> rat \<Rightarrow> byte \<Rightarrow> buffer" where
  "header_data idx n mode a b oor =
     [idx, seq_byte 1, seq_byte n, mode] @ encodeBcdFrequency a @ encodeBcdFrequency b @ [oor]"

definition pixel_data :: "byte \<Rightarrow> nat \<Rightarrow> nat \<Rightarrow> buffer \<Rightarrow> buffer" where
  "pixel_data idx n k px = [idx, seq_byte k, seq_byte n] @ px"

fun sweep_tail :: "byte \<Rightarrow> byte \<Rightarrow> byte \<Rightarrow> nat \<Rightarrow> nat \<Rightarrow> buffer list \<Rightarrow> CivFrame list" where
  "sweep_tail to from idx n k [] = []"
| "sweep_tail to from idx n k (px # ps) =
     wave_frame to from (pixel_data idx n k px) # sweep_tail to from idx n (Suc k) ps"

lemma decode_seq_byte: "k < 100 \<Longrightarrow> decodeBcdByte (seq_byte k) = k"
proof -
  assume k: "k < 100"
  have "10 * int (k div 10) + int (k mod 10) = int k" by (simp add: zdiv_int zmod_int)
  with k show ?thesis by (simp add: seq_byte_def decode_bcd_byte)
qed

lemma dispatch_wave:
  "pendingCommand s = None \<Longrightarrow> spectrumEnabled s \<Longrightarrow>
     dispatch_frame now s (wave_frame to from d)
       = scope_frame now (s\<lparr>unsolicitedFrameCount := unsolicitedFrameCount s + 1\<rparr>) (wave_frame to from d)"
  by (simp add: dispatch_frame_def handleUnsolicitedFrame_def wave_frame_def frame_of_def Let_def)

definition line_of :: "LineAssembly \<Rightarrow> buffer \<Rightarrow> CivSpectrumLine" where
  "line_of a px =
     (if as_scopeMode a = scope_mode_byte Center
      then \<lparr>centerHz = of_nat (startFreqHz a), spanHz = int (endFreqHz a) * 2, line_pixels = px,
            line_scopeMode = as_scopeMode a, line_scopeIndex = as_scopeIndex a\<rparr>
      else \<lparr>centerHz = (of_nat (startFreqHz a) + of_nat (endFreqHz a)) / 2,
            spanHz = int (endFreqHz a) - int (startFreqHz a), line_pixels = px,
            line_scopeMode = as_scopeMode a, line_scopeIndex = as_scopeIndex a\<rparr>)"

lemma emit_line:
  "assembly s = Some a \<Longrightarrow> pixels a \<noteq> [] \<Longrightarrow> 0 < spanHz (line_of a (pixels a)) \<Longrightarrow>
     snd (emitCompleteLine s) = [SpectrumLine (line_of a (pixels a))] \<and>
     assembly (fst (emitCompleteLine s)) = None"
  by (cases "as_scopeMode a = scope_mode_byte Center")
    (simp_all add: emitCompleteLine_def clearAssemblyTimeout_def line_of_def Let_def)

lemma pixels_step:
  assumes "pendingCommand s = None" "spectrumEnabled s" "assembly s = Some a" "lastSeq a = k"
    "1 \<le> k" "Suc k < 100" "n < 100" "1 \<le> n" "seqMax a = n" "n \<noteq> Suc k"
  shows "\<exists>s'. dispatch_frame now s (wave_frame to from (pixel_data idx n (Suc k) px)) = (s', []) \<and>
    pendingCommand s' = None \<and> spectrumEnabled s' \<and>
    assembly s' = Some (a\<lparr>lastSeq := Suc k, lastUpdateMs := now, pixels := pixels a @ px\<rparr>)"
  unfolding dispatch_wave[OF assms(1,2)] using assms
  by (simp add: scope_frame_def wave_frame_def pixel_data_def decode_seq_byte handleScopePixels_def
      resetAssemblyTimeout_def Let_def)

lemma pixels_last:
  assumes "pendingCommand s = None" "spectrumEnabled s" "assembly s = Some a" "lastSeq a = k"
    "1 \<le> k" "n < 100" "seqMax a = n" "n = Suc k" "pixels a @ px \<noteq> []"
    "0 < spanHz (line_of a (pixels a @ px))"
  shows "\<exists>s'. dispatch_frame now s (wave_frame to from (pixel_data idx n (Suc k) px))
      = (s', [SpectrumLine (line_of a (pixels a @ px))]) \<and> assembly s' = None"
proof -
  let ?a = "a\<lparr>lastSeq := Suc k, lastUpdateMs := now, pixels := pixels a @ px\<rparr>"
  let ?s = "s\<lparr>unsolicitedFrameCount := unsolicitedFrameCount s + 1,
    scopeFrameCount := scopeFrameCount s + 1, assembly := Some ?a\<rparr>"
  have l: "line_of ?a q = line_of a q" for q by (simp add: line_of_def)
  have "dispatch_frame now s (wave_frame to from (pixel_data idx n (Suc k) px)) = emitCompleteLine ?s"
    unfolding dispatch_wave[OF assms(1,2)] using assms
    by (simp add: scope_frame_def wave_frame_def pixel_data_def decode_seq_byte handleScopePixels_def Let_def)
  moreover have "snd (emitCompleteLine ?s) = [SpectrumLine (line_of a (pixels a @ px))] \<and>
      assembly (fst (emitCompleteLine ?s)) = None"
    using emit_line[of ?s ?a] assms(9,10) l by simp
  ultimately show ?thesis by (cases "emitCompleteLine ?s") simp
qed

lemma sweep_tail_run:
  assumes "pendingCommand s = None" "spectrumEnabled s" "assembly s = Some a" "lastSeq a = k"
    "1 \<le> k" "n < 100" "seqMax a = n" "n = k + length ps" "ps \<noteq> []" "pixels a @ concat ps \<noteq> []"
    "0 < spanHz (line_of a [])"
  shows "\<exists>s'. dispatch_frames now s (sweep_tail to from idx n (Suc k) ps)
      = (s', [SpectrumLine (line_of a (pixels a @ concat ps))]) \<and> assembly s' = None"
  using assms
proof (induction ps arbitrary: s a k)
  case Nil
  then show ?case by simp
next
  case (Cons px ps)
  have span: "0 < spanHz (line_of a q)" for q
    using Cons.prems(11) by (simp add: line_of_def split: if_splits)
  show ?case
  proof (cases "ps = []")
    case True
    with Cons.prems pixels_last[of s a k n px now to "from" idx] span show ?thesis by auto
  next
    case False
    let ?a = "a\<lparr>lastSeq := Suc k, lastUpdateMs := now, pixels := pixels a @ px\<rparr>"
    have l: "line_of ?a q = line_of a q" for q by (simp add: line_of_def)
    have "n \<noteq> Suc k" "Suc k < 100" "1 \<le> n" using Cons.prems(6,8) False by (cases ps; simp)+
    with pixels_step[of s a k n now to "from" idx px] Cons.prems obtain s1 where
      s1: "dispatch_frame now s (wave_frame to from (pixel_data idx n (Suc k) px)) = (s1, [])"
        "pendingCommand s1 = None" "spectrumEnabled s1" "assembly s1 = Some ?a" by blast
    have "\<exists>s'. dispatch_frames now s1 (sweep_tail to from idx n (Suc (Suc k)) ps)
      = (s', [SpectrumLine (line_of ?a (pixels ?a @ concat ps))]) \<and> assembly s' = None"
      using Cons.prems False s1 span l by (intro Cons.IH) simp_all
    with s1(1) l show ?thesis by auto
  qed
qed

lemma header_step:
  assumes "pendingCommand s = None" "spectrumEnabled s" "2 \<le> n" "n < 100"
    "0 \<le> js_round a" "0 \<le> js_round b"
  shows "\<exists>s' asm. dispatch_frame now s (wave_frame to from (header_data idx n mode a b oor)) = (s', []) \<and>
    pendingCommand s' = None \<and> spectrumEnabled s' \<and> assembly s' = Some asm \<and> lastSeq asm = 1 \<and>
    seqMax asm = n \<and> pixels asm = [] \<and> as_scopeMode asm = mode \<and> as_scopeIndex asm = idx \<and>
    startFreqHz asm = nat (js_round a mod 10 ^ 10) \<and> endFreqHz asm = nat (js_round b mod 10 ^ 10)"
proof -
  let ?h = "header_data idx n mode a b oor"
  let ?p = "[idx, seq_byte 1, seq_byte n, mode]"
  have len: "length ?p = 4" "length (?p @ encodeBcdFrequency a) = 9" by simp_all
  have "decodeBcdFrequency ?h 4 = nat (js_round a mod 10 ^ 10)"
    using decode_encode_frequency[OF assms(5), of ?p "encodeBcdFrequency b @ [oor]"]
    unfolding len header_data_def by simp
  moreover have "decodeBcdFrequency ?h 9 = nat (js_round b mod 10 ^ 10)"
    using decode_encode_frequency[OF assms(6), of "?p @ encodeBcdFrequency a" "[oor]"]
    unfolding len header_data_def by simp
  moreover have "length ?h = 15" "byte_at ?h 0 = idx" "byte_at ?h (Suc 0) = seq_byte 1"
    "byte_at ?h 2 = seq_byte n" "byte_at ?h 3 = mode"
    by (simp_all add: header_data_def)
  ultimately show ?thesis
    unfolding dispatch_wave[OF assms(1,2)] using assms(1-4)
    by (simp add: scope_frame_def wave_frame_def decode_seq_byte handleScopeHeader_def
        resetAssemblyTimeout_def Let_def)
qed

text \<open>C20: A whole scope sweep is reassembled: with the scope on and no command in flight, a
  header frame for a sweep of \<open>n\<close> frames followed by its pixel frames \<open>2 .. n\<close> in order makes
  the session emit exactly one spectrum line, carrying the pixels of all frames in order, the
  mode and scope index of the header, and in centre mode the header's centre and twice its
  half-span, otherwise the middle and the width of its two edges; no half-built line is left.\<close>

theorem scope_sweep_reassembled:
  assumes "pendingCommand s = None" "spectrumEnabled s"
    "n = Suc (length ps)" "ps \<noteq> []" "n < 100" "concat ps \<noteq> []"
    "0 \<le> a" "a < 10 ^ 10" "0 < b" "b < 10 ^ 10" "mode = scope_mode_byte Center \<or> a < b"
  shows "\<exists>s'. dispatch_frames now s
      (wave_frame to from (header_data idx n mode (of_int a) (of_int b) oor) # sweep_tail to from idx n 2 ps)
      = (s', [SpectrumLine
          \<lparr>centerHz = (if mode = scope_mode_byte Center then of_int a else (of_int a + of_int b) / 2),
           spanHz = (if mode = scope_mode_byte Center then b * 2 else b - a),
           line_pixels = concat ps, line_scopeMode = mode, line_scopeIndex = idx\<rparr>]) \<and>
    assembly s' = None"
proof -
  from header_step[of s n "of_int a" "of_int b" now to "from" idx mode oor] assms obtain s1 asm where
    s1: "dispatch_frame now s (wave_frame to from (header_data idx n mode (of_int a) (of_int b) oor)) = (s1, [])"
      "pendingCommand s1 = None" "spectrumEnabled s1" "assembly s1 = Some asm"
    and asm: "lastSeq asm = 1" "seqMax asm = n" "pixels asm = []" "as_scopeMode asm = mode"
      "as_scopeIndex asm = idx" "startFreqHz asm = nat a" "endFreqHz asm = nat b"
    by (cases ps) auto
  have ln: "line_of asm px = \<lparr>centerHz = (if mode = scope_mode_byte Center then of_int a else (of_int a + of_int b) / 2),
           spanHz = (if mode = scope_mode_byte Center then b * 2 else b - a),
           line_pixels = px, line_scopeMode = mode, line_scopeIndex = idx\<rparr>" for px
    using asm assms(7,9) by (simp add: line_of_def)
  have "\<exists>s'. dispatch_frames now s1 (sweep_tail to from idx n (Suc 1) ps)
      = (s', [SpectrumLine (line_of asm (pixels asm @ concat ps))]) \<and> assembly s' = None"
    using assms s1 asm ln by (intro sweep_tail_run) auto
  with s1(1) asm(3) ln show ?thesis by (auto simp: numeral_2_eq_2)
qed

theorem scope_sweep_reassembled_witness:
  "\<exists>s'. dispatch_frames 0 (setSpectrumEnabled new_session True)
      (wave_frame 0xe0 0x94 (header_data 0 3 0 (of_int 14074000) (of_int 25000) 0)
        # sweep_tail 0xe0 0x94 0 3 2 [[1, 2], [3]])
      = (s', [SpectrumLine \<lparr>centerHz = 14074000, spanHz = 50000, line_pixels = [1, 2, 3],
           line_scopeMode = 0, line_scopeIndex = 0\<rparr>]) \<and>
    assembly s' = None"
  using scope_sweep_reassembled[of "setSpectrumEnabled new_session True" 3 "[[1, 2], [3]]" 14074000 25000 0
      0 "0xe0" "0x94" 0 0]
  by (simp add: setSpectrumEnabled_def new_session_def)

end
