(* ===== verification/CivPolling.thy ===== *)
theory CivPolling
  imports CivSession "HOL-Library.Char_ord"
begin

text \<open>
  Status polling and the rig-control setters of \<open>bridge/src/civ/session.ts\<close>.

  A poll awaits one command after another. It takes the status it starts from when it starts,
  and compares and installs its result when it ends, so in between the rest of the session
  runs: an in-flight poll is a value of its own (the captured status and whether the optional
  fields are read), and its end is a separate event. The replies it gets in between are a list
  of reply values, one for each command in order: a frame, \<open>null\<close> (time-out, write error or a
  closed link), or an exception of the transport. The optional-field bookkeeping
  (\<open>warnedUnsupported\<close>) is brought up to date at the end of the poll.
\<close>

section \<open>Acknowledged commands\<close>

datatype ack_outcome = TimedOut | Rejected | Done | UnexpectedResponse

definition sendAndWaitOk :: "buffer \<Rightarrow> CivFrame option \<Rightarrow> ack_outcome" where
  \<comment> \<open>what \<open>sendAndWaitOk\<close> makes of the response of its command\<close>
  "sendAndWaitOk frame response =
     (case response of
        None \<Rightarrow> TimedOut
      | Some r \<Rightarrow>
          if isNg r then Rejected
          else if isOk r \<or> command r = byte_at frame 4 then Done
          else UnexpectedResponse)"

section \<open>Talking to the radio\<close>

datatype reply = Reply "CivFrame option" | WriteThrew string

record poll =
  p_warned :: "string list"
  p_sent :: "buffer list"
  p_replies :: "reply list"

type_synonym 'a act = "poll \<Rightarrow> (string + 'a) \<times> poll"

definition ret :: "'a \<Rightarrow> 'a act" where
  "ret x = (\<lambda>p. (Inr x, p))"

definition throw :: "string \<Rightarrow> 'a act" where
  "throw m = (\<lambda>p. (Inl m, p))"

definition await :: "'a act \<Rightarrow> ('a \<Rightarrow> 'b act) \<Rightarrow> 'b act" where
  "await m k = (\<lambda>p. case m p of (Inl e, q) \<Rightarrow> (Inl e, q) | (Inr x, q) \<Rightarrow> k x q)"

definition ask :: "buffer \<Rightarrow> CivFrame option act" where
  "ask frame = (\<lambda>p. let q = p\<lparr>p_sent := p_sent p @ [frame], p_replies := tl (p_replies p)\<rparr> in
     case p_replies p of
       [] \<Rightarrow> (Inr None, q)
     | Reply r # _ \<Rightarrow> (Inr r, q)
     | WriteThrew m # _ \<Rightarrow> (Inl m, q))"

fun civ_error_message :: "civ_error \<Rightarrow> string" where
  "civ_error_message (UnknownMode m) = ''Unknown CI-V mode: '' @ m"
| "civ_error_message (UnknownMeter m) = ''Unknown meter: '' @ m"
| "civ_error_message (UnknownLevel l) = ''Unknown level: '' @ l"
| "civ_error_message (UnknownFunction f) = ''Unknown function: '' @ f"

definition ask_built :: "civ_error + buffer \<Rightarrow> CivFrame option act" where
  "ask_built b = (case b of Inl e \<Rightarrow> throw (civ_error_message e) | Inr f \<Rightarrow> ask f)"

section \<open>One poll\<close>

definition SMETER_MAX_RAW_n :: nat where "SMETER_MAX_RAW_n = 241"
definition MAX_CONSECUTIVE_ERRORS :: nat where "MAX_CONSECUTIVE_ERRORS = 10"
definition OPTIONAL_POLL_INTERVAL_CYCLES :: nat where "OPTIONAL_POLL_INTERVAL_CYCLES = 5"

definition warn :: "string \<Rightarrow> poll \<Rightarrow> poll" where
  "warn name p = p\<lparr>p_warned := List.insert name (p_warned p)\<rparr>"

definition blank_status :: RigStatus where
  "blank_status = \<lparr>connected = True, frequency = None, rig_mode = None, power = None, ptt = None,
     vfo_isA = None, split_on = None, smeter = None, rit = None, xit = None, anf = None,
     qsk = None, vox = None, txAntenna = None, txMeter = None, cwSpeed = None, ifShift = None,
     agcMode = None\<rparr>"

definition blank_meter :: TxMeter where
  "blank_meter = \<lparr>powerW = None, swr = None, alc = None\<rparr>"

definition read_into :: "civ_error + buffer \<Rightarrow> (CivFrame \<Rightarrow> 'v option) \<Rightarrow> ('v \<Rightarrow> 's \<Rightarrow> 's) \<Rightarrow> 's \<Rightarrow> 's act" where
  \<comment> \<open>\<open>const f = await sendCommand(b); if (f) { const v = parse(f); if (v !== null) put(v) }\<close>\<close>
  "read_into b parse put st = await (ask_built b) (\<lambda>r.
     ret (case r of None \<Rightarrow> st
          | Some f \<Rightarrow> (case parse f of None \<Rightarrow> st | Some v \<Rightarrow> put v st)))"

definition read_smeter :: "CivAddress \<Rightarrow> RigStatus \<Rightarrow> RigStatus act" where
  "read_smeter addr st = await (ask_built (readSmeter addr)) (\<lambda>r.
     case r of
       None \<Rightarrow> ret st
     | Some f \<Rightarrow> (case parseMeterResponse f of
         None \<Rightarrow> ret st
       | Some raw \<Rightarrow> \<lambda>p.
           let q = (if raw > SMETER_MAX_RAW_n \<and> ''SMETER_RANGE'' \<notin> set (p_warned p)
                    then warn ''SMETER_RANGE'' p else p)
           in (Inr (st\<lparr>smeter := Some (rawSmeterToDbm (of_nat raw))\<rparr>), q)))"

definition read_tx_meters :: "CivAddress \<Rightarrow> RigStatus \<Rightarrow> RigStatus act" where
  "read_tx_meters addr st =
     (if ptt st = Some True
      then await (read_into (readPowerMeter addr) parseMeterResponse
               (\<lambda>raw m. m\<lparr>powerW := Some (of_nat raw / 241 * 100)\<rparr>) blank_meter) (\<lambda>m.
           await (read_into (readSwrMeter addr) parseMeterResponse
               (\<lambda>raw m. m\<lparr>swr := Some (1 + of_nat raw / 241 * 2)\<rparr>) m) (\<lambda>m.
           await (read_into (readAlcMeter addr) parseMeterResponse
               (\<lambda>raw m. m\<lparr>alc := Some (of_nat raw / 241)\<rparr>) m) (\<lambda>m.
           ret (st\<lparr>txMeter := Some m\<rparr>))))
      else ret st)"

definition pollOptional :: "string \<Rightarrow> (RigStatus \<Rightarrow> RigStatus act) \<Rightarrow> RigStatus \<Rightarrow> RigStatus act" where
  \<comment> \<open>the body assigns to the status only as its known action, so a throw leaves it unchanged\<close>
  "pollOptional name fn st = (\<lambda>p.
     if name \<in> set (p_warned p) then (Inr st, p)
     else case fn st p of
       (Inr st1, q) \<Rightarrow> (Inr st1, q)
     | (Inl message, q) \<Rightarrow>
         if js_includes message ''timed out'' \<or> js_includes message ''rejected by radio''
         then (Inr st, warn name q) else (Inr st, q))"

definition requireOptionalFrame :: "string \<Rightarrow> CivFrame option \<Rightarrow> CivFrame act" where
  "requireOptionalFrame name frame =
     (case frame of
        None \<Rightarrow> throw (name @ '' timed out'')
      | Some f \<Rightarrow> if isNg f then throw (name @ '' rejected by radio'') else ret f)"

definition parsed :: "string \<Rightarrow> 'v option \<Rightarrow> 'v act" where
  \<comment> \<open>\<open>if (val === null) throw new Error(name + " parse failed")\<close>\<close>
  "parsed name v = (case v of None \<Rightarrow> throw (name @ '' parse failed'') | Some x \<Rightarrow> ret x)"

definition opt_field ::
    "string \<Rightarrow> civ_error + buffer \<Rightarrow> (CivFrame \<Rightarrow> 'v option) \<Rightarrow> ('v \<Rightarrow> RigStatus \<Rightarrow> RigStatus) \<Rightarrow>
     RigStatus \<Rightarrow> RigStatus act" where
  "opt_field name b parse put st =
     await (ask_built b) (\<lambda>r. await (requireOptionalFrame name r) (\<lambda>f.
     await (parsed name (parse f)) (\<lambda>v. ret (put v st))))"

definition opt_rit :: "CivAddress \<Rightarrow> RigStatus \<Rightarrow> RigStatus act" where
  "opt_rit addr st =
     await (ask (readRit addr)) (\<lambda>r. await (requireOptionalFrame ''RIT'' r) (\<lambda>ritFrame.
     await (parsed ''RIT'' (parseRitXitEnableResponse ritFrame)) (\<lambda>enabled.
     await (ask (readRitXitOffset addr)) (\<lambda>r. await (requireOptionalFrame ''RIT_OFFSET'' r) (\<lambda>offsetFrame.
     await (parsed ''RIT offset'' (parseRitXitOffsetResponse offsetFrame)) (\<lambda>offsetHz.
     ret (st\<lparr>rit := Some (enabled, offsetHz)\<rparr>)))))))"

definition opt_xit :: "CivAddress \<Rightarrow> RigStatus \<Rightarrow> RigStatus act" where
  "opt_xit addr = opt_field ''XIT'' (Inr (readXit addr)) parseRitXitEnableResponse
     (\<lambda>enabled st. st\<lparr>xit := Some (enabled, case rit st of None \<Rightarrow> 0 | Some (_, off) \<Rightarrow> off)\<rparr>)"

definition poll_optional_fields :: "CivAddress \<Rightarrow> RigStatus \<Rightarrow> RigStatus act" where
  "poll_optional_fields addr st =
     await (pollOptional ''RIT'' (opt_rit addr) st) (\<lambda>st.
     await (pollOptional ''XIT'' (opt_xit addr) st) (\<lambda>st.
     await (pollOptional ''ANF'' (opt_field ''ANF'' (readFunction addr ''ANF'') parseFunctionResponse
        (\<lambda>v st. st\<lparr>anf := Some v\<rparr>)) st) (\<lambda>st.
     await (pollOptional ''QSK'' (opt_field ''QSK'' (readFunction addr ''BKIN'') parseFunctionResponse
        (\<lambda>v st. st\<lparr>qsk := Some v\<rparr>)) st) (\<lambda>st.
     await (pollOptional ''VOX'' (opt_field ''VOX'' (readFunction addr ''VOX'') parseFunctionResponse
        (\<lambda>v st. st\<lparr>vox := Some v\<rparr>)) st) (\<lambda>st.
     await (pollOptional ''AGC'' (opt_field ''AGC'' (readFunction addr ''AGC'') parseAgcResponse
        (\<lambda>v st. st\<lparr>agcMode := Some v\<rparr>)) st) (\<lambda>st.
     await (pollOptional ''KEYSPD'' (opt_field ''KEYSPD'' (readLevel addr ''KEYSPD'') parseLevelResponse
        (\<lambda>v st. st\<lparr>cwSpeed := Some v\<rparr>)) st) (\<lambda>st.
     pollOptional ''IF_SHIFT'' (opt_field ''IF_SHIFT'' (readLevel addr ''IF_SHIFT'') parseLevelResponse
        (\<lambda>raw st. st\<lparr>ifShift := Some (parseIfShiftResponse (of_nat raw))\<rparr>)) st)))))))"

definition readFullStatus :: "CivAddress \<Rightarrow> RigStatus option \<Rightarrow> bool \<Rightarrow> RigStatus act" where
  "readFullStatus addr known pollOptionalFields =
     (let st = (case known of Some l \<Rightarrow> l\<lparr>connected := True\<rparr> | None \<Rightarrow> blank_status) in
      await (read_into (Inr (readFrequency addr)) parseFrequencyResponse
        (\<lambda>v st. st\<lparr>frequency := Some v\<rparr>) st) (\<lambda>st.
      await (read_into (Inr (readMode addr)) parseModeResponse
        (\<lambda>v st. st\<lparr>rig_mode := Some (fst v)\<rparr>) st) (\<lambda>st.
      await (read_into (Inr (readPtt addr)) parsePttResponse
        (\<lambda>v st. st\<lparr>ptt := Some v\<rparr>) st) (\<lambda>st.
      await (read_smeter addr st) (\<lambda>st.
      await (read_tx_meters addr st) (\<lambda>st.
      await (read_into (Inr (readSplit addr)) parseSplitResponse
        (\<lambda>v st. st\<lparr>split_on := Some v\<rparr>) st) (\<lambda>st.
      if pollOptionalFields then poll_optional_fields addr st else ret st)))))))"

section \<open>The poll cycle\<close>

definition hasStatusChanged :: "RigStatus option \<Rightarrow> RigStatus \<Rightarrow> bool" where
  "hasStatusChanged known st =
     (case known of
        None \<Rightarrow> True
      | Some prev \<Rightarrow>
          frequency prev \<noteq> frequency st \<or> rig_mode prev \<noteq> rig_mode st \<or> ptt prev \<noteq> ptt st \<or>
          vfo_isA prev \<noteq> vfo_isA st \<or> split_on prev \<noteq> split_on st \<or> anf prev \<noteq> anf st \<or>
          qsk prev \<noteq> qsk st \<or> vox prev \<noteq> vox st \<or> agcMode prev \<noteq> agcMode st \<or>
          cwSpeed prev \<noteq> cwSpeed st \<or> ifShift prev \<noteq> ifShift st \<or>
          map_option fst (rit prev) \<noteq> map_option fst (rit st) \<or>
          map_option snd (rit prev) \<noteq> map_option snd (rit st) \<or>
          map_option fst (xit prev) \<noteq> map_option fst (xit st))"

text \<open>A poll in flight: the status it started from and whether it reads the optional fields.\<close>

type_synonym started_poll = "RigStatus option \<times> bool"

definition pollNow :: "bool \<Rightarrow> CivSession \<Rightarrow> CivSession \<times> started_poll option" where
  \<comment> \<open>up to the first \<open>await\<close>; a poll on a closed link clears the in-flight flag again at once\<close>
  "pollNow ready s =
     (if pollInFlight s then (s, None)
      else if \<not> ready then (s, None)
      else
        let s1 = s\<lparr>pollInFlight := True, pollCount := pollCount s + 1\<rparr>
        in (s1, Some (lastStatus s1,
              lastStatus s1 = None \<or> pollCount s1 mod OPTIONAL_POLL_INTERVAL_CYCLES = 0)))"

definition poll_succeeded :: "CivSession \<Rightarrow> RigStatus \<Rightarrow> CivSession \<times> out list" where
  "poll_succeeded s0 st =
     (let s = s0\<lparr>consecutiveErrors := 0\<rparr>;
          (s1, o1) = (case smeter st of
              None \<Rightarrow> (s, [])
            | Some dbm \<Rightarrow> if Some dbm \<noteq> lastSmeterDbm s
                then (s\<lparr>lastSmeterDbm := Some dbm\<rparr>, [SmeterOut dbm]) else (s, []));
          (s2, o2) = (if hasStatusChanged (lastStatus s1) st
                      then (s1\<lparr>lastStatus := Some st\<rparr>, [StatusOut st]) else (s1, []))
      in (s2, o1 @ o2))"

definition poll_failed :: "CivSession \<Rightarrow> CivSession \<times> out list" where
  "poll_failed s0 =
     (let s = s0\<lparr>consecutiveErrors := consecutiveErrors s0 + 1\<rparr>
      in (s, if consecutiveErrors s \<ge> MAX_CONSECUTIVE_ERRORS
             then [FatalPollError (consecutiveErrors s)] else []))"

definition pollCycle_end :: "CivAddress \<Rightarrow> started_poll \<Rightarrow> reply list \<Rightarrow> CivSession \<Rightarrow> CivSession \<times> out list" where
  "pollCycle_end addr pl replies s =
     (let (r, p) = readFullStatus addr (fst pl) (snd pl)
            \<lparr>p_warned = warnedUnsupported s, p_sent = [], p_replies = replies\<rparr>;
          s1 = s\<lparr>warnedUnsupported := p_warned p\<rparr>;
          (s2, os) = (case r of Inr st \<Rightarrow> poll_succeeded s1 st | Inl m \<Rightarrow> poll_failed s1)
      in (s2\<lparr>pollInFlight := False\<rparr>, os))"

definition startPolling :: "bool \<Rightarrow> CivSession \<Rightarrow> CivSession \<times> started_poll option" where
  "startPolling ready s =
     (if pollTimer s then (s, None)
      else pollNow ready (s\<lparr>consecutiveErrors := 0, pollTimer := True\<rparr>))"

definition stopPolling :: "CivSession \<Rightarrow> CivSession" where
  "stopPolling s = s\<lparr>pollTimer := False\<rparr>"

definition resetPollState :: "CivSession \<Rightarrow> CivSession" where
  "resetPollState s = s\<lparr>pollInFlight := False, lastStatus := None, lastSmeterDbm := None\<rparr>"

text \<open>A run of the session with its polls: the polls in flight are a list, oldest first.\<close>

datatype poll_event =
    StartPolling bool
  | PollTick bool \<comment> \<open>the interval timer; it has no effect once it has been cleared\<close>
  | PollEnds nat "reply list"
  | StopPolling
  | ResetPollState
  | SessionEvent event

type_synonym poll_state = "CivSession \<times> started_poll list"

definition add_poll :: "started_poll list \<Rightarrow> CivSession \<times> started_poll option \<Rightarrow> poll_state \<times> out list" where
  "add_poll ps r = ((fst r, ps @ (case snd r of None \<Rightarrow> [] | Some pl \<Rightarrow> [pl])), [])"

fun poll_step :: "CivAddress \<Rightarrow> poll_state \<Rightarrow> poll_event \<Rightarrow> poll_state \<times> out list" where
  "poll_step addr (s, ps) (StartPolling ready) = add_poll ps (startPolling ready s)"
| "poll_step addr (s, ps) (PollTick ready) =
     (if pollTimer s then add_poll ps (pollNow ready s) else ((s, ps), []))"
| "poll_step addr (s, ps) (PollEnds i replies) =
     (if i < length ps
      then let (s1, os) = pollCycle_end addr (ps ! i) replies s in ((s1, remove_at i ps), os)
      else ((s, ps), []))"
| "poll_step addr (s, ps) StopPolling = ((stopPolling s, ps), [])"
| "poll_step addr (s, ps) ResetPollState = ((resetPollState s, ps), [])"
| "poll_step addr (s, ps) (SessionEvent e) = (let (s1, os) = step s e in ((s1, ps), os))"

section \<open>Rig control\<close>

definition passband_filter :: "string \<Rightarrow> rat \<Rightarrow> int" where
  "passband_filter mode hz =
     (if mode = ''CW'' \<or> mode = ''CW-R'' \<or> mode = ''RTTY'' \<or> mode = ''RTTY-R''
      then (if hz \<ge> 400 then 1 else if hz \<ge> 150 then 2 else 3)
      else (if hz \<ge> 2000 then 1 else if hz \<ge> 1000 then 2 else 3))"

definition setPassband :: "CivAddress \<Rightarrow> CivSession \<Rightarrow> rat \<Rightarrow> (civ_error + buffer) option" where
  \<comment> \<open>the frame it sends; \<open>None\<close> when no mode is known, or the empty one\<close>
  "setPassband addr s hz =
     (case lastStatus s of
        None \<Rightarrow> None
      | Some st \<Rightarrow> (case rig_mode st of
          None \<Rightarrow> None
        | Some mode \<Rightarrow> if mode = [] then None
            else Some (setMode addr mode (Some (passband_filter mode hz)))))"

definition parseInt10 :: "string \<Rightarrow> int option" where
  \<comment> \<open>\<open>parseInt(s, 10)\<close>; \<open>None\<close> is \<open>NaN\<close>\<close>
  "parseInt10 s =
     (let s1 = dropWhile is_js_space s;
          (neg, s2) = (case s1 of c # cs \<Rightarrow> if c = CHR ''-'' then (True, cs) else if c = CHR ''+'' then (False, cs) else (False, s1)
                       | [] \<Rightarrow> (False, []));
          ds = takeWhile (\<lambda>c. CHR ''0'' \<le> c \<and> c \<le> CHR ''9'') s2;
          n = foldl (\<lambda>a c. a * 10 + (of_char c - 48)) (0 :: int) ds
      in if ds = [] then None else Some (if neg then - n else n))"

datatype rig_call =
    SetFrequency rat | SetMode string | SetPTT bool | SetVFO bool | SetSplit bool | SetFunc string bool
  | SetLevel string rat | SetAgc int | SetPassband rat | SetAntenna string | SetRit bool "rat option"
  | SetXit bool "rat option" | SetAnf bool | SetQsk bool | SetVox bool | SetCwSpeed rat | SetIfShift rat

datatype plan =
    AckPlan "civ_error + buffer" \<comment> \<open>\<open>sendAndWaitOk\<close> of the frame, or the error its builder throws\<close>
  | RawPlan buffer
  | NoPlan

fun rig_plan :: "CivAddress \<Rightarrow> CivSession \<Rightarrow> rig_call \<Rightarrow> plan" where
  "rig_plan addr s (SetFrequency hz) = AckPlan (Inr (setFrequency addr hz))"
| "rig_plan addr s (SetMode mode) = AckPlan (setMode addr mode None)"
| "rig_plan addr s (SetPTT on) = AckPlan (Inr (setPtt addr on))"
| "rig_plan addr s (SetVFO isA) = AckPlan (Inr (setVfo addr isA))"
| "rig_plan addr s (SetSplit on) = AckPlan (Inr (setSplit addr on))"
| "rig_plan addr s (SetFunc func on) = AckPlan (setFunction addr func on)"
| "rig_plan addr s (SetLevel level v) = AckPlan (setLevel addr level v)"
| "rig_plan addr s (SetAgc mode) = AckPlan (Inr (setAgc addr mode))"
| "rig_plan addr s (SetPassband hz) = (case setPassband addr s hz of None \<Rightarrow> NoPlan | Some r \<Rightarrow> AckPlan r)"
| "rig_plan addr s (SetAntenna index) = (case parseInt10 index of None \<Rightarrow> NoPlan
     | Some port \<Rightarrow> AckPlan (Inr (setAntenna addr port)))"
| "rig_plan addr s (SetRit enabled off) = RawPlan (setRit addr enabled off)"
| "rig_plan addr s (SetXit enabled off) = RawPlan (setXit addr enabled off)"
| "rig_plan addr s (SetAnf enabled) = AckPlan (setFunction addr ''ANF'' enabled)"
| "rig_plan addr s (SetQsk enabled) = AckPlan (setFunction addr ''BKIN'' enabled)"
| "rig_plan addr s (SetVox enabled) = AckPlan (setFunction addr ''VOX'' enabled)"
| "rig_plan addr s (SetCwSpeed wpm) = AckPlan (setCwSpeed addr wpm)"
| "rig_plan addr s (SetIfShift hz) = AckPlan (setIfShift addr hz)"

definition getLevel :: "CivFrame option \<Rightarrow> nat" where
  "getLevel frame = (case frame of None \<Rightarrow> 0
     | Some f \<Rightarrow> (case parseLevelResponse f of None \<Rightarrow> 0 | Some v \<Rightarrow> v))"

definition getFunc :: "CivFrame option \<Rightarrow> bool" where
  "getFunc frame = (case frame of None \<Rightarrow> False
     | Some f \<Rightarrow> (case parseFunctionResponse f of None \<Rightarrow> False | Some v \<Rightarrow> v))"

fun ack_sequence :: "buffer list \<Rightarrow> CivFrame option list \<Rightarrow> buffer list \<times> ack_outcome" where
  \<comment> \<open>commands sent one after another, each only when the one before was acknowledged\<close>
  "ack_sequence [] rs = ([], Done)"
| "ack_sequence (f # fs) rs =
     (let r = (case rs of [] \<Rightarrow> None | r # _ \<Rightarrow> r) in
      case sendAndWaitOk f r of
        Done \<Rightarrow> (let (sent, oc) = ack_sequence fs (tl rs) in (f # sent, oc))
      | oc \<Rightarrow> ([f], oc))"

definition startSpectrum :: "CivAddress \<Rightarrow> CivSession \<Rightarrow> CivFrame option list \<Rightarrow> CivSession \<times> buffer list \<times> ack_outcome" where
  "startSpectrum addr s rs =
     (setSpectrumEnabled s True, ack_sequence [startScope addr, startScopeDataOutput addr] rs)"

definition stopSpectrum :: "CivAddress \<Rightarrow> CivSession \<Rightarrow> CivFrame option list \<Rightarrow> CivSession \<times> buffer list \<times> ack_outcome" where
  "stopSpectrum addr s rs =
     (setSpectrumEnabled s False, ack_sequence [stopScopeDataOutput addr, stopScope addr] rs)"

section \<open>Polls that end normally\<close>

definition no_throw :: "poll \<Rightarrow> bool" where
  "no_throw p \<longleftrightarrow> (\<forall>r \<in> set (p_replies p). case r of WriteThrew m \<Rightarrow> False | Reply f \<Rightarrow> True)"

definition ends :: "('a \<Rightarrow> bool) \<Rightarrow> 'a act \<Rightarrow> bool" where
  \<comment> \<open>on every run on which no write throws the action returns, and returns a value with the property\<close>
  "ends P m \<longleftrightarrow> (\<forall>p. no_throw p \<longrightarrow> (\<exists>x q. m p = (Inr x, q) \<and> no_throw q \<and> P x))"

named_theorems ends_rules

lemma ends_ret [ends_rules]: "P x \<Longrightarrow> ends P (ret x)"
  by (simp add: ends_def ret_def)

lemma ends_await [ends_rules]: "ends Q m \<Longrightarrow> (\<And>x. Q x \<Longrightarrow> ends P (k x)) \<Longrightarrow> ends P (await m k)"
  unfolding ends_def await_def by (metis (no_types, lifting) case_prod_conv sum.case(2))

lemma ends_ask: "ends (\<lambda>_. True) (ask f)"
proof -
  have "\<exists>x q. ask f p = (Inr x, q) \<and> no_throw q" if "no_throw p" for p
    using that by (cases "p_replies p") (auto simp: ask_def no_throw_def Let_def split: reply.splits)
  then show ?thesis by (simp add: ends_def)
qed

lemma ends_read_into:
  "P st \<Longrightarrow> (\<And>v. P (put v st)) \<Longrightarrow> b = Inr f \<Longrightarrow> ends P (read_into b parse put st)"
  unfolding read_into_def ask_built_def
  by (auto intro!: ends_await[OF ends_ask] ends_ret split: option.splits)

definition tries :: "('a \<Rightarrow> bool) \<Rightarrow> 'a act \<Rightarrow> bool" where
  \<comment> \<open>like \<open>ends\<close>, for an action that may also throw an error of its own\<close>
  "tries P m \<longleftrightarrow> (\<forall>p. no_throw p \<longrightarrow>
     (\<exists>q. no_throw q \<and> ((\<exists>e. m p = (Inl e, q)) \<or> (\<exists>x. m p = (Inr x, q) \<and> P x))))"

lemma tries_ends: "ends P m \<Longrightarrow> tries P m"
  unfolding ends_def tries_def by metis

lemma tries_throw: "tries P (throw e)"
  by (simp add: tries_def throw_def)

lemma tries_await: "tries Q m \<Longrightarrow> (\<And>x. Q x \<Longrightarrow> tries P (k x)) \<Longrightarrow> tries P (await m k)"
  unfolding tries_def await_def by (fastforce)

lemmas tries_rules = tries_await[OF tries_ends[OF ends_ask]] tries_throw tries_ends[OF ends_ret]

lemma tries_require: "tries (\<lambda>_. True) (requireOptionalFrame name r)"
  unfolding requireOptionalFrame_def by (auto intro!: tries_rules split: option.splits)

lemma tries_parsed: "tries (\<lambda>_. True) (parsed name v)"
  unfolding parsed_def by (auto intro!: tries_rules split: option.splits)

lemma tries_opt_field: "(\<And>v. P (put v st)) \<Longrightarrow> b = Inr f \<Longrightarrow> tries P (opt_field name b parse put st)"
  unfolding opt_field_def ask_built_def
  by (auto intro!: tries_rules tries_await[OF tries_require] tries_await[OF tries_parsed])

lemma ends_pollOptional:
  assumes "P st" "tries P (fn st)"
  shows "ends P (pollOptional name fn st)"
proof -
  have "\<exists>x q. pollOptional name fn st p = (Inr x, q) \<and> no_throw q \<and> P x" if "no_throw p" for p
  proof (cases "name \<in> set (p_warned p)")
    case True
    then show ?thesis using assms(1) that by (simp add: pollOptional_def)
  next
    case False
    from assms(2) that consider (err) e q where "fn st p = (Inl e, q)" "no_throw q"
      | (val) x q where "fn st p = (Inr x, q)" "no_throw q" "P x"
      by (auto simp: tries_def)
    then show ?thesis
      using False assms(1) by cases (auto simp: pollOptional_def warn_def no_throw_def)
  qed
  then show ?thesis by (simp add: ends_def)
qed

definition keeps_base :: "RigStatus \<Rightarrow> RigStatus \<Rightarrow> bool" where
  \<comment> \<open>connected, and the fields no poll reads are those of the status it started from\<close>
  "keeps_base b st \<longleftrightarrow> connected st \<and> power st = power b \<and> vfo_isA st = vfo_isA b \<and> txAntenna st = txAntenna b"

lemma keeps_base_updates [simp]:
  "keeps_base b (st\<lparr>frequency := v1\<rparr>) = keeps_base b st"
  "keeps_base b (st\<lparr>rig_mode := v2\<rparr>) = keeps_base b st"
  "keeps_base b (st\<lparr>ptt := v3\<rparr>) = keeps_base b st"
  "keeps_base b (st\<lparr>split_on := v4\<rparr>) = keeps_base b st"
  "keeps_base b (st\<lparr>smeter := v5\<rparr>) = keeps_base b st"
  "keeps_base b (st\<lparr>rit := v6\<rparr>) = keeps_base b st"
  "keeps_base b (st\<lparr>xit := v6\<rparr>) = keeps_base b st"
  "keeps_base b (st\<lparr>anf := v3\<rparr>) = keeps_base b st"
  "keeps_base b (st\<lparr>qsk := v3\<rparr>) = keeps_base b st"
  "keeps_base b (st\<lparr>vox := v3\<rparr>) = keeps_base b st"
  "keeps_base b (st\<lparr>txMeter := v7\<rparr>) = keeps_base b st"
  "keeps_base b (st\<lparr>cwSpeed := v1\<rparr>) = keeps_base b st"
  "keeps_base b (st\<lparr>ifShift := v8\<rparr>) = keeps_base b st"
  "keeps_base b (st\<lparr>agcMode := v9\<rparr>) = keeps_base b st"
  by (simp_all add: keeps_base_def)

lemma built_requests:
  "\<exists>f. readSmeter addr = Inr f" "\<exists>f. readPowerMeter addr = Inr f" "\<exists>f. readSwrMeter addr = Inr f"
  "\<exists>f. readAlcMeter addr = Inr f" "\<exists>f. readFunction addr ''ANF'' = Inr f"
  "\<exists>f. readFunction addr ''BKIN'' = Inr f" "\<exists>f. readFunction addr ''VOX'' = Inr f"
  "\<exists>f. readFunction addr ''AGC'' = Inr f" "\<exists>f. readLevel addr ''KEYSPD'' = Inr f"
  "\<exists>f. readLevel addr ''IF_SHIFT'' = Inr f"
  by (simp_all add: readSmeter_def readPowerMeter_def readSwrMeter_def readAlcMeter_def readMeter_def
      readFunction_def readLevel_def toUpperCase_def upper_char_def CIV_METER_SUB_def CIV_FUNC_SUB_def CIV_LEVEL_SUB_def)

lemma ends_smeter: "keeps_base b st \<Longrightarrow> ends (keeps_base b) (read_smeter addr st)"
proof -
  assume b: "keeps_base b st"
  obtain f where f: "readSmeter addr = Inr f" using built_requests(1) by blast
  have "ends (keeps_base b) (case r of None \<Rightarrow> ret st | Some f \<Rightarrow> (case parseMeterResponse f of
         None \<Rightarrow> ret st
       | Some raw \<Rightarrow> \<lambda>p. let q = (if raw > SMETER_MAX_RAW_n \<and> ''SMETER_RANGE'' \<notin> set (p_warned p)
                    then warn ''SMETER_RANGE'' p else p)
           in (Inr (st\<lparr>smeter := Some (rawSmeterToDbm (of_nat raw))\<rparr>), q)))" for r
    using b by (auto simp: ends_def ret_def warn_def no_throw_def Let_def split: option.splits)
  then show ?thesis
    unfolding read_smeter_def ask_built_def f by (auto intro!: ends_await[OF ends_ask])
qed

lemma ends_meters: "keeps_base b st \<Longrightarrow> ends (keeps_base b) (read_tx_meters addr st)"
proof -
  assume b: "keeps_base b st"
  obtain f g h where f: "readPowerMeter addr = Inr f" "readSwrMeter addr = Inr g" "readAlcMeter addr = Inr h"
    using built_requests(2,3,4) by blast
  have m: "ends (\<lambda>_. True) (read_into (Inr f) parse put st')"
    for f and parse :: "CivFrame \<Rightarrow> nat option" and put and st' :: TxMeter
    by (rule ends_read_into) auto
  from b show ?thesis
    unfolding read_tx_meters_def f
    by (auto intro!: ends_await[OF m] ends_ret)
qed

lemma ends_opt_rit: "keeps_base b st \<Longrightarrow> tries (keeps_base b) (opt_rit addr st)"
  unfolding opt_rit_def
  by (auto intro!: tries_rules tries_await[OF tries_require] tries_await[OF tries_parsed])

lemma ends_next: "ends P m \<Longrightarrow> (\<And>x. P x \<Longrightarrow> ends P (k x)) \<Longrightarrow> ends P (await m k)"
  by (rule ends_await)

lemma ends_RIT: "keeps_base b st \<Longrightarrow> ends (keeps_base b) (pollOptional n (opt_rit addr) st)"
  by (auto intro!: ends_pollOptional ends_opt_rit)

lemma ends_read:
  "keeps_base b st \<Longrightarrow> (\<And>v. keeps_base b (put v st)) \<Longrightarrow> ends (keeps_base b) (read_into (Inr f) parse put st)"
  by (rule ends_read_into) auto

lemma ends_opt_field:
  "keeps_base b st \<Longrightarrow> \<exists>f. r = Inr f \<Longrightarrow> (\<And>v. keeps_base b (put v st)) \<Longrightarrow>
     ends (keeps_base b) (pollOptional n (opt_field n r parse put) st)"
  by (auto intro!: ends_pollOptional tries_opt_field)

lemma ends_optional_fields: "keeps_base b st \<Longrightarrow> ends (keeps_base b) (poll_optional_fields addr st)"
  unfolding poll_optional_fields_def opt_xit_def
  by (rule ends_next ends_RIT ends_opt_field | simp add: built_requests)+

lemma ends_readFullStatus:
  "ends (keeps_base (case l of Some b \<Rightarrow> b | None \<Rightarrow> blank_status)) (readFullStatus addr l opt)"
proof -
  let ?b = "case l of Some b \<Rightarrow> b | None \<Rightarrow> blank_status"
  let ?st = "case l of Some l \<Rightarrow> l\<lparr>connected := True\<rparr> | None \<Rightarrow> blank_status"
  have b: "keeps_base ?b ?st" by (simp add: keeps_base_def blank_status_def split: option.splits)
  show ?thesis
    unfolding readFullStatus_def Let_def
    by (rule ends_next ends_read ends_smeter ends_meters b
        | simp add: ends_optional_fields ends_ret)+
qed

section \<open>Polls in flight\<close>

definition poll_ok :: "poll_state \<Rightarrow> bool" where
  "poll_ok x \<longleftrightarrow> length (snd x) \<le> 1 \<and> (pollInFlight (fst x) \<longleftrightarrow> snd x \<noteq> [])"

lemma inflight_scope:
  "pollInFlight (fst (emitCompleteLine s)) = pollInFlight s"
  "pollInFlight (fst (handleScopeHeader now s d i m)) = pollInFlight s"
  "pollInFlight (fst (handleScopePixels now s d q)) = pollInFlight s"
  by (simp_all add: scope_defs split: option.splits)

lemma inflight_scope_frame: "pollInFlight (fst (scope_frame now s f)) = pollInFlight s"
  by (simp add: scope_frame_def Let_def inflight_scope)

lemma inflight_unsolicited: "pollInFlight (fst (handleUnsolicitedFrame now s f)) = pollInFlight s"
  by (auto simp: handleUnsolicitedFrame_def Let_def inflight_scope_frame unsolicited_frequency_def
      unsolicited_mode_def split: option.splits prod.splits)

lemma inflight_settle: "pollInFlight (fst (settle i r s)) = pollInFlight s"
  by (simp add: settle_def split: option.splits task.splits)

lemma inflight_dispatch: "pollInFlight (fst (dispatch_frame now s f)) = pollInFlight s"
  by (simp add: dispatch_frame_def inflight_unsolicited inflight_settle split: option.splits)

lemma inflight_frames: "pollInFlight (fst (dispatch_frames now s fs)) = pollInFlight s"
proof (induction fs arbitrary: s)
  case Nil
  then show ?case by simp
next
  case (Cons f fs)
  then show ?case using inflight_dispatch[of now s f] by (simp add: case_prod_beta Let_def)
qed

lemma inflight_step: "pollInFlight (fst (step s e)) = pollInFlight s"
proof (cases e)
  case (Incoming now data)
  then show ?thesis by (simp add: handleIncomingData_def case_prod_beta inflight_frames)
qed (simp_all add: sendCommand_def sendRaw_def start_next_def write_callback_def command_timeout_def
    cancelPending_def resetParser_def setSpectrumEnabled_def resetSpectrum_def assembly_timeout_def
    clearAssemblyTimeout_def inflight_settle case_prod_beta Let_def split: option.splits task.splits list.splits)

lemma poll_ok_start: "poll_ok (s, ps) \<Longrightarrow> poll_ok (fst (add_poll ps (pollNow ready s)))"
  by (auto simp: poll_ok_def add_poll_def pollNow_def Let_def)

lemma poll_ok_end: "poll_ok (s, ps) \<Longrightarrow> i < length ps \<Longrightarrow> poll_ok (fst (pollCycle_end addr pl rs s), remove_at i ps)"
  by (cases ps) (auto simp: poll_ok_def pollCycle_end_def remove_at_def case_prod_beta Let_def)

lemma poll_ok_step:
  "poll_ok x \<Longrightarrow> e \<noteq> ResetPollState \<Longrightarrow> poll_ok (fst (poll_step addr x e))"
proof (cases x)
  case (Pair s ps)
  assume a: "poll_ok x" "e \<noteq> ResetPollState"
  show ?thesis
  proof (cases e)
    case (StartPolling ready)
    then show ?thesis
      using a Pair poll_ok_start[of "s\<lparr>consecutiveErrors := 0, pollTimer := True\<rparr>" ps ready]
      by (auto simp: startPolling_def add_poll_def poll_ok_def)
  next
    case (PollEnds i rs)
    then show ?thesis using a Pair poll_ok_end[of s ps i addr "ps ! i" rs] by (simp add: case_prod_beta)
  next
    case (SessionEvent ev)
    then show ?thesis using a Pair by (simp add: poll_ok_def inflight_step case_prod_beta)
  qed (use a Pair poll_ok_start[of s ps] in \<open>auto simp: poll_ok_def stopPolling_def\<close>)
qed

lemma poll_run_ok:
  "poll_ok x \<Longrightarrow> ResetPollState \<notin> set es \<Longrightarrow> poll_ok (fst (steps (poll_step addr) x es))"
proof (induction es arbitrary: x)
  case Nil
  then show ?case by simp
next
  case (Cons e es)
  have "poll_ok (fst (poll_step addr x e))" using Cons.prems by (intro poll_ok_step) auto
  from Cons.IH[OF this] Cons.prems(2) show ?case by (simp add: case_prod_beta Let_def)
qed

section \<open>Properties\<close>

text \<open>
  An acknowledged command never fails with "unexpected response": every frame that the
  dispatcher accepts as its response (\<open>matchesPending\<close>) is judged acknowledged or rejected.
\<close>

theorem ack_response_decided:
  "matchesPending (pending_of i frame Ack) f \<Longrightarrow>
     sendAndWaitOk frame (Some f) = (if isNg f then Rejected else Done)"
  by (auto simp: matchesPending_def pending_of_def sendAndWaitOk_def sub_ok_def Let_def split: if_splits)

theorem ack_response_decided_witness:
  "sendAndWaitOk (setPtt \<lparr>radio = 0x94, controller = 0xe0\<rparr> True) (Some (frame_of 0xe0 0x94 0x1C [0x00, 0x01])) = Done"
  using ack_response_decided[of 0 "setPtt \<lparr>radio = 0x94, controller = 0xe0\<rparr> True" "frame_of 0xe0 0x94 0x1C [0x00, 0x01]"]
  by (simp add: matchesPending_def pending_of_def sub_ok_def frame_of_def setPtt_def buildFrameWithSub_def
      buildFrame_def Let_def commandUsesSubCommand_def)

text \<open>
  As long as the poll state is not reset by a closing link, at most one poll is in flight
  at any time, whatever the order of timer ticks, starts, stops, replies and radio traffic,
  and \<open>pollInFlight\<close> says so exactly.
\<close>

theorem one_poll_in_flight:
  assumes "ResetPollState \<notin> set es" "fst (steps (poll_step addr) (new_session, []) es) = (s, ps)"
  shows "length ps \<le> 1 \<and> (pollInFlight s \<longleftrightarrow> ps \<noteq> [])"
proof -
  have "poll_ok (new_session, [])" by (simp add: poll_ok_def new_session_def)
  from poll_run_ok[OF this assms(1), of addr] assms(2) show ?thesis by (simp add: poll_ok_def)
qed

theorem one_poll_in_flight_witness:
  "length [(None :: RigStatus option, True)] \<le> 1 \<and>
     (pollInFlight (fst (fst (steps (poll_step \<lparr>radio = 0x94, controller = 0xe0\<rparr>) (new_session, [])
        [StartPolling True, PollTick True]))) \<longleftrightarrow> [(None :: RigStatus option, True)] \<noteq> [])"
proof -
  let ?x = "steps (poll_step \<lparr>radio = 0x94, controller = 0xe0\<rparr>) (new_session, []) [StartPolling True, PollTick True]"
  have x: "fst ?x = (fst (fst ?x), [(None, True)])"
    by (simp add: startPolling_def pollNow_def add_poll_def new_session_def)
  show ?thesis by (rule one_poll_in_flight[OF _ x]) simp
qed

text \<open>
  Closing the link does not end a poll that is in flight. When it ends after
  \<open>stopPolling\<close> and \<open>resetPollState\<close>, with every further command answered by \<open>null\<close> or a frame,
  it installs a last status again and reports a status with \<open>connected\<close> true, although the
  link is closed.
\<close>

theorem stopped_poll_reports_connected:
  assumes "i < length ps" "list_all (\<lambda>r. case r of WriteThrew m \<Rightarrow> False | Reply f \<Rightarrow> True) replies"
  shows "\<exists>s' os st. steps (poll_step addr) (s, ps) [StopPolling, ResetPollState, PollEnds i replies]
      = ((s', remove_at i ps), os) \<and> StatusOut st \<in> set os \<and> connected st \<and> lastStatus s' = Some st"
proof -
  let ?p = "\<lparr>p_warned = warnedUnsupported s, p_sent = [], p_replies = replies\<rparr>"
  have "no_throw ?p" using assms(2) by (auto simp: no_throw_def list_all_iff)
  then obtain st q where r: "readFullStatus addr (fst (ps ! i)) (snd (ps ! i)) ?p = (Inr st, q)" "connected st"
    using ends_readFullStatus[of "fst (ps ! i)" addr "snd (ps ! i)"]
    unfolding ends_def keeps_base_def by blast
  then show ?thesis
    using assms(1)
    by (auto simp: stopPolling_def resetPollState_def pollCycle_end_def poll_succeeded_def
        hasStatusChanged_def Let_def split: option.splits)
qed

theorem stopped_poll_reports_connected_witness:
  "\<exists>s' os st. steps (poll_step \<lparr>radio = 0x94, controller = 0xe0\<rparr>) (new_session, [(None, True)])
      [StopPolling, ResetPollState, PollEnds 0 [Reply None, Reply None]]
      = ((s', remove_at 0 [(None, True)]), os) \<and> StatusOut st \<in> set os \<and> connected st \<and> lastStatus s' = Some st"
  by (rule stopped_poll_reports_connected) simp_all

section \<open>Polls without answers\<close>

lemma includes_timed_out: "js_includes (x @ '' timed out'') ''timed out''"
  unfolding js_includes_def list_ex_iff by (rule bexI[of _ "''timed out''"]) (auto simp: suffix_def)

abbreviation optional_names :: "string list" where
  "optional_names \<equiv> [''RIT'', ''XIT'', ''ANF'', ''QSK'', ''VOX'', ''AGC'', ''KEYSPD'', ''IF_SHIFT'']"

lemma ask_none: "ask f \<lparr>p_warned = w, p_sent = x, p_replies = []\<rparr>
    = (Inr None, \<lparr>p_warned = w, p_sent = x @ [f], p_replies = []\<rparr>)"
  by (simp add: ask_def)

lemma read_none: "read_into (Inr f) parse put st \<lparr>p_warned = w, p_sent = x, p_replies = []\<rparr>
    = (Inr st, \<lparr>p_warned = w, p_sent = x @ [f], p_replies = []\<rparr>)"
  by (simp add: read_into_def ask_built_def await_def ask_none ret_def)

lemma smeter_none: "\<exists>f. read_smeter addr st \<lparr>p_warned = w, p_sent = x, p_replies = []\<rparr>
    = (Inr st, \<lparr>p_warned = w, p_sent = x @ [f], p_replies = []\<rparr>)"
  using built_requests(1)[of addr] by (auto simp: read_smeter_def ask_built_def await_def ask_none ret_def)

lemma optional_none:
  assumes "\<And>x. \<exists>y. fn st \<lparr>p_warned = w, p_sent = x, p_replies = []\<rparr>
      = (Inl (name @ '' timed out''), \<lparr>p_warned = w, p_sent = y, p_replies = []\<rparr>)"
  shows "\<exists>y. pollOptional name fn st \<lparr>p_warned = w, p_sent = x, p_replies = []\<rparr>
    = (Inr st, \<lparr>p_warned = List.insert name w, p_sent = y, p_replies = []\<rparr>)"
  using assms[of x] includes_timed_out[of name]
  by (auto simp: pollOptional_def warn_def List.insert_def)

lemma field_none: "\<exists>f. r = Inr f \<Longrightarrow>
   \<exists>y. pollOptional name (opt_field name r parse put) st \<lparr>p_warned = w, p_sent = x, p_replies = []\<rparr>
    = (Inr st, \<lparr>p_warned = List.insert name w, p_sent = y, p_replies = []\<rparr>)"
  by (rule optional_none)
    (auto simp: opt_field_def ask_built_def await_def ask_none requireOptionalFrame_def throw_def)

lemma RIT_none:
   "\<exists>y. pollOptional ''RIT'' (opt_rit addr) st \<lparr>p_warned = w, p_sent = x, p_replies = []\<rparr>
    = (Inr st, \<lparr>p_warned = List.insert ''RIT'' w, p_sent = y, p_replies = []\<rparr>)"
  by (rule optional_none)
    (auto simp: opt_rit_def await_def ask_none requireOptionalFrame_def throw_def)

definition silent :: "RigStatus \<Rightarrow> string list \<Rightarrow> string list \<Rightarrow> RigStatus act \<Rightarrow> bool" where
  \<comment> \<open>with no more answers the action returns the status it was given and warns about some names\<close>
  "silent st w w' m \<longleftrightarrow> (\<forall>x. \<exists>y. m \<lparr>p_warned = w, p_sent = x, p_replies = []\<rparr>
     = (Inr st, \<lparr>p_warned = w', p_sent = y, p_replies = []\<rparr>))"

lemma silent_ret: "silent st w w (ret st)"
  by (simp add: silent_def ret_def)

lemma silent_await: "silent st w w1 m \<Longrightarrow> silent st w1 w2 (k st) \<Longrightarrow> silent st w w2 (await m k)"
  unfolding silent_def await_def by (metis (no_types, lifting) case_prod_conv sum.case(2))

lemma silent_reads:
  "silent st w w (read_into (Inr f) parse put st)" "silent st w w (read_smeter addr st)"
  using smeter_none[of addr st w] by (auto simp: silent_def read_none)

lemma silent_optional:
  "\<exists>f. r = Inr f \<Longrightarrow> silent st w (List.insert name w) (pollOptional name (opt_field name r parse put) st)"
  "silent st w (List.insert ''RIT'' w) (pollOptional ''RIT'' (opt_rit addr) st)"
  by (simp_all add: silent_def field_none RIT_none)

lemma silent_optional_fields:
  "silent st w (foldl (\<lambda>w n. List.insert n w) w optional_names) (poll_optional_fields addr st)"
  unfolding poll_optional_fields_def opt_xit_def foldl.simps
  by (rule silent_await silent_optional | simp add: built_requests)+

definition grows :: "'a act \<Rightarrow> bool" where
  \<comment> \<open>no warning is taken back, and no answer appears out of nothing\<close>
  "grows m \<longleftrightarrow> (\<forall>p. set (p_warned p) \<subseteq> set (p_warned (snd (m p))) \<and>
     (p_replies p = [] \<longrightarrow> p_replies (snd (m p)) = []))"

lemma grows_ret: "grows (ret x)"
  by (simp add: grows_def ret_def)

lemma grows_await: "grows m \<Longrightarrow> (\<And>x. grows (k x)) \<Longrightarrow> grows (await m k)"
  unfolding grows_def await_def by (fastforce split: prod.splits sum.splits)

lemma grows_ask: "grows (ask f)" "grows (ask_built b)"
  by (auto simp: grows_def ask_built_def ask_def throw_def Let_def split: list.splits reply.splits sum.splits)

lemma grows_read: "grows (read_into b parse put st)" "grows (read_smeter addr st)" "grows (read_tx_meters addr st)"
proof -
  show r: "grows (read_into b parse put st)" for b and parse :: "CivFrame \<Rightarrow> 'v option" and put and st :: 's
    unfolding read_into_def by (intro grows_await grows_ask grows_ret)
  show "grows (read_smeter addr st)"
    unfolding read_smeter_def
    by (intro grows_await grows_ask) (auto simp: grows_def ret_def warn_def Let_def split: option.splits)
  have r2: "grows (read_into b parse put m)" for b and parse :: "CivFrame \<Rightarrow> nat option" and put and m :: TxMeter
    unfolding read_into_def by (intro grows_await grows_ask grows_ret)
  show "grows (read_tx_meters addr st)"
    unfolding read_tx_meters_def by (auto intro!: grows_await grows_ret r2)
qed

definition core_status :: "CivAddress \<Rightarrow> RigStatus option \<Rightarrow> RigStatus act" where
  \<comment> \<open>the part of \<open>readFullStatus\<close> every poll runs\<close>
  "core_status addr known = readFullStatus addr known False"

lemma await_assoc: "await (await m f) g = await m (\<lambda>x. await (f x) g)"
  by (rule ext) (auto simp: await_def split: prod.splits sum.splits)

lemma ret_await: "await (ret x) k = k x"
  by (rule ext) (simp add: await_def ret_def)

lemma readFullStatus_split:
  "readFullStatus addr known opt =
     await (core_status addr known) (\<lambda>st. if opt then poll_optional_fields addr st else ret st)"
  by (cases opt) (simp_all add: core_status_def readFullStatus_def Let_def await_assoc ret_await)

lemma grows_core: "grows (core_status addr known)"
  unfolding core_status_def readFullStatus_def Let_def
  by (auto intro!: grows_await grows_read grows_ret)

lemma known_names_skipped:
  "set optional_names \<subseteq> set (p_warned p) \<Longrightarrow> poll_optional_fields addr st p = (Inr st, p)"
  by (simp add: poll_optional_fields_def pollOptional_def await_def)

lemma cycle_warned:
  "warnedUnsupported (fst (pollCycle_end addr pl rs s)) = p_warned (snd (readFullStatus addr (fst pl) (snd pl)
     \<lparr>p_warned = warnedUnsupported s, p_sent = [], p_replies = rs\<rparr>))"
proof -
  obtain r p where r: "readFullStatus addr (fst pl) (snd pl)
      \<lparr>p_warned = warnedUnsupported s, p_sent = [], p_replies = rs\<rparr> = (r, p)" by fastforce
  have "warnedUnsupported (fst (poll_succeeded s1 st)) = warnedUnsupported s1" for s1 st
    by (simp add: poll_succeeded_def Let_def split: option.splits)
  moreover have "warnedUnsupported (fst (poll_failed s1)) = warnedUnsupported s1" for s1
    by (simp add: poll_failed_def Let_def)
  ultimately show ?thesis
    using r by (cases r) (simp_all add: pollCycle_end_def case_prod_beta Let_def)
qed

text \<open>
  A poll of the optional fields during which the link gives no answers (each command times
  out or the link has closed) switches off the eight optional fields for good: from then on
  every poll of the session, also one due to read them and also after a reconnect, runs exactly
  as a poll that is not to read them.
\<close>

theorem unanswered_poll_disables_optional:
  "set optional_names \<union> set (warnedUnsupported s)
       \<subseteq> set (warnedUnsupported (fst (pollCycle_end addr (known, True) [] s))) \<and>
   readFullStatus addr known2 True
       \<lparr>p_warned = warnedUnsupported (fst (pollCycle_end addr (known, True) [] s)), p_sent = [], p_replies = rs\<rparr>
   = readFullStatus addr known2 False
       \<lparr>p_warned = warnedUnsupported (fst (pollCycle_end addr (known, True) [] s)), p_sent = [], p_replies = rs\<rparr>"
proof -
  let ?p = "\<lparr>p_warned = warnedUnsupported s, p_sent = [], p_replies = []\<rparr>"
  let ?w = "warnedUnsupported (fst (pollCycle_end addr (known, True) [] s))"
  have e: "ends (keeps_base (case known of Some b \<Rightarrow> b | None \<Rightarrow> blank_status)) (core_status addr known)"
    unfolding core_status_def by (rule ends_readFullStatus)
  have "no_throw ?p" by (simp add: no_throw_def)
  with e obtain st q where q: "core_status addr known ?p = (Inr st, q)" unfolding ends_def by blast
  have g: "set (warnedUnsupported s) \<subseteq> set (p_warned q)" "p_replies q = []"
    using spec[OF grows_core[of addr known, unfolded grows_def], of ?p] q by auto
  then have "q = \<lparr>p_warned = p_warned q, p_sent = p_sent q, p_replies = []\<rparr>" by simp
  then obtain y where y: "poll_optional_fields addr st q = (Inr st,
      \<lparr>p_warned = foldl (\<lambda>w n. List.insert n w) (p_warned q) optional_names, p_sent = y, p_replies = []\<rparr>)"
    using silent_optional_fields[of st "p_warned q" addr] unfolding silent_def by metis
  have "?w = foldl (\<lambda>w n. List.insert n w) (p_warned q) optional_names"
    using q y by (simp only: cycle_warned fst_conv snd_conv readFullStatus_split[of _ _ True] await_def
        if_True prod.case sum.case poll.simps)
  then have w: "set optional_names \<union> set (warnedUnsupported s) \<subseteq> set ?w"
    using g(1) by auto
  have "readFullStatus addr known2 True p = readFullStatus addr known2 False p"
    if n: "set optional_names \<subseteq> set (p_warned p)" for p
  proof (cases "core_status addr known2 p")
    case (Pair r q)
    then have "set optional_names \<subseteq> set (p_warned q)"
      using spec[OF grows_core[of addr known2, unfolded grows_def], of p] n by auto
    then show ?thesis
      using Pair by (cases r) (simp_all add: readFullStatus_split await_def ret_def known_names_skipped)
  qed
  with w show ?thesis by simp
qed

text \<open>
  A poll that finds only the transmit meters (power, SWR, ALC) changed reports nothing and
  does not update the stored status: the change test leaves out \<open>txMeter\<close>, not only the S-meter.
\<close>

theorem tx_meter_change_not_reported:
  "set (snd (poll_succeeded (s\<lparr>lastStatus := Some prev\<rparr>) (prev\<lparr>txMeter := m\<rparr>))) \<inter> range StatusOut = {} \<and>
   lastStatus (fst (poll_succeeded (s\<lparr>lastStatus := Some prev\<rparr>) (prev\<lparr>txMeter := m\<rparr>))) = Some prev"
  by (auto simp: poll_succeeded_def hasStatusChanged_def Let_def split: option.splits)

text \<open>
  When the rig's mode is known, \<open>setPassband\<close> sends one mode command that the radio reads
  back as the same mode with a filter from 1 to 3, and a wider passband never selects a
  narrower filter (filter 1 is the widest).
\<close>

theorem set_passband_roundtrip:
  assumes "addr_clean addr" "lastStatus s = Some st" "rig_mode st = Some mode" "mode \<noteq> []"
    "map_of CIV_STRING_TO_MODE (toUpperCase mode) = Some b"
  shows "(\<exists>buf f. setPassband addr s hz = Some (Inr buf) \<and> received buf = [f] \<and>
      parseModeResponse f = Some (toUpperCase mode, to_byte (passband_filter mode hz))) \<and>
    passband_filter mode hz \<in> {1, 2, 3} \<and>
    passband_filter mode (max hz hz') \<le> passband_filter mode hz"
proof -
  have f: "passband_filter mode hz \<in> {1, 2, 3}" by (simp add: passband_filter_def)
  then have "to_byte (passband_filter mode hz) \<noteq> CIV_EOM" by (auto simp: to_byte_def)
  with set_mode_read[OF assms(1,5), of "Some (passband_filter mode hz)"] assms(2-4)
  have "\<exists>buf f. setPassband addr s hz = Some (Inr buf) \<and> received buf = [f] \<and>
      parseModeResponse f = Some (toUpperCase mode, to_byte (passband_filter mode hz))"
    by (auto simp: setPassband_def)
  moreover have "passband_filter mode (max hz hz') \<le> passband_filter mode hz"
    by (auto simp: passband_filter_def max_def)
  ultimately show ?thesis using f by blast
qed

theorem set_passband_roundtrip_witness:
  "(\<exists>buf f. setPassband \<lparr>radio = 0x94, controller = 0xe0\<rparr>
        (new_session\<lparr>lastStatus := Some (blank_status\<lparr>rig_mode := Some ''CW''\<rparr>)\<rparr>) 250 = Some (Inr buf) \<and>
      received buf = [f] \<and> parseModeResponse f = Some (''CW'', 2)) \<and>
    passband_filter ''CW'' 250 \<in> {1, 2, 3} \<and> passband_filter ''CW'' (max 250 500) \<le> passband_filter ''CW'' 250"
proof -
  have u: "toUpperCase ''CW'' = ''CW''" by code_simp
  have p: "passband_filter ''CW'' 250 = 2" by (simp add: passband_filter_def)
  show ?thesis
    using set_passband_roundtrip[of "\<lparr>radio = 0x94, controller = 0xe0\<rparr>"
        "new_session\<lparr>lastStatus := Some (blank_status\<lparr>rig_mode := Some ''CW''\<rparr>)\<rparr>"
        "blank_status\<lparr>rig_mode := Some ''CW''\<rparr>" "''CW''" 3 250 500]
    by (simp add: u p addr_clean_def to_byte_def CIV_STRING_TO_MODE_def CIV_MODE_TO_STRING_def)
qed

lemma first_write_throws: "readFullStatus addr known opt \<lparr>p_warned = w, p_sent = x, p_replies = WriteThrew m # rs\<rparr>
   = (Inl m, \<lparr>p_warned = w, p_sent = x @ [readFrequency addr], p_replies = rs\<rparr>)"
  by (simp add: readFullStatus_def Let_def read_into_def ask_built_def ask_def await_def)

lemma failing_poll:
  "consecutiveErrors s = k \<Longrightarrow> \<exists>s'. pollCycle_end addr pl (WriteThrew m # rs) s
     = (s', if MAX_CONSECUTIVE_ERRORS \<le> Suc k then [FatalPollError (Suc k)] else []) \<and>
       consecutiveErrors s' = Suc k \<and> lastStatus s' = lastStatus s"
  by (simp add: pollCycle_end_def first_write_throws poll_failed_def)

text \<open>
  When the transport throws at the first write of every poll, the session asks for a
  disconnect exactly from the tenth failing poll in a row on, and reports the number of failures;
  the stored status stays.
\<close>

theorem ten_failures_are_fatal:
  assumes "consecutiveErrors s = 0" "length pls = n"
  shows "\<exists>s'. steps (\<lambda>s pl. pollCycle_end addr (fst pl) (WriteThrew (snd pl) # rs) s) s pls
      = (s', map FatalPollError [MAX_CONSECUTIVE_ERRORS..<Suc n]) \<and> consecutiveErrors s' = n \<and> lastStatus s' = lastStatus s"
proof -
  have "\<exists>s'. steps (\<lambda>s pl. pollCycle_end addr (fst pl) (WriteThrew (snd pl) # rs) s) s pls
      = (s', map FatalPollError [max MAX_CONSECUTIVE_ERRORS (Suc k)..<Suc (k + n)]) \<and>
        consecutiveErrors s' = k + n \<and> lastStatus s' = lastStatus s"
    if "consecutiveErrors s = k" "length pls = n" for k n s and pls :: "(started_poll \<times> string) list"
    using that
  proof (induction pls arbitrary: k n s)
    case Nil
    then show ?case by simp
  next
    case (Cons pl pls)
    obtain s1 where s1: "pollCycle_end addr (fst pl) (WriteThrew (snd pl) # rs) s
        = (s1, if MAX_CONSECUTIVE_ERRORS \<le> Suc k then [FatalPollError (Suc k)] else [])"
        "consecutiveErrors s1 = Suc k" "lastStatus s1 = lastStatus s"
      using failing_poll[OF Cons.prems(1)] by blast
    from Cons.IH[OF s1(2) refl] obtain s2 where s2:
      "steps (\<lambda>s pl. pollCycle_end addr (fst pl) (WriteThrew (snd pl) # rs) s) s1 pls
        = (s2, map FatalPollError [max MAX_CONSECUTIVE_ERRORS (Suc (Suc k))..<Suc (Suc k + length pls)])"
      "consecutiveErrors s2 = Suc k + length pls" "lastStatus s2 = lastStatus s1" by blast
    have "(if MAX_CONSECUTIVE_ERRORS \<le> Suc k then [FatalPollError (Suc k)] else []) @
        map FatalPollError [max MAX_CONSECUTIVE_ERRORS (Suc (Suc k))..<Suc (Suc k + length pls)]
      = map FatalPollError [max MAX_CONSECUTIVE_ERRORS (Suc k)..<Suc (k + length (pl # pls))]"
      by (cases "MAX_CONSECUTIVE_ERRORS \<le> Suc k")
        (simp_all add: max_absorb2 max_absorb1 upt_conv_Cons[of "Suc k"] del: upt_Suc)
    with s1 s2 Cons.prems(2) show ?case by auto
  qed
  from this[OF assms(1,2)] show ?thesis by (simp add: MAX_CONSECUTIVE_ERRORS_def max_def)
qed

theorem ten_failures_are_fatal_witness:
  "\<exists>s'. steps (\<lambda>s pl. pollCycle_end \<lparr>radio = 0x94, controller = 0xe0\<rparr> (fst pl) (WriteThrew (snd pl) # []) s)
       new_session (replicate 11 ((None, False), ''EPIPE''))
      = (s', map FatalPollError [MAX_CONSECUTIVE_ERRORS..<Suc 11]) \<and> consecutiveErrors s' = 11 \<and>
        lastStatus s' = lastStatus new_session"
  by (rule ten_failures_are_fatal) (simp_all add: new_session_def)

end
