(* ===== verification/PttSafety.thy ===== *)
theory PttSafety
  imports PromiseQueue
begin

text \<open>
  The manual-PTT safety controller (\<open>bridge/src/pttSafety.ts\<close>): lockout, ownership by one
  client, the maximum key-down timer and the retried release.

  Every method puts an operation into a promise chain and each operation awaits the hardware
  driver at most once, so an operation has two halves: the code up to \<open>await drivePtt\<close>
  (\<open>start_op\<close>) and the code after it (\<open>drive_done\<close>). Timers and the driver are the
  environment. The model adds the state of the transmitter, \<open>keyed\<close>, which the controller
  cannot read: a drive that succeeds sets it to what was asked, a drive that fails leaves it
  as the event says.
\<close>

section \<open>State and operations\<close>

type_synonym client = string

datatype op =
    SetManualPtt client bool
  | Release string
  | ReleaseIfOwnedBy client string
  | Configure bool

datatype ptt_error = LockoutEnabled | ReleaseIsPending | OtherClientOwns | DriveFailed

datatype ptt_out =
    Drive bool
  | Settled nat "ptt_error + bool"
  | OnReleaseError string

type_synonym entry = "nat option \<times> op" \<comment> \<open>the promise of a caller, or none for the timers' releases\<close>

record Ptt =
  isLockedOut :: bool
  ownerClientId :: "client option"
  maxKeyDownTimer :: bool
  releaseRetryTimer :: "string option" \<comment> \<open>the reason its callback was created with\<close>
  releasePending :: bool
  queue :: "entry list"
  running :: "entry option" \<comment> \<open>the operation that awaits the driver\<close>
  keyed :: bool

definition new_ptt :: Ptt where
  "new_ptt = \<lparr>isLockedOut = False, ownerClientId = None, maxKeyDownTimer = False,
     releaseRetryTimer = None, releasePending = False, queue = [], running = None, keyed = False\<rparr>"

definition clearTimers :: "Ptt \<Rightarrow> Ptt" where
  "clearTimers s = s\<lparr>maxKeyDownTimer := False, releaseRetryTimer := None\<rparr>"

definition scheduleReleaseRetry :: "string \<Rightarrow> Ptt \<Rightarrow> Ptt" where
  "scheduleReleaseRetry reason s =
     (if releaseRetryTimer s \<noteq> None \<or> ownerClientId s = None then s
      else s\<lparr>releaseRetryTimer := Some reason\<rparr>)"

definition ptt_settle :: "entry \<Rightarrow> ptt_error + bool \<Rightarrow> ptt_out list" where
  \<comment> \<open>a caller's promise settles; a rejected release of a timer goes to \<open>onReleaseError\<close>\<close>
  "ptt_settle e r = (case e of
       (Some i, _) \<Rightarrow> [Settled i r]
     | (None, Release reason) \<Rightarrow> (case r of Inl _ \<Rightarrow> [OnReleaseError reason] | Inr _ \<Rightarrow> [])
     | (None, _) \<Rightarrow> [])"

definition releaseNow :: "entry \<Rightarrow> Ptt \<Rightarrow> Ptt \<times> ptt_out list" where
  "releaseNow e s =
     (if ownerClientId s = None then (s, ptt_settle e (Inr False))
      else (s\<lparr>releasePending := True, running := Some e\<rparr>, [Drive False]))"

definition setManualPtt :: "entry \<Rightarrow> client \<Rightarrow> bool \<Rightarrow> Ptt \<Rightarrow> Ptt \<times> ptt_out list" where
  "setManualPtt e clientId enabled s =
     (if enabled \<and> isLockedOut s then (s, ptt_settle e (Inl LockoutEnabled))
      else if enabled \<and> releasePending s then (s, ptt_settle e (Inl ReleaseIsPending))
      else if enabled \<and> ownerClientId s \<noteq> None \<and> ownerClientId s \<noteq> Some clientId
           then (s, ptt_settle e (Inl OtherClientOwns))
      else let s1 = (if enabled then s\<lparr>ownerClientId := Some clientId\<rparr> else s)
           in (s1\<lparr>running := Some e\<rparr>, [Drive enabled]))"

definition start_op :: "entry \<Rightarrow> Ptt \<Rightarrow> Ptt \<times> ptt_out list" where
  \<comment> \<open>the operation up to its call of the driver\<close>
  "start_op e s =
     (case snd e of
        SetManualPtt c enabled \<Rightarrow> setManualPtt e c enabled s
      | Release reason \<Rightarrow> releaseNow e s
      | ReleaseIfOwnedBy c reason \<Rightarrow>
          if ownerClientId s \<noteq> Some c then (s, ptt_settle e (Inr False)) else releaseNow e s
      | Configure lockout \<Rightarrow>
          let s1 = s\<lparr>isLockedOut := lockout\<rparr>
          in if lockout then releaseNow e s1 else (s1, ptt_settle e (Inr True)))"

definition release_done :: "entry \<Rightarrow> string \<Rightarrow> bool \<Rightarrow> Ptt \<Rightarrow> Ptt \<times> ptt_out list" where
  "release_done e reason ok s =
     (if ok then (clearTimers (s\<lparr>ownerClientId := None, releasePending := False\<rparr>), ptt_settle e (Inr True))
      else (scheduleReleaseRetry reason s, ptt_settle e (Inl DriveFailed)))"

definition manual_done :: "entry \<Rightarrow> client \<Rightarrow> bool \<Rightarrow> bool \<Rightarrow> Ptt \<Rightarrow> Ptt \<times> ptt_out list" where
  "manual_done e clientId enabled ok s =
     (if \<not> ok
      then (if enabled \<and> ownerClientId s = Some clientId then s\<lparr>ownerClientId := None\<rparr> else s,
            ptt_settle e (Inl DriveFailed))
      else let s1 = clearTimers s
           in if \<not> enabled then (s1\<lparr>ownerClientId := None, releasePending := False\<rparr>, ptt_settle e (Inr True))
              else (s1\<lparr>maxKeyDownTimer := True\<rparr>, ptt_settle e (Inr True)))"

definition asked :: "op \<Rightarrow> bool" where
  \<comment> \<open>what the operation asks of the driver\<close>
  "asked o' = (case o' of SetManualPtt c enabled \<Rightarrow> enabled | _ \<Rightarrow> False)"

definition drive_done :: "bool \<Rightarrow> bool \<Rightarrow> Ptt \<Rightarrow> Ptt \<times> ptt_out list" where
  \<comment> \<open>the operation from its call of the driver on\<close>
  "drive_done ok hw s0 =
     (case running s0 of
        None \<Rightarrow> (s0, [])
      | Some e \<Rightarrow>
          let s = s0\<lparr>running := None, keyed := (if ok then asked (snd e) else hw)\<rparr>
          in case snd e of
               SetManualPtt c enabled \<Rightarrow> manual_done e c enabled ok s
             | Release reason \<Rightarrow> release_done e reason ok s
             | ReleaseIfOwnedBy c reason \<Rightarrow> release_done e reason ok s
             | Configure b \<Rightarrow> release_done e ''PTT safety lockout enabled'' ok s)"

datatype ptt_event =
    Call nat op
  | StartOp
  | DriveDone bool bool \<comment> \<open>success, and the state of the transmitter after a failure\<close>
  | MaxKeyDownFires
  | RetryFires

definition ptt_start_next :: "Ptt \<Rightarrow> Ptt \<times> ptt_out list" where
  "ptt_start_next s = (case (running s, queue s) of
     (None, e # es) \<Rightarrow> start_op e (s\<lparr>queue := es\<rparr>)
   | _ \<Rightarrow> (s, []))"

fun ptt_step :: "Ptt \<Rightarrow> ptt_event \<Rightarrow> Ptt \<times> ptt_out list" where
  "ptt_step s (Call i o') = (s\<lparr>queue := queue s @ [(Some i, o')]\<rparr>, [])"
| "ptt_step s StartOp = ptt_start_next s"
| "ptt_step s (DriveDone ok hw) = drive_done ok hw s"
| "ptt_step s MaxKeyDownFires =
     (if maxKeyDownTimer s
      then (s\<lparr>maxKeyDownTimer := False, queue := queue s @ [(None, Release ''maximum key-down timer'')]\<rparr>, [])
      else (s, []))"
| "ptt_step s RetryFires =
     (case releaseRetryTimer s of
        None \<Rightarrow> (s, [])
      | Some reason \<Rightarrow> (s\<lparr>releaseRetryTimer := None, queue := queue s @ [(None, Release reason)]\<rparr>, []))"

abbreviation ptt_run :: "Ptt \<Rightarrow> ptt_event list \<Rightarrow> Ptt \<times> ptt_out list" where
  "ptt_run \<equiv> steps ptt_step"

lemmas ptt_defs = ptt_start_next_def start_op_def setManualPtt_def releaseNow_def drive_done_def
  manual_done_def release_done_def clearTimers_def scheduleReleaseRetry_def Let_def

section \<open>The queue contract\<close>

fun settled_of :: "ptt_out \<Rightarrow> nat list" where
  "settled_of (Settled i r) = [i]"
| "settled_of _ = []"

definition settled_ids :: "ptt_out list \<Rightarrow> nat list" where
  "settled_ids os = concat (map settled_of os)"

definition entry_ids :: "entry \<Rightarrow> nat list" where
  "entry_ids e = (case fst e of None \<Rightarrow> [] | Some i \<Rightarrow> [i])"

definition queued_ids :: "Ptt \<Rightarrow> nat list" where
  "queued_ids s = concat (map entry_ids (queue s))"

definition running_ids :: "Ptt \<Rightarrow> nat list" where
  "running_ids s = (case running s of None \<Rightarrow> [] | Some e \<Rightarrow> entry_ids e)"

definition ptt_open :: "Ptt \<Rightarrow> nat list" where
  "ptt_open s = running_ids s @ queued_ids s"

fun ptt_calls :: "ptt_event \<Rightarrow> nat list" where
  "ptt_calls (Call i o') = [i]"
| "ptt_calls _ = []"

lemma settled_append: "settled_ids (xs @ ys) = settled_ids xs @ settled_ids ys"
  by (simp add: settled_ids_def)

lemma settled_simps [simp]: "settled_ids [] = []" "settled_ids (Drive b # os) = settled_ids os"
  by (simp_all add: settled_ids_def)

lemma settled_settle [simp]: "settled_ids (ptt_settle e r) = entry_ids e"
proof (cases e)
  case (Pair i o')
  then show ?thesis
    by (cases i; cases o'; cases r) (simp_all add: settled_ids_def ptt_settle_def entry_ids_def)
qed

lemma start_op_balance:
  "running s = None \<Longrightarrow>
     settled_ids (snd (start_op e s)) @ running_ids (fst (start_op e s)) = entry_ids e \<and>
     queue (fst (start_op e s)) = queue s"
  by (cases "snd e") (simp_all add: ptt_defs running_ids_def)

lemma drive_done_balance:
  "settled_ids (snd (drive_done ok hw s)) @ running_ids (fst (drive_done ok hw s)) = running_ids s \<and>
     queue (fst (drive_done ok hw s)) = queue s"
proof (cases "running s")
  case None
  then show ?thesis by (simp add: drive_done_def)
next
  case (Some e)
  then show ?thesis by (cases "snd e") (simp_all add: ptt_defs running_ids_def)
qed

lemma ptt_balance:
  "mset (settled_ids (snd (ptt_step s e))) + mset (ptt_open (fst (ptt_step s e)))
     = mset (ptt_open s) + mset (ptt_calls e)"
proof (cases e)
  case (Call i o')
  then show ?thesis by (simp add: ptt_open_def running_ids_def queued_ids_def entry_ids_def)
next
  case StartOp
  show ?thesis
  proof (cases "running s = None \<and> queue s \<noteq> []")
    case False
    then show ?thesis using StartOp by (auto simp: ptt_start_next_def split: option.splits list.splits)
  next
    case True
    then obtain x xs where q: "queue s = x # xs" "running s = None" by (cases "queue s") auto
    have "mset (settled_ids (snd (start_op x (s\<lparr>queue := xs\<rparr>)))) + mset (running_ids (fst (start_op x (s\<lparr>queue := xs\<rparr>))))
        = mset (entry_ids x)"
      using start_op_balance[of "s\<lparr>queue := xs\<rparr>" x] q(2) by (simp flip: mset_append)
    then show ?thesis
      using q StartOp start_op_balance[of "s\<lparr>queue := xs\<rparr>" x]
      by (simp add: ptt_start_next_def ptt_open_def queued_ids_def running_ids_def add.assoc[symmetric])
  qed
next
  case (DriveDone ok hw)
  have "mset (settled_ids (snd (drive_done ok hw s))) + mset (running_ids (fst (drive_done ok hw s)))
      = mset (running_ids s)"
    using drive_done_balance[of ok hw s] by (simp flip: mset_append)
  then show ?thesis
    using DriveDone drive_done_balance[of ok hw s]
    by (simp add: ptt_open_def queued_ids_def add.assoc[symmetric])
qed (auto simp: ptt_open_def queued_ids_def running_ids_def entry_ids_def split: option.splits)

interpretation pq: promise_queue ptt_step "\<lambda>_. True" ptt_open ptt_calls settled_ids
  by unfold_locales (simp_all add: settled_append ptt_balance)

section \<open>The watchdog\<close>

definition watching :: "Ptt \<Rightarrow> bool" where
  \<comment> \<open>a timer is armed, or a release is queued or under way\<close>
  "watching s \<longleftrightarrow> maxKeyDownTimer s \<or> releaseRetryTimer s \<noteq> None \<or>
     list_ex (\<lambda>e. case snd e of Release r \<Rightarrow> True | _ \<Rightarrow> False) (queue s) \<or>
     (case running s of None \<Rightarrow> False | Some e \<Rightarrow> (case snd e of SetManualPtt c enabled \<Rightarrow> enabled | _ \<Rightarrow> True))"

definition ptt_ok :: "Ptt \<Rightarrow> bool" where
  "ptt_ok s \<longleftrightarrow> (ownerClientId s \<noteq> None \<longrightarrow> watching s) \<and>
     (case running s of None \<Rightarrow> True | Some e \<Rightarrow> (case snd e of
        SetManualPtt c enabled \<Rightarrow> enabled \<longrightarrow> ownerClientId s = Some c
      | _ \<Rightarrow> ownerClientId s \<noteq> None))"

lemma ptt_ok_new: "ptt_ok new_ptt"
  by (simp add: ptt_ok_def new_ptt_def)

lemma ptt_ok_start: "ptt_ok s \<Longrightarrow> running s = None \<Longrightarrow> queue s = e # es \<Longrightarrow> ptt_ok (fst (start_op e (s\<lparr>queue := es\<rparr>)))"
  by (cases "snd e") (auto simp: ptt_ok_def watching_def ptt_defs)

lemma ptt_ok_done: "ptt_ok s \<Longrightarrow> ptt_ok (fst (drive_done ok hw s))"
proof (cases "running s")
  case None
  then show "ptt_ok s \<Longrightarrow> ?thesis" by (simp add: drive_done_def)
next
  case (Some e)
  then show "ptt_ok s \<Longrightarrow> ?thesis" by (cases "snd e") (auto simp: ptt_ok_def watching_def ptt_defs)
qed

lemma ptt_ok_step: "ptt_ok s \<Longrightarrow> ptt_ok (fst (ptt_step s e))"
proof (cases e)
  case StartOp
  assume "ptt_ok s"
  then show ?thesis
    using StartOp ptt_ok_start by (auto simp: ptt_start_next_def split: option.splits list.splits)
next
  case (DriveDone ok hw)
  assume "ptt_ok s"
  then show ?thesis using DriveDone ptt_ok_done by simp
qed (auto simp: ptt_ok_def watching_def split: option.splits op.splits)

lemma ptt_run_ok: "ptt_ok s \<Longrightarrow> ptt_ok (fst (ptt_run s es))"
  by (rule steps_ok[of ptt_ok]) (rule ptt_ok_step)

text \<open>
  The last drive of a run: the operation that awaited it, whether it succeeded, the state it left
  the transmitter in when it failed, and the owner at that time.
\<close>

type_synonym drive = "op \<times> bool \<times> bool \<times> client option"

definition drive_seen :: "Ptt \<Rightarrow> ptt_event \<Rightarrow> drive option \<Rightarrow> drive option" where
  "drive_seen s e d = (case (e, running s) of
     (DriveDone ok hw, Some x) \<Rightarrow> Some (snd x, ok, hw, ownerClientId s)
   | _ \<Rightarrow> d)"

fun last_drive :: "Ptt \<Rightarrow> ptt_event list \<Rightarrow> drive option \<Rightarrow> drive option" where
  "last_drive s [] d = d"
| "last_drive s (e # es) d = last_drive (fst (ptt_step s e)) es (drive_seen s e d)"

definition manual_left_on :: "drive option \<Rightarrow> bool" where
  \<comment> \<open>a failed manual operation that left the transmitter on: a key-down, or the key-up of a
      transmitter nobody owns\<close>
  "manual_left_on d = (case d of
     Some (SetManualPtt c enabled, ok, hw, owner) \<Rightarrow> \<not> ok \<and> hw \<and> (enabled \<or> owner = None)
   | _ \<Rightarrow> False)"

definition keying :: "Ptt \<Rightarrow> bool" where
  \<comment> \<open>a key-down awaits the driver\<close>
  "keying s = (case running s of None \<Rightarrow> False | Some x \<Rightarrow> asked (snd x))"

definition keyed_inv :: "Ptt \<Rightarrow> drive option \<Rightarrow> bool" where
  "keyed_inv s d \<longleftrightarrow> ptt_ok s \<and> (keyed s \<longrightarrow> (ownerClientId s = None \<longleftrightarrow> manual_left_on d \<and> \<not> keying s))"

lemma keyed_inv_start:
  assumes "keyed_inv s d" "running s = None" "queue s = e # es"
  shows "keyed_inv (fst (start_op e (s\<lparr>queue := es\<rparr>))) d"
  using assms ptt_ok_start[of s e es]
  by (cases "snd e") (auto simp: keyed_inv_def keying_def asked_def ptt_defs)

lemma keyed_inv_done:
  assumes "keyed_inv s d"
  shows "keyed_inv (fst (drive_done ok hw s)) (drive_seen s (DriveDone ok hw) d)"
proof (cases "running s")
  case None
  then show ?thesis using assms by (simp add: drive_done_def drive_seen_def)
next
  case (Some e)
  then show ?thesis
    using assms ptt_ok_done[of s ok hw]
    by (cases "snd e")
      (auto simp: keyed_inv_def keying_def asked_def drive_seen_def manual_left_on_def ptt_ok_def ptt_defs)
qed

lemma keyed_inv_step: "keyed_inv s d \<Longrightarrow> keyed_inv (fst (ptt_step s e)) (drive_seen s e d)"
proof (cases e)
  case StartOp
  assume "keyed_inv s d"
  then show ?thesis
    using StartOp keyed_inv_start
    by (auto simp: ptt_start_next_def drive_seen_def split: option.splits list.splits)
next
  case (DriveDone ok hw)
  assume "keyed_inv s d"
  then show ?thesis using DriveDone keyed_inv_done by simp
qed (use ptt_ok_step[of s e] in \<open>auto simp: keyed_inv_def keying_def drive_seen_def split: option.splits\<close>)

lemma keyed_inv_run: "keyed_inv s d \<Longrightarrow> keyed_inv (fst (ptt_run s es)) (last_drive s es d)"
proof (induction es arbitrary: s d)
  case Nil
  then show ?case by simp
next
  case (Cons e es)
  then show ?case using keyed_inv_step[of s d e] by (simp add: case_prod_beta Let_def)
qed

lemma keyed_inv_new: "keyed_inv new_ptt d"
  using ptt_ok_new by (simp add: keyed_inv_def new_ptt_def)

section \<open>Lockout\<close>

definition no_unlock :: "Ptt \<Rightarrow> bool" where
  "no_unlock s \<longleftrightarrow> isLockedOut s \<and> list_all (\<lambda>e. snd e \<noteq> Configure False) (queue s)"

lemma no_unlock_step:
  assumes "no_unlock s" "\<And>i. e \<noteq> Call i (Configure False)"
  shows "no_unlock (fst (ptt_step s e)) \<and> Drive True \<notin> set (snd (ptt_step s e))"
proof (cases e)
  case (Call i o')
  then show ?thesis using assms by (auto simp: no_unlock_def)
next
  case StartOp
  show ?thesis
  proof (cases "running s = None \<and> queue s \<noteq> []")
    case False
    then show ?thesis
      using assms(1) StartOp by (auto simp: no_unlock_def ptt_start_next_def split: option.splits list.splits)
  next
    case True
    then obtain x xs where q: "queue s = x # xs" "running s = None" by (cases "queue s") auto
    have n: "Drive b \<notin> set (ptt_settle x r)" for b r
      by (auto simp: ptt_settle_def split: prod.splits option.splits op.splits sum.splits)
    show ?thesis
      using assms(1) q StartOp n by (cases "snd x") (auto simp: no_unlock_def ptt_defs)
  qed
next
  case (DriveDone ok hw)
  have n: "Drive b \<notin> set (ptt_settle x r)" for b x r
    by (auto simp: ptt_settle_def split: prod.splits option.splits op.splits sum.splits)
  have "no_unlock (fst (drive_done ok hw s)) \<and> Drive True \<notin> set (snd (drive_done ok hw s))"
  proof (cases "running s")
    case None
    then show ?thesis using assms(1) by (simp add: drive_done_def)
  next
    case (Some x)
    then show ?thesis using assms(1) n by (cases "snd x") (auto simp: no_unlock_def ptt_defs)
  qed
  then show ?thesis using DriveDone by simp
qed (use assms(1) in \<open>auto simp: no_unlock_def split: option.splits\<close>)

section \<open>A transmitter without an owner\<close>

definition ownerless :: "Ptt \<Rightarrow> bool" where
  "ownerless s \<longleftrightarrow> ownerClientId s = None \<and> running s = None \<and>
     list_all (\<lambda>e. case snd e of SetManualPtt c b \<Rightarrow> False | _ \<Rightarrow> True) (queue s)"

definition manual_call :: "ptt_event \<Rightarrow> bool" where
  "manual_call e = (case e of Call i (SetManualPtt c b) \<Rightarrow> True | _ \<Rightarrow> False)"

lemma ownerless_step:
  assumes "ownerless s" "\<not> manual_call e"
  shows "ownerless (fst (ptt_step s e)) \<and> keyed (fst (ptt_step s e)) = keyed s \<and>
    Drive b \<notin> set (snd (ptt_step s e))"
proof (cases e)
  case (Call i o')
  then show ?thesis using assms by (auto simp: ownerless_def manual_call_def split: op.splits)
next
  case StartOp
  show ?thesis
  proof (cases "queue s")
    case Nil
    then show ?thesis using assms StartOp by (auto simp: ownerless_def ptt_start_next_def split: option.splits)
  next
    case (Cons x xs)
    have n: "Drive b \<notin> set (ptt_settle x r)" for b r
      by (auto simp: ptt_settle_def split: prod.splits option.splits op.splits sum.splits)
    show ?thesis
      using assms(1) Cons StartOp n by (cases "snd x") (auto simp: ownerless_def ptt_defs)
  qed
qed (use assms(1) in \<open>auto simp: ownerless_def drive_done_def split: option.splits\<close>)

lemma ownerless_run:
  "ownerless s \<Longrightarrow> list_all (\<lambda>e. \<not> manual_call e) es \<Longrightarrow>
     keyed (fst (ptt_run s es)) = keyed s \<and> Drive b \<notin> set (snd (ptt_run s es))"
proof (induction es arbitrary: s)
  case Nil
  then show ?case by simp
next
  case (Cons e es)
  then show ?case using ownerless_step[of s e b] by (simp add: case_prod_beta Let_def)
qed

section \<open>Properties\<close>

text \<open>
  C1: Watchdog safety. After any run from the initial state, whatever calls and timers arrive and
  whatever the driver does, a keyed transmitter has an owner and is being watched (the maximum
  key-down timer or the retry timer is armed, or a release is queued or under way, or the key-down
  that arms the timer is), with exactly one exception: when the last drive was a manual operation
  that failed and left the transmitter on, a key-down or the key-up of a transmitter nobody owns,
  and no new key-down is under way, it has no owner.
\<close>

theorem keyed_transmitter_is_watched:
  assumes "ptt_run new_ptt es = (s, os)" "keyed s"
  shows "(ownerClientId s \<noteq> None \<and> watching s) \<longleftrightarrow>
    \<not> manual_left_on (last_drive new_ptt es None) \<or> keying s"
  using keyed_inv_run[OF keyed_inv_new, of es None] assms by (auto simp: keyed_inv_def ptt_ok_def)

theorem keyed_transmitter_is_watched_witness:
  "let s = fst (ptt_run new_ptt [Call 1 (SetManualPtt ''tab'' True), StartOp, DriveDone False True,
       Call 2 (SetManualPtt ''tab'' True), StartOp, DriveDone True False,
       MaxKeyDownFires, StartOp, DriveDone False True])
   in keyed s \<and> ownerClientId s \<noteq> None \<and> watching s"
proof -
  let ?es = "[Call 1 (SetManualPtt ''tab'' True), StartOp, DriveDone False True,
       Call 2 (SetManualPtt ''tab'' True), StartOp, DriveDone True False,
       MaxKeyDownFires, StartOp, DriveDone False True]"
  obtain s os where r: "ptt_run new_ptt ?es = (s, os)" by (cases "ptt_run new_ptt ?es")
  then have k: "keyed s" by (auto simp: new_ptt_def ptt_defs asked_def)
  have "\<not> manual_left_on (last_drive new_ptt ?es None)"
    by (simp add: manual_left_on_def drive_seen_def new_ptt_def ptt_defs asked_def)
  then have "ownerClientId s \<noteq> None \<and> watching s" using keyed_transmitter_is_watched[OF r k] by simp
  then show ?thesis unfolding r Let_def fst_conv using k by simp
qed

text \<open>
  In every run, whatever the driver does, a controller with an owner is watching: it never
  forgets to arm a timer or queue a release while a client owns the transmitter.
\<close>

theorem owned_transmitter_is_watched:
  "ownerClientId (fst (ptt_run new_ptt es)) \<noteq> None \<longrightarrow> watching (fst (ptt_run new_ptt es))"
  using ptt_run_ok[OF ptt_ok_new, of es] by (simp add: ptt_ok_def)

theorem owned_transmitter_is_watched_witness:
  "watching (fst (ptt_run new_ptt [Call 1 (SetManualPtt ''tab'' True), StartOp, DriveDone True False,
     MaxKeyDownFires, StartOp, DriveDone False True]))"
  using owned_transmitter_is_watched[of "[Call 1 (SetManualPtt ''tab'' True), StartOp, DriveDone True False,
     MaxKeyDownFires, StartOp, DriveDone False True]"]
  by (simp add: new_ptt_def ptt_defs asked_def)

lemma retry_round:
  assumes "ownerClientId s \<noteq> None" "running s = None" "queue s = []" "releaseRetryTimer s = Some r"
  shows "\<exists>s' os. ptt_run s [RetryFires, StartOp, DriveDone False True] = (s', os) \<and>
      ownerClientId s' = ownerClientId s \<and> running s' = None \<and> queue s' = [] \<and> releaseRetryTimer s' = Some r"
    "\<exists>s' os. ptt_run s [RetryFires, StartOp, DriveDone True hw] = (s', os) \<and> \<not> keyed s' \<and> ownerClientId s' = None \<and>
      \<not> maxKeyDownTimer s' \<and> releaseRetryTimer s' = None \<and> \<not> releasePending s' \<and> running s' = None \<and> queue s' = []"
  using assms by (auto simp: ptt_defs asked_def)

lemma retry_rounds:
  "ownerClientId s \<noteq> None \<Longrightarrow> running s = None \<Longrightarrow> queue s = [] \<Longrightarrow> releaseRetryTimer s = Some r \<Longrightarrow>
   \<exists>s' os. ptt_run s (concat (replicate n [RetryFires, StartOp, DriveDone False True]) @
        [RetryFires, StartOp, DriveDone True hw]) = (s', os) \<and>
     \<not> keyed s' \<and> ownerClientId s' = None \<and> \<not> maxKeyDownTimer s' \<and> releaseRetryTimer s' = None \<and>
     \<not> releasePending s'"
proof (induction n arbitrary: s)
  case 0
  then show ?case using retry_round(2)[of s r hw] by auto
next
  case (Suc n)
  from retry_round(1)[OF Suc.prems] obtain s1 o1 where s1: "ptt_run s [RetryFires, StartOp, DriveDone False True] = (s1, o1)"
    "ownerClientId s1 \<noteq> None" "running s1 = None" "queue s1 = []" "releaseRetryTimer s1 = Some r"
    using Suc.prems(1) by auto
  from Suc.IH[OF s1(2-5)] obtain s2 o2 where s2: "ptt_run s1 (concat (replicate n [RetryFires, StartOp, DriveDone False True]) @
        [RetryFires, StartOp, DriveDone True hw]) = (s2, o2)" "\<not> keyed s2 \<and> ownerClientId s2 = None \<and>
      \<not> maxKeyDownTimer s2 \<and> releaseRetryTimer s2 = None \<and> \<not> releasePending s2" by blast
  have "ptt_run s (concat (replicate (Suc n) [RetryFires, StartOp, DriveDone False True]) @
        [RetryFires, StartOp, DriveDone True hw]) = (s2, o1 @ o2)"
    using steps_append[of ptt_step s "[RetryFires, StartOp, DriveDone False True]"
        "concat (replicate n [RetryFires, StartOp, DriveDone False True]) @ [RetryFires, StartOp, DriveDone True hw]"]
      s1(1) s2(1) by (simp only: replicate_Suc concat.simps append_assoc Let_def prod.case)
  with s2(2) show ?case by blast
qed

text \<open>
  C21: When the maximum key-down timer fires and the driver fails any number of times before it
  succeeds, the retries bring the transmitter down: it ends unkeyed, without an owner, with no
  timer armed and no release pending.
\<close>

theorem watchdog_releases:
  assumes "ownerClientId s \<noteq> None" "maxKeyDownTimer s" "running s = None" "queue s = []"
  shows "\<exists>s' os. ptt_run s ([MaxKeyDownFires, StartOp, DriveDone False True] @
        concat (replicate n [RetryFires, StartOp, DriveDone False True]) @
        [RetryFires, StartOp, DriveDone True hw]) = (s', os) \<and>
     \<not> keyed s' \<and> ownerClientId s' = None \<and> \<not> maxKeyDownTimer s' \<and> releaseRetryTimer s' = None \<and>
     \<not> releasePending s'"
proof -
  have "\<exists>s1 o1 r. ptt_run s [MaxKeyDownFires, StartOp, DriveDone False True] = (s1, o1) \<and>
      ownerClientId s1 \<noteq> None \<and> running s1 = None \<and> queue s1 = [] \<and> releaseRetryTimer s1 = Some r"
    using assms by (cases "releaseRetryTimer s") (auto simp: ptt_defs)
  then obtain s1 o1 r where s1: "ptt_run s [MaxKeyDownFires, StartOp, DriveDone False True] = (s1, o1)"
      "ownerClientId s1 \<noteq> None" "running s1 = None" "queue s1 = []" "releaseRetryTimer s1 = Some r" by blast
  from retry_rounds[OF s1(2-5), of n hw] s1(1) show ?thesis
    unfolding steps_append[of ptt_step s] by (auto simp: Let_def simp del: steps.simps)
qed

theorem watchdog_releases_witness:
  "\<exists>s' os. ptt_run (fst (ptt_run new_ptt [Call 1 (SetManualPtt ''tab'' True), StartOp, DriveDone True False]))
       ([MaxKeyDownFires, StartOp, DriveDone False True] @
        concat (replicate 2 [RetryFires, StartOp, DriveDone False True]) @
        [RetryFires, StartOp, DriveDone True False]) = (s', os) \<and>
     \<not> keyed s' \<and> ownerClientId s' = None \<and> \<not> maxKeyDownTimer s' \<and> releaseRetryTimer s' = None \<and>
     \<not> releasePending s'"
  by (rule watchdog_releases) (simp_all add: new_ptt_def ptt_defs)

text \<open>
  Once the lockout is on, and until a call asks to switch it off, no event makes the
  controller key the transmitter, whatever calls, timers and driver results arrive.
\<close>

theorem lockout_blocks_keying:
  assumes "isLockedOut s" "list_all (\<lambda>e. snd e \<noteq> Configure False) (queue s)"
    "list_all (\<lambda>e. \<forall>i. e \<noteq> Call i (Configure False)) es"
  shows "Drive True \<notin> set (snd (ptt_run s es))"
proof -
  have "no_unlock s" using assms(1,2) by (simp add: no_unlock_def)
  then show ?thesis using assms(3)
  proof (induction es arbitrary: s)
    case Nil
    then show ?case by simp
  next
    case (Cons e es)
    then show ?case using no_unlock_step[of s e] by (simp add: case_prod_beta Let_def)
  qed
qed

theorem lockout_blocks_keying_witness:
  "Drive True \<notin> set (snd (ptt_run (new_ptt\<lparr>isLockedOut := True\<rparr>)
     [Call 1 (SetManualPtt ''tab'' True), StartOp, DriveDone True False]))"
  by (rule lockout_blocks_keying) (simp_all add: new_ptt_def)

text \<open>
  C19: A repeated key-down by the owner that the driver rejects while the transmitter stays on
  takes the owner away, and with it the watchdog: from then on neither the maximum key-down
  timer, nor a retry, nor a disconnect's or shutdown's release, nor a lockout drives the
  transmitter, in any run without another manual PTT call; it stays keyed.
\<close>

theorem failed_rekey_defeats_watchdog:
  assumes "ownerClientId s = Some c" "keyed s" "\<not> isLockedOut s" "\<not> releasePending s"
    "running s = None" "queue s = []" "list_all (\<lambda>e. \<not> manual_call e) es"
  shows "\<exists>s' os. ptt_run s [Call i (SetManualPtt c True), StartOp, DriveDone False True] = (s', os) \<and>
    maxKeyDownTimer s' = maxKeyDownTimer s \<and> keyed (fst (ptt_run s' es)) \<and> Drive b \<notin> set (snd (ptt_run s' es))"
proof -
  obtain s' os where r: "ptt_run s [Call i (SetManualPtt c True), StartOp, DriveDone False True] = (s', os)"
    by (cases "ptt_run s [Call i (SetManualPtt c True), StartOp, DriveDone False True]")
  then have s': "ownerless s'" "keyed s'" "maxKeyDownTimer s' = maxKeyDownTimer s"
    using assms by (auto simp: ptt_defs asked_def ownerless_def)
  from ownerless_run[OF s'(1) assms(7), of b] r s'(2,3) show ?thesis by blast
qed

theorem failed_rekey_defeats_watchdog_witness:
  "\<exists>s' os. ptt_run (fst (ptt_run new_ptt [Call 1 (SetManualPtt ''tab'' True), StartOp, DriveDone True False]))
       [Call 2 (SetManualPtt ''tab'' True), StartOp, DriveDone False True] = (s', os) \<and>
    maxKeyDownTimer s' = maxKeyDownTimer (fst (ptt_run new_ptt [Call 1 (SetManualPtt ''tab'' True), StartOp, DriveDone True False])) \<and>
    keyed (fst (ptt_run s' [MaxKeyDownFires, StartOp, DriveDone True False, Call 3 (Configure True), StartOp])) \<and>
    Drive False \<notin> set (snd (ptt_run s' [MaxKeyDownFires, StartOp, DriveDone True False, Call 3 (Configure True), StartOp]))"
  by (rule failed_rekey_defeats_watchdog)
    (simp_all add: new_ptt_def ptt_defs asked_def manual_call_def)

text \<open>
  Over any run every call to the controller is answered at most once and only if it was
  made: the answers and the calls still open are the calls, each exactly once.
\<close>

theorem ptt_conserves_calls:
  "mset (settled_ids (snd (ptt_run new_ptt es)) @ ptt_open (fst (ptt_run new_ptt es)))
     = mset (concat (map ptt_calls es))"
  using pq.run_balance[of new_ptt es] by (simp add: ptt_open_def running_ids_def queued_ids_def new_ptt_def)

end
