(* ===== verification/HoldMachine.thy ===== *)
theory HoldMachine
  imports Prelude
begin

text \<open>
  The hold-to-confirm machine of the band verdicts (\<open>src/lib/verdict/stateMachine.ts\<close>, and its
  port in \<open>collector/src/verdict/ladder.ts\<close>). It is generic in the vocabulary, as the code is:
  a vocabulary is a type with a rank. Times are integer milliseconds.
\<close>

definition DOWNGRADE_HOLD_MS :: int where "DOWNGRADE_HOLD_MS = 20 * 60 * 1000"
definition UPGRADE_HOLD_MS :: int where "UPGRADE_HOLD_MS = 5 * 60 * 1000"

record 'v RankedMachineState =
  stable :: 'v
  stableSince :: int
  candidate :: "'v option"
  candidateSince :: int

record 'v RankedFlip =
  flip_from :: 'v
  flip_to :: 'v
  flip_at :: int

definition initialRankedState :: "'v \<Rightarrow> int \<Rightarrow> 'v RankedMachineState" where
  "initialRankedState verdict now =
     \<lparr>stable = verdict, stableSince = now, candidate = None, candidateSince = 0\<rparr>"

definition holdForRanked :: "('v \<Rightarrow> nat) \<Rightarrow> 'v \<Rightarrow> 'v \<Rightarrow> int" where
  "holdForRanked rank from to = (if rank to > rank from then UPGRADE_HOLD_MS else DOWNGRADE_HOLD_MS)"

definition advanceRanked ::
    "('v \<Rightarrow> nat) \<Rightarrow> 'v RankedMachineState \<Rightarrow> 'v \<Rightarrow> int \<Rightarrow> 'v RankedMachineState \<times> 'v RankedFlip option" where
  "advanceRanked rank s raw now =
     (if raw = stable s then
        (if candidate s = None then (s, None)
         else (s\<lparr>candidate := None, candidateSince := 0\<rparr>, None))
      else if candidate s \<noteq> Some raw then (s\<lparr>candidate := Some raw, candidateSince := now\<rparr>, None)
      else if now - candidateSince s \<ge> holdForRanked rank (stable s) raw
      then (\<lparr>stable = raw, stableSince = now, candidate = None, candidateSince = 0\<rparr>,
            Some \<lparr>flip_from = stable s, flip_to = raw, flip_at = now\<rparr>)
      else (s, None))"

section \<open>Runs of raw evaluations\<close>

type_synonym 'v evaluation = "'v \<times> int" \<comment> \<open>a raw verdict and the time of its evaluation\<close>

fun machine_run ::
    "('v \<Rightarrow> nat) \<Rightarrow> 'v RankedMachineState \<Rightarrow> 'v evaluation list \<Rightarrow> 'v RankedMachineState \<times> 'v RankedFlip list" where
  "machine_run rank s [] = (s, [])"
| "machine_run rank s ((raw, now) # xs) =
     (let (s1, f) = advanceRanked rank s raw now; (s2, fs) = machine_run rank s1 xs
      in (s2, (case f of None \<Rightarrow> [] | Some x \<Rightarrow> [x]) @ fs))"

lemma machine_run_append:
  "machine_run rank s (xs @ ys) =
     (let (s1, fs) = machine_run rank s xs; (s2, gs) = machine_run rank s1 ys in (s2, fs @ gs))"
  by (induction xs arbitrary: s) (auto simp: Let_def split: prod.splits)

lemma holds_positive: "0 < UPGRADE_HOLD_MS" "UPGRADE_HOLD_MS \<le> holdForRanked rank a b"
  "holdForRanked rank a b \<le> DOWNGRADE_HOLD_MS"
  by (simp_all add: UPGRADE_HOLD_MS_def DOWNGRADE_HOLD_MS_def holdForRanked_def)

section \<open>What a streak means\<close>

definition streak :: "'v RankedMachineState \<Rightarrow> 'v evaluation list \<Rightarrow> bool" where
  \<comment> \<open>the evaluations so far end with a run of the candidate that began at \<open>candidateSince\<close>\<close>
  "streak s xs \<longleftrightarrow> (case candidate s of
       None \<Rightarrow> True
     | Some v \<Rightarrow> v \<noteq> stable s \<and> (\<exists>ys zs. xs = ys @ (v, candidateSince s) # zs \<and> (\<forall>e \<in> set zs. fst e = v)))"

lemma streakI: "candidate s = Some v \<Longrightarrow> v \<noteq> stable s \<Longrightarrow> xs = ys @ (v, candidateSince s) # zs \<Longrightarrow>
    \<forall>e \<in> set zs. fst e = v \<Longrightarrow> streak s xs"
  by (auto simp: streak_def)

lemma streak_step:
  assumes "streak s xs" "advanceRanked rank s raw now = (s', f)"
  shows "streak s' (xs @ [(raw, now)])"
proof (cases "raw = stable s \<or> candidate s \<noteq> Some raw")
  case True
  show ?thesis
  proof (cases "raw = stable s")
    case True
    then show ?thesis using assms by (auto simp: streak_def advanceRanked_def split: if_splits)
  next
    case f: False
    with True assms(2) have "s' = s\<lparr>candidate := Some raw, candidateSince := now\<rparr>"
      by (auto simp: advanceRanked_def)
    then show ?thesis using f by (intro streakI[of _ raw _ xs "[]"]) simp_all
  qed
next
  case False
  then obtain ys zs where h: "xs = ys @ (raw, candidateSince s) # zs" "\<forall>e \<in> set zs. fst e = raw"
    using assms(1) by (auto simp: streak_def)
  show ?thesis
  proof (cases "now - candidateSince s \<ge> holdForRanked rank (stable s) raw")
    case True
    with False assms(2) show ?thesis by (auto simp: streak_def advanceRanked_def)
  next
    case f: False
    have "xs @ [(raw, now)] = ys @ (raw, candidateSince s) # (zs @ [(raw, now)])" using h(1) by simp
    moreover have "s' = s" "candidate s = Some raw" "raw \<noteq> stable s"
      using False f assms(2) by (auto simp: advanceRanked_def)
    ultimately show ?thesis using h(2) by (auto intro!: streakI)
  qed
qed

lemma streak_run: "streak s pre \<Longrightarrow> streak (fst (machine_run rank s xs)) (pre @ xs)"
proof (induction xs arbitrary: s pre)
  case Nil
  then show ?case by simp
next
  case (Cons x xs)
  obtain raw now where x: "x = (raw, now)" by (cases x)
  obtain s1 f where a: "advanceRanked rank s raw now = (s1, f)" by fastforce
  from Cons.IH[OF streak_step[OF Cons.prems a]] x a show ?case by (simp add: case_prod_beta)
qed

lemma advance_flip:
  assumes "advanceRanked rank s raw now = (s', Some f)"
  shows "f = \<lparr>flip_from = stable s, flip_to = raw, flip_at = now\<rparr>" "candidate s = Some raw"
    "raw \<noteq> stable s" "holdForRanked rank (stable s) raw \<le> now - candidateSince s"
    "s' = initialRankedState raw now"
  using assms by (auto simp: advanceRanked_def initialRankedState_def split: if_splits)

section \<open>Dwell time\<close>

definition timely :: "'v RankedMachineState \<Rightarrow> int \<Rightarrow> bool" where
  "timely s t \<longleftrightarrow> stableSince s \<le> t \<and> (candidate s \<noteq> None \<longrightarrow> stableSince s \<le> candidateSince s \<and> candidateSince s \<le> t)"

lemma timely_step:
  "timely s t \<Longrightarrow> t \<le> now \<Longrightarrow> timely (fst (advanceRanked rank s raw now)) now"
  by (auto simp: timely_def advanceRanked_def)

lemma timely_flip:
  assumes "timely s t" "advanceRanked rank s raw now = (s', Some f)"
  shows "stableSince s + holdForRanked rank (stable s) raw \<le> now"
  using advance_flip[OF assms(2)] assms(1) by (auto simp: timely_def)

fun spaced :: "('v \<Rightarrow> nat) \<Rightarrow> 'v \<Rightarrow> int \<Rightarrow> 'v RankedFlip list \<Rightarrow> bool" where
  \<comment> \<open>a chain of flips from a stable verdict, each at least its hold after the one before\<close>
  "spaced rank v t [] = True"
| "spaced rank v t (f # fs) \<longleftrightarrow> flip_from f = v \<and> flip_to f \<noteq> v \<and>
     t + holdForRanked rank v (flip_to f) \<le> flip_at f \<and> spaced rank (flip_to f) (flip_at f) fs"

lemma run_spaced:
  "timely s t \<Longrightarrow> sorted (t # map snd xs) \<Longrightarrow>
     spaced rank (stable s) (stableSince s) (snd (machine_run rank s xs))"
proof (induction xs arbitrary: s t)
  case Nil
  then show ?case by simp
next
  case (Cons x xs)
  obtain raw now where x: "x = (raw, now)" by (cases x)
  obtain s1 f where a: "advanceRanked rank s raw now = (s1, f)" by fastforce
  have t1: "timely s1 now" using timely_step[OF Cons.prems(1), of now rank raw] Cons.prems(2) x a by simp
  have ih: "spaced rank (stable s1) (stableSince s1) (snd (machine_run rank s1 xs))"
    using Cons.IH[OF t1] Cons.prems(2) x by simp
  show ?case
  proof (cases f)
    case None
    then have "stable s1 = stable s \<and> stableSince s1 = stableSince s"
      using a by (auto simp: advanceRanked_def split: if_splits)
    with ih x a None show ?thesis by (simp add: case_prod_beta)
  next
    case (Some y)
    note fl = advance_flip[OF a[unfolded Some]]
    from timely_flip[OF Cons.prems(1) a[unfolded Some]] fl ih x a Some show ?thesis
      by (auto simp: initialRankedState_def case_prod_beta)
  qed
qed

section \<open>Ranked vocabularies\<close>

locale ranked_vocabulary =
  fixes rank :: "'v \<Rightarrow> nat"
  assumes rank_inj: "rank a = rank b \<Longrightarrow> a = b"
begin

lemma hold_asymmetric:
  "a \<noteq> b \<Longrightarrow> holdForRanked rank a b = UPGRADE_HOLD_MS \<longleftrightarrow> holdForRanked rank b a = DOWNGRADE_HOLD_MS"
  using rank_inj[of a b] by (auto simp: holdForRanked_def UPGRADE_HOLD_MS_def DOWNGRADE_HOLD_MS_def)

lemma round_trip_hold: "a \<noteq> b \<Longrightarrow>
    holdForRanked rank a b + holdForRanked rank b a = UPGRADE_HOLD_MS + DOWNGRADE_HOLD_MS"
  using rank_inj[of a b] by (auto simp: holdForRanked_def)

text \<open>A verdict that leaves a stable value and comes back to it has been away for both holds.\<close>

lemma there_and_back:
  assumes "timely s t" "sorted (t # map snd xs)" "snd (machine_run rank s xs) = f # g # fs" "flip_to g = stable s"
  shows "flip_from f = stable s \<and> stableSince s + UPGRADE_HOLD_MS + DOWNGRADE_HOLD_MS \<le> flip_at g"
  using run_spaced[OF assms(1,2), of rank] assms(3,4) round_trip_hold[of "stable s" "flip_to f"] by auto

lemma flip_moves: "timely s t \<Longrightarrow> sorted (t # map snd xs) \<Longrightarrow> f \<in> set (snd (machine_run rank s xs)) \<Longrightarrow>
    rank (flip_from f) \<noteq> rank (flip_to f)"
proof -
  have "spaced rank v t' fs \<Longrightarrow> f \<in> set fs \<Longrightarrow> rank (flip_from f) \<noteq> rank (flip_to f)" for v t' fs
    by (induction fs arbitrary: v t') (auto dest: rank_inj)
  then show "timely s t \<Longrightarrow> sorted (t # map snd xs) \<Longrightarrow> f \<in> set (snd (machine_run rank s xs)) \<Longrightarrow> ?thesis"
    using run_spaced by blast
qed

end

section \<open>Properties\<close>

text \<open>
  A verdict is promoted only on a full streak. When an evaluation flips a machine that
  started without a candidate, the evaluations before it end with a run of the new verdict
  alone, which is not the old one, and that run is as old as the hold for this change.
\<close>

theorem flip_needs_full_hold:
  assumes "candidate s0 = None" "machine_run rank s0 pre = (s, fs)"
    "advanceRanked rank s v now = (s', Some f)"
  shows "\<exists>ys t zs. pre = ys @ (v, t) # zs \<and> (\<forall>e \<in> set zs. fst e = v) \<and>
    holdForRanked rank (stable s) v \<le> now - t \<and> v \<noteq> stable s \<and> stable s' = v \<and>
    f = \<lparr>flip_from = stable s, flip_to = v, flip_at = now\<rparr>"
proof -
  have "streak s0 []" using assms(1) by (simp add: streak_def)
  from streak_run[OF this, of rank pre] assms(2) have "streak s pre" by simp
  with advance_flip[OF assms(3)] show ?thesis
    by (auto simp: streak_def initialRankedState_def)
qed

lemma run_constant:
  assumes "candidate s = Some v" "v \<noteq> stable s" "candidateSince s = t0"
    "\<forall>e \<in> set xs. fst e = v" "holdForRanked rank (stable s) v \<le> t1 - t0"
  shows "stable (fst (machine_run rank s (xs @ [(v, t1)]))) = v \<and>
    candidate (fst (machine_run rank s (xs @ [(v, t1)]))) = None"
  using assms
proof (induction xs arbitrary: s)
  case Nil
  then show ?case by (simp add: advanceRanked_def)
next
  case (Cons x xs)
  obtain now where x: "x = (v, now)" using Cons.prems(4) by (cases x) auto
  show ?case
  proof (cases "now - t0 \<ge> holdForRanked rank (stable s) v")
    case False
    then have a: "advanceRanked rank s v now = (s, None)"
      using Cons.prems by (auto simp: advanceRanked_def)
    from Cons.IH[of s] Cons.prems x a show ?thesis by (simp add: case_prod_beta)
  next
    case True
    let ?s = "\<lparr>stable = v, stableSince = now, candidate = None, candidateSince = 0\<rparr>"
    have a: "fst (advanceRanked rank s v now) = ?s"
      using Cons.prems True by (auto simp: advanceRanked_def)
    have st: "fst (machine_run rank ?s ys) = ?s" if "\<forall>e \<in> set ys. fst e = v" for ys
      using that by (induction ys) (auto simp: advanceRanked_def case_prod_beta)
    show ?thesis using x a st[of "xs @ [(v, t1)]"] Cons.prems(4) by (simp add: case_prod_beta)
  qed
qed

lemma constant_run_promotes:
  assumes "candidate s \<noteq> Some v" "v \<noteq> stable s" "\<forall>e \<in> set xs. fst e = v"
    "holdForRanked rank (stable s) v \<le> t1 - t0"
  shows "stable (fst (machine_run rank s ((v, t0) # xs @ [(v, t1)]))) = v \<and>
    candidate (fst (machine_run rank s ((v, t0) # xs @ [(v, t1)]))) = None"
proof -
  have "fst (advanceRanked rank s v t0) = s\<lparr>candidate := Some v, candidateSince := t0\<rparr>"
    using assms(1,2) by (simp add: advanceRanked_def)
  then show ?thesis
    using run_constant[of "s\<lparr>candidate := Some v, candidateSince := t0\<rparr>" v t0 xs rank t1] assms(2-4)
    by (simp add: case_prod_beta)
qed

text \<open>
  Consistent evidence is promoted. When every evaluation from time \<open>t0\<close> to \<open>t1\<close> gives the
  same verdict, other than the stable one and not already on hold, and the hold has passed
  between them, the machine ends with this verdict stable and nothing on hold.
\<close>

theorem constant_evidence_promotes:
  assumes "candidate s \<noteq> Some v" "v \<noteq> stable s" "\<forall>e \<in> set xs. fst e = v"
    "holdForRanked rank (stable s) v \<le> t1 - t0"
  shows "stable (fst (machine_run rank s ((v, t0) # xs @ [(v, t1)]))) = v \<and>
    candidate (fst (machine_run rank s ((v, t0) # xs @ [(v, t1)]))) = None"
  by (rule constant_run_promotes[OF assms])

text \<open>
  C8: No flapping. With evaluations in time order, the flips of a run form a chain: each leaves
  the verdict the one before promoted, for another verdict, and comes no earlier than its hold
  (5 minutes up, 20 minutes down) after the one before.
\<close>

theorem flips_are_spaced:
  assumes "sorted (t0 # map snd xs)"
  shows "spaced rank v t0 (snd (machine_run rank (initialRankedState v t0) xs))"
  using run_spaced[of "initialRankedState v t0" t0 xs rank] assms
  by (simp add: timely_def initialRankedState_def)

end
