(* ===== verification/JsonValue.thy ===== *)
theory JsonValue
  imports Prelude
begin

text \<open>
  JavaScript values of type \<open>unknown\<close> as the program meets them: what \<open>JSON.parse\<close> or a
  database row can hold. Finite numbers are rationals, \<open>JNotFinite\<close> stands for \<open>NaN\<close> and
  the infinities, an object is an association list in insertion order with distinct keys.
\<close>

datatype jv =
    JNull
  | JBool bool
  | JNum rat
  | JNotFinite
  | JStr string
  | JArr "jv list"
  | JObj "(string \<times> jv) list"

fun get_prop :: "jv \<Rightarrow> string \<Rightarrow> jv option" where
  \<comment> \<open>\<open>v.key\<close>; \<open>None\<close> is \<open>undefined\<close>\<close>
  "get_prop (JObj kvs) k = map_of kvs k"
| "get_prop _ k = None"

fun is_plain_object :: "jv \<Rightarrow> bool" where
  \<comment> \<open>\<open>v && typeof v === "object" && !Array.isArray(v)\<close>\<close>
  "is_plain_object (JObj kvs) = True"
| "is_plain_object _ = False"

definition finite_num :: "jv option \<Rightarrow> rat option" where
  \<comment> \<open>\<open>typeof v === "number" && Number.isFinite(v) ? v : null\<close>\<close>
  "finite_num v = (case v of Some (JNum x) \<Rightarrow> Some x | _ \<Rightarrow> None)"

definition nonempty_string :: "jv option \<Rightarrow> string option" where
  "nonempty_string v = (case v of Some (JStr s) \<Rightarrow> if s = [] then None else Some s | _ \<Rightarrow> None)"

definition count_map :: "jv option \<Rightarrow> (string \<times> rat) list" where
  \<comment> \<open>the entries of an object whose values are finite numbers that are not negative\<close>
  "count_map v = (case v of
       Some (JObj kvs) \<Rightarrow> List.map_filter (\<lambda>(k, x). case x of JNum n \<Rightarrow> if n \<ge> 0 then Some (k, n) else None | _ \<Rightarrow> None) kvs
     | _ \<Rightarrow> [])"

lemma count_map_nonneg: "(k, n) \<in> set (count_map v) \<Longrightarrow> 0 \<le> n"
  by (auto simp: count_map_def List.map_filter_def split: option.splits jv.splits if_splits)

lemma count_map_keys:
  "distinct (map fst kvs) \<Longrightarrow> distinct (map fst (count_map (Some (JObj kvs))))"
proof (induction kvs)
  case Nil
  then show ?case by (simp add: count_map_def)
next
  case (Cons e kvs)
  have "set (map fst (count_map (Some (JObj kvs)))) \<subseteq> set (map fst kvs)"
    by (force simp: count_map_def List.map_filter_def split: jv.splits if_splits)
  with Cons show ?case
    by (cases e) (auto simp: count_map_def List.map_filter_simps split: jv.splits if_splits)
qed

end
