(* ===== verification/BandLadder.thy ===== *)
theory BandLadder
  imports HoldMachine JsonValue
begin

text \<open>
  The band-health evaluation of the client: activity levels and trend
  (\<open>src/lib/utils/bandActivity.ts\<close>), the physics-by-spots verdict
  (\<open>src/lib/verdict/verdictEngine.ts\<close>), the five-state ladder (\<open>src/lib/verdict/ladder.ts\<close>),
  and what is shown of it (\<open>presentation.ts\<close>, \<open>bestBand.ts\<close>). Counts, scores and thresholds are
  rationals: the decimal constants of the code are taken exactly. The human-readable \<open>why\<close>
  lines are left out.
\<close>

section \<open>Activity\<close>

datatype ActivityLevel = Quiet | Normal | Busy | Exceptional
datatype ActivityTrend = Rising | Steady | Falling

record ActivityThresholds =
  p25 :: rat
  p75 :: rat
  p95 :: rat

definition MIN_CLIMATOLOGY_SAMPLES :: rat where "MIN_CLIMATOLOGY_SAMPLES = 14"
definition TREND_DEAD_BAND :: rat where "TREND_DEAD_BAND = 2 / 10"

record BandActivityEntry =
  ba_band :: string
  count60m :: rat
  ba_obs20m :: rat
  ba_reporters20m :: rat
  ba_count10mRecent :: rat
  ba_count10mPrior :: rat
  sourceCounts60m :: "(string \<times> rat) list"
  modeObs20m :: "(string \<times> rat) list"
  thresholds :: "ActivityThresholds option"
  median60m :: "rat option"
  sampleCount :: "rat option"

definition classifyActivityLevel :: "rat \<Rightarrow> ActivityThresholds option \<Rightarrow> rat option \<Rightarrow> ActivityLevel option" where
  "classifyActivityLevel n th samples =
     (case (th, samples) of
        (Some t, Some k) \<Rightarrow>
          if k < MIN_CLIMATOLOGY_SAMPLES then None
          else if n = 0 then Some Quiet
          else if n \<ge> p95 t then Some Exceptional
          else if n \<ge> p75 t then Some Busy
          else if n < p25 t then Some Quiet
          else Some Normal
      | _ \<Rightarrow> None)"

definition isCrowded :: "rat \<Rightarrow> ActivityThresholds option \<Rightarrow> rat option \<Rightarrow> bool" where
  "isCrowded n th samples \<longleftrightarrow> classifyActivityLevel n th samples = Some Exceptional \<and>
     (case th of None \<Rightarrow> False | Some t \<Rightarrow> p95 t > 0)"

definition computeTrend :: "rat \<Rightarrow> rat \<Rightarrow> ActivityTrend" where
  "computeTrend recent prior =
     (if prior = 0 then (if recent > 0 then Rising else Steady)
      else let ratio = recent / prior in
        if ratio > 1 + TREND_DEAD_BAND then Rising
        else if ratio < 1 - TREND_DEAD_BAND then Falling
        else Steady)"

definition parseBandActivityEntry :: "jv \<Rightarrow> BandActivityEntry option" where
  "parseBandActivityEntry v =
     (if \<not> is_plain_object v then None
      else case nonempty_string (get_prop v ''band'') of
        None \<Rightarrow> None
      | Some b \<Rightarrow>
         (case (finite_num (get_prop v ''count_60m''), finite_num (get_prop v ''obs_20m''),
                finite_num (get_prop v ''reporters_20m''), finite_num (get_prop v ''count_10m_recent''),
                finite_num (get_prop v ''count_10m_prior'')) of
            (Some c, Some ob, Some rep, Some rec', Some prior) \<Rightarrow>
              Some \<lparr>ba_band = b, count60m = c, ba_obs20m = ob, ba_reporters20m = rep,
                ba_count10mRecent = rec', ba_count10mPrior = prior,
                sourceCounts60m = count_map (get_prop v ''source_counts_60m''),
                modeObs20m = count_map (get_prop v ''mode_obs_20m''),
                thresholds = (case (finite_num (get_prop v ''p25''), finite_num (get_prop v ''p75''), finite_num (get_prop v ''p95'')) of
                    (Some x, Some y, Some z) \<Rightarrow> Some \<lparr>p25 = x, p75 = y, p95 = z\<rparr>
                  | _ \<Rightarrow> None),
                median60m = finite_num (get_prop v ''p50''),
                sampleCount = finite_num (get_prop v ''sample_count'')\<rparr>
          | _ \<Rightarrow> None))"

definition level_rank :: "ActivityLevel \<Rightarrow> nat" where
  "level_rank l = (case l of Quiet \<Rightarrow> 0 | Normal \<Rightarrow> 1 | Busy \<Rightarrow> 2 | Exceptional \<Rightarrow> 3)"

instantiation ActivityLevel :: linorder
begin

definition less_eq_ActivityLevel :: "ActivityLevel \<Rightarrow> ActivityLevel \<Rightarrow> bool" where
  "less_eq_ActivityLevel a b \<longleftrightarrow> level_rank a \<le> level_rank b"

definition less_ActivityLevel :: "ActivityLevel \<Rightarrow> ActivityLevel \<Rightarrow> bool" where
  "less_ActivityLevel a b \<longleftrightarrow> level_rank a < level_rank b"

instance
  by standard (auto simp: less_eq_ActivityLevel_def less_ActivityLevel_def level_rank_def split: ActivityLevel.splits)

end

section \<open>The verdict engine\<close>

datatype BandVerdict = VConfirmed | VLikely | VSurprise | VClosed

definition VERDICT_RANK :: "BandVerdict \<Rightarrow> nat" where
  "VERDICT_RANK v = (case v of VClosed \<Rightarrow> 0 | VLikely \<Rightarrow> 1 | VSurprise \<Rightarrow> 2 | VConfirmed \<Rightarrow> 3)"

definition PHYSICS_OPEN_ENTER :: rat where "PHYSICS_OPEN_ENTER = 4 / 10"
definition PHYSICS_OPEN_EXIT :: rat where "PHYSICS_OPEN_EXIT = 3 / 10"
definition SPOTS_CONFIRM_ENTER :: rat where "SPOTS_CONFIRM_ENTER = 3"
definition SPOTS_CONFIRM_EXIT :: rat where "SPOTS_CONFIRM_EXIT = 1"

record VerdictInputs =
  vi_band :: string
  vi_physicsScore :: rat
  spotCount :: rat
  uniqueSpotters :: rat
  windowMinutes :: rat

record VerdictEdgeState =
  ve_physicsOpen :: bool
  ve_spotConfirmed :: bool

record BandVerdictResult =
  vr_band :: string
  verdict :: BandVerdict
  vr_physicsOpen :: bool
  vr_spotConfirmed :: bool
  confidence :: rat

definition physics_edge :: "bool \<Rightarrow> rat \<Rightarrow> bool" where
  \<comment> \<open>\<open>prev?.physicsOpen ? score >= EXIT : score >= ENTER\<close>\<close>
  "physics_edge was score = (if was then score \<ge> PHYSICS_OPEN_EXIT else score \<ge> PHYSICS_OPEN_ENTER)"

definition was_set :: "('e \<Rightarrow> bool) \<Rightarrow> 'e option \<Rightarrow> bool" where
  \<comment> \<open>\<open>prev?.field\<close> as a condition\<close>
  "was_set field prev = (case prev of None \<Rightarrow> False | Some e \<Rightarrow> field e)"

definition verdict_confidence :: "BandVerdict \<Rightarrow> VerdictInputs \<Rightarrow> rat" where
  "verdict_confidence v i = (case v of
       VConfirmed \<Rightarrow> min 1 (7 / 10 + spotCount i / 30 + vi_physicsScore i * (1 / 10))
     | VClosed \<Rightarrow> min 1 (6 / 10 + (PHYSICS_OPEN_EXIT - vi_physicsScore i))
     | VSurprise \<Rightarrow> min 1 (35 / 100 + uniqueSpotters i * (8 / 100))
     | VLikely \<Rightarrow> min 1 (35 / 100 + vi_physicsScore i * (4 / 10)))"

definition computeVerdict :: "VerdictInputs \<Rightarrow> VerdictEdgeState option \<Rightarrow> BandVerdictResult" where
  "computeVerdict i prev =
     (let physicsOpen = physics_edge (was_set ve_physicsOpen prev) (vi_physicsScore i);
          spotConfirmed = (if was_set ve_spotConfirmed prev then spotCount i \<ge> SPOTS_CONFIRM_EXIT
                           else spotCount i \<ge> SPOTS_CONFIRM_ENTER);
          v = (if physicsOpen \<and> spotConfirmed then VConfirmed
               else if physicsOpen then VLikely
               else if spotConfirmed then VSurprise else VClosed)
      in \<lparr>vr_band = vi_band i, verdict = v, vr_physicsOpen = physicsOpen, vr_spotConfirmed = spotConfirmed,
          confidence = of_int (js_round (verdict_confidence v i * 100)) / 100\<rparr>)"

section \<open>The ladder\<close>

datatype LadderState = Closed | Forecast | Stirring | Verified | Hot

definition LADDER_RANK :: "LadderState \<Rightarrow> nat" where
  "LADDER_RANK s = (case s of Closed \<Rightarrow> 0 | Forecast \<Rightarrow> 1 | Stirring \<Rightarrow> 2 | Verified \<Rightarrow> 3 | Hot \<Rightarrow> 4)"

instantiation LadderState :: linorder
begin

definition less_eq_LadderState :: "LadderState \<Rightarrow> LadderState \<Rightarrow> bool" where
  "less_eq_LadderState a b \<longleftrightarrow> LADDER_RANK a \<le> LADDER_RANK b"

definition less_LadderState :: "LadderState \<Rightarrow> LadderState \<Rightarrow> bool" where
  "less_LadderState a b \<longleftrightarrow> LADDER_RANK a < LADDER_RANK b"

instance
  by standard (auto simp: less_eq_LadderState_def less_LadderState_def LADDER_RANK_def split: LadderState.splits)

end

definition VERIFIED_OBS_ENTER :: rat where "VERIFIED_OBS_ENTER = 6"
definition VERIFIED_REPORTERS_ENTER :: rat where "VERIFIED_REPORTERS_ENTER = 3"
definition VERIFIED_OBS_EXIT :: rat where "VERIFIED_OBS_EXIT = 2"
definition STIRRING_OBS_ENTER :: rat where "STIRRING_OBS_ENTER = 1"

record LadderInputs =
  physicsScore :: rat
  obs20m :: rat
  reporters20m :: rat
  count10mRecent :: rat
  count10mPrior :: rat

record LadderEdgeState =
  le_physicsOpen :: bool
  le_verified :: bool

record LadderEvaluation =
  lad_state :: LadderState
  surprise :: bool
  physicsOpen :: bool
  verified :: bool
  trend :: ActivityTrend

definition evaluateLadder :: "LadderInputs \<Rightarrow> LadderEdgeState option \<Rightarrow> LadderEvaluation" where
  "evaluateLadder i prev =
     (let opn = physics_edge (was_set le_physicsOpen prev) (physicsScore i);
          ver = (if was_set le_verified prev then obs20m i > VERIFIED_OBS_EXIT
                 else obs20m i \<ge> VERIFIED_OBS_ENTER \<and> reporters20m i \<ge> VERIFIED_REPORTERS_ENTER);
          tr = computeTrend (count10mRecent i) (count10mPrior i);
          st = (if ver \<and> tr = Rising then Hot
                else if ver then Verified
                else if obs20m i \<ge> STIRRING_OBS_ENTER then Stirring
                else if opn then Forecast else Closed)
      in \<lparr>lad_state = st, surprise = (LADDER_RANK st \<ge> LADDER_RANK Stirring \<and> \<not> opn),
          physicsOpen = opn, verified = ver, trend = tr\<rparr>)"

interpretation ladder: ranked_vocabulary LADDER_RANK
  by unfold_locales (simp add: LADDER_RANK_def split: LadderState.splits)

interpretation verdicts: ranked_vocabulary VERDICT_RANK
  by unfold_locales (simp add: VERDICT_RANK_def split: BandVerdict.splits)

section \<open>Presentation\<close>

definition formatLead :: "nat \<Rightarrow> string" where
  "formatLead m = (if m < 60 then nat_text m @ ''m''
     else let hours = m div 60; rest = m mod 60
          in if rest = 0 then nat_text hours @ ''h'' else nat_text hours @ ''h '' @ nat_text rest @ ''m'')"

definition LEAD_MAX_AGE_MIN :: rat where "LEAD_MAX_AGE_MIN = 20"
definition VERDICT_MAX_AGE_MS :: int where "VERDICT_MAX_AGE_MS = 30 * 60000"
definition CLOCK_SKEW_TOLERANCE_MS :: int where "CLOCK_SKEW_TOLERANCE_MS = 5 * 60000"

definition leadMinutes :: "jv option \<Rightarrow> int option \<Rightarrow> int \<Rightarrow> int option" where
  \<comment> \<open>the stored minutes, the instant \<open>Date.parse\<close> reads from \<open>updatedAt\<close>, and the clock\<close>
  "leadMinutes stored tickMs now =
     (case finite_num stored of
        None \<Rightarrow> None
      | Some v \<Rightarrow>
          if v \<le> 0 then None
          else case tickMs of
            None \<Rightarrow> None
          | Some t \<Rightarrow>
              let ageMin = max 0 (of_int (now - t) / 60000 :: rat)
              in if ageMin > LEAD_MAX_AGE_MIN then None
                 else let remaining = js_round (v - ageMin) in if remaining > 0 then Some remaining else None)"

definition verdictIsCurrent :: "int option \<Rightarrow> int \<Rightarrow> bool" where
  "verdictIsCurrent observedAt now \<longleftrightarrow> (case observedAt of None \<Rightarrow> False
     | Some t \<Rightarrow> t - now < CLOCK_SKEW_TOLERANCE_MS \<and> now - t < VERDICT_MAX_AGE_MS)"

definition MODE_BADGES :: "string list" where
  "MODE_BADGES = [''cw'', ''digital'', ''phone'']"

fun dominant_loop :: "string option \<Rightarrow> rat \<Rightarrow> (string \<times> rat) list \<Rightarrow> string option \<times> rat" where
  "dominant_loop best n [] = (best, n)"
| "dominant_loop best n ((mode, count) # es) =
     (if mode \<notin> set MODE_BADGES then dominant_loop best n es
      else if count > n then dominant_loop (Some mode) count es
      else dominant_loop best n es)"

definition dominantModeClass :: "(string \<times> rat) list option \<Rightarrow> string option" where
  "dominantModeClass m = (case m of None \<Rightarrow> None
     | Some es \<Rightarrow> let (best, n) = dominant_loop None 0 es in if n > 0 then best else None)"

record BandLadderEntry =
  e_band :: string
  e_stable :: LadderState
  e_obs20m :: rat
  e_reporters20m :: rat

fun best_of :: "BandLadderEntry option \<Rightarrow> BandLadderEntry \<Rightarrow> BandLadderEntry option" where
  "best_of None e = Some e"
| "best_of (Some b) e =
     (if LADDER_RANK (e_stable e) \<noteq> LADDER_RANK (e_stable b)
      then (if LADDER_RANK (e_stable e) > LADDER_RANK (e_stable b) then Some e else Some b)
      else if e_obs20m e \<noteq> e_obs20m b
      then (if e_obs20m e > e_obs20m b then Some e else Some b)
      else if e_reporters20m e > e_reporters20m b then Some e else Some b)"

definition selectBestBand :: "BandLadderEntry list \<Rightarrow> BandLadderEntry option" where
  "selectBestBand es = foldl best_of None es"

section \<open>Lemmas\<close>

lemmas ladder_consts = PHYSICS_OPEN_ENTER_def PHYSICS_OPEN_EXIT_def SPOTS_CONFIRM_ENTER_def SPOTS_CONFIRM_EXIT_def
  VERIFIED_OBS_ENTER_def VERIFIED_REPORTERS_ENTER_def VERIFIED_OBS_EXIT_def STIRRING_OBS_ENTER_def
  MIN_CLIMATOLOGY_SAMPLES_def TREND_DEAD_BAND_def

lemma ladder_le [simp]: "a \<le> b \<longleftrightarrow> LADDER_RANK a \<le> LADDER_RANK b"
  by (rule less_eq_LadderState_def)

lemma rank_simps [simp]: "LADDER_RANK Closed = 0" "LADDER_RANK Forecast = 1" "LADDER_RANK Stirring = 2"
  "LADDER_RANK Verified = 3" "LADDER_RANK Hot = 4"
  by (simp_all add: LADDER_RANK_def)

lemma physics_edge_mono: "was \<le> was' \<Longrightarrow> x \<le> y \<Longrightarrow> physics_edge was x \<Longrightarrow> physics_edge was' y"
  by (auto simp: physics_edge_def ladder_consts split: if_splits)

lemma evaluate_state_cases:
  "lad_state (evaluateLadder i prev) =
     (if verified (evaluateLadder i prev) \<and> trend (evaluateLadder i prev) = Rising then Hot
      else if verified (evaluateLadder i prev) then Verified
      else if obs20m i \<ge> STIRRING_OBS_ENTER then Stirring
      else if physicsOpen (evaluateLadder i prev) then Forecast else Closed)"
  by (simp add: evaluateLadder_def Let_def)

fun ladder_edges :: "LadderEdgeState option \<Rightarrow> LadderInputs list \<Rightarrow> LadderEdgeState option" where
  "ladder_edges prev [] = prev"
| "ladder_edges prev (i # is) =
     (let e = evaluateLadder i prev
      in ladder_edges (Some \<lparr>le_physicsOpen = physicsOpen e, le_verified = verified e\<rparr>) is)"

section \<open>Properties\<close>

text \<open>
  The ladder is monotone in the evidence: with the same two trend counts, a higher forecast
  score, more observations, more reporters and a previous edge state that was further open never
  give a lower state.
\<close>

theorem ladder_monotone:
  assumes "physicsScore i \<le> physicsScore j" "obs20m i \<le> obs20m j" "reporters20m i \<le> reporters20m j"
    "count10mRecent i = count10mRecent j" "count10mPrior i = count10mPrior j"
    "was_set le_physicsOpen p \<le> was_set le_physicsOpen q" "was_set le_verified p \<le> was_set le_verified q"
  shows "lad_state (evaluateLadder i p) \<le> lad_state (evaluateLadder j q)"
proof -
  have v: "verified (evaluateLadder i p) \<Longrightarrow> verified (evaluateLadder j q)"
    using assms(2,3,7) by (auto simp: evaluateLadder_def Let_def ladder_consts split: if_splits)
  have o: "physicsOpen (evaluateLadder i p) \<Longrightarrow> physicsOpen (evaluateLadder j q)"
    using physics_edge_mono[OF assms(6,1)] by (simp add: evaluateLadder_def Let_def)
  have t: "trend (evaluateLadder i p) = trend (evaluateLadder j q)"
    using assms(4,5) by (simp add: evaluateLadder_def Let_def)
  have s: "obs20m i \<ge> STIRRING_OBS_ENTER \<Longrightarrow> obs20m j \<ge> STIRRING_OBS_ENTER"
    using assms(2) by simp
  show ?thesis using v o t s by (auto simp: evaluate_state_cases)
qed

theorem ladder_monotone_witness:
  "lad_state (evaluateLadder \<lparr>physicsScore = 1/10, obs20m = 4, reporters20m = 2, count10mRecent = 5, count10mPrior = 2\<rparr> None)
   \<le> lad_state (evaluateLadder \<lparr>physicsScore = 1/2, obs20m = 9, reporters20m = 3, count10mRecent = 5, count10mPrior = 2\<rparr>
        (Some \<lparr>le_physicsOpen = True, le_verified = False\<rparr>))"
  by (rule ladder_monotone) (simp_all add: was_set_def)

text \<open>
  Hysteresis of the edges. While the forecast score stays in its dead band (0.3 to 0.4) and
  the observations stay in theirs (3 to 5), feeding each evaluation's edges into the next one
  never changes them, for any number of evaluations.
\<close>

theorem edges_hold_in_dead_band:
  assumes "list_all (\<lambda>i. 3 / 10 \<le> physicsScore i \<and> physicsScore i < 4 / 10 \<and> 2 < obs20m i \<and> obs20m i < 6) is"
  shows "ladder_edges (Some e) is = Some e"
  using assms
proof (induction "is" arbitrary: e)
  case Nil
  then show ?case by simp
next
  case (Cons i "is")
  then have "physicsOpen (evaluateLadder i (Some e)) = le_physicsOpen e" "verified (evaluateLadder i (Some e)) = le_verified e"
    by (auto simp: evaluateLadder_def Let_def physics_edge_def was_set_def ladder_consts)
  then show ?case using Cons by simp
qed

theorem edges_hold_in_dead_band_witness:
  "ladder_edges (Some \<lparr>le_physicsOpen = True, le_verified = True\<rparr>)
     [\<lparr>physicsScore = 31/100, obs20m = 3, reporters20m = 1, count10mRecent = 1, count10mPrior = 2\<rparr>,
      \<lparr>physicsScore = 39/100, obs20m = 5, reporters20m = 2, count10mRecent = 3, count10mPrior = 1\<rparr>]
   = Some \<lparr>le_physicsOpen = True, le_verified = True\<rparr>"
  by (rule edges_hold_in_dead_band) simp

lemma rounded_bounds:
  assumes "of_int a \<le> y" "y \<le> of_int b"
  shows "(of_int a / 100 :: rat) \<le> of_int (js_round y) / 100 \<and> (of_int (js_round y) / 100 :: rat) \<le> of_int b / 100"
proof -
  have "a \<le> js_round y" using assms(1) unfolding js_round_def by (simp add: le_floor_iff)
  moreover have "js_round y \<le> b" using assms(2) unfolding js_round_def by (simp add: floor_le_iff)
  ultimately show ?thesis by (simp add: divide_right_mono)
qed

text \<open>
  With a forecast score between 0 and 1 and counts that are not negative, the confidence of
  a verdict lies between 0.35 and 1 after rounding, and is at least 0.5 where the two arms agree.
\<close>

theorem verdict_confidence_bounds:
  assumes "0 \<le> vi_physicsScore i" "vi_physicsScore i \<le> 1" "0 \<le> spotCount i" "0 \<le> uniqueSpotters i"
  shows "35 / 100 \<le> confidence (computeVerdict i prev) \<and> confidence (computeVerdict i prev) \<le> 1 \<and>
    (vr_physicsOpen (computeVerdict i prev) = vr_spotConfirmed (computeVerdict i prev) \<longrightarrow>
       50 / 100 \<le> confidence (computeVerdict i prev))"
proof -
  let ?v = "verdict (computeVerdict i prev)"
  let ?y = "verdict_confidence ?v i * 100"
  have c: "confidence (computeVerdict i prev) = of_int (js_round ?y) / 100"
    by (simp add: computeVerdict_def Let_def)
  have ag: "vr_physicsOpen (computeVerdict i prev) = vr_spotConfirmed (computeVerdict i prev) \<longleftrightarrow> ?v = VConfirmed \<or> ?v = VClosed"
    by (auto simp: computeVerdict_def Let_def)
  have cl: "?v = VClosed \<Longrightarrow> vi_physicsScore i < 4 / 10"
    by (auto simp: computeVerdict_def Let_def physics_edge_def ladder_consts split: if_splits)
  have up: "?y \<le> 100" by (cases ?v) (simp_all add: verdict_confidence_def min_def ladder_consts)
  have lo: "35 \<le> ?y" using assms cl
    by (cases ?v) (auto simp: verdict_confidence_def min_def ladder_consts)
  have lo2: "?v = VConfirmed \<or> ?v = VClosed \<Longrightarrow> 50 \<le> ?y" using assms cl
    by (auto simp: verdict_confidence_def min_def ladder_consts)
  show ?thesis
    using rounded_bounds[of 35 ?y 100] rounded_bounds[of 50 ?y 100] lo lo2 up c ag by auto
qed

theorem verdict_confidence_bounds_witness:
  "let r = computeVerdict \<lparr>vi_band = ''20m'', vi_physicsScore = 7/10, spotCount = 4, uniqueSpotters = 3, windowMinutes = 15\<rparr> None
   in 35 / 100 \<le> confidence r \<and> confidence r \<le> 1 \<and>
     (vr_physicsOpen r = vr_spotConfirmed r \<longrightarrow> 50 / 100 \<le> confidence r)"
  unfolding Let_def by (rule verdict_confidence_bounds) simp_all

text \<open>
  With ordered percentiles, a larger 60-minute count never gets a lower activity level, and
  a band that is crowded stays crowded at any larger count.
\<close>

theorem activity_level_monotone:
  assumes "p25 t \<le> p75 t" "p75 t \<le> p95 t" "0 \<le> m" "m \<le> n"
    "classifyActivityLevel m (Some t) k = Some a" "classifyActivityLevel n (Some t) k = Some b"
  shows "a \<le> b \<and> (isCrowded m (Some t) k \<longrightarrow> isCrowded n (Some t) k)"
  using assms
  by (auto simp: classifyActivityLevel_def isCrowded_def less_eq_ActivityLevel_def level_rank_def
      split: option.splits if_splits)

theorem activity_level_monotone_witness:
  "Busy \<le> Exceptional \<and> (isCrowded 30 (Some \<lparr>p25 = 5, p75 = 20, p95 = 40\<rparr>) (Some 20) \<longrightarrow>
     isCrowded 50 (Some \<lparr>p25 = 5, p75 = 20, p95 = 40\<rparr>) (Some 20))"
  by (rule activity_level_monotone) (simp_all add: classifyActivityLevel_def MIN_CLIMATOLOGY_SAMPLES_def)

text \<open>
  The best band is one of the bands, no band is stronger in the order of the ladder state,
  then the observations, then the reporters, and every band before it in the list is weaker.
\<close>

definition evidence :: "BandLadderEntry \<Rightarrow> nat \<times> rat \<times> rat" where
  "evidence e = (LADDER_RANK (e_stable e), e_obs20m e, e_reporters20m e)"

definition weaker :: "BandLadderEntry \<Rightarrow> BandLadderEntry \<Rightarrow> bool" where
  "weaker a b \<longleftrightarrow> (let (r, ob, rep) = evidence a; (r', ob', rep') = evidence b
     in r < r' \<or> r = r' \<and> (ob < ob' \<or> ob = ob' \<and> rep < rep'))"

lemma best_of_weaker: "best_of (Some b) e = Some (if weaker b e then e else b)"
  by (auto simp: weaker_def evidence_def)

lemma weaker_trans: "weaker a b \<Longrightarrow> weaker b c \<Longrightarrow> weaker a c"
  by (auto simp: weaker_def evidence_def)

lemma weaker_le: "\<not> weaker a b \<Longrightarrow> weaker a c \<Longrightarrow> weaker b c" "weaker a b \<Longrightarrow> \<not> weaker c b \<Longrightarrow> weaker a c"
  by (auto simp: weaker_def evidence_def)

lemma strongestI: "es = pre @ x # post \<Longrightarrow> (\<And>e. e \<in> set es \<Longrightarrow> \<not> weaker x e) \<Longrightarrow> (\<And>e. e \<in> set pre \<Longrightarrow> weaker e x) \<Longrightarrow>
    (\<forall>e \<in> set es. \<not> weaker x e) \<and> (\<exists>pre post. es = pre @ x # post \<and> (\<forall>e \<in> set pre. weaker e x))"
  by blast

lemma best_fold:
  "foldl best_of (Some b) es = Some x \<Longrightarrow>
     (\<forall>e \<in> set (b # es). \<not> weaker x e) \<and> (\<exists>pre post. b # es = pre @ x # post \<and> (\<forall>e \<in> set pre. weaker e x))"
proof (induction es arbitrary: b)
  case Nil
  then show ?case by (intro strongestI[of _ "[]" x "[]"]) (auto simp: weaker_def)
next
  case (Cons e es)
  show ?case
  proof (cases "weaker b e")
    case True
    with Cons.prems have "foldl best_of (Some e) es = Some x" by (simp add: best_of_weaker del: best_of.simps)
    from Cons.IH[OF this] obtain pre post where h: "\<forall>y \<in> set (e # es). \<not> weaker x y" "e # es = pre @ x # post"
      "\<forall>y \<in> set pre. weaker y x" by blast
    have bx: "weaker b x"
      using weaker_le(2)[OF True] h(1) by simp
    have "\<not> weaker x b" using bx by (auto simp: weaker_def evidence_def)
    moreover have "b # e # es = (b # pre) @ x # post" using h(2) by simp
    ultimately show ?thesis using h(1,3) bx by (intro strongestI[of _ "b # pre" x post]) auto
  next
    case False
    with Cons.prems have "foldl best_of (Some b) es = Some x" by (simp add: best_of_weaker del: best_of.simps)
    from Cons.IH[OF this] obtain pre post where h: "\<forall>y \<in> set (b # es). \<not> weaker x y" "b # es = pre @ x # post"
      "\<forall>y \<in> set pre. weaker y x" by blast
    have ex: "\<not> weaker x e" using weaker_le(2)[OF _ False, of x] h(1) by auto
    show ?thesis
    proof (cases pre)
      case Nil
      then have "b # e # es = [] @ x # (e # es)" using h(2) by simp
      then show ?thesis using h(1) ex by (intro strongestI[of _ "[]" x "e # es"]) auto
    next
      case (Cons p pre')
      then have pb: "p = b" "es = pre' @ x # post" using h(2) by auto
      then have "b # e # es = (b # e # pre') @ x # post" by simp
      moreover have "weaker e x" using weaker_le(1)[OF False, of x] h(3) Cons pb(1) by simp
      ultimately show ?thesis using h(1,3) ex Cons pb(1) by (intro strongestI[of _ "b # e # pre'" x post]) auto
    qed
  qed
qed

theorem best_band_is_strongest:
  assumes "selectBestBand es = Some x"
  shows "x \<in> set es \<and> (\<forall>e \<in> set es. \<not> weaker x e) \<and>
    (\<exists>pre post. es = pre @ x # post \<and> (\<forall>e \<in> set pre. weaker e x))"
proof (cases es)
  case Nil
  with assms show ?thesis by (simp add: selectBestBand_def)
next
  case (Cons b bs)
  with assms have "foldl best_of (Some b) bs = Some x" by (simp add: selectBestBand_def)
  from best_fold[OF this] show ?thesis unfolding Cons[symmetric] by (metis in_set_conv_decomp)
qed

theorem best_band_is_strongest_witness:
  "let a = \<lparr>e_band = ''20m'', e_stable = Verified, e_obs20m = 9, e_reporters20m = 4\<rparr>;
       b = \<lparr>e_band = ''15m'', e_stable = Verified, e_obs20m = 12, e_reporters20m = 3\<rparr>
   in b \<in> set [a, b] \<and> (\<forall>e \<in> set [a, b]. \<not> weaker b e) \<and>
     (\<exists>pre post. [a, b] = pre @ b # post \<and> (\<forall>e \<in> set pre. weaker e b))"
  unfolding Let_def by (rule best_band_is_strongest) (simp add: selectBestBand_def)

section \<open>The hold machine on the two vocabularies\<close>

theorem flip_needs_full_hold_witness:
  "\<exists>ys t zs. [(Stirring, 0), (Stirring, 200000)] = ys @ (Stirring, t) # zs \<and> (\<forall>e \<in> set zs. fst e = Stirring) \<and>
    holdForRanked LADDER_RANK Closed Stirring \<le> 300000 - t \<and> Stirring \<noteq> Closed \<and>
    stable \<lparr>stable = Stirring, stableSince = 300000, candidate = None, candidateSince = 0\<rparr> = Stirring \<and>
    \<lparr>flip_from = Closed, flip_to = Stirring, flip_at = 300000\<rparr> = \<lparr>flip_from = Closed, flip_to = Stirring, flip_at = 300000\<rparr>"
  using flip_needs_full_hold[of "initialRankedState Closed 0" LADDER_RANK "[(Stirring, 0), (Stirring, 200000)]"
      "\<lparr>stable = Closed, stableSince = 0, candidate = Some Stirring, candidateSince = 0\<rparr>" "[]" Stirring 300000
      "\<lparr>stable = Stirring, stableSince = 300000, candidate = None, candidateSince = 0\<rparr>"
      "\<lparr>flip_from = Closed, flip_to = Stirring, flip_at = 300000\<rparr>"]
  by (simp add: initialRankedState_def advanceRanked_def holdForRanked_def UPGRADE_HOLD_MS_def)

theorem constant_evidence_promotes_witness:
  "stable (fst (machine_run VERDICT_RANK (initialRankedState VConfirmed 0)
     ((VClosed, 0) # [(VClosed, 600000)] @ [(VClosed, 1200000)]))) = VClosed \<and>
   candidate (fst (machine_run VERDICT_RANK (initialRankedState VConfirmed 0)
     ((VClosed, 0) # [(VClosed, 600000)] @ [(VClosed, 1200000)]))) = None"
  by (rule constant_evidence_promotes)
    (simp_all add: initialRankedState_def holdForRanked_def VERDICT_RANK_def DOWNGRADE_HOLD_MS_def)

theorem flips_are_spaced_witness:
  "spaced LADDER_RANK Closed 0 (snd (machine_run LADDER_RANK (initialRankedState Closed 0)
     [(Hot, 0), (Hot, 300000), (Closed, 400000), (Closed, 1600000)]))"
  by (rule flips_are_spaced) simp

end
