(* ===== verification/CollectorLadder.thy ===== *)
theory CollectorLadder
  imports BandLadder "HOL-Library.AList"
begin

text \<open>
  The canonical ladder of the collector: its port of the client's evaluation and hold machine
  (\<open>collector/src/verdict/ladder.ts\<close>), the opening timeline (\<open>openingTimeline.ts\<close>) and the pure
  tick (\<open>parseScopeCounts\<close> and \<open>planVerdictTick\<close> in \<open>collector/src/collectors/verdictLadder.ts\<close>).
  The physics arm is the interface \<open>PhysicsArm\<close>, a record of functions. Timestamps that the rows
  store as ISO strings are instants in milliseconds. A JavaScript \<open>Map\<close> is an association list
  in insertion order, \<open>set\<close> is \<open>AList.update\<close>. The job around the tick (database and log) is
  not modelled.
\<close>

section \<open>The port\<close>

definition c_computeTrend :: "rat \<Rightarrow> rat \<Rightarrow> ActivityTrend" where
  "c_computeTrend recent prior =
     (if prior = 0 then (if recent > 0 then Rising else Steady)
      else let ratio = recent / prior in
        if ratio > 1 + 2 / 10 then Rising else if ratio < 1 - 2 / 10 then Falling else Steady)"

definition c_evaluateLadder :: "LadderInputs \<Rightarrow> LadderEdgeState option \<Rightarrow> LadderEvaluation" where
  "c_evaluateLadder i prev =
     (let opn = (if was_set le_physicsOpen prev then physicsScore i \<ge> 3 / 10 else physicsScore i \<ge> 4 / 10);
          ver = (if was_set le_verified prev then obs20m i > 2 else obs20m i \<ge> 6 \<and> reporters20m i \<ge> 3);
          tr = c_computeTrend (count10mRecent i) (count10mPrior i);
          st = (if ver \<and> tr = Rising then Hot else if ver then Verified
                else if obs20m i \<ge> 1 then Stirring else if opn then Forecast else Closed)
      in \<lparr>lad_state = st, surprise = (LADDER_RANK st \<ge> LADDER_RANK Stirring \<and> \<not> opn),
          physicsOpen = opn, verified = ver, trend = tr\<rparr>)"

definition c_advanceRanked ::
    "('v \<Rightarrow> nat) \<Rightarrow> 'v RankedMachineState \<Rightarrow> 'v \<Rightarrow> int \<Rightarrow> 'v RankedMachineState \<times> 'v RankedFlip option" where
  "c_advanceRanked rank s raw now =
     (if raw = stable s then
        (if candidate s = None then (s, None) else (s\<lparr>candidate := None, candidateSince := 0\<rparr>, None))
      else if candidate s \<noteq> Some raw then (s\<lparr>candidate := Some raw, candidateSince := now\<rparr>, None)
      else
        let held = now - candidateSince s;
            hold = (if rank raw > rank (stable s) then 5 * 60 * 1000 else 20 * 60 * 1000)
        in if held \<ge> hold
           then (initialRankedState raw now, Some \<lparr>flip_from = stable s, flip_to = raw, flip_at = now\<rparr>)
           else (s, None))"

section \<open>The opening timeline\<close>

datatype ScopeType = Global | Regional

record PhysicsArm =
  basis :: string
  fLitFor :: "ScopeType \<Rightarrow> string \<Rightarrow> rat"
  scoreFor :: "ScopeType \<Rightarrow> string \<Rightarrow> string \<Rightarrow> rat"
  scoreAt :: "ScopeType \<Rightarrow> string \<Rightarrow> string \<Rightarrow> int \<Rightarrow> rat"

definition TIMELINE_STEP_MIN :: nat where "TIMELINE_STEP_MIN = 15"
definition TIMELINE_HORIZON_MIN :: nat where "TIMELINE_HORIZON_MIN = 12 * 60"

record OpeningTimeline =
  opensInMin :: "nat option"
  fadesInMin :: "nat option"

function timeline_loop :: "(nat \<Rightarrow> rat) \<Rightarrow> bool \<Rightarrow> nat \<Rightarrow> OpeningTimeline" where
  \<comment> \<open>the loop from minute \<open>m\<close> on; \<open>score\<close> is the score at a number of minutes from now\<close>
  "timeline_loop score opn m =
     (if m \<le> TIMELINE_HORIZON_MIN then
        (if \<not> opn \<and> score m \<ge> PHYSICS_OPEN_ENTER then \<lparr>opensInMin = Some m, fadesInMin = None\<rparr>
         else if opn \<and> score m < PHYSICS_OPEN_EXIT then \<lparr>opensInMin = None, fadesInMin = Some m\<rparr>
         else timeline_loop score opn (m + TIMELINE_STEP_MIN))
      else \<lparr>opensInMin = None, fadesInMin = None\<rparr>)"
  by pat_completeness auto
termination
  by (relation "measure (\<lambda>(score, opn, m). Suc TIMELINE_HORIZON_MIN - m)") (auto simp: TIMELINE_STEP_MIN_def)

declare timeline_loop.simps [simp del]

definition computeOpeningTimeline ::
    "PhysicsArm \<Rightarrow> ScopeType \<Rightarrow> string \<Rightarrow> string \<Rightarrow> bool \<Rightarrow> int \<Rightarrow> OpeningTimeline" where
  "computeOpeningTimeline physics scopeType scopeKey band opn nowMs =
     timeline_loop (\<lambda>m. scoreAt physics scopeType scopeKey band (nowMs + int m * 60000)) opn TIMELINE_STEP_MIN"

section \<open>Rows\<close>

record ScopeCounts =
  sc_scopeType :: ScopeType
  sc_scopeKey :: string
  sc_band :: string
  sc_obs20m :: rat
  sc_reporters20m :: rat
  sc_count10mRecent :: rat
  sc_count10mPrior :: rat
  sc_sourceCounts60m :: "(string \<times> rat) list"
  sc_modeObs20m :: "(string \<times> rat) list"

record VerdictStateRow =
  sr_band :: string
  sr_scope_type :: ScopeType
  sr_scope_key :: string
  sr_state :: LadderState
  stable_since :: int
  sr_candidate :: "LadderState option"
  candidate_since :: "int option"
  sr_surprise :: bool
  opened_at :: "int option"
  sr_inputs :: "(string \<times> jv) list"
  updated_at :: int

datatype event_type = Transition | SurpriseEvent

record VerdictEventRow =
  ev_ts :: int
  ev_band :: string
  ev_scope_type :: ScopeType
  ev_scope_key :: string
  ev_type :: event_type
  from_state :: "LadderState option"
  to_state :: "LadderState option"
  ev_inputs :: "(string \<times> jv) list"

fun scope_type_name :: "ScopeType \<Rightarrow> string" where
  "scope_type_name Global = ''global''"
| "scope_type_name Regional = ''regional''"

definition scopeId :: "ScopeType \<Rightarrow> string \<Rightarrow> string \<Rightarrow> string" where
  "scopeId scopeType scopeKey band = scope_type_name scopeType @ ''|'' @ scopeKey @ ''|'' @ band"

abbreviation row_id :: "VerdictStateRow \<Rightarrow> string" where
  "row_id r \<equiv> scopeId (sr_scope_type r) (sr_scope_key r) (sr_band r)"

abbreviation counts_id :: "ScopeCounts \<Rightarrow> string" where
  "counts_id c \<equiv> scopeId (sc_scopeType c) (sc_scopeKey c) (sc_band c)"

definition num_or_zero :: "jv option \<Rightarrow> rat" where
  "num_or_zero v = (case finite_num v of None \<Rightarrow> 0 | Some x \<Rightarrow> if x \<ge> 0 then x else 0)"

definition parseScopeCounts :: "jv \<Rightarrow> ScopeType \<Rightarrow> ScopeCounts option" where
  "parseScopeCounts row scopeType =
     (if \<not> is_plain_object row then None
      else case nonempty_string (get_prop row ''band'') of
        None \<Rightarrow> None
      | Some b \<Rightarrow>
          (case (case scopeType of Regional \<Rightarrow> nonempty_string (get_prop row ''continent'') | Global \<Rightarrow> Some []) of
             None \<Rightarrow> None
           | Some key \<Rightarrow> Some \<lparr>sc_scopeType = scopeType, sc_scopeKey = key, sc_band = b,
               sc_obs20m = num_or_zero (get_prop row ''obs_20m''),
               sc_reporters20m = num_or_zero (get_prop row ''reporters_20m''),
               sc_count10mRecent = num_or_zero (get_prop row ''count_10m_recent''),
               sc_count10mPrior = num_or_zero (get_prop row ''count_10m_prior''),
               sc_sourceCounts60m = count_map (get_prop row ''source_counts_60m''),
               sc_modeObs20m = count_map (get_prop row ''mode_obs_20m'')\<rparr>))"

section \<open>The tick\<close>

definition zero_counts :: "VerdictStateRow \<Rightarrow> ScopeCounts" where
  "zero_counts r = \<lparr>sc_scopeType = sr_scope_type r, sc_scopeKey = sr_scope_key r, sc_band = sr_band r,
     sc_obs20m = 0, sc_reporters20m = 0, sc_count10mRecent = 0, sc_count10mPrior = 0,
     sc_sourceCounts60m = [], sc_modeObs20m = []\<rparr>"

definition index_rows :: "VerdictStateRow list \<Rightarrow> (string \<times> VerdictStateRow) list" where
  \<comment> \<open>\<open>prevById\<close>\<close>
  "index_rows rows = fold (\<lambda>r m. AList.update (row_id r) r m) rows []"

definition index_counts :: "ScopeCounts list \<Rightarrow> (string \<times> ScopeCounts) list" where
  "index_counts cs = fold (\<lambda>c m. AList.update (counts_id c) c m) cs []"

definition zero_fill :: "VerdictStateRow list \<Rightarrow> (string \<times> ScopeCounts) list \<Rightarrow> (string \<times> ScopeCounts) list" where
  "zero_fill rows m = fold (\<lambda>r m. if map_of m (row_id r) = None
       then AList.update (row_id r) (zero_counts r) m else m) rows m"

definition edges_of_row :: "VerdictStateRow \<Rightarrow> LadderEdgeState" where
  "edges_of_row r = \<lparr>le_physicsOpen = (map_of (sr_inputs r) ''physics_open'' = Some (JBool True)),
     le_verified = (map_of (sr_inputs r) ''verified'' = Some (JBool True))\<rparr>"

definition machine_of_row :: "VerdictStateRow option \<Rightarrow> int \<Rightarrow> LadderState RankedMachineState" where
  "machine_of_row prev nowMs = (case prev of
       None \<Rightarrow> initialRankedState Closed nowMs
     | Some r \<Rightarrow> \<lparr>stable = sr_state r, stableSince = stable_since r, candidate = sr_candidate r,
         candidateSince = (case candidate_since r of None \<Rightarrow> 0 | Some t \<Rightarrow> t)\<rparr>)"

definition raw_evaluation :: "PhysicsArm \<Rightarrow> VerdictStateRow option \<Rightarrow> ScopeCounts \<Rightarrow> LadderEvaluation" where
  "raw_evaluation physics prev c = c_evaluateLadder
     \<lparr>physicsScore = scoreFor physics (sc_scopeType c) (sc_scopeKey c) (sc_band c), obs20m = sc_obs20m c,
      reporters20m = sc_reporters20m c, count10mRecent = sc_count10mRecent c, count10mPrior = sc_count10mPrior c\<rparr>
     (map_option edges_of_row prev)"

fun trend_name :: "ActivityTrend \<Rightarrow> string" where
  "trend_name Rising = ''rising''" | "trend_name Steady = ''steady''" | "trend_name Falling = ''falling''"

fun state_name :: "LadderState \<Rightarrow> string" where
  "state_name Closed = ''closed''" | "state_name Forecast = ''forecast''" | "state_name Stirring = ''stirring''"
| "state_name Verified = ''verified''" | "state_name Hot = ''hot''"

definition json_minutes :: "nat option \<Rightarrow> jv" where
  "json_minutes m = (case m of None \<Rightarrow> JNull | Some k \<Rightarrow> JNum (of_nat k))"

definition json_counts :: "(string \<times> rat) list \<Rightarrow> jv" where
  "json_counts m = JObj (map (\<lambda>(k, n). (k, JNum n)) m)"

definition milli_round :: "rat \<Rightarrow> jv" where
  "milli_round x = JNum (of_int (js_round (x * 1000)) / 1000)"

definition tick_inputs :: "PhysicsArm \<Rightarrow> ScopeCounts \<Rightarrow> LadderEvaluation \<Rightarrow> OpeningTimeline \<Rightarrow> (string \<times> jv) list" where
  "tick_inputs physics c raw tml =
    [(''physics_score'', milli_round (scoreFor physics (sc_scopeType c) (sc_scopeKey c) (sc_band c))),
     (''physics_basis'', JStr (basis physics)),
     (''physics_f_lit'', milli_round (fLitFor physics (sc_scopeType c) (sc_scopeKey c))),
     (''physics_open'', JBool (physicsOpen raw)),
     (''verified'', JBool (verified raw)),
     (''obs_20m'', JNum (sc_obs20m c)),
     (''reporters_20m'', JNum (sc_reporters20m c)),
     (''count_10m_recent'', JNum (sc_count10mRecent c)),
     (''count_10m_prior'', JNum (sc_count10mPrior c)),
     (''trend'', JStr (trend_name (trend raw))),
     (''raw_state'', JStr (state_name (lad_state raw))),
     (''opens_in_min'', json_minutes (opensInMin tml)),
     (''fades_in_min'', json_minutes (fadesInMin tml)),
     (''source_counts_60m'', json_counts (sc_sourceCounts60m c)),
     (''mode_obs_20m'', json_counts (sc_modeObs20m c))]"

definition plan_scope ::
    "PhysicsArm \<Rightarrow> int \<Rightarrow> VerdictStateRow option \<Rightarrow> ScopeCounts \<Rightarrow> VerdictStateRow \<times> VerdictEventRow list" where
  \<comment> \<open>the body of the loop over the scopes\<close>
  "plan_scope physics nowMs prev c =
     (let raw = raw_evaluation physics prev c;
          (nxt, flip) = c_advanceRanked LADDER_RANK (machine_of_row prev nowMs) (lad_state raw) nowMs;
          tml = computeOpeningTimeline physics (sc_scopeType c) (sc_scopeKey c) (sc_band c) (physicsOpen raw) nowMs;
          ins = tick_inputs physics c raw tml;
          stableRank = LADDER_RANK (stable nxt);
          surp = (stableRank \<ge> LADDER_RANK Stirring \<and> \<not> physicsOpen raw);
          openedAt = (if stableRank \<ge> LADDER_RANK Stirring
            then (case prev of
                Some p \<Rightarrow> if LADDER_RANK (sr_state p) \<ge> LADDER_RANK Stirring then opened_at p else Some nowMs
              | None \<Rightarrow> Some nowMs)
            else None);
          flips = (case flip of None \<Rightarrow> [] | Some f \<Rightarrow>
            [\<lparr>ev_ts = nowMs, ev_band = sc_band c, ev_scope_type = sc_scopeType c, ev_scope_key = sc_scopeKey c,
              ev_type = Transition, from_state = Some (flip_from f), to_state = Some (flip_to f), ev_inputs = ins\<rparr>]);
          onset = (if surp \<and> \<not> was_set sr_surprise prev then
            [\<lparr>ev_ts = nowMs, ev_band = sc_band c, ev_scope_type = sc_scopeType c, ev_scope_key = sc_scopeKey c,
              ev_type = SurpriseEvent, from_state = None, to_state = Some (stable nxt), ev_inputs = ins\<rparr>] else [])
      in (\<lparr>sr_band = sc_band c, sr_scope_type = sc_scopeType c, sr_scope_key = sc_scopeKey c,
           sr_state = stable nxt, stable_since = stableSince nxt, sr_candidate = candidate nxt,
           candidate_since = (case candidate nxt of None \<Rightarrow> None | Some _ \<Rightarrow> Some (candidateSince nxt)),
           sr_surprise = surp, opened_at = openedAt, sr_inputs = ins, updated_at = nowMs\<rparr>,
          flips @ onset))"

definition planVerdictTick ::
    "VerdictStateRow list \<Rightarrow> PhysicsArm \<Rightarrow> ScopeCounts list \<Rightarrow> int \<Rightarrow> VerdictStateRow list \<times> VerdictEventRow list" where
  "planVerdictTick prevRows physics counts nowMs =
     (let prevById = index_rows prevRows;
          byId = zero_fill prevRows (index_counts counts);
          rs = map (\<lambda>(k, c). plan_scope physics nowMs (map_of prevById (counts_id c)) c) byId
      in (map fst rs, concat (map snd rs)))"

section \<open>Lemmas\<close>

lemma c_trend: "c_computeTrend = computeTrend"
  by (intro ext) (simp add: c_computeTrend_def computeTrend_def TREND_DEAD_BAND_def)

lemma c_evaluate: "c_evaluateLadder = evaluateLadder"
  unfolding c_evaluateLadder_def[abs_def] evaluateLadder_def[abs_def] ladder_consts c_trend physics_edge_def
  by (rule refl)

lemma c_advance: "c_advanceRanked = advanceRanked"
  by (intro ext) (simp add: c_advanceRanked_def advanceRanked_def initialRankedState_def holdForRanked_def
      UPGRADE_HOLD_MS_def DOWNGRADE_HOLD_MS_def Let_def)

fun minutes_from :: "nat \<Rightarrow> nat \<Rightarrow> nat list" where
  \<comment> \<open>\<open>n\<close> sample minutes from \<open>m\<close> on\<close>
  "minutes_from 0 m = []"
| "minutes_from (Suc n) m = m # minutes_from n (m + TIMELINE_STEP_MIN)"

lemma timeline_find:
  "TIMELINE_HORIZON_MIN < m + n * TIMELINE_STEP_MIN \<Longrightarrow> m + n * TIMELINE_STEP_MIN \<le> TIMELINE_HORIZON_MIN + TIMELINE_STEP_MIN \<Longrightarrow>
   timeline_loop score opn m =
     \<lparr>opensInMin = (if opn then None else find (\<lambda>m. score m \<ge> PHYSICS_OPEN_ENTER) (minutes_from n m)),
      fadesInMin = (if opn then find (\<lambda>m. score m < PHYSICS_OPEN_EXIT) (minutes_from n m) else None)\<rparr>"
proof (induction n arbitrary: m)
  case 0
  then show ?case by (subst timeline_loop.simps) simp
next
  case (Suc n)
  then have "m \<le> TIMELINE_HORIZON_MIN" by (simp add: TIMELINE_STEP_MIN_def)
  then show ?case
    using Suc.IH[of "m + TIMELINE_STEP_MIN"] Suc.prems by (cases opn; subst timeline_loop.simps; simp add: ac_simps)
qed

lemma plan_state:
  assumes "c_advanceRanked LADDER_RANK (machine_of_row prev now) (lad_state (raw_evaluation physics prev c)) now = (nxt, flip)"
  shows "sr_state (fst (plan_scope physics now prev c)) = stable nxt"
    "machine_of_row (Some (fst (plan_scope physics now prev c))) t =
       nxt\<lparr>candidateSince := (if candidate nxt = None then 0 else candidateSince nxt)\<rparr>"
    "row_id (fst (plan_scope physics now prev c)) = counts_id c"
  using assms by (auto simp: plan_scope_def Let_def machine_of_row_def split: option.splits)

lemma machine_round_trip:
  "machine_of_row (Some (fst (plan_scope physics now prev c))) t
     = fst (advanceRanked LADDER_RANK (machine_of_row prev now) (lad_state (raw_evaluation physics prev c)) now)"
  if "\<forall>p. prev = Some p \<longrightarrow> sr_candidate p = None \<longrightarrow> candidate_since p = None"
proof -
  obtain nxt flip where a: "advanceRanked LADDER_RANK (machine_of_row prev now)
      (lad_state (raw_evaluation physics prev c)) now = (nxt, flip)" by fastforce
  have "candidate (machine_of_row prev now) = None \<Longrightarrow> candidateSince (machine_of_row prev now) = 0"
    using that by (auto simp: machine_of_row_def initialRankedState_def split: option.splits)
  then have "candidate nxt = None \<Longrightarrow> candidateSince nxt = 0"
    using a by (auto simp: advanceRanked_def split: if_splits)
  then show ?thesis using plan_state(2)[unfolded c_advance, OF a, of t] a by simp
qed

section \<open>Keys of the maps\<close>

definition keyed_by :: "('a \<Rightarrow> string) \<Rightarrow> (string \<times> 'a) list \<Rightarrow> bool" where
  "keyed_by f m \<longleftrightarrow> distinct (map fst m) \<and> (\<forall>(k, x) \<in> set m. k = f x)"

lemma set_update: "set (AList.update k v m) \<subseteq> insert (k, v) (set m)"
  by (induction m) auto

lemma keyed_by_update: "keyed_by f m \<Longrightarrow> keyed_by f (AList.update (f x) x m)"
  using set_update[of "f x" x m] by (auto simp: keyed_by_def distinct_update)

lemma keyed_by_fold: "keyed_by f m \<Longrightarrow> keyed_by f (fold (\<lambda>x m. AList.update (f x) x m) xs m)"
  by (induction xs arbitrary: m) (auto simp: keyed_by_update)

lemma keys_fold: "fst ` set (fold (\<lambda>x m. AList.update (f x) x m) xs m) = fst ` set m \<union> f ` set xs"
  by (induction xs arbitrary: m) (auto simp: dom_update)

lemma zero_fill_keys:
  "keyed_by counts_id m \<Longrightarrow> keyed_by counts_id (zero_fill rows m) \<and>
     fst ` set (zero_fill rows m) = fst ` set m \<union> row_id ` set rows"
proof (induction rows arbitrary: m)
  case Nil
  then show ?case by (simp add: zero_fill_def)
next
  case (Cons r rows)
  have z: "counts_id (zero_counts r) = row_id r" by (simp add: zero_counts_def)
  show ?case
  proof (cases "map_of m (row_id r)")
    case None
    have k: "keyed_by counts_id (AList.update (row_id r) (zero_counts r) m)"
      using keyed_by_update[OF Cons.prems, of "zero_counts r"] z by simp
    from Cons.IH[OF k] None show ?thesis by (simp add: zero_fill_def dom_update)
  next
    case (Some c)
    then have "row_id r \<in> fst ` set m" by (metis domI dom_map_of_conv_image_fst)
    with Cons.IH[OF Cons.prems] Some show ?thesis by (auto simp: zero_fill_def)
  qed
qed

lemma tick_scopes:
  assumes "planVerdictTick rows physics counts now = (states, events)"
  obtains m where "keyed_by counts_id m" "fst ` set m = counts_id ` set counts \<union> row_id ` set rows"
    "states = map (\<lambda>(k, c). fst (plan_scope physics now (map_of (index_rows rows) k) c)) m"
    "events = concat (map (\<lambda>(k, c). snd (plan_scope physics now (map_of (index_rows rows) k) c)) m)"
proof -
  let ?m = "zero_fill rows (index_counts counts)"
  have e: "keyed_by counts_id []" by (simp add: keyed_by_def)
  have k: "keyed_by counts_id (index_counts counts)" "fst ` set (index_counts counts) = counts_id ` set counts"
    using keyed_by_fold[OF e, of counts] keys_fold[of counts_id counts "[]"] by (simp_all add: index_counts_def)
  note z = zero_fill_keys[OF k(1), of rows]
  have "\<forall>(x, c) \<in> set ?m. x = counts_id c" using z by (simp add: keyed_by_def)
  then have "states = map (\<lambda>(k, c). fst (plan_scope physics now (map_of (index_rows rows) k) c)) ?m"
      "events = concat (map (\<lambda>(k, c). snd (plan_scope physics now (map_of (index_rows rows) k) c)) ?m)"
    using assms by (auto simp: planVerdictTick_def Let_def intro!: arg_cong[of _ _ concat])
  with z k(2) show thesis by (intro that[of ?m]) auto
qed

lemma tick_ids:
  assumes "planVerdictTick rows physics counts now = (states, events)"
  shows "distinct (map row_id states)" "row_id ` set states = counts_id ` set counts \<union> row_id ` set rows"
proof -
  from assms obtain m where m: "keyed_by counts_id m" "fst ` set m = counts_id ` set counts \<union> row_id ` set rows"
    "states = map (\<lambda>(k, c). fst (plan_scope physics now (map_of (index_rows rows) k) c)) m" by (rule tick_scopes)
  have "row_id (fst (plan_scope physics now p c)) = counts_id c" for p c
    by (simp add: plan_scope_def Let_def case_prod_beta)
  then have i: "map row_id states = map fst m"
    using m(1,3) by (auto simp: keyed_by_def)
  then show "distinct (map row_id states)" using m(1) by (simp add: keyed_by_def)
  from i have "set (map row_id states) = set (map fst m)" by simp
  then show "row_id ` set states = counts_id ` set counts \<union> row_id ` set rows" using m(2) by simp
qed

definition event_id :: "VerdictEventRow \<Rightarrow> string" where
  "event_id e = scopeId (ev_scope_type e) (ev_scope_key e) (ev_band e)"

definition prior_state :: "VerdictStateRow option \<Rightarrow> LadderState" where
  "prior_state prev = (case prev of None \<Rightarrow> Closed | Some p \<Rightarrow> sr_state p)"

lemma stable_machine: "stable (machine_of_row prev now) = prior_state prev"
  by (simp add: machine_of_row_def prior_state_def initialRankedState_def split: option.splits)

lemma advance_changes:
  "advanceRanked rank s raw now = (s', f) \<Longrightarrow> (f \<noteq> None) = (stable s' \<noteq> stable s) \<and>
     (\<forall>x. f = Some x \<longrightarrow> flip_from x = stable s \<and> flip_to x = stable s')"
  by (auto simp: advanceRanked_def split: if_splits)

lemma scope_events:
  fixes physics now prev c
  defines "r \<equiv> fst (plan_scope physics now prev c)"
  shows "filter (\<lambda>e. ev_type e = Transition) (snd (plan_scope physics now prev c)) =
     (if sr_state r = prior_state prev then [] else
      [\<lparr>ev_ts = now, ev_band = sc_band c, ev_scope_type = sc_scopeType c, ev_scope_key = sc_scopeKey c,
        ev_type = Transition, from_state = Some (prior_state prev), to_state = Some (sr_state r), ev_inputs = sr_inputs r\<rparr>])"
    "filter (\<lambda>e. ev_type e = SurpriseEvent) (snd (plan_scope physics now prev c)) =
     (if \<not> sr_surprise r \<or> was_set sr_surprise prev then [] else
      [\<lparr>ev_ts = now, ev_band = sc_band c, ev_scope_type = sc_scopeType c, ev_scope_key = sc_scopeKey c,
        ev_type = SurpriseEvent, from_state = None, to_state = Some (sr_state r), ev_inputs = sr_inputs r\<rparr>])"
    "e \<in> set (snd (plan_scope physics now prev c)) \<Longrightarrow> event_id e = counts_id c"
proof -
  obtain nxt flip where a: "advanceRanked LADDER_RANK (machine_of_row prev now)
      (lad_state (raw_evaluation physics prev c)) now = (nxt, flip)" by fastforce
  note ch = advance_changes[OF a, unfolded stable_machine]
  show "filter (\<lambda>e. ev_type e = Transition) (snd (plan_scope physics now prev c)) =
     (if sr_state r = prior_state prev then [] else
      [\<lparr>ev_ts = now, ev_band = sc_band c, ev_scope_type = sc_scopeType c, ev_scope_key = sc_scopeKey c,
        ev_type = Transition, from_state = Some (prior_state prev), to_state = Some (sr_state r), ev_inputs = sr_inputs r\<rparr>])"
    using ch by (cases flip) (simp_all add: r_def plan_scope_def Let_def c_advance a)
  show "filter (\<lambda>e. ev_type e = SurpriseEvent) (snd (plan_scope physics now prev c)) =
     (if \<not> sr_surprise r \<or> was_set sr_surprise prev then [] else
      [\<lparr>ev_ts = now, ev_band = sc_band c, ev_scope_type = sc_scopeType c, ev_scope_key = sc_scopeKey c,
        ev_type = SurpriseEvent, from_state = None, to_state = Some (sr_state r), ev_inputs = sr_inputs r\<rparr>])"
    by (cases flip) (simp_all add: r_def plan_scope_def Let_def c_advance a)
  show "e \<in> set (snd (plan_scope physics now prev c)) \<Longrightarrow> event_id e = counts_id c"
    by (cases flip) (auto simp: plan_scope_def Let_def c_advance a event_id_def split: if_splits)
qed

lemma filter_concat_unique:
  assumes "distinct (map fst m)" "(k, c) \<in> set m"
    "\<And>k' c' e. (k', c') \<in> set m \<Longrightarrow> e \<in> set (g k' c') \<Longrightarrow> idf e = k'"
  shows "filter (\<lambda>e. idf e = k) (concat (map (\<lambda>(k, c). g k c) m)) = g k c"
  using assms
proof (induction m)
  case Nil
  then show ?case by simp
next
  case (Cons x m)
  obtain k' c' where x: "x = (k', c')" by (cases x)
  have own: "filter (\<lambda>e. idf e = k) (g k' c') = (if k' = k then g k' c' else [])"
    using Cons.prems(3)[of k' c'] x by (auto intro: filter_True filter_False)
  show ?case
  proof (cases "k' = k")
    case True
    have nk: "k'' \<noteq> k" if "(k'', c'') \<in> set m" for k'' c''
      using Cons.prems(1) x True that by (auto simp: image_iff)
    then have c: "c' = c" using Cons.prems(2) x True by auto
    have "idf e \<noteq> k" if e: "e \<in> set (concat (map (\<lambda>(k, c). g k c) m))" for e
    proof -
      from e obtain k'' c'' where "(k'', c'') \<in> set m" "e \<in> set (g k'' c'')" by auto
      then show ?thesis using Cons.prems(3)[of k'' c'' e] nk[of k'' c''] by simp
    qed
    then have "filter (\<lambda>e. idf e = k) (concat (map (\<lambda>(k, c). g k c) m)) = []"
      by (simp add: filter_empty_conv)
    then show ?thesis using x own True c by simp
  next
    case False
    then have "(k, c) \<in> set m" using Cons.prems(2) x by simp
    moreover have "\<And>k' c' e. (k', c') \<in> set m \<Longrightarrow> e \<in> set (g k' c') \<Longrightarrow> idf e = k'"
      by (rule Cons.prems(3)) simp_all
    ultimately have "filter (\<lambda>e. idf e = k) (concat (map (\<lambda>(k, c). g k c) m)) = g k c"
      using Cons.IH Cons.prems(1) by simp
    with x own False show ?thesis by simp
  qed
qed

section \<open>Stored rows and runs of ticks\<close>

definition row_ok :: "VerdictStateRow \<Rightarrow> bool" where
  "row_ok r \<longleftrightarrow> (opened_at r \<noteq> None \<longleftrightarrow> LADDER_RANK (sr_state r) \<ge> LADDER_RANK Stirring) \<and>
     (sr_candidate r = None \<longleftrightarrow> candidate_since r = None) \<and> sr_candidate r \<noteq> Some (sr_state r)"

lemma advance_candidate:
  "advanceRanked rank s raw now = (s', f) \<Longrightarrow> candidate s \<noteq> Some (stable s) \<Longrightarrow> candidate s' \<noteq> Some (stable s')"
  by (auto simp: advanceRanked_def split: if_splits)

lemma plan_row_ok:
  assumes "\<forall>p. prev = Some p \<longrightarrow> row_ok p"
  shows "row_ok (fst (plan_scope physics now prev c))"
proof -
  obtain nxt flip where a: "advanceRanked LADDER_RANK (machine_of_row prev now)
      (lad_state (raw_evaluation physics prev c)) now = (nxt, flip)" by fastforce
  have "candidate (machine_of_row prev now) \<noteq> Some (stable (machine_of_row prev now))"
    using assms by (auto simp: machine_of_row_def initialRankedState_def row_ok_def split: option.splits)
  from advance_candidate[OF a this] have n: "candidate nxt \<noteq> Some (stable nxt)" .
  let ?r = "fst (plan_scope physics now prev c)"
  have f: "sr_state ?r = stable nxt" "sr_candidate ?r = candidate nxt"
    "candidate_since ?r = (case candidate nxt of None \<Rightarrow> None | Some x \<Rightarrow> Some (candidateSince nxt))"
    "opened_at ?r = (if LADDER_RANK (stable nxt) \<ge> LADDER_RANK Stirring
            then (case prev of
                Some p \<Rightarrow> if LADDER_RANK (sr_state p) \<ge> LADDER_RANK Stirring then opened_at p else Some now
              | None \<Rightarrow> Some now)
            else None)"
    by (simp_all add: plan_scope_def Let_def c_advance a)
  show ?thesis
    unfolding row_ok_def f using assms n by (cases prev) (auto simp: row_ok_def split: option.splits)
qed

lemma index_rows_in: "(k, r) \<in> set (index_rows rows) \<Longrightarrow> r \<in> set rows"
proof -
  have "(k, r) \<in> set (fold (\<lambda>r m. AList.update (row_id r) r m) rows m) \<Longrightarrow> r \<in> set rows \<or> (k, r) \<in> set m" for m
  proof (induction rows arbitrary: m)
    case Nil
    then show ?case by simp
  next
    case (Cons x rows)
    then show ?case using set_update[of "row_id x" x m] by force
  qed
  from this[of "[]"] show "(k, r) \<in> set (index_rows rows) \<Longrightarrow> r \<in> set rows" by (simp add: index_rows_def)
qed

fun scope_ticks :: "PhysicsArm \<Rightarrow> VerdictStateRow option \<Rightarrow> (ScopeCounts \<times> int) list \<Rightarrow> VerdictStateRow option" where
  \<comment> \<open>the stored row of one scope after a sequence of ticks\<close>
  "scope_ticks physics prev [] = prev"
| "scope_ticks physics prev ((c, now) # xs) = scope_ticks physics (Some (fst (plan_scope physics now prev c))) xs"

lemma quiet_raw:
  "sc_obs20m c = 0 \<Longrightarrow> scoreFor physics (sc_scopeType c) (sc_scopeKey c) (sc_band c) < 3 / 10 \<Longrightarrow>
     lad_state (raw_evaluation physics prev c) = Closed"
  by (simp add: raw_evaluation_def c_evaluate evaluateLadder_def Let_def physics_edge_def ladder_consts)

lemma quiet_ticks:
  assumes "list_all (\<lambda>(c, now). sc_obs20m c = 0 \<and> scoreFor physics (sc_scopeType c) (sc_scopeKey c) (sc_band c) < 3 / 10) xs"
    "row_ok p"
  shows "machine_of_row (scope_ticks physics (Some p) xs) t
     = fst (machine_run LADDER_RANK (machine_of_row (Some p) t) (map (\<lambda>(c, now). (Closed, now)) xs))"
  using assms
proof (induction xs arbitrary: p)
  case Nil
  then show ?case by simp
next
  case (Cons x xs)
  obtain c now where x: "x = (c, now)" by (cases x)
  let ?r = "fst (plan_scope physics now (Some p) c)"
  have raw: "lad_state (raw_evaluation physics (Some p) c) = Closed" using Cons.prems(1) x quiet_raw by simp
  have "machine_of_row (Some p) now = machine_of_row (Some p) t" by (simp add: machine_of_row_def)
  then have m: "machine_of_row (Some ?r) t = fst (advanceRanked LADDER_RANK (machine_of_row (Some p) t) Closed now)"
    using machine_round_trip[of "Some p" physics now c t] Cons.prems(2) raw by (simp add: row_ok_def)
  have "row_ok ?r" using plan_row_ok[of "Some p"] Cons.prems(2) by simp
  from Cons.IH[OF _ this] Cons.prems(1) m x show ?case by (simp add: case_prod_beta)
qed

section \<open>Properties\<close>

text \<open>
  The collector's port computes what the client computes: the trend, the ladder evaluation
  and the hold machine are the same functions, with every threshold and hold equal.
\<close>

theorem collector_port_in_sync:
  "c_computeTrend = computeTrend \<and> c_evaluateLadder = evaluateLadder \<and>
   (c_advanceRanked :: (LadderState \<Rightarrow> nat) \<Rightarrow> _) = advanceRanked"
  by (simp add: c_trend c_evaluate c_advance)

text \<open>
  The opening timeline is the first crossing: of the minutes 15, 30, .., 720 from now it
  reports the first whose score reaches the opening threshold when the scope is closed, the
  first whose score falls below the closing threshold when it is open, and nothing otherwise.
\<close>

theorem timeline_first_crossing:
  "computeOpeningTimeline physics ty key band opn now =
     (let score = (\<lambda>m. scoreAt physics ty key band (now + int m * 60000)); ms = map (\<lambda>k. 15 * k) [1..<49]
      in \<lparr>opensInMin = (if opn then None else find (\<lambda>m. score m \<ge> PHYSICS_OPEN_ENTER) ms),
          fadesInMin = (if opn then find (\<lambda>m. score m < PHYSICS_OPEN_EXIT) ms else None)\<rparr>)"
proof -
  have "minutes_from 48 15 = map (\<lambda>k. 15 * k) [1..<49]" by code_simp
  then show ?thesis
    using timeline_find[of 15 48 "\<lambda>m. scoreAt physics ty key band (now + int m * 60000)" opn]
    by (simp add: computeOpeningTimeline_def TIMELINE_STEP_MIN_def TIMELINE_HORIZON_MIN_def Let_def)
qed

text \<open>
  A tick writes exactly one state row for every scope that has a counts row or a stored
  state, and for no other scope.
\<close>

theorem tick_one_row_per_scope:
  assumes "planVerdictTick rows physics counts now = (states, events)"
  shows "distinct (map row_id states) \<and> row_id ` set states = counts_id ` set counts \<union> row_id ` set rows"
  using tick_ids[OF assms] by simp

text \<open>
  C5: The event log is complete and has no noise. For every row a tick writes, the events of its
  scope are: one transition, from the stored state to the new one, exactly when they differ
  (a scope seen first counts as closed), and one surprise exactly when the row is a surprise and
  the stored row was not.
\<close>

theorem tick_events_match_rows:
  assumes "planVerdictTick rows physics counts now = (states, events)" "r \<in> set states"
    "map_of (index_rows rows) (row_id r) = prev"
  shows "map (\<lambda>e. (ev_type e, from_state e, to_state e)) (filter (\<lambda>e. event_id e = row_id r \<and> ev_type e = Transition) events)
       = (if sr_state r = prior_state prev then [] else [(Transition, Some (prior_state prev), Some (sr_state r))]) \<and>
     map (\<lambda>e. (ev_type e, from_state e, to_state e)) (filter (\<lambda>e. event_id e = row_id r \<and> ev_type e = SurpriseEvent) events)
       = (if sr_surprise r \<and> \<not> was_set sr_surprise prev then [(SurpriseEvent, None, Some (sr_state r))] else [])"
proof -
  from assms(1) obtain m where m: "keyed_by counts_id m"
    "states = map (\<lambda>(k, c). fst (plan_scope physics now (map_of (index_rows rows) k) c)) m"
    "events = concat (map (\<lambda>(k, c). snd (plan_scope physics now (map_of (index_rows rows) k) c)) m)"
    by (rule tick_scopes) blast
  from assms(2) m(2) obtain k c where kc: "(k, c) \<in> set m" "r = fst (plan_scope physics now (map_of (index_rows rows) k) c)" by auto
  have k: "row_id r = k" "prev = map_of (index_rows rows) k"
    using kc m(1) assms(3) by (auto simp: keyed_by_def plan_scope_def Let_def case_prod_beta)
  have "filter (\<lambda>e. event_id e = k) events = snd (plan_scope physics now prev c)"
    unfolding m(3) k(2)
    using filter_concat_unique[OF _ kc(1), of "\<lambda>k c. snd (plan_scope physics now (map_of (index_rows rows) k) c)" event_id]
      m(1) scope_events(3) by (force simp: keyed_by_def)
  then have f: "filter (\<lambda>e. event_id e = row_id r \<and> ev_type e = t) events
      = filter (\<lambda>e. ev_type e = t) (snd (plan_scope physics now prev c))" for t
    using k(1) by (metis filter_filter)
  show ?thesis
    unfolding f scope_events(1,2) using kc(2) k(2) by auto
qed

abbreviation flat_arm :: PhysicsArm where
  "flat_arm \<equiv> \<lparr>basis = ''flat'', fLitFor = \<lambda>ty key. 0, scoreFor = \<lambda>ty key band. 0, scoreAt = \<lambda>ty key band ms. 0\<rparr>"

abbreviation busy_20m :: ScopeCounts where
  "busy_20m \<equiv> \<lparr>sc_scopeType = Global, sc_scopeKey = [], sc_band = ''20m'', sc_obs20m = 9, sc_reporters20m = 4,
     sc_count10mRecent = 5, sc_count10mPrior = 4, sc_sourceCounts60m = [], sc_modeObs20m = []\<rparr>"

theorem tick_one_row_per_scope_witness:
  "distinct (map row_id (fst (planVerdictTick [] flat_arm [busy_20m, busy_20m] 0))) \<and>
   row_id ` set (fst (planVerdictTick [] flat_arm [busy_20m, busy_20m] 0))
     = counts_id ` set [busy_20m, busy_20m] \<union> row_id ` set []"
  by (rule tick_one_row_per_scope[OF prod.collapse[symmetric]])

theorem tick_events_match_rows_witness:
  "let r = fst (plan_scope flat_arm 0 None busy_20m); events = snd (planVerdictTick [] flat_arm [busy_20m] 0) in
   map (\<lambda>e. (ev_type e, from_state e, to_state e)) (filter (\<lambda>e. event_id e = row_id r \<and> ev_type e = Transition) events)
       = (if sr_state r = prior_state None then [] else [(Transition, Some (prior_state None), Some (sr_state r))]) \<and>
     map (\<lambda>e. (ev_type e, from_state e, to_state e)) (filter (\<lambda>e. event_id e = row_id r \<and> ev_type e = SurpriseEvent) events)
       = (if sr_surprise r \<and> \<not> was_set sr_surprise (None :: VerdictStateRow option) then [(SurpriseEvent, None, Some (sr_state r))] else [])"
proof -
  let ?t = "planVerdictTick [] flat_arm [busy_20m] 0"
  have t: "?t = (fst ?t, snd ?t)" by simp
  have r: "fst (plan_scope flat_arm 0 None busy_20m) \<in> set (fst ?t)"
    by (simp add: planVerdictTick_def Let_def index_rows_def index_counts_def zero_fill_def)
  have n: "map_of (index_rows []) k = None" for k by (simp add: index_rows_def)
  show ?thesis unfolding Let_def by (rule tick_events_match_rows[OF t r n])
qed

text \<open>
  A tick keeps the stored rows consistent: a row has an opening time exactly when its state
  is stirring or better, a candidate's start exactly when it has a candidate, and the candidate
  is never the stable state.
\<close>

theorem tick_keeps_rows_consistent:
  assumes "planVerdictTick rows physics counts now = (states, events)" "\<forall>r \<in> set rows. row_ok r" "s \<in> set states"
  shows "row_ok s"
proof -
  from assms(1) obtain m where
    m: "states = map (\<lambda>(k, c). fst (plan_scope physics now (map_of (index_rows rows) k) c)) m"
    by (rule tick_scopes) blast
  then obtain k c where "s = fst (plan_scope physics now (map_of (index_rows rows) k) c)" using assms(3) by auto
  then show ?thesis
    using plan_row_ok[of "map_of (index_rows rows) k"] assms(2) index_rows_in by (metis map_of_SomeD)
qed

theorem tick_keeps_rows_consistent_witness:
  "row_ok (fst (plan_scope flat_arm 0 None busy_20m))"
proof -
  let ?t = "planVerdictTick [] flat_arm [busy_20m] 0"
  have t: "?t = (fst ?t, snd ?t)" by simp
  have r: "fst (plan_scope flat_arm 0 None busy_20m) \<in> set (fst ?t)"
    by (simp add: planVerdictTick_def Let_def index_rows_def index_counts_def zero_fill_def)
  show ?thesis by (rule tick_keeps_rows_consistent[OF t _ r]) simp
qed

text \<open>
  A quiet scope walks back down. Whatever consistent row is stored for it, once a scope has
  no observations and a forecast score below 0.3 at every tick from \<open>t0\<close> to \<open>t1\<close>, at least 20
  minutes later, its stored state is closed.
\<close>

theorem quiet_scope_closes:
  assumes "row_ok p" "sr_candidate p \<noteq> Some Closed" "DOWNGRADE_HOLD_MS \<le> t1 - t0"
    "list_all (\<lambda>(c, now). sc_obs20m c = 0 \<and> scoreFor physics (sc_scopeType c) (sc_scopeKey c) (sc_band c) < 3 / 10)
       ((c0, t0) # xs @ [(c1, t1)])"
  shows "\<exists>r. scope_ticks physics (Some p) ((c0, t0) # xs @ [(c1, t1)]) = Some r \<and> sr_state r = Closed"
proof -
  let ?xs = "(c0, t0) # xs @ [(c1, t1)]" let ?m = "machine_of_row (Some p) 0"
  have run: "machine_of_row (scope_ticks physics (Some p) ?xs) 0
      = fst (machine_run LADDER_RANK ?m ((Closed, t0) # map (\<lambda>(c, now). (Closed, now)) xs @ [(Closed, t1)]))"
    using quiet_ticks[OF assms(4,1), of 0] by simp
  have "stable (machine_of_row (scope_ticks physics (Some p) ?xs) 0) = Closed"
  proof (cases "stable ?m = Closed")
    case False
    moreover have "candidate ?m \<noteq> Some Closed" using assms(2) by (simp add: machine_of_row_def)
    moreover have "holdForRanked LADDER_RANK (stable ?m) Closed \<le> t1 - t0"
      using holds_positive(3)[of LADDER_RANK "stable ?m" Closed] assms(3) by simp
    ultimately show ?thesis
      unfolding run using constant_run_promotes[of ?m Closed "map (\<lambda>(c, now). (Closed, now)) xs" LADDER_RANK t1 t0]
      by force
  next
    case True
    have "stable (fst (machine_run LADDER_RANK m (map (\<lambda>(c, now). (Closed, now)) ys))) = Closed"
      if "stable m = Closed" for m and ys :: "(ScopeCounts \<times> int) list"
      using that by (induction ys arbitrary: m) (auto simp: advanceRanked_def case_prod_beta)
    from this[OF True, of ?xs] show ?thesis unfolding run by simp
  qed
  moreover have "\<exists>r. scope_ticks physics (Some q) ys = Some r" for q ys
    by (induction ys arbitrary: q) auto
  then obtain r where "scope_ticks physics (Some p) ?xs = Some r" by blast
  ultimately show ?thesis by (simp add: machine_of_row_def)
qed

abbreviation verified_row :: VerdictStateRow where
  "verified_row \<equiv> \<lparr>sr_band = ''20m'', sr_scope_type = Global, sr_scope_key = [], sr_state = Verified, stable_since = 0,
     sr_candidate = None, candidate_since = None, sr_surprise = True, opened_at = Some 0, sr_inputs = [], updated_at = 0\<rparr>"

theorem quiet_scope_closes_witness:
  "\<exists>r. scope_ticks flat_arm (Some verified_row)
      ((zero_counts verified_row, 0) # [(zero_counts verified_row, 600000)] @ [(zero_counts verified_row, 1200000)]) = Some r \<and>
    sr_state r = Closed"
  by (rule quiet_scope_closes) (simp_all add: row_ok_def zero_counts_def DOWNGRADE_HOLD_MS_def)

end
