(* ===== verification/OfflineQueue.thy ===== *)
theory OfflineQueue
  imports JsonValue "HOL-Library.Sublist"
begin

text \<open>
  The contract of the two offline queues of the sync layer, the write queue
  (\<open>src/lib/sync/writeQueue.ts\<close>) and the QSO queue (\<open>syncQueue.ts\<close>), and the persistence they
  share: after an operation that changes the queue the entries are written to
  \<open>localStorage\<close>; a write that fails (storage full) is only logged.
\<close>

section \<open>Persistence\<close>

type_synonym 'e storage = "'e list option" \<comment> \<open>what is stored under the key of the queue\<close>

record 'e Queue =
  entries :: "'e list"
  stored :: "'e storage"

definition save :: "bool \<Rightarrow> 'e Queue \<Rightarrow> 'e Queue" where
  \<comment> \<open>the argument says whether \<open>setItem\<close> succeeds\<close>
  "save room q = (if room then q\<lparr>stored := Some (entries q)\<rparr> else q)"

definition load :: "'e storage \<Rightarrow> 'e Queue" where
  \<comment> \<open>a fresh instance on what an earlier one stored\<close>
  "load st = \<lparr>entries = (case st of None \<Rightarrow> [] | Some es \<Rightarrow> es), stored = st\<rparr>"

lemma save_simps [simp]: "entries (save room q) = entries q" "save True q = q\<lparr>stored := Some (entries q)\<rparr>"
  by (simp_all add: save_def)

definition saved :: "'e Queue \<Rightarrow> bool" where
  \<comment> \<open>a reload gives the same entries\<close>
  "saved q \<longleftrightarrow> entries (load (stored q)) = entries q"

lemma saved_save: "saved (save True q)"
  by (simp add: saved_def load_def)

lemma subseq_remove_at: "subseq (remove_at i es) es"
proof (induction es arbitrary: i)
  case Nil
  then show ?case by (simp add: remove_at_def)
next
  case (Cons e es)
  then show ?case by (cases i) (auto simp: remove_at_def)
qed

lemma subseq_distinct_trans: "subseq xs ys \<Longrightarrow> distinct ys \<Longrightarrow> distinct xs"
  by (induction rule: list_emb.induct) (auto dest: list_emb_set)

section \<open>The contract\<close>

locale offline_queue =
  fixes stp :: "'q \<Rightarrow> 'op \<Rightarrow> 'q"
    and ents :: "'q \<Rightarrow> 'e list"
    and eid :: "'e \<Rightarrow> 'id"
    and adds :: "'op \<Rightarrow> 'id list"
    and cap :: nat
  assumes bounded: "length (ents q) \<le> cap \<Longrightarrow> length (ents (stp q o1)) \<le> cap"
    and origin: "eid ` set (ents (stp q o1)) \<subseteq> eid ` set (ents q) \<union> set (adds o1)"
begin

definition runs :: "'q \<Rightarrow> 'op list \<Rightarrow> 'q" where
  "runs q os = foldl stp q os"

lemma runs_simps [simp]: "runs q [] = q" "runs q (x # os) = runs (stp q x) os"
  by (simp_all add: runs_def)

lemma runs_bounded: "length (ents q) \<le> cap \<Longrightarrow> length (ents (runs q os)) \<le> cap"
  by (induction os arbitrary: q) (auto simp: bounded)

lemma runs_origin: "eid ` set (ents (runs q os)) \<subseteq> eid ` set (ents q) \<union> set (concat (map adds os))"
proof (induction os arbitrary: q)
  case Nil
  then show ?case by simp
next
  case (Cons x os)
  from Cons.IH[of "stp q x"] origin[of q x] show ?case by auto
qed

text \<open>An entry that has left the queue comes back only when its identifier is added again.\<close>

lemma gone_stays_gone:
  "i \<notin> eid ` set (ents q) \<Longrightarrow> i \<notin> set (concat (map adds os)) \<Longrightarrow> i \<notin> eid ` set (ents (runs q os))"
  using runs_origin[of q os] by blast

end

end
