(* ===== verification/QsoQueue.thy ===== *)
theory QsoQueue
  imports OfflineQueue "HOL-Library.AList" "HOL-Library.Multiset"
begin

text \<open>
  The QSO queue with optimistic updates and coalescing of rapid edits
  (\<open>src/lib/sync/syncQueue.ts\<close>). The fresh identifier, the current time and the storage room
  are arguments, as for the write queue; the callbacks are named by numbers, and a
  notification is what one of them is called with.
\<close>

datatype QSOQueueOperation = Create | Update | Remove
datatype qso_status = QPending | QFailed

type_synonym qso_data = "(string \<times> jv) list"

definition PRIORITY_MAP :: "QSOQueueOperation \<Rightarrow> nat" where
  "PRIORITY_MAP op1 = (case op1 of Create \<Rightarrow> 0 | Update \<Rightarrow> 1 | Remove \<Rightarrow> 2)"

record QSOQueueEntry =
  q_queueId :: string
  q_operation :: QSOQueueOperation
  entryId :: string
  q_data :: qso_data
  deviceId :: string
  createdAt :: int
  lastUpdatedAt :: int
  coalesceCount :: nat
  q_retryCount :: nat
  q_status :: qso_status
  priority :: nat

type_synonym QSOQueue = "QSOQueueEntry Queue"

definition QSO_MAX_ENTRIES :: nat where "QSO_MAX_ENTRIES = 2000"
definition COALESCE_WINDOW_MS :: int where "COALESCE_WINDOW_MS = 2000"

definition isWithinCoalesceWindow :: "int \<Rightarrow> int \<Rightarrow> bool" where
  "isWithinCoalesceWindow now t \<longleftrightarrow> now - t < COALESCE_WINDOW_MS"

definition merge_data :: "qso_data \<Rightarrow> qso_data \<Rightarrow> qso_data" where
  \<comment> \<open>\<open>{ ...a, ...b }\<close>\<close>
  "merge_data a b = fold (\<lambda>(k, v) m. AList.update k v m) b a"

definition coalesce :: "int \<Rightarrow> QSOQueueOperation \<Rightarrow> qso_data \<Rightarrow> QSOQueueEntry \<Rightarrow> QSOQueueEntry" where
  "coalesce now op1 d e =
     (let e1 = (if op1 = Remove
                then e\<lparr>q_operation := Remove, q_data := d, priority := PRIORITY_MAP Remove\<rparr>
                else if q_operation e = Create \<and> op1 = Update
                then e\<lparr>q_data := merge_data (q_data e) d\<rparr>
                else e\<lparr>q_data := merge_data (q_data e) d, q_operation := op1, priority := PRIORITY_MAP op1\<rparr>)
      in e1\<lparr>lastUpdatedAt := now, coalesceCount := coalesceCount e1 + 1\<rparr>)"

definition recent_pending :: "int \<Rightarrow> string \<Rightarrow> QSOQueueEntry \<Rightarrow> bool" where
  "recent_pending now i e \<longleftrightarrow> entryId e = i \<and> q_status e = QPending \<and> isWithinCoalesceWindow now (lastUpdatedAt e)"

definition lowest_priority :: "QSOQueueEntry list \<Rightarrow> nat" where
  \<comment> \<open>the index the \<open>reduce\<close> ends with\<close>
  "lowest_priority es = fold (\<lambda>i m. if priority (es ! i) > priority (es ! m) then i else m) [0..<length es] 0"

definition qso_evict :: "QSOQueueEntry list \<Rightarrow> QSOQueueEntry list" where
  "qso_evict es =
     (if length es \<ge> QSO_MAX_ENTRIES then
        (case index_from (\<lambda>e. q_status e = QFailed) es of
           Some i \<Rightarrow> remove_at i es
         | None \<Rightarrow> remove_at (lowest_priority es) es)
      else es)"

definition new_entry :: "string \<Rightarrow> int \<Rightarrow> string \<Rightarrow> string \<Rightarrow> QSOQueueOperation \<Rightarrow> qso_data \<Rightarrow> QSOQueueEntry" where
  "new_entry uuid now dev i op1 d = \<lparr>q_queueId = uuid, q_operation = op1, entryId = i, q_data = d, deviceId = dev,
     createdAt = now, lastUpdatedAt = now, coalesceCount = 0, q_retryCount = 0, q_status = QPending,
     priority = PRIORITY_MAP op1\<rparr>"

definition qso_enqueue ::
    "string \<Rightarrow> int \<Rightarrow> string \<Rightarrow> bool \<Rightarrow> string \<Rightarrow> QSOQueueOperation \<Rightarrow> qso_data \<Rightarrow> QSOQueue \<Rightarrow> QSOQueue" where
  "qso_enqueue uuid now dev room i op1 d q =
     (if list_ex (recent_pending now i) (entries q)
      then save room (q\<lparr>entries := update_first (recent_pending now i) (coalesce now op1 d) (entries q)\<rparr>)
      else
        let es1 = filter (\<lambda>e. \<not> (entryId e = i \<and> q_status e = QPending)) (entries q)
        in save room (q\<lparr>entries := qso_evict es1 @ [new_entry uuid now dev i op1 d]\<rparr>))"

type_synonym notification = "nat \<times> string \<times> QSOQueueOperation \<times> qso_data"

definition optimistic :: "nat list \<Rightarrow> string \<Rightarrow> QSOQueueOperation \<Rightarrow> qso_data \<Rightarrow> notification list" where
  \<comment> \<open>the calls of the registered callbacks; one that throws does not stop the others\<close>
  "optimistic cbs i op1 d = map (\<lambda>cb. (cb, i, op1, d)) cbs"

definition getEntries :: "QSOQueue \<Rightarrow> QSOQueueEntry list" where
  "getEntries q = sort_key priority (filter (\<lambda>e. q_status e = QPending) (entries q))"

definition getPendingCount :: "QSOQueue \<Rightarrow> nat" where
  "getPendingCount q = length (filter (\<lambda>e. q_status e = QPending) (entries q))"

definition getFailedCount :: "QSOQueue \<Rightarrow> nat" where
  "getFailedCount q = length (filter (\<lambda>e. q_status e = QFailed) (entries q))"

definition qso_flush :: "bool \<Rightarrow> string list \<Rightarrow> QSOQueue \<Rightarrow> QSOQueue" where
  "qso_flush room ids q =
     (if ids = [] then q else save room (q\<lparr>entries := filter (\<lambda>e. q_queueId e \<notin> set ids) (entries q)\<rparr>))"

definition qso_markFailed :: "bool \<Rightarrow> string \<Rightarrow> QSOQueue \<Rightarrow> QSOQueue" where
  "qso_markFailed room i q =
     (if list_ex (\<lambda>e. q_queueId e = i) (entries q)
      then save room (q\<lparr>entries := update_first (\<lambda>e. q_queueId e = i)
             (\<lambda>e. e\<lparr>q_status := QFailed, q_retryCount := q_retryCount e + 1\<rparr>) (entries q)\<rparr>)
      else q)"

definition qso_retry :: "bool \<Rightarrow> string \<Rightarrow> QSOQueue \<Rightarrow> QSOQueue" where
  "qso_retry room i q =
     (case List.find (\<lambda>e. q_queueId e = i) (entries q) of
        Some e \<Rightarrow> if q_status e = QFailed
          then save room (q\<lparr>entries := update_first (\<lambda>e. q_queueId e = i) (\<lambda>e. e\<lparr>q_status := QPending\<rparr>) (entries q)\<rparr>)
          else q
      | None \<Rightarrow> q)"

definition qso_retryAll :: "bool \<Rightarrow> QSOQueue \<Rightarrow> QSOQueue" where
  "qso_retryAll room q =
     (if list_ex (\<lambda>e. q_status e = QFailed) (entries q)
      then save room (q\<lparr>entries := map (\<lambda>e. if q_status e = QFailed then e\<lparr>q_status := QPending\<rparr> else e) (entries q)\<rparr>)
      else q)"

definition qso_clear :: "bool \<Rightarrow> QSOQueue \<Rightarrow> QSOQueue" where
  "qso_clear room q = save room (q\<lparr>entries := []\<rparr>)"

definition hasPendingForEntry :: "string \<Rightarrow> QSOQueue \<Rightarrow> bool" where
  "hasPendingForEntry i q \<longleftrightarrow> list_ex (\<lambda>e. entryId e = i \<and> q_status e = QPending) (entries q)"

datatype qso_op =
    QEnqueue string int string string QSOQueueOperation qso_data
  | QFlush "string list"
  | QMarkFailed string
  | QRetry string
  | QRetryAll
  | QClear

fun qso_step :: "QSOQueue \<Rightarrow> qso_op \<times> bool \<Rightarrow> QSOQueue" where
  "qso_step q (QEnqueue uuid now dev i op1 d, room) = qso_enqueue uuid now dev room i op1 d q"
| "qso_step q (QFlush ids, room) = qso_flush room ids q"
| "qso_step q (QMarkFailed i, room) = qso_markFailed room i q"
| "qso_step q (QRetry i, room) = qso_retry room i q"
| "qso_step q (QRetryAll, room) = qso_retryAll room q"
| "qso_step q (QClear, room) = qso_clear room q"

fun qso_adds :: "qso_op \<times> bool \<Rightarrow> string list" where
  "qso_adds (QEnqueue uuid now dev i op1 d, room) = [uuid]"
| "qso_adds _ = []"

lemmas qso_defs = qso_enqueue_def qso_flush_def qso_markFailed_def qso_retry_def qso_retryAll_def qso_clear_def Let_def

section \<open>The contract holds\<close>

lemma lowest_priority_less: "es \<noteq> [] \<Longrightarrow> lowest_priority es < length es"
proof -
  assume "es \<noteq> []"
  have "fold (\<lambda>i m. if priority (es ! i) > priority (es ! m) then i else m) is m < length es"
    if "m < length es" "\<forall>i \<in> set is. i < length es" for "is" m
    using that by (induction "is" arbitrary: m) auto
  from this[of 0 "[0..<length es]"] \<open>es \<noteq> []\<close> show ?thesis by (auto simp: lowest_priority_def)
qed

lemma length_qso_evict: "length es \<le> QSO_MAX_ENTRIES \<Longrightarrow> length (qso_evict es) < QSO_MAX_ENTRIES"
proof -
  assume le: "length es \<le> QSO_MAX_ENTRIES"
  have "length (remove_at i es) < QSO_MAX_ENTRIES" if "i < length es" for i
    using that le by simp
  moreover have "es \<noteq> []" if "QSO_MAX_ENTRIES \<le> length es" using that by (auto simp: QSO_MAX_ENTRIES_def)
  ultimately show ?thesis
    using le index_from_Some[of _ es] lowest_priority_less[of es]
    by (auto simp: qso_evict_def split: option.splits)
qed

lemma set_qso_evict: "set (qso_evict es) \<subseteq> set es"
  using set_remove_at[of _ es] by (auto simp: qso_evict_def split: option.splits)

lemma new_entry_simps [simp]: "q_queueId (new_entry uuid now dev i op1 d) = uuid"
  "q_status (new_entry uuid now dev i op1 d) = QPending" "priority (new_entry uuid now dev i op1 d) = PRIORITY_MAP op1"
  "entryId (new_entry uuid now dev i op1 d) = i" "q_operation (new_entry uuid now dev i op1 d) = op1"
  by (simp_all add: new_entry_def)

lemma coalesce_id [simp]: "q_queueId (coalesce now op1 d e) = q_queueId e" "entryId (coalesce now op1 d e) = entryId e"
  "q_status (coalesce now op1 d e) = q_status e"
  by (simp_all add: coalesce_def Let_def)

interpretation qso: offline_queue qso_step entries q_queueId qso_adds QSO_MAX_ENTRIES
proof (unfold_locales, goal_cases)
  case (1 q o1)
  have f: "length (filter P (entries q)) \<le> QSO_MAX_ENTRIES" for P
    using order_trans[OF length_filter_le[of P "entries q"] 1] .
  show ?case
    using 1 f length_qso_evict[OF f]
    by (cases "(q, o1)" rule: qso_step.cases) (auto simp: qso_defs less_eq_Suc_le split: option.splits)
next
  case (2 q o1)
  have s: "set (qso_evict es) \<subseteq> set es" for es by (rule set_qso_evict)
  show ?case
    by (cases "(q, o1)" rule: qso_step.cases)
      (auto simp: qso_defs image_iff split: option.splits dest!: set_mp[OF s] set_mp[OF set_update_first])
qed

section \<open>Lemmas\<close>

lemma map_of_merge: "map_of (merge_data a b) = map_of a ++ map_of (rev b)"
proof (induction b arbitrary: a)
  case Nil
  then show ?case by (simp add: merge_data_def)
next
  case (Cons x b)
  obtain k v where x: "x = (k, v)" by (cases x)
  from Cons.IH[of "AList.update k v a"] x show ?case
    by (auto simp: merge_data_def update_conv' map_add_def fun_eq_iff split: option.splits)
qed

lemma merge_distinct: "distinct (map fst b) \<Longrightarrow> map_of (merge_data a b) = map_of a ++ map_of b"
  using map_of_inject_set[of "rev b" b] by (simp add: map_of_merge rev_map[symmetric])

lemma update_first_split:
  "list_ex P xs \<Longrightarrow> \<exists>pre x post. xs = pre @ x # post \<and> P x \<and> (\<forall>y \<in> set pre. \<not> P y) \<and>
     update_first P f xs = pre @ f x # post"
proof (induction xs)
  case Nil
  then show ?case by simp
next
  case (Cons y xs)
  show ?case
  proof (cases "P y")
    case True
    then have "y # xs = [] @ y # xs \<and> P y \<and> (\<forall>z \<in> set []. \<not> P z) \<and> update_first P f (y # xs) = [] @ f y # xs" by simp
    then show ?thesis by blast
  next
    case False
    with Cons obtain pre x post where h: "xs = pre @ x # post" "P x" "\<forall>y \<in> set pre. \<not> P y"
      "update_first P f xs = pre @ f x # post" by auto
    then have "y # xs = (y # pre) @ x # post \<and> P x \<and> (\<forall>z \<in> set (y # pre). \<not> P z) \<and>
        update_first P f (y # xs) = (y # pre) @ f x # post" using False by simp
    then show ?thesis by blast
  qed
qed

section \<open>Properties\<close>

text \<open>
  A rapid edit is merged, not queued twice. When an entry for the QSO is pending and was
  touched less than two seconds ago, an update changes exactly one entry, in place: it keeps
  its identifier, a creation stays a creation, anything else becomes an update, and its data
  are the old data overridden by the edit, field by field.
\<close>

theorem rapid_edit_coalesced:
  assumes "list_ex (recent_pending now i) (entries q)" "distinct (map fst d)"
  shows "\<exists>pre e e' post. entries q = pre @ e # post \<and> recent_pending now i e \<and>
    entries (qso_enqueue uuid now dev room i Update d q) = pre @ e' # post \<and>
    q_queueId e' = q_queueId e \<and> entryId e' = i \<and> q_status e' = QPending \<and>
    q_operation e' = (if q_operation e = Create then Create else Update) \<and>
    map_of (q_data e') = map_of (q_data e) ++ map_of d \<and>
    lastUpdatedAt e' = now \<and> coalesceCount e' = Suc (coalesceCount e)"
proof -
  from update_first_split[OF assms(1), of "coalesce now Update d"] obtain pre e post where
    h: "entries q = pre @ e # post" "recent_pending now i e"
      "update_first (recent_pending now i) (coalesce now Update d) (entries q) = pre @ coalesce now Update d e # post" by blast
  moreover have "entries (qso_enqueue uuid now dev room i Update d q) = pre @ coalesce now Update d e # post"
    using assms(1) h(3) by (simp add: qso_enqueue_def)
  moreover have "q_operation (coalesce now Update d e) = (if q_operation e = Create then Create else Update)"
    "map_of (q_data (coalesce now Update d e)) = map_of (q_data e) ++ map_of d"
    "lastUpdatedAt (coalesce now Update d e) = now" "coalesceCount (coalesce now Update d e) = Suc (coalesceCount e)"
    using merge_distinct[OF assms(2)] by (simp_all add: coalesce_def Let_def)
  moreover have "entryId (coalesce now Update d e) = i" "q_status (coalesce now Update d e) = QPending"
    using h(2) by (simp_all add: recent_pending_def)
  ultimately show ?thesis by (metis coalesce_id(1))
qed

theorem rapid_edit_coalesced_witness:
  "let e0 = new_entry ''u1'' 0 ''dev'' ''qso1'' Create [(''call'', JStr ''K1ABC'')];
       q = \<lparr>entries = [e0], stored = None\<rparr> in
   \<exists>pre e e' post. entries q = pre @ e # post \<and> recent_pending 1500 ''qso1'' e \<and>
    entries (qso_enqueue ''u2'' 1500 ''dev'' True ''qso1'' Update [(''mode'', JStr ''CW'')] q) = pre @ e' # post \<and>
    q_queueId e' = q_queueId e \<and> entryId e' = ''qso1'' \<and> q_status e' = QPending \<and>
    q_operation e' = (if q_operation e = Create then Create else Update) \<and>
    map_of (q_data e') = map_of (q_data e) ++ map_of [(''mode'', JStr ''CW'')] \<and>
    lastUpdatedAt e' = 1500 \<and> coalesceCount e' = Suc (coalesceCount e)"
  unfolding Let_def
  by (rule rapid_edit_coalesced)
    (simp_all add: recent_pending_def new_entry_def isWithinCoalesceWindow_def COALESCE_WINDOW_MS_def)

text \<open>
  What is sent is exactly the pending entries, creations before updates before deletions,
  and entries of one priority in the order of the queue.
\<close>

theorem pending_sent_by_priority:
  "mset (getEntries q) = mset (filter (\<lambda>e. q_status e = QPending) (entries q)) \<and>
   sorted (map priority (getEntries q)) \<and>
   filter (\<lambda>e. priority e = k) (getEntries q) = filter (\<lambda>e. q_status e = QPending \<and> priority e = k) (entries q)"
  using sort_key_stable[of priority k "filter (\<lambda>e. q_status e = QPending) (entries q)"]
  by (auto simp: getEntries_def conj_commute intro: filter_cong)

text \<open>
  A retry can undo a newer write. When a deletion of a QSO failed and the QSO is created
  again later, retrying all failed entries queues both, and the deletion is sent after the
  newer creation.
\<close>

theorem retry_replays_stale_deletion:
  "map (\<lambda>e. (q_queueId e, q_operation e, entryId e))
      (getEntries (foldl qso_step (load None)
        [(QEnqueue u0 t0 dev i Remove d0, True), (QMarkFailed u0, True), (QEnqueue u1 t1 dev i Create d1, True), (QRetryAll, True)]))
    = [(u1, Create, i), (u0, Remove, i)]"
  by (simp add: qso_defs load_def recent_pending_def new_entry_def qso_evict_def QSO_MAX_ENTRIES_def
      getEntries_def PRIORITY_MAP_def save_def)

text \<open>
  Over every sequence of operations a queue that starts empty holds at most 2000 entries,
  and an entry that was flushed after its push never comes back unless its identifier is used
  for a new entry.
\<close>

theorem qso_flushed_stays_gone:
  assumes "i \<in> set ids" "i \<notin> set (concat (map qso_adds os))"
  shows "length (entries (foldl qso_step (qso_flush room ids (foldl qso_step (load None) pre)) os)) \<le> QSO_MAX_ENTRIES \<and>
    i \<notin> q_queueId ` set (entries (foldl qso_step (qso_flush room ids (foldl qso_step (load None) pre)) os))"
proof -
  let ?q = "foldl qso_step (load None) pre"
  have "length (entries ?q) \<le> QSO_MAX_ENTRIES"
    using qso.runs_bounded[of "load None" pre] by (simp add: qso.runs_def load_def)
  then have b: "length (entries (qso_flush room ids ?q)) \<le> QSO_MAX_ENTRIES"
    by (auto simp: qso_flush_def intro: order_trans[OF length_filter_le])
  have "i \<notin> q_queueId ` set (entries (qso_flush room ids ?q))" using assms(1) by (auto simp: qso_flush_def)
  from qso.gone_stays_gone[OF this assms(2)] qso.runs_bounded[OF b, of os] show ?thesis by (simp add: qso.runs_def)
qed

theorem qso_flushed_stays_gone_witness:
  "length (entries (foldl qso_step (qso_flush True [''u0''] (foldl qso_step (load None)
      [(QEnqueue ''u0'' 0 ''dev'' ''qso1'' Create [], True)])) [(QRetryAll, True)])) \<le> QSO_MAX_ENTRIES \<and>
    ''u0'' \<notin> q_queueId ` set (entries (foldl qso_step (qso_flush True [''u0''] (foldl qso_step (load None)
      [(QEnqueue ''u0'' 0 ''dev'' ''qso1'' Create [], True)])) [(QRetryAll, True)]))"
  by (rule qso_flushed_stays_gone) simp_all

end
