(* ===== verification/BitStream.thy ===== *)
theory BitStream
  imports Prelude
begin

text \<open>
  Bit streams: the big-endian packing of a number into a \<open>Uint8Array\<close>, reading single bits
  and bit fields back, and the folded parity both encoders use.

  The encoders of \<open>src/lib/wspr/wsprCodec.ts\<close> and \<open>src/lib/ft8/ft8Encoder.ts\<close> assemble a
  message in a BigInt (here a \<open>nat\<close>) and store it most significant byte first: \<open>be_bytes\<close>.
  \<open>mixed_radix\<close> undoes the packing of a callsign's six characters.
  Later stages read bit \<open>i\<close> of the array, counted from the first byte's top bit: \<open>get_bit\<close>.
\<close>

unbundle bit_operations_syntax

section \<open>Packing and reading\<close>

primrec be_bytes :: "nat \<Rightarrow> nat \<Rightarrow> buffer" where
  \<comment> \<open>\<open>for (i = n - 1; i >= 0; i--) { result[i] = Number(v & 0xffn); v >>= 8n; }\<close>\<close>
  "be_bytes 0 v = []"
| "be_bytes (Suc n) v = be_bytes n (drop_bit 8 v) @ [of_nat (v AND 255)]"

definition get_bit :: "buffer \<Rightarrow> nat \<Rightarrow> nat" where
  \<comment> \<open>\<open>(data[Math.floor(i / 8)] >> (7 - (i % 8))) & 1\<close>\<close>
  "get_bit data i = unat (drop_bit (7 - i mod 8) (byte_at data (i div 8)) AND 1)"

definition bits_value :: "nat list \<Rightarrow> nat" where
  \<comment> \<open>the number a list of bits denotes, most significant first\<close>
  "bits_value bs = foldl (\<lambda>a b. 2 * a + b) 0 bs"

lemma length_be_bytes [simp]: "length (be_bytes n v) = n"
  by (induction n arbitrary: v) simp_all

lemma get_bit_eq: "get_bit data i = of_bool (bit (byte_at data (i div 8)) (7 - i mod 8))"
  unfolding get_bit_def by (simp add: and_one_eq odd_iff_mod_2_eq_one bit_iff_odd_drop_bit flip: mod_2_eq_odd)

lemma get_bit_less: "get_bit data i < 2"
  by (simp add: get_bit_eq)

lemma and_mask_low: "v AND (2 ^ k - 1) = take_bit k (v :: nat)"
  by (simp add: take_bit_eq_mask mask_eq_exp_minus_1)

lemmas and_masks = and_mask_low[of _ 28, simplified] and_mask_low[of _ 15, simplified]
  and_mask_low[of _ 8, simplified] and_mask_low[of _ 7, simplified] and_mask_low[of _ 3, simplified]
  and_mask_low[of _ 1, simplified]

lemma of_nat_and_255: "(of_nat (v AND 255) :: byte) = of_nat v"
  by (rule bit_eqI) (simp add: and_masks bit_simps)

lemma byte_be_bytes: "i < n \<Longrightarrow> byte_at (be_bytes n v) i = of_nat (drop_bit (8 * (n - 1 - i)) v)"
proof (induction n arbitrary: v)
  case 0
  then show ?case by simp
next
  case (Suc n)
  show ?case
  proof (cases "i < n")
    case True
    then have "8 * (n - 1 - i) + 8 = 8 * (n - i)" by simp
    then show ?thesis using True Suc.IH[OF True, of "drop_bit 8 v"] by (simp add: add.commute)
  next
    case False
    then have "i = n" using Suc.prems by simp
    then show ?thesis by (simp add: byte_at_def of_nat_and_255 nth_append)
  qed
qed

lemma get_bit_be_bytes: "i < 8 * n \<Longrightarrow> get_bit (be_bytes n v) i = of_bool (bit v (8 * n - 1 - i))"
proof -
  assume i: "i < 8 * n"
  then have j: "i div 8 < n" by linarith
  then have "8 * (n - 1 - i div 8) + (7 - i mod 8) = 8 * n - 1 - i"
    using div_mult_mod_eq[of i 8] mod_less_divisor[of 8 i] by linarith
  then show ?thesis
    using less_Suc_eq_le[of "7 - i mod 8" 7] by (simp add: get_bit_eq byte_be_bytes[OF j] bit_simps add.commute)
qed

lemma bits_value_Nil [simp]: "bits_value [] = 0"
  by (simp add: bits_value_def)

lemma bits_value_snoc [simp]: "bits_value (bs @ [b]) = 2 * bits_value bs + b"
  by (simp add: bits_value_def)

lemma bits_value_slice:
  "a \<le> b \<Longrightarrow> b \<le> m \<Longrightarrow> (\<And>i. a \<le> i \<Longrightarrow> i < b \<Longrightarrow> f i = of_bool (bit v (m - 1 - i))) \<Longrightarrow>
     bits_value (map f [a..<b]) = take_bit (b - a) (drop_bit (m - b) v)"
proof (induction b)
  case 0
  then show ?case by simp
next
  case (Suc b)
  show ?case
  proof (cases "a = Suc b")
    case True
    then show ?thesis by simp
  next
    case False
    then have ab: "a \<le> b" using Suc.prems(1) by simp
    let ?w = "drop_bit (m - Suc b) v"
    have w: "drop_bit (m - b) v = ?w div 2"
      using Suc.prems(2) by (simp add: Suc_diff_Suc flip: drop_bit_Suc drop_bit_half)
    have "bits_value (map f [a..<b]) = take_bit (b - a) (?w div 2)"
      using Suc.IH[OF ab] Suc.prems(2,3) by (simp add: w)
    moreover have "f b = of_bool (odd ?w)"
      using Suc.prems(3)[of b] ab by (simp add: bit_iff_odd_drop_bit)
    ultimately show ?thesis
      using ab by (simp add: Suc_diff_le take_bit_Suc mod_2_eq_odd)
  qed
qed

text \<open>Reading a field of \<open>w\<close> bits at position \<open>a\<close> of the packed number.\<close>

lemma bits_value_be_bytes:
  "a \<le> b \<Longrightarrow> b \<le> 8 * n \<Longrightarrow>
     bits_value (map (get_bit (be_bytes n v)) [a..<b]) = take_bit (b - a) (drop_bit (8 * n - b) v)"
  by (rule bits_value_slice) (simp_all add: get_bit_be_bytes)

text \<open>Fields appended below one another with shift and or.\<close>

lemma drop_field: "drop_bit k (push_bit k a OR take_bit k b) = (a :: nat)"
  by (rule bit_eqI) (simp only: bit_or_iff bit_push_bit_iff_nat bit_drop_bit_eq comp_def bit_take_bit_iff, simp)

lemma take_field: "take_bit k (push_bit k a OR take_bit k b) = take_bit k (b :: nat)"
  by (rule bit_eqI) (auto simp only: bit_or_iff bit_push_bit_iff_nat bit_take_bit_iff)

lemma drop_push: "m \<le> n \<Longrightarrow> drop_bit n (push_bit m a) = drop_bit (n - m) (a :: nat)"
  by (rule bit_eqI) (simp only: bit_push_bit_iff_nat bit_drop_bit_eq comp_def, simp)

lemma drop_drop: "m \<le> n \<Longrightarrow> drop_bit n a = drop_bit (n - m) (drop_bit m (a :: nat))"
  by (simp add: drop_bit_drop_bit)

lemma drop_fields: "k \<le> n \<Longrightarrow> drop_bit n (push_bit k a OR take_bit k b) = drop_bit (n - k) (a :: nat)"
  by (simp only: drop_drop[of k n] drop_field)

section \<open>Mixed radix numbers\<close>

lemma digit_of: "b < m \<Longrightarrow> (a * m + b) div m = (a :: nat)" "b < m \<Longrightarrow> (a * m + b) mod m = b"
  by simp_all

lemma mixed_radix:
  assumes "c1 < 36" "c2 < 10" "c3 < 27" "c4 < 27" "c5 < (27 :: nat)"
    "v = c0 * 36 * 10 * 27 * 27 * 27 + c1 * 10 * 27 * 27 * 27 + c2 * 27 * 27 * 27 + c3 * 27 * 27 + c4 * 27 + c5"
  shows "v div (36 * 10 * 27 * 27 * 27) = c0" "v div (10 * 27 * 27 * 27) mod 36 = c1"
    "v div (27 * 27 * 27) mod 10 = c2" "v div (27 * 27) mod 27 = c3" "v div 27 mod 27 = c4" "v mod 27 = c5"
proof -
  have v: "v = ((((c0 * 36 + c1) * 10 + c2) * 27 + c3) * 27 + c4) * 27 + c5"
    using assms(6) by (simp add: algebra_simps)
  have d1: "v div 27 = (((c0 * 36 + c1) * 10 + c2) * 27 + c3) * 27 + c4"
    unfolding v by (rule digit_of(1)[OF assms(5)])
  have d2: "v div (27 * 27) = ((c0 * 36 + c1) * 10 + c2) * 27 + c3"
    unfolding div_mult2_eq d1 by (rule digit_of(1)[OF assms(4)])
  have d3: "v div (27 * 27 * 27) = (c0 * 36 + c1) * 10 + c2"
    unfolding div_mult2_eq[of v "27 * 27"] d2 by (rule digit_of(1)[OF assms(3)])
  have d4: "v div (10 * 27 * 27 * 27) = c0 * 36 + c1"
    using div_mult2_eq[of v "27 * 27 * 27" 10] d3 digit_of(1)[OF assms(2)] by (simp add: ac_simps)
  show "v div (36 * 10 * 27 * 27 * 27) = c0"
    using div_mult2_eq[of v "10 * 27 * 27 * 27" 36] d4 digit_of(1)[OF assms(1)] by (simp add: ac_simps)
  show "v div (10 * 27 * 27 * 27) mod 36 = c1" unfolding d4 by (rule digit_of(2)[OF assms(1)])
  show "v div (27 * 27 * 27) mod 10 = c2" unfolding d3 by (rule digit_of(2)[OF assms(2)])
  show "v div (27 * 27) mod 27 = c3" unfolding d2 by (rule digit_of(2)[OF assms(3)])
  show "v div 27 mod 27 = c4" unfolding d1 by (rule digit_of(2)[OF assms(4)])
  show "v mod 27 = c5" unfolding v by (rule digit_of(2)[OF assms(5)])
qed

section \<open>Parity\<close>

definition odd_bits :: "nat \<Rightarrow> 'a::semiring_bit_operations \<Rightarrow> bool" where
  \<comment> \<open>whether an odd number of the low \<open>n\<close> bits is set\<close>
  "odd_bits n x \<longleftrightarrow> odd (\<Sum>i<n. of_bool (bit x i) :: nat)"

lemma odd_sum_xor:
  "odd (\<Sum>i\<in>A. of_bool (p i \<noteq> q i) :: nat) \<longleftrightarrow> odd ((\<Sum>i\<in>A. of_bool (p i) :: nat) + (\<Sum>i\<in>A. of_bool (q i)))"
proof (induction A rule: infinite_finite_induct)
  case (insert x A)
  then show ?case by (cases "p x"; cases "q x") simp_all
qed simp_all

lemma odd_bits_xor: "odd_bits n (x XOR y) \<longleftrightarrow> odd_bits n x \<noteq> odd_bits n y"
  by (simp only: odd_bits_def bit_xor_iff odd_sum_xor even_add) blast

lemma odd_bits_fold: "odd_bits n (x XOR drop_bit n x) \<longleftrightarrow> odd_bits (n + n) x"
proof -
  have "(\<Sum>i<n + n. of_bool (bit x i) :: nat) = (\<Sum>i<n. of_bool (bit x i)) + (\<Sum>i<n. of_bool (bit x (n + i)))"
    using sum.atLeastLessThan_concat[of 0 n "n + n" "\<lambda>i. of_bool (bit x i) :: nat"]
      sum.shift_bounds_nat_ivl[of "\<lambda>i. of_bool (bit x i) :: nat" 0 n n]
    by (simp add: lessThan_atLeast0 add.commute del: sum_of_bool_eq)
  then show ?thesis
    by (simp only: odd_bits_def bit_xor_iff odd_sum_xor bit_drop_bit_eq comp_def even_add)
qed

lemma odd_bits_1: "odd_bits (Suc 0) x \<longleftrightarrow> odd x"
  by (simp add: odd_bits_def bit_0)

lemma odd_bits_0 [simp]: "odd_bits n 0 = False"
  by (simp add: odd_bits_def)

end
