(* ===== verification/TextOps.thy ===== *)
theory TextOps
  imports Prelude "HOL-Library.Char_ord"
begin

text \<open>
  The string operations the message encoders and parsers use: character classes, \<open>trim\<close>,
  \<open>padEnd\<close>, \<open>padStart\<close> and \<open>split(/\s+/)\<close>, with the lemmas about upper-case words without
  white space. Strings are ASCII.
\<close>

section \<open>Character classes\<close>

definition code :: "char \<Rightarrow> nat" where
  \<comment> \<open>\<open>charCodeAt\<close>\<close>
  "code c = of_char c"

definition isDigit :: "char \<Rightarrow> bool" where
  "isDigit c \<longleftrightarrow> code CHR ''0'' \<le> code c \<and> code c \<le> code CHR ''9''"

definition isUpper :: "char \<Rightarrow> bool" where
  "isUpper c \<longleftrightarrow> code CHR ''A'' \<le> code c \<and> code c \<le> code CHR ''Z''"

definition isSpace :: "char \<Rightarrow> bool" where
  \<comment> \<open>the class \<open>\s\<close>, and what \<open>trim\<close> removes\<close>
  "isSpace c \<longleftrightarrow> (9 \<le> code c \<and> code c \<le> 13) \<or> code c = 32"

definition is_alnum :: "char \<Rightarrow> bool" where
  \<comment> \<open>an upper-case letter or a digit\<close>
  "is_alnum c \<longleftrightarrow> isUpper c \<or> isDigit c"

section \<open>Operations\<close>

definition trim :: "string \<Rightarrow> string" where
  "trim s = rev (dropWhile isSpace (rev (dropWhile isSpace s)))"

definition padEnd :: "nat \<Rightarrow> string \<Rightarrow> string" where
  \<comment> \<open>\<open>s.padEnd(n, " ")\<close>\<close>
  "padEnd n s = s @ replicate (n - length s) CHR '' ''"

definition padStart :: "nat \<Rightarrow> char \<Rightarrow> string \<Rightarrow> string" where
  "padStart n c s = replicate (n - length s) c @ s"

function split_ws :: "string \<Rightarrow> string list" where
  \<comment> \<open>\<open>s.split(/\s+/)\<close>\<close>
  "split_ws s =
     (let w = takeWhile (\<lambda>c. \<not> isSpace c) s; r = dropWhile (\<lambda>c. \<not> isSpace c) s
      in if r = [] then [w] else w # split_ws (dropWhile isSpace r))"
  by pat_completeness auto
termination
proof (relation "measure length", goal_cases)
  case (2 s w r)
  from 2(3) obtain x xs where r: "r = x # xs" by (meson list.exhaust)
  then have "isSpace x" using 2(2) by (metis dropWhile_eq_Cons_conv)
  have "length (dropWhile isSpace r) \<le> length xs"
    using r \<open>isSpace x\<close> by (simp add: length_dropWhile_le)
  also have "\<dots> < length r" using r by simp
  also have "\<dots> \<le> length s" using 2(2) by (simp add: length_dropWhile_le)
  finally show ?case by simp
qed simp

declare split_ws.simps [simp del]

definition words_text :: "string list \<Rightarrow> string" where
  \<comment> \<open>words joined by single blanks\<close>
  "words_text ws = concat (case ws of [] \<Rightarrow> [] | w # r \<Rightarrow> w # map (\<lambda>v. CHR '' '' # v) r)"

section \<open>Lemmas\<close>

named_theorems char_simps \<open>character classes, unfolded\<close>

lemmas [char_simps] = isDigit_def isUpper_def isSpace_def is_alnum_def code_def

definition word_ok :: "string \<Rightarrow> bool" where
  \<comment> \<open>a non-empty word without white space and small letters\<close>
  "word_ok w \<longleftrightarrow> w \<noteq> [] \<and> (\<forall>c \<in> set w. \<not> isSpace c \<and> upper_char c = c)"

lemma isSpace_blank [simp]: "isSpace CHR '' ''"
  by (simp add: char_simps)

lemma upper_fixed [simp]: "\<forall>c \<in> set s. upper_char c = c \<Longrightarrow> toUpperCase s = s"
  by (simp add: toUpperCase_def map_idI)

lemma upper_upper [simp]: "upper_char (upper_char c) = upper_char c"
proof -
  have "of_char (char_of (n - 32 :: nat) :: char) = n - 32" if "n < 256" for n :: nat
    using that by (simp add: take_bit_nat_eq_self)
  moreover have "(of_char c :: nat) < 256" by simp
  ultimately show ?thesis
    by (auto simp: upper_char_def Let_def)
qed

lemma upper_twice [simp]: "toUpperCase (toUpperCase s) = toUpperCase s"
  by (simp add: toUpperCase_def)

lemma is_alnum_simps: "is_alnum c \<Longrightarrow> \<not> isSpace c" "is_alnum c \<Longrightarrow> upper_char c = c"
  by (auto simp: char_simps upper_char_def Let_def)

lemma dropWhile_hd: "xs \<noteq> [] \<Longrightarrow> \<not> p (hd xs) \<Longrightarrow> dropWhile p xs = xs"
  by (cases xs) simp_all

lemma trim_fixed: "s \<noteq> [] \<Longrightarrow> \<not> isSpace (hd s) \<Longrightarrow> \<not> isSpace (last s) \<Longrightarrow> trim s = s"
  by (simp add: trim_def dropWhile_hd hd_rev)

lemma dropWhile_hd_not: "dropWhile p xs \<noteq> [] \<Longrightarrow> \<not> p (hd (dropWhile p xs))"
  by (rule hd_dropWhile) (metis dropWhile_eq_Nil_conv)

lemma last_dropWhile_same: "dropWhile p xs \<noteq> [] \<Longrightarrow> last (dropWhile p xs) = last xs"
  by (metis last_appendR takeWhile_dropWhile_id)

lemma trim_idem [simp]: "trim (trim s) = trim s"
proof (cases "trim s = []")
  case True
  show ?thesis unfolding True by (simp add: trim_def)
next
  case False
  let ?a = "dropWhile isSpace s"
  let ?b = "dropWhile isSpace (rev ?a)"
  have b: "?b \<noteq> []" "trim s = rev ?b" using False by (auto simp: trim_def)
  have a: "?a \<noteq> []" using b(1) by (metis dropWhile.simps(1) rev.simps(1))
  have "last (trim s) = hd ?b" "hd (trim s) = last ?b" using b by (simp_all add: last_rev hd_rev)
  moreover have "last ?b = hd ?a" using last_dropWhile_same[OF b(1)] a by (simp add: last_rev)
  ultimately show ?thesis
    using dropWhile_hd_not[OF b(1)] dropWhile_hd_not[OF a] False by (intro trim_fixed) auto
qed

lemma trim_word [simp]: "word_ok w \<Longrightarrow> trim w = w"
  by (rule trim_fixed) (auto simp: word_ok_def)

lemma split_word: "word_ok w \<Longrightarrow> split_ws w = [w]"
  by (subst split_ws.simps) (simp add: word_ok_def)

lemma split_first:
  "word_ok w \<Longrightarrow> r \<noteq> [] \<Longrightarrow> \<not> isSpace (hd r) \<Longrightarrow> split_ws (w @ CHR '' '' # r) = w # split_ws r"
  by (subst split_ws.simps) (simp add: word_ok_def takeWhile_append dropWhile_append dropWhile_hd)

definition three_words :: "string \<Rightarrow> string \<Rightarrow> string \<Rightarrow> string" where
  "three_words a b c = a @ CHR '' '' # b @ CHR '' '' # c"

lemma word_ends: "word_ok w \<Longrightarrow> w \<noteq> [] \<and> \<not> isSpace (hd w) \<and> \<not> isSpace (last w)"
  by (auto simp: word_ok_def)

lemma three_words_split:
  assumes "word_ok a" "word_ok b" "word_ok c"
  shows "split_ws (three_words a b c) = [a, b, c]" "toUpperCase (three_words a b c) = three_words a b c"
    "trim (three_words a b c) = three_words a b c"
proof -
  note e = word_ends[OF assms(1)] word_ends[OF assms(2)] word_ends[OF assms(3)]
  show "split_ws (three_words a b c) = [a, b, c]"
    unfolding three_words_def using e assms by (simp add: split_first split_word)
  have "upper_char CHR '' '' = CHR '' ''" by (simp add: upper_char_def)
  then show "toUpperCase (three_words a b c) = three_words a b c"
    using assms by (intro upper_fixed) (auto simp: three_words_def word_ok_def)
  show "trim (three_words a b c) = three_words a b c"
    using e by (intro trim_fixed) (auto simp: three_words_def)
qed

section \<open>Callsigns in the six-character form\<close>

definition standard_call :: "string \<Rightarrow> bool" where
  \<comment> \<open>the six-character form the protocol has a code for\<close>
  "standard_call c \<longleftrightarrow> length c = 6 \<and> (c ! 0 = CHR '' '' \<or> is_alnum (c ! 0)) \<and> is_alnum (c ! 1) \<and>
     isDigit (c ! 2) \<and> (\<forall>i \<in> {3, 4, 5}. c ! i = CHR '' '' \<or> isUpper (c ! i))"

lemma standard_nth: "standard_call c \<Longrightarrow> c = [c ! 0, c ! 1, c ! 2, c ! 3, c ! 4, c ! 5]"
  by (rule nth_equalityI) (auto simp: standard_call_def nth_Cons' numeral_eq_Suc less_Suc_eq)

lemma char_of_code [simp]: "char_of (code c) = c"
  by (simp add: code_def)

end
