(* ===== verification/WsprCodec.thy ===== *)
theory WsprCodec
  imports BitStream TextOps
begin

text \<open>
  The WSPR encoder, \<open>src/lib/wspr/wsprCodec.ts\<close>: callsign, grid and power are packed into 50
  bits, run through the rate 1/2 convolutional code, interleaved by bit reversal and merged
  with the synchronisation vector into 162 four-level symbols.

  \<open>wspr_decode\<close> is the specification of what a receiver reads out of the symbols; the main
  theorem is that it recovers the message. The callsigns the encoder mangles silently are
  characterised by \<open>leading_digit_call_truncated\<close>.
\<close>

unbundle bit_operations_syntax

section \<open>Tables and types\<close>

record WsprMessage =
  wspr_callsign :: string
  wspr_grid :: string
  powerDbm :: int

record WsprEncodedResult =
  wspr_symbols :: "nat list"
  wspr_message :: WsprMessage

datatype wspr_error = InvalidPowerLevel int

definition VALID_POWER_LEVELS :: "int list" where
  "VALID_POWER_LEVELS = [0, 3, 7, 10, 13, 17, 20, 23, 27, 30, 33, 37, 40, 43, 47, 50, 53, 57, 60]"

definition CONV_POLY_0 :: "32 word" where "CONV_POLY_0 = 0xf2d05351"
definition CONV_POLY_1 :: "32 word" where "CONV_POLY_1 = 0xe4613c47"

definition WSPR_SYNC_VECTOR :: "nat list" where
  "WSPR_SYNC_VECTOR = [
  1, 1, 0, 0, 0, 0, 0, 0, 1, 0, 0, 0, 1, 1, 1, 0, 0, 0, 1, 0, 0, 1, 0, 1, 1, 1,
  1, 0, 0, 0, 0, 0, 0, 0, 1, 0, 0, 1, 0, 1, 0, 0, 0, 0, 0, 0, 1, 0, 1, 1, 0, 0,
  1, 1, 0, 1, 0, 0, 0, 1, 1, 0, 1, 0, 0, 0, 0, 1, 1, 0, 1, 0, 1, 0, 1, 0, 1, 0,
  0, 1, 0, 0, 1, 0, 1, 1, 0, 0, 0, 1, 1, 0, 1, 0, 1, 0, 0, 0, 1, 0, 0, 0, 0, 0,
  1, 0, 0, 1, 0, 0, 1, 1, 1, 0, 1, 1, 0, 0, 1, 1, 0, 1, 0, 0, 0, 1, 1, 1, 0, 0,
  0, 0, 0, 1, 0, 1, 0, 0, 1, 1, 0, 0, 0, 0, 0, 0, 0, 1, 1, 0, 1, 0, 1, 1, 0, 0,
  0, 1, 1, 0, 0, 0]"

section \<open>Message packing\<close>

definition wsprCharIndex0 :: "char \<Rightarrow> nat" where
  "wsprCharIndex0 ch =
     (if ch = CHR '' '' then 0
      else if isUpper ch then code ch - 64
      else if isDigit ch then code ch - 48 + 27
      else 0)"

definition wsprCharIndex1 :: "char \<Rightarrow> nat" where
  "wsprCharIndex1 ch =
     (if isUpper ch then code ch - 65
      else if isDigit ch then code ch - 48 + 26
      else 0)"

definition wsprDigitIndex :: "char \<Rightarrow> nat" where
  "wsprDigitIndex ch = (if isDigit ch then code ch - 48 else 0)"

definition wsprLetterSpaceIndex :: "char \<Rightarrow> nat" where
  "wsprLetterSpaceIndex ch =
     (if ch = CHR '' '' then 0 else if isUpper ch then code ch - 64 else 0)"

definition normalizeWsprCallsign :: "string \<Rightarrow> string" where
  "normalizeWsprCallsign call =
     (if length call < 1 \<or> 6 < length call then take 6 (padEnd 6 call)
      else if length call = 6 \<and> isDigit (call ! 2) then call
      else (case index_from isDigit call of
          None \<Rightarrow> take 6 (padEnd 6 call)
        | Some digitPos \<Rightarrow>
            if 2 < digitPos then take 6 (padEnd 6 call)
            else take 6 (padEnd 6 (replicate (2 - digitPos) CHR '' '' @ call))))"

definition packWsprCallsign :: "string \<Rightarrow> nat" where
  "packWsprCallsign callsign =
     (let normalized = normalizeWsprCallsign (trim (toUpperCase callsign));
          c0 = wsprCharIndex0 (normalized ! 0);
          c1 = wsprCharIndex1 (normalized ! 1);
          c2 = wsprDigitIndex (normalized ! 2);
          c3 = wsprLetterSpaceIndex (normalized ! 3);
          c4 = wsprLetterSpaceIndex (normalized ! 4);
          c5 = wsprLetterSpaceIndex (normalized ! 5)
      in c0 * 36 * 10 * 27 * 27 * 27 + c1 * 10 * 27 * 27 * 27 + c2 * 27 * 27 * 27
         + c3 * 27 * 27 + c4 * 27 + c5)"

definition packWsprGrid :: "string \<Rightarrow> nat" where
  "packWsprGrid grid =
     (let g = toUpperCase grid in
      if length g < 4 then 0 else
      let lonField = int (code (g ! 0)) - 65;
          latField = int (code (g ! 1)) - 65;
          lonDigit = int (code (g ! 2)) - 48;
          latDigit = int (code (g ! 3)) - 48
      in if lonField < 0 \<or> 17 < lonField then 0
         else if latField < 0 \<or> 17 < latField then 0
         else if lonDigit < 0 \<or> 9 < lonDigit then 0
         else if latDigit < 0 \<or> 9 < latDigit then 0
         else nat ((179 - 10 * lonField - lonDigit) * 180 + (10 * latField + latDigit)))"

definition packWsprMessage :: "WsprMessage \<Rightarrow> buffer" where
  "packWsprMessage m =
     (let bits0 = 0 :: nat;
          bits1 = push_bit 28 bits0 OR (packWsprCallsign (wspr_callsign m) AND 0x0fffffff);
          bits2 = push_bit 15 bits1 OR (packWsprGrid (wspr_grid m) AND 0x7fff);
          bits3 = push_bit 7 bits2 OR nat (powerDbm m AND 0x7f)
      in be_bytes 7 (push_bit 6 bits3))"

section \<open>Convolutional code\<close>

definition parity32 :: "32 word \<Rightarrow> nat" where
  "parity32 x =
     (let v0 = x;
          v1 = v0 XOR drop_bit 16 v0;
          v2 = v1 XOR drop_bit 8 v1;
          v3 = v2 XOR drop_bit 4 v2;
          v4 = v3 XOR drop_bit 2 v3;
          v5 = v4 XOR drop_bit 1 v4
      in unat (v5 AND 1))"

primrec conv_loop :: "buffer \<Rightarrow> nat \<Rightarrow> nat \<Rightarrow> nat \<Rightarrow> 32 word \<Rightarrow> nat list" where
  \<comment> \<open>the loop from index \<open>i\<close> on; the fourth argument counts the iterations left\<close>
  "conv_loop data nbits i 0 shiftReg = []"
| "conv_loop data nbits i (Suc n) shiftReg =
     (let b = (if i < nbits then get_bit data i else 0);
          reg = push_bit 1 shiftReg OR of_nat b
      in parity32 (reg AND CONV_POLY_0) # parity32 (reg AND CONV_POLY_1)
         # conv_loop data nbits (Suc i) n reg)"

definition convolutionalEncode :: "buffer \<Rightarrow> nat \<Rightarrow> nat list" where
  "convolutionalEncode data nbits = conv_loop data nbits 0 (nbits + 31) 0"

section \<open>Interleaving and synchronisation\<close>

definition reverseBits8 :: "nat \<Rightarrow> nat" where
  "reverseBits8 x =
     (let v0 = x AND 0xff;
          v1 = drop_bit 4 (v0 AND 0xf0) OR push_bit 4 (v0 AND 0x0f);
          v2 = drop_bit 2 (v1 AND 0xcc) OR push_bit 2 (v1 AND 0x33)
      in drop_bit 1 (v2 AND 0xaa) OR push_bit 1 (v2 AND 0x55))"

definition interleave_step :: "nat list \<Rightarrow> nat list \<times> nat \<Rightarrow> nat \<Rightarrow> nat list \<times> nat" where
  "interleave_step symbols = (\<lambda>(result, destIdx) i.
     let reversed = reverseBits8 i
     in if reversed < 162 then (result[reversed := symbols ! destIdx], destIdx + 1)
        else (result, destIdx))"

definition interleaveWspr :: "nat list \<Rightarrow> nat list" where
  \<comment> \<open>the new array's holes are zeros here; every position is written\<close>
  "interleaveWspr symbols = fst (foldl (interleave_step symbols) (replicate 162 0, 0) [0..<256])"

definition mergeWsprSync :: "nat list \<Rightarrow> nat list" where
  "mergeWsprSync dataSymbols = map (\<lambda>i. WSPR_SYNC_VECTOR ! i + 2 * dataSymbols ! i) [0..<162]"

section \<open>The encoder\<close>

definition isValidWsprPower :: "int \<Rightarrow> bool" where
  "isValidWsprPower dbm \<longleftrightarrow> dbm \<in> set VALID_POWER_LEVELS"

definition encodeWsprMessage :: "WsprMessage \<Rightarrow> wspr_error + WsprEncodedResult" where
  "encodeWsprMessage m =
     (if \<not> isValidWsprPower (powerDbm m) then Inl (InvalidPowerLevel (powerDbm m))
      else
        let packed = packWsprMessage m;
            convolved = convolutionalEncode packed 50;
            interleaved = interleaveWspr convolved
        in Inr \<lparr>wspr_symbols = mergeWsprSync interleaved, wspr_message = m\<rparr>)"

section \<open>Specification: reading the symbols back\<close>

definition interleave_order :: "nat list" where
  "interleave_order = filter (\<lambda>r. r < 162) (map reverseBits8 [0..<256])"

fun conv_decode :: "nat list \<Rightarrow> 32 word \<Rightarrow> nat list" where
  \<comment> \<open>both generators have their lowest coefficient set: the first of two symbols is the
    data bit plus a parity of the bits before it\<close>
  "conv_decode (p # q # ps) shiftReg =
     (let b = (p + parity32 (push_bit 1 shiftReg AND CONV_POLY_0)) mod 2
      in b # conv_decode ps (push_bit 1 shiftReg OR of_nat b))"
| "conv_decode _ shiftReg = []"

definition wspr_bits :: "nat list \<Rightarrow> nat list" where
  "wspr_bits symbols = conv_decode (map (\<lambda>r. symbols ! r div 2) interleave_order) 0"

definition letter_or_space :: "nat \<Rightarrow> char" where
  "letter_or_space v = (if v = 0 then CHR '' '' else char_of (v + 64))"

definition unpack_call :: "nat \<Rightarrow> string" where
  "unpack_call v =
     (let c0 = v div (36 * 10 * 27 * 27 * 27); c1 = v div (10 * 27 * 27 * 27) mod 36;
          c2 = v div (27 * 27 * 27) mod 10
      in [if c0 = 0 then CHR '' '' else if c0 \<le> 26 then char_of (c0 + 64) else char_of (c0 + 21),
          if c1 \<le> 25 then char_of (c1 + 65) else char_of (c1 + 22),
          char_of (c2 + 48),
          letter_or_space (v div (27 * 27) mod 27), letter_or_space (v div 27 mod 27),
          letter_or_space (v mod 27)])"

definition unpack_grid :: "nat \<Rightarrow> string" where
  "unpack_grid v =
     (let lon = 179 - v div 180; lat = v mod 180
      in [char_of (lon div 10 + 65), char_of (lat div 10 + 65), char_of (lon mod 10 + 48),
          char_of (lat mod 10 + 48)])"

definition wspr_decode :: "nat list \<Rightarrow> string \<times> string \<times> nat" where
  "wspr_decode symbols =
     (let bs = wspr_bits symbols
      in (unpack_call (bits_value (take 28 bs)), unpack_grid (bits_value (take 15 (drop 28 bs))),
          bits_value (take 7 (drop 43 bs))))"

definition grid_square :: "string \<Rightarrow> bool" where
  "grid_square g \<longleftrightarrow> length g = 4 \<and> code CHR ''A'' \<le> code (g ! 0) \<and> code (g ! 0) \<le> code CHR ''R'' \<and>
     code CHR ''A'' \<le> code (g ! 1) \<and> code (g ! 1) \<le> code CHR ''R'' \<and> isDigit (g ! 2) \<and> isDigit (g ! 3)"

section \<open>The convolutional code\<close>

lemma parity32_eq: "parity32 x = of_bool (odd_bits 32 x)"
proof -
  have f: "odd_bits 32 y = odd_bits 16 (y XOR drop_bit 16 y)" "odd_bits 16 y = odd_bits 8 (y XOR drop_bit 8 y)"
    "odd_bits 8 y = odd_bits 4 (y XOR drop_bit 4 y)" "odd_bits 4 y = odd_bits 2 (y XOR drop_bit 2 y)"
    "odd_bits 2 y = odd_bits (Suc 0) (y XOR drop_bit 1 y)" for y :: "32 word"
    using odd_bits_fold[of 16 y] odd_bits_fold[of 8 y] odd_bits_fold[of 4 y] odd_bits_fold[of 2 y]
      odd_bits_fold[of "Suc 0" y] by (simp, simp, simp, simp, simp add: numeral_2_eq_2)
  have o: "unat (y AND 1) = of_bool (odd y)" for y :: "32 word"
    by (simp add: and_one_eq mod_2_eq_odd)
  show ?thesis
    unfolding parity32_def Let_def o f odd_bits_1 by (rule refl)
qed

lemma parity32_xor: "parity32 (x XOR y) = (parity32 x + parity32 y) mod 2"
  by (auto simp: parity32_eq odd_bits_xor)

lemma parity32_less: "parity32 x < 2"
  by (simp add: parity32_eq)

lemma reg_parity:
  "b < 2 \<Longrightarrow> parity32 ((push_bit 1 reg OR of_nat b) AND CONV_POLY_0)
     = (b + parity32 (push_bit 1 reg AND CONV_POLY_0)) mod 2"
proof -
  assume b: "b < 2"
  have "push_bit 1 reg OR of_nat b = push_bit 1 reg XOR (of_nat b :: 32 word)"
  proof (rule bit_eqI)
    fix n
    show "bit (push_bit 1 reg OR of_nat b) n \<longleftrightarrow> bit (push_bit 1 reg XOR (of_nat b :: 32 word)) n"
      using b unfolding less_2_cases_iff bit_or_iff bit_xor_iff bit_push_bit_iff
      by (cases n) (auto simp: bit_1_iff)
  qed
  moreover have "of_nat b AND CONV_POLY_0 = of_nat b"
    using b by (auto simp: less_2_cases_iff CONV_POLY_0_def)
  moreover have "parity32 (of_nat b) = b"
    using b by (auto simp: less_2_cases_iff parity32_def)
  ultimately show ?thesis
    by (simp add: bit.conj_xor_distrib2 parity32_xor add.commute)
qed

lemma conv_decode_loop:
  "conv_decode (conv_loop data nbits i n reg) reg =
     map (\<lambda>j. if j < nbits then get_bit data j else 0) [i..<i + n]"
proof (induction n arbitrary: i reg)
  case 0
  then show ?case by simp
next
  case (Suc n)
  define b where "b = (if i < nbits then get_bit data i else 0)"
  have b: "b < 2" by (simp add: b_def get_bit_less)
  have m: "(((b + k) mod 2 + k) mod 2) = b" if "k < 2" for k :: nat
    using b that by (auto simp: less_2_cases_iff)
  show ?case
    using Suc.IH[of "Suc i"] reg_parity[OF b, of reg] m[OF parity32_less]
    by (simp add: b_def[symmetric] Let_def upt_conv_Cons del: upt_Suc)
qed

lemma length_conv_loop [simp]: "length (conv_loop data nbits i n reg) = 2 * n"
  by (induction n arbitrary: i reg) (simp_all add: Let_def)

lemma conv_loop_bits: "b \<in> set (conv_loop data nbits i n reg) \<Longrightarrow> b < 2"
  by (induction n arbitrary: i reg) (auto simp: Let_def parity32_less)

section \<open>Interleaving\<close>

lemma reverse_bit: "bit (reverseBits8 x) n \<longleftrightarrow> n < 8 \<and> bit x (7 - n)"
proof (cases "n < 8")
  case True
  then have "n \<in> {0, 1, 2, 3, 4, 5, 6, 7}" by auto
  then show ?thesis
    unfolding reverseBits8_def Let_def bit_or_iff bit_push_bit_iff_nat bit_drop_bit_eq comp_def bit_and_iff
    by (elim insertE emptyE) (simp_all add: bit_0)
next
  case False
  then have "(2 :: nat) ^ 8 \<le> 2 ^ Suc n" "(2 :: nat) ^ 7 \<le> 2 ^ (n - Suc 0)"
    by (intro power_increasing; simp)+
  then have "\<not> bit (170 :: nat) (Suc n)" "\<not> bit (85 :: nat) (n - Suc 0)" by (simp_all add: bit_iff_odd del: power_Suc)
  with False show ?thesis
    unfolding reverseBits8_def Let_def bit_or_iff bit_push_bit_iff_nat bit_drop_bit_eq comp_def bit_and_iff
    by simp
qed

lemma reverse_less: "reverseBits8 x < 256"
proof -
  have "take_bit 8 (reverseBits8 x) = reverseBits8 x"
    by (rule bit_eqI) (simp add: bit_take_bit_iff reverse_bit)
  then show ?thesis using take_bit_nat_less_exp[of 8 "reverseBits8 x"] by simp
qed

lemma reverse_involutive: "x < 256 \<Longrightarrow> reverseBits8 (reverseBits8 x) = x"
proof -
  assume "x < 256"
  then have x: "take_bit 8 x = x" by (simp add: take_bit_nat_eq_self)
  have lt: "bit x n \<Longrightarrow> n < 8" for n
    using x by (metis bit_take_bit_iff)
  show ?thesis
  proof (rule bit_eqI)
    fix n
    have "n < 8 \<Longrightarrow> 7 - (7 - n) = (n :: nat) \<and> 7 - n < 8" by simp
    then show "bit (reverseBits8 (reverseBits8 x)) n \<longleftrightarrow> bit x n"
      using lt[of n] by (cases "n < 8") (auto simp: reverse_bit)
  qed
qed

lemma reverse_permutes: "distinct (map reverseBits8 [0..<256])" "set (map reverseBits8 [0..<256]) = {..<256}"
proof -
  have i: "inj_on reverseBits8 {..<256}"
    using reverse_involutive by (intro inj_onI) (metis lessThan_iff)
  show "distinct (map reverseBits8 [0..<256])"
    using i by (simp add: distinct_map atLeast0LessThan)
  have "reverseBits8 ` {..<256} = {..<256}"
    using i reverse_less by (intro card_subset_eq) (auto simp: card_image)
  then show "set (map reverseBits8 [0..<256]) = {..<256}"
    by (simp only: set_map set_upt atLeast0LessThan)
qed

lemma interleave_order_facts:
  "length interleave_order = 162" "distinct interleave_order" "\<forall>r \<in> set interleave_order. r < 162"
proof -
  show d: "distinct interleave_order"
    using reverse_permutes(1) unfolding interleave_order_def by (rule distinct_filter)
  have "set interleave_order = {..<162}"
    using reverse_permutes(2) unfolding interleave_order_def by auto
  then show "length interleave_order = 162" "\<forall>r \<in> set interleave_order. r < 162"
    using distinct_card[OF d] by simp_all
qed
lemma interleave_writes:
  assumes "distinct (filter (\<lambda>r. r < 162) (map reverseBits8 is))" "length r = 162"
    "foldl (interleave_step s) (r, d) is = (r', d')" "ps = filter (\<lambda>r. r < 162) (map reverseBits8 is)"
  shows "length r' = 162 \<and> (\<forall>k < length ps. r' ! (ps ! k) = s ! (d + k)) \<and> (\<forall>p. p \<notin> set ps \<longrightarrow> r' ! p = r ! p)"
  using assms
proof (induction "is" arbitrary: r d ps)
  case Nil
  then show ?case by simp
next
  case (Cons i js)
  show ?case
  proof (cases "reverseBits8 i < 162")
    case True
    let ?p = "reverseBits8 i" and ?qs = "filter (\<lambda>r. r < 162) (map reverseBits8 js)"
    have f: "foldl (interleave_step s) (r[?p := s ! d], d + 1) js = (r', d')" and ps: "ps = ?p # ?qs"
      and d: "distinct ?qs" "?p \<notin> set ?qs"
      using Cons.prems True by (simp_all add: interleave_step_def Let_def)
    note IH = Cons.IH[OF d(1) _ f refl]
    have "r' ! (ps ! k) = s ! (d + k)" if "k < length ps" for k
    proof (cases k)
      case 0
      then show ?thesis using IH d(2) True Cons.prems(2) by (simp add: ps)
    next
      case (Suc l)
      then show ?thesis using IH that Cons.prems(2) by (simp add: ps)
    qed
    then show ?thesis using IH Cons.prems(2) by (simp add: ps)
  next
    case False
    then show ?thesis using Cons.prems Cons.IH[of r d ps] by (simp add: interleave_step_def Let_def)
  qed
qed

lemma interleave_read:
  "length (interleaveWspr s) = 162 \<and> (\<forall>k < 162. interleaveWspr s ! (interleave_order ! k) = s ! k)"
proof -
  obtain r' d' where f: "foldl (interleave_step s) (replicate 162 0, 0) [0..<256] = (r', d')"
    by (cases "foldl (interleave_step s) (replicate 162 0, 0) [0..<256]")
  have d: "distinct (filter (\<lambda>r. r < 162) (map reverseBits8 [0..<256]))"
    using interleave_order_facts(2) unfolding interleave_order_def .
  have l: "length (replicate 162 (0 :: nat)) = 162" by simp
  have r: "interleaveWspr s = r'"
    unfolding interleaveWspr_def f by simp
  show ?thesis
    unfolding r using interleave_writes[OF d l f interleave_order_def] interleave_order_facts(1) by simp
qed

lemma deinterleave:
  "length s = 162 \<Longrightarrow> map (\<lambda>r. interleaveWspr s ! r) interleave_order = s"
  by (intro nth_equalityI) (simp_all add: interleave_order_facts(1) interleave_read)

lemma sync_binary: "length WSPR_SYNC_VECTOR = 162" "\<forall>v \<in> set WSPR_SYNC_VECTOR. v < 2"
  by (simp_all add: WSPR_SYNC_VECTOR_def)

lemma sync_nth: "r < 162 \<Longrightarrow> WSPR_SYNC_VECTOR ! r < 2"
  using sync_binary nth_mem by metis

lemma wspr_bits_merge:
  assumes "length s = 162"
  shows "wspr_bits (mergeWsprSync (interleaveWspr s)) = conv_decode s 0"
proof -
  have "mergeWsprSync (interleaveWspr s) ! r div 2 = interleaveWspr s ! r" if "r \<in> set interleave_order" for r
    using sync_nth[of r] that interleave_order_facts(3) by (auto simp: mergeWsprSync_def)
  then have "map (\<lambda>r. mergeWsprSync (interleaveWspr s) ! r div 2) interleave_order
      = map (\<lambda>r. interleaveWspr s ! r) interleave_order" by simp
  then show ?thesis
    by (simp add: wspr_bits_def deinterleave[OF assms])
qed

section \<open>Packing\<close>

lemma char_index_bounds:
  "wsprCharIndex0 c \<le> 36" "wsprCharIndex1 c < 36" "wsprDigitIndex c < 10" "wsprLetterSpaceIndex c < 27"
  by (auto simp: wsprCharIndex0_def wsprCharIndex1_def wsprDigitIndex_def wsprLetterSpaceIndex_def char_simps)

lemma char_index_inverse:
  "c = CHR '' '' \<or> is_alnum c \<Longrightarrow>
     (let v = wsprCharIndex0 c in if v = 0 then CHR '' '' else if v \<le> 26 then char_of (v + 64) else char_of (v + 21)) = c"
  "is_alnum c \<Longrightarrow> (let v = wsprCharIndex1 c in if v \<le> 25 then char_of (v + 65) else char_of (v + 22)) = c"
  "isDigit c \<Longrightarrow> char_of (wsprDigitIndex c + 48) = c"
  "c = CHR '' '' \<or> isUpper c \<Longrightarrow> letter_or_space (wsprLetterSpaceIndex c) = c"
proof -
  note d = wsprCharIndex0_def wsprCharIndex1_def wsprDigitIndex_def wsprLetterSpaceIndex_def letter_or_space_def
  have u: "isUpper c \<Longrightarrow> 65 \<le> code c \<and> code c \<le> 90 \<and> c \<noteq> CHR '' ''"
    and n: "isDigit c \<Longrightarrow> 48 \<le> code c \<and> code c \<le> 57 \<and> c \<noteq> CHR '' '' \<and> \<not> isUpper c" for c
    by (auto simp: char_simps)
  show "c = CHR '' '' \<or> is_alnum c \<Longrightarrow>
     (let v = wsprCharIndex0 c in if v = 0 then CHR '' '' else if v \<le> 26 then char_of (v + 64) else char_of (v + 21)) = c"
    using u[of c] n[of c] by (auto simp: d is_alnum_def Let_def)
  show "is_alnum c \<Longrightarrow> (let v = wsprCharIndex1 c in if v \<le> 25 then char_of (v + 65) else char_of (v + 22)) = c"
    using u[of c] n[of c] by (auto simp: d is_alnum_def Let_def)
  show "isDigit c \<Longrightarrow> char_of (wsprDigitIndex c + 48) = c"
    using n[of c] by (auto simp: d)
  show "c = CHR '' '' \<or> isUpper c \<Longrightarrow> letter_or_space (wsprLetterSpaceIndex c) = c"
    using u[of c] by (auto simp: d)
qed

lemma packWsprCallsign_bound: "packWsprCallsign c < 2 ^ 28"
proof -
  define n where "n = normalizeWsprCallsign (trim (toUpperCase c))"
  note b = char_index_bounds(1)[of "n ! 0"] char_index_bounds(2)[of "n ! 1"] char_index_bounds(3)[of "n ! 2"]
    char_index_bounds(4)[of "n ! 3"] char_index_bounds(4)[of "n ! 4"] char_index_bounds(4)[of "n ! 5"]
  show ?thesis
    unfolding packWsprCallsign_def Let_def n_def[symmetric] using b by simp
qed

lemma unpack_packed_call:
  assumes "standard_call n" "n = normalizeWsprCallsign (trim (toUpperCase c))"
  shows "unpack_call (packWsprCallsign c) = n"
proof -
  note r = mixed_radix[OF char_index_bounds(2,3,4,4,4), where v = "packWsprCallsign c",
      unfolded packWsprCallsign_def Let_def, OF refl, folded assms(2)]
  have s: "n ! 0 = CHR '' '' \<or> is_alnum (n ! 0)" "is_alnum (n ! 1)" "isDigit (n ! 2)"
    "n ! 3 = CHR '' '' \<or> isUpper (n ! 3)" "n ! 4 = CHR '' '' \<or> isUpper (n ! 4)" "n ! 5 = CHR '' '' \<or> isUpper (n ! 5)"
    using assms(1) unfolding standard_call_def by auto
  show ?thesis
    using char_index_inverse(1)[OF s(1)] char_index_inverse(2)[OF s(2)] char_index_inverse(3)[OF s(3)]
      char_index_inverse(4)[OF s(4)] char_index_inverse(4)[OF s(5)] char_index_inverse(4)[OF s(6)]
    unfolding unpack_call_def packWsprCallsign_def Let_def assms(2)[symmetric] r
    by (subst standard_nth[OF assms(1)]) simp
qed

lemma unpack_packed_grid:
  assumes "grid_square (toUpperCase g)"
  shows "unpack_grid (packWsprGrid g) = toUpperCase g" "packWsprGrid g < 2 ^ 15"
proof -
  let ?u = "toUpperCase g"
  have l: "length ?u = 4" and b: "65 \<le> code (?u ! 0)" "code (?u ! 0) \<le> 82" "65 \<le> code (?u ! 1)"
    "code (?u ! 1) \<le> 82" "48 \<le> code (?u ! 2)" "code (?u ! 2) \<le> 57" "48 \<le> code (?u ! 3)" "code (?u ! 3) \<le> 57"
    using assms by (auto simp: grid_square_def isDigit_def, auto simp: code_def)
  define a0 a1 a2 a3 where d: "a0 = code (?u ! 0) - 65" "a1 = code (?u ! 1) - 65" "a2 = code (?u ! 2) - 48"
    "a3 = code (?u ! 3) - 48"
  have a: "code (?u ! 0) = a0 + 65" "code (?u ! 1) = a1 + 65" "code (?u ! 2) = a2 + 48"
      "code (?u ! 3) = a3 + 48" "a0 \<le> 17" "a1 \<le> 17" "a2 \<le> 9" "a3 \<le> 9"
    using b unfolding d by linarith+
  have p: "packWsprGrid g = (179 - (a0 * 10 + a2)) * 180 + (a1 * 10 + a3)"
    using l a unfolding packWsprGrid_def Let_def by (simp add: nat_diff_distrib' nat_mult_distrib nat_add_distrib)
  show "packWsprGrid g < 2 ^ 15" unfolding p using a by simp
  have lat: "a1 * 10 + a3 < 180" and lon: "179 - (179 - (a0 * 10 + a2)) = a0 * 10 + a2" using a by simp_all
  have "a2 < 10" "a3 < 10" using a by simp_all
  then have "unpack_grid (packWsprGrid g) = map char_of [a0 + 65, a1 + 65, a2 + 48, a3 + 48]"
    unfolding unpack_grid_def p digit_of[OF lat] Let_def lon by simp
  also have "\<dots> = map (\<lambda>i. ?u ! i) [0, 1, 2, 3]"
    unfolding a(1-4)[symmetric] list.map by (simp only: a(1-4)[symmetric] char_of_code)
  also have "\<dots> = ?u"
    by (rule nth_equalityI) (auto simp: l nth_Cons' numeral_eq_Suc less_Suc_eq)
  finally show "unpack_grid (packWsprGrid g) = ?u" .
qed

lemma fields50:
  assumes "b1 = push_bit 28 (0 :: nat) OR take_bit 28 c" "b2 = push_bit 15 b1 OR take_bit 15 g"
    "b3 = push_bit 7 b2 OR take_bit 7 p"
  shows "take_bit 28 (drop_bit 28 (push_bit 6 b3)) = take_bit 28 c"
    "take_bit 15 (drop_bit 13 (push_bit 6 b3)) = take_bit 15 g"
    "take_bit 7 (drop_bit 6 (push_bit 6 b3)) = take_bit 7 p"
proof -
  have "drop_bit 22 b3 = drop_bit 15 b2" unfolding assms(3) by (subst drop_fields) simp_all
  also have "\<dots> = b1" unfolding assms(2) by (rule drop_field)
  finally show "take_bit 28 (drop_bit 28 (push_bit 6 b3)) = take_bit 28 c"
    unfolding drop_push[of 6 28, simplified] by (simp add: assms(1))
  have "drop_bit 7 b3 = b2" unfolding assms(3) by (rule drop_field)
  then show "take_bit 15 (drop_bit 13 (push_bit 6 b3)) = take_bit 15 g"
    unfolding drop_push[of 6 13, simplified] by (simp only: assms(2) take_field)
  show "take_bit 7 (drop_bit 6 (push_bit 6 b3)) = take_bit 7 p"
    unfolding drop_push[of 6 6, simplified] by (simp only: drop_bit_0 id_apply assms(3) take_field)
qed

lemma wspr_payload:
  assumes "bs = conv_decode (convolutionalEncode (packWsprMessage m) 50) 0" "0 \<le> powerDbm m" "powerDbm m < 128"
    "packWsprGrid (wspr_grid m) < 2 ^ 15"
  shows "bits_value (take 28 bs) = packWsprCallsign (wspr_callsign m)"
    "bits_value (take 15 (drop 28 bs)) = packWsprGrid (wspr_grid m)"
    "bits_value (take 7 (drop 43 bs)) = nat (powerDbm m)"
proof -
  let ?d = "packWsprMessage m"
  have bs: "bs = map (\<lambda>j. if j < 50 then get_bit ?d j else 0) [0..<81]"
    unfolding assms(1) convolutionalEncode_def by (simp add: conv_decode_loop)
  have p: "nat (powerDbm m AND 0x7f) = take_bit 7 (nat (powerDbm m))"
    using assms(2,3) take_bit_eq_mask[of 7 "powerDbm m"] take_bit_int_eq_self[of "powerDbm m" 7]
    by (simp add: mask_eq_exp_minus_1 take_bit_nat_eq_self)
  have m: "a \<le> 50 \<Longrightarrow> a + k \<le> 50 \<Longrightarrow> take k (drop a bs) = map (get_bit ?d) [a..<a + k]" for a k
    unfolding bs by (simp add: drop_map take_map take_upt cong: map_cong)
  define b1 where "b1 = push_bit 28 (0 :: nat) OR take_bit 28 (packWsprCallsign (wspr_callsign m))"
  define b2 where "b2 = push_bit 15 b1 OR take_bit 15 (packWsprGrid (wspr_grid m))"
  define b3 where "b3 = push_bit 7 b2 OR take_bit 7 (nat (powerDbm m))"
  have d: "?d = be_bytes 7 (push_bit 6 b3)"
    unfolding packWsprMessage_def Let_def p and_masks b1_def b2_def b3_def by (rule refl)
  note f = fields50[OF b1_def b2_def b3_def]
  show "bits_value (take 28 bs) = packWsprCallsign (wspr_callsign m)"
    using m[of 0 28] bits_value_be_bytes[of 0 28 7 "push_bit 6 b3"] f(1) packWsprCallsign_bound
    by (simp add: d take_bit_nat_eq_self)
  show "bits_value (take 15 (drop 28 bs)) = packWsprGrid (wspr_grid m)"
    using m[of 28 15] bits_value_be_bytes[of 28 43 7 "push_bit 6 b3"] f(2) assms(4)
    by (simp add: d take_bit_nat_eq_self)
  show "bits_value (take 7 (drop 43 bs)) = nat (powerDbm m)"
    using m[of 43 7] bits_value_be_bytes[of 43 50 7 "push_bit 6 b3"] f(3) assms(2,3)
    by (simp add: d take_bit_nat_eq_self)
qed

lemma power_range: "isValidWsprPower d \<Longrightarrow> 0 \<le> d \<and> d \<le> 60"
  by (auto simp: isValidWsprPower_def VALID_POWER_LEVELS_def)

lemma length_convolved [simp]: "length (convolutionalEncode data 50) = 162"
  by (simp add: convolutionalEncode_def)

section \<open>Properties\<close>

text \<open>
  C9: The WSPR encoder loses nothing: for a callsign whose normalised form is a standard call, a
  grid square and a valid power, the encoder succeeds and a receiver that strips the
  synchronisation vector, undoes the interleaving and runs the convolutional code backwards
  reads the normalised callsign, the grid square and the power.
\<close>

theorem wspr_message_recovered:
  assumes "standard_call (normalizeWsprCallsign (trim (toUpperCase call)))"
    "grid_square (toUpperCase grid)" "isValidWsprPower dbm"
  shows "\<exists>r. encodeWsprMessage \<lparr>wspr_callsign = call, wspr_grid = grid, powerDbm = dbm\<rparr> = Inr r \<and>
    wspr_decode (wspr_symbols r) =
      (normalizeWsprCallsign (trim (toUpperCase call)), toUpperCase grid, nat dbm)"
proof -
  let ?m = "\<lparr>wspr_callsign = call, wspr_grid = grid, powerDbm = dbm\<rparr>"
  have b: "wspr_bits (mergeWsprSync (interleaveWspr (convolutionalEncode (packWsprMessage ?m) 50)))
      = conv_decode (convolutionalEncode (packWsprMessage ?m) 50) 0"
    by (rule wspr_bits_merge) simp
  have "packWsprGrid grid < 2 ^ 15" "dbm < 128" "0 \<le> dbm"
    using unpack_packed_grid(2)[OF assms(2)] power_range[OF assms(3)] by simp_all
  then show ?thesis
    using wspr_payload[OF refl, of ?m] assms(3) unpack_packed_grid(1)[OF assms(2)]
      unpack_packed_call[OF assms(1) refl]
    by (simp add: encodeWsprMessage_def wspr_decode_def b Let_def)
qed

theorem wspr_message_recovered_witness:
  "\<exists>r. encodeWsprMessage \<lparr>wspr_callsign = ''k1abc'', wspr_grid = ''FN42'', powerDbm = 37\<rparr> = Inr r \<and>
    wspr_decode (wspr_symbols r) = ('' K1ABC'', ''FN42'', 37)"
proof -
  have "normalizeWsprCallsign (trim (toUpperCase ''k1abc'')) = '' K1ABC''" "toUpperCase ''FN42'' = ''FN42''"
    "standard_call '' K1ABC''" "grid_square ''FN42''"
    by code_simp+
  then show ?thesis
    using wspr_message_recovered[of "''k1abc''" "''FN42''" 37]
    by (simp add: isValidWsprPower_def VALID_POWER_LEVELS_def)
qed

text \<open>
  Every message, whatever its callsign and grid, is either refused for its power level or
  gives exactly 162 symbols from 0 to 3 whose parities are the synchronisation vector.
\<close>

theorem wspr_symbols_wellformed:
  "case encodeWsprMessage m of
     Inl e \<Rightarrow> e = InvalidPowerLevel (powerDbm m) \<and> powerDbm m \<notin> set VALID_POWER_LEVELS
   | Inr r \<Rightarrow> powerDbm m \<in> set VALID_POWER_LEVELS \<and> wspr_message r = m \<and>
       set (wspr_symbols r) \<subseteq> {..<4} \<and> map (\<lambda>x. x mod 2) (wspr_symbols r) = WSPR_SYNC_VECTOR"
proof -
  let ?c = "convolutionalEncode (packWsprMessage m) 50"
  have c: "?c ! k < 2" if "k < 162" for k
  proof -
    have "?c ! k \<in> set ?c" using that by (intro nth_mem) simp
    then show ?thesis unfolding convolutionalEncode_def by (rule conv_loop_bits)
  qed
  have "interleaveWspr ?c ! i < 2" if "i < 162" for i
  proof -
    have "set interleave_order = {..<162}"
      using interleave_order_facts distinct_card[of interleave_order]
      by (intro card_subset_eq) auto
    then have "i \<in> set interleave_order" using that by simp
    then obtain k where k: "k < 162" "interleave_order ! k = i"
      unfolding in_set_conv_nth interleave_order_facts(1) by blast
    have "interleaveWspr ?c ! i = ?c ! k"
      using interleave_read[of ?c] k by blast
    then show ?thesis using c[OF k(1)] by simp
  qed
  then have "mergeWsprSync (interleaveWspr ?c) ! i < 4 \<and>
      mergeWsprSync (interleaveWspr ?c) ! i mod 2 = WSPR_SYNC_VECTOR ! i" if "i < 162" for i
    using sync_nth[OF that] that by (force simp: mergeWsprSync_def)
  moreover have "length (mergeWsprSync (interleaveWspr ?c)) = 162" "length WSPR_SYNC_VECTOR = 162"
    by (simp_all add: mergeWsprSync_def) (simp add: WSPR_SYNC_VECTOR_def)
  ultimately have "set (mergeWsprSync (interleaveWspr ?c)) \<subseteq> {..<4}"
    "map (\<lambda>x. x mod 2) (mergeWsprSync (interleaveWspr ?c)) = WSPR_SYNC_VECTOR"
    by (auto simp: in_set_conv_nth list_eq_iff_nth_eq)
  then show ?thesis
    by (auto simp: encodeWsprMessage_def isValidWsprPower_def)
qed

text \<open>
  Callsigns of five characters that start with a digit are mangled without an error: the
  normalisation pads them to the right position by cutting off the last letter, so a call and
  the same call with another last letter pack to the same number. This is what happens to
  9A1AB and 9A1AC.
\<close>

theorem leading_digit_call_truncated:
  assumes "length call = 5" "isDigit (hd call)" "\<forall>c \<in> set call. is_alnum c" "is_alnum x"
  shows "normalizeWsprCallsign call = ''  '' @ butlast call \<and>
    packWsprCallsign call = packWsprCallsign (butlast call @ [x])"
proof -
  have w: "trim (toUpperCase c) = c" if "length c = 5" "\<forall>v \<in> set c. is_alnum v" for c
  proof -
    have "word_ok c" using that is_alnum_simps by (auto simp: word_ok_def)
    moreover from this have "toUpperCase c = c" by (simp add: word_ok_def)
    ultimately show ?thesis by simp
  qed
  have n: "normalizeWsprCallsign (trim (toUpperCase c)) = ''  '' @ butlast c"
    if c: "length c = 5" "isDigit (hd c)" "\<forall>v \<in> set c. is_alnum v" for c
  proof -
    note t = w[OF c(1,3)]
    obtain d r where dr: "c = d # r" using c(1) by (cases c) auto
    have "take 6 (padEnd 6 (''  '' @ c)) = ''  '' @ take 4 c"
      using c(1) by (simp add: padEnd_def)
    then show ?thesis
      using c(1,2) unfolding t by (simp add: normalizeWsprCallsign_def dr butlast_conv_take numeral_eq_Suc)
  qed
  note a = w[OF assms(1,3)]
  have "hd (butlast call @ [x]) = hd call" using assms(1) by (cases call) auto
  then have "normalizeWsprCallsign (trim (toUpperCase (butlast call @ [x]))) = ''  '' @ butlast call"
    using assms by (subst n) (auto dest: in_set_butlastD)
  moreover have "normalizeWsprCallsign (trim (toUpperCase call)) = ''  '' @ butlast call"
    using assms by (intro n)
  ultimately show ?thesis
    unfolding packWsprCallsign_def by (simp add: a)
qed

theorem leading_digit_call_truncated_witness:
  "packWsprCallsign ''9A1AB'' = packWsprCallsign ''9A1AC''"
  using leading_digit_call_truncated[of "''9A1AB''" "CHR ''C''"] by (simp add: char_simps)

end
