(* ===== verification/Ft8Encoder.thy ===== *)
theory Ft8Encoder
  imports Ft8Constants
begin

text \<open>
  The FT8 encoder, \<open>src/lib/ft8/ft8Encoder.ts\<close>: a message text is packed into 77 bits
  (\<open>packMessage77\<close>), extended by a CRC (\<open>appendCrc\<close>) and by the parity bits of the
  LDPC(174,91) code (\<open>ldpcEncode\<close>), mapped to 58 tones (\<open>bitsToSymbols\<close>) and framed by three
  Costas arrays (\<open>insertCostasAndMerge\<close>). The fields of a packed message that the code
  computes as JavaScript numbers are integers (a callsign that cannot be packed gives -1);
  bits, CRCs and tones are natural numbers.
\<close>

unbundle bit_operations_syntax

section \<open>Callsigns and directions\<close>

definition table_index :: "string \<Rightarrow> char \<Rightarrow> int" where
  \<comment> \<open>\<open>table.indexOf(ch)\<close>\<close>
  "table_index table ch = (case index_from (\<lambda>c. c = ch) table of None \<Rightarrow> - 1 | Some i \<Rightarrow> int i)"

definition charIndex37 :: "char \<Rightarrow> int" where
  "charIndex37 ch = table_index FT8_CHAR_TABLE_ALPHANUM ch"

definition charIndex36 :: "char \<Rightarrow> int" where
  "charIndex36 ch =
     (if isDigit ch then int (code ch) - 48 else if isUpper ch then int (code ch) - 55 else - 1)"

definition digitIndex :: "char \<Rightarrow> int" where
  "digitIndex ch = (if isDigit ch then int (code ch) - 48 else - 1)"

definition letterSpaceIndex :: "char \<Rightarrow> int" where
  "letterSpaceIndex ch =
     (if ch = CHR '' '' then 0 else if isUpper ch then int (code ch) - 64 else - 1)"

definition normalizeCallsign :: "string \<Rightarrow> string option" where
  "normalizeCallsign call =
     (if length call < 1 \<or> 6 < length call then None
      else if length call = 6 then (if isDigit (call ! 2) then Some call else None)
      else (case index_from isDigit call of
          None \<Rightarrow> None
        | Some digitPos \<Rightarrow>
            if 2 < digitPos then None
            else let result = padEnd 6 (replicate (2 - digitPos) CHR '' '' @ call)
                 in if length result \<noteq> 6 then None
                    else if \<not> isDigit (result ! 2) then None else Some result))"

definition packCallsign28 :: "string \<Rightarrow> int" where
  "packCallsign28 callsign =
     (let call = trim (toUpperCase callsign) in
      if call = ''DE'' then 0
      else if call = ''QRZ'' then 1
      else if call = ''CQ'' then PACKED_CQ
      else (case normalizeCallsign call of
          None \<Rightarrow> - 1
        | Some normalized \<Rightarrow>
            let c0 = charIndex37 (normalized ! 0);
                c1 = charIndex36 (normalized ! 1);
                c2 = digitIndex (normalized ! 2);
                c3 = letterSpaceIndex (normalized ! 3);
                c4 = letterSpaceIndex (normalized ! 4);
                c5 = letterSpaceIndex (normalized ! 5)
            in if c0 < 0 \<or> c1 < 0 \<or> c2 < 0 \<or> c3 < 0 \<or> c4 < 0 \<or> c5 < 0 then - 1
               else NTOKENS + (c0 * 36 * 10 * 27 * 27 * 27 + c1 * 10 * 27 * 27 * 27 + c2 * 27 * 27 * 27
                 + c3 * 27 * 27 + c4 * 27 + c5)))"

definition packCqDirection :: "string \<Rightarrow> int" where
  "packCqDirection direction =
     (let dir = take 4 (trim (toUpperCase direction)) in
      if 1 \<le> length dir \<and> length dir \<le> 3 \<and> (\<forall>c \<in> set dir. isDigit c)
      then 3 + int (digits_value dir)
      else PACKED_CQ_ALPHA_START +
        foldl (\<lambda>value i. value * 27 +
            (if i < length dir \<and> isUpper (dir ! i) then int (code (dir ! i)) - 64 else 0)) 0 [0..<4])"

section \<open>Grid and report\<close>

definition packGrid15 :: "string \<Rightarrow> int" where
  "packGrid15 grid =
     (let g = toUpperCase grid in
      if length g < 4 then 0 else
      let c1 = int (code (g ! 0)) - 65;
          c2 = int (code (g ! 1)) - 65;
          c3 = int (code (g ! 2)) - 48;
          c4 = int (code (g ! 3)) - 48
      in if c1 < 0 \<or> 17 < c1 then 0
         else if c2 < 0 \<or> 17 < c2 then 0
         else if c3 < 0 \<or> 9 < c3 then 0
         else if c4 < 0 \<or> 9 < c4 then 0
         else c1 * 18 * 10 * 10 + c2 * 10 * 10 + c3 * 10 + c4 + 1)"

definition signed_number :: "string \<Rightarrow> int option" where
  \<comment> \<open>\<open>str.match(/^([+-])(\d{1,2})$/)\<close>, read as a number\<close>
  "signed_number str =
     (case str of
        s # ds \<Rightarrow>
          if (s = CHR ''+'' \<or> s = CHR ''-'') \<and> 1 \<le> length ds \<and> length ds \<le> 2 \<and> (\<forall>c \<in> set ds. isDigit c)
          then Some ((if s = CHR ''+'' then 1 else - 1) * int (digits_value ds)) else None
      | [] \<Rightarrow> None)"

definition parseReport :: "string \<Rightarrow> (int \<times> bool) option" where
  "parseReport report =
     (let str0 = toUpperCase report;
          hasR = (str0 \<noteq> [] \<and> hd str0 = CHR ''R'');
          str = (if hasR then tl str0 else str0)
      in case signed_number str of
           None \<Rightarrow> None
         | Some db \<Rightarrow>
             if db < - 30 \<or> 30 < db then None
             else let reportValue = db + 35
                  in if hasR then Some (R_REPORT_BASE + reportValue, True)
                     else Some (REPORT_BASE + reportValue, False))"

definition isCallsign :: "string \<Rightarrow> bool" where
  "isCallsign s \<longleftrightarrow> (\<exists>c \<in> set s. isUpper (upper_char c)) \<and> (\<exists>c \<in> set s. isDigit c) \<and> 3 \<le> length s"

definition in_A_R :: "char \<Rightarrow> bool" where
  "in_A_R c \<longleftrightarrow> code CHR ''A'' \<le> code c \<and> code c \<le> code CHR ''R''"

definition isGridLocator :: "string \<Rightarrow> bool" where
  \<comment> \<open>\<open>/^[A-Ra-r]{2}\d{2}$/\<close>\<close>
  "isGridLocator s \<longleftrightarrow> length s = 4 \<and> in_A_R (upper_char (s ! 0)) \<and> in_A_R (upper_char (s ! 1)) \<and>
     isDigit (s ! 2) \<and> isDigit (s ! 3)"

section \<open>The 77-bit message\<close>

definition bigintToBytes77 :: "nat \<Rightarrow> buffer" where
  "bigintToBytes77 value = be_bytes 10 (push_bit 3 value)"

definition low_bits :: "nat \<Rightarrow> int \<Rightarrow> nat" where
  \<comment> \<open>\<open>BigInt(x & mask)\<close> for the mask of \<open>k\<close> ones\<close>
  "low_bits k x = nat (x AND (2 ^ k - 1))"

definition assembleBits77 :: "int \<Rightarrow> int \<Rightarrow> int \<Rightarrow> int \<Rightarrow> int \<Rightarrow> int \<Rightarrow> int \<Rightarrow> buffer" where
  "assembleBits77 n28a r1a n28b r1b rFlag g15 i3 =
     (let b0 = 0 :: nat;
          b1 = push_bit 28 b0 OR low_bits 28 n28a;
          b2 = push_bit 1 b1 OR low_bits 1 r1a;
          b3 = push_bit 28 b2 OR low_bits 28 n28b;
          b4 = push_bit 1 b3 OR low_bits 1 r1b;
          b5 = push_bit 1 b4 OR low_bits 1 rFlag;
          b6 = push_bit 15 b5 OR low_bits 15 g15;
          b7 = push_bit 3 b6 OR low_bits 3 i3
      in bigintToBytes77 b7)"

definition GRID15_RR73_PACKED :: int where "GRID15_RR73_PACKED = 1"
definition GRID15_RRR_PACKED :: int where "GRID15_RRR_PACKED = 2"
definition GRID15_73_PACKED :: int where "GRID15_73_PACKED = 3"

definition third_field :: "string \<Rightarrow> (int \<times> int) option" where
  \<comment> \<open>grid locator, acknowledgement or report: the g15 field and the R bit\<close>
  "third_field thirdField =
     (if isGridLocator thirdField then Some (packGrid15 thirdField, 0)
      else if thirdField = ''RR73'' then Some (GRID15_RR73_PACKED, 0)
      else if thirdField = ''RRR'' then Some (GRID15_RRR_PACKED, 0)
      else if thirdField = ''73'' then Some (GRID15_73_PACKED, 0)
      else map_option (\<lambda>(v, hasR). (v, if hasR then 1 else 0)) (parseReport thirdField))"

definition tryPackStandard :: "string list \<Rightarrow> buffer option" where
  "tryPackStandard parts =
     (if length parts < 3 then None
      else if parts ! 0 = ''CQ'' then
        let (call1Value, callIdx, gridIdx) =
              (if 4 \<le> length parts \<and> \<not> isCallsign (parts ! 1)
               then (packCqDirection (parts ! 1), 2, 3) else (PACKED_CQ, 1, 2));
            call2Value = packCallsign28 (parts ! callIdx)
        in if call2Value < 0 then None
           else let gridStr = parts ! gridIdx;
                    grid15Value = (if gridStr \<noteq> [] \<and> isGridLocator gridStr then packGrid15 gridStr else 0)
                in Some (assembleBits77 call1Value 0 call2Value 0 0 grid15Value I3_STANDARD)
      else
        let call1Value = packCallsign28 (parts ! 0) in
        if call1Value < 0 then None else
        let call2Value = packCallsign28 (parts ! 1) in
        if call2Value < 0 then None else
        (case third_field (parts ! 2) of
           None \<Rightarrow> None
         | Some (grid15Value, rBit) \<Rightarrow>
             Some (assembleBits77 call1Value 0 call2Value 0 rBit grid15Value I3_STANDARD)))"

definition packFreeText :: "string \<Rightarrow> buffer" where
  "packFreeText message =
     (let text = take 13 (padEnd 13 (toUpperCase message));
          value = foldl (\<lambda>value i.
              let charIdx = table_index FT8_CHAR_TABLE_FULL (text ! i);
                  idx = (if charIdx \<ge> 0 then charIdx else 0)
              in value * 42 + nat idx) 0 [0..<13]
      in bigintToBytes77 (push_bit 6 value))"

definition packMessage77 :: "string \<Rightarrow> buffer" where
  "packMessage77 message =
     (let msg = trim (toUpperCase message) in
      case tryPackStandard (split_ws msg) of
        Some standardResult \<Rightarrow> standardResult
      | None \<Rightarrow> packFreeText msg)"

section \<open>CRC and parity\<close>

definition crc_step :: "nat \<Rightarrow> nat \<Rightarrow> nat" where
  \<comment> \<open>one round of the shift register; the top bit tested is \<open>1 << (FT8_CRC_WIDTH - 1)\<close>\<close>
  "crc_step remainder b =
     (let r1 = push_bit 1 remainder OR b;
          r2 = (if r1 AND push_bit (FT8_CRC_WIDTH - 1) 1 \<noteq> 0 then r1 XOR FT8_CRC_POLYNOMIAL else r1)
      in r2 AND (2 ^ FT8_CRC_WIDTH - 1))"

definition computeCrc14 :: "buffer \<Rightarrow> nat" where
  "computeCrc14 message77 =
     foldl (\<lambda>remainder bitIdx.
         crc_step remainder (if bitIdx < FT8_MESSAGE_BITS then get_bit message77 bitIdx else 0))
       0 [0..<FT8_MESSAGE_BITS + FT8_CRC_WIDTH]"

definition appendCrc :: "buffer \<Rightarrow> buffer" where
  "appendCrc message77 =
     (let crc = computeCrc14 message77;
          bits0 = foldl (\<lambda>bits i. push_bit 8 bits OR unat (byte_at message77 i)) 0 [0..<10];
          bits1 = drop_bit 3 bits0;
          bits2 = push_bit 14 bits1 OR crc;
          shifted = push_bit 5 bits2
      in map (\<lambda>i. of_nat (drop_bit ((11 - i) * 8) shifted AND 255)) [0..<FTX_LDPC_K_BYTES])"

definition parity8 :: "byte \<Rightarrow> nat" where
  "parity8 x =
     (let v0 = x; v1 = v0 XOR drop_bit 4 v0; v2 = v1 XOR drop_bit 2 v1; v3 = v2 XOR drop_bit 1 v2
      in unat (v3 AND 1))"

definition set_bit_at :: "buffer \<Rightarrow> nat \<Rightarrow> buffer" where
  \<comment> \<open>\<open>data[Math.floor(i / 8)] |= 1 << (7 - (i % 8))\<close>\<close>
  "set_bit_at data i = data[i div 8 := (data ! (i div 8)) OR push_bit (7 - i mod 8) 1]"

definition parity_sum :: "buffer \<Rightarrow> nat \<Rightarrow> nat" where
  "parity_sum data91 i =
     foldl (\<lambda>nsum j. nsum XOR parity8 (byte_at data91 j AND FTX_LDPC_GENERATOR ! i ! j)) 0 [0..<FTX_LDPC_K_BYTES]"

definition ldpcEncode :: "buffer \<Rightarrow> buffer" where
  "ldpcEncode data91 =
     (let parity = foldl (\<lambda>p i. if parity_sum data91 i \<noteq> 0 then set_bit_at p i else p)
            (replicate 11 0) [0..<FTX_LDPC_M]
      in foldl (\<lambda>result i.
           let b = (if i < FTX_LDPC_K then get_bit data91 i else get_bit parity (i - FTX_LDPC_K))
           in if b \<noteq> 0 then set_bit_at result i else result)
         (replicate 22 0) [0..<FTX_LDPC_N])"

section \<open>Tones\<close>

definition bitsToSymbols :: "buffer \<Rightarrow> nat list" where
  "bitsToSymbols coded174 =
     map (\<lambda>i. FT8_GRAY_MAP ! foldl (\<lambda>value b. push_bit 1 value OR get_bit coded174 (i * 3 + b)) 0 [0..<3])
       [0..<58]"

definition insertCostasAndMerge :: "nat list \<Rightarrow> nat list" where
  \<comment> \<open>every position of the new array is written\<close>
  "insertCostasAndMerge dataSymbols =
     (let s0 = replicate 79 0;
          s1 = foldl (\<lambda>s i. s[i := FT8_COSTAS ! i, 36 + i := FT8_COSTAS ! i, 72 + i := FT8_COSTAS ! i]) s0 [0..<7];
          s2 = foldl (\<lambda>s i. s[7 + i := dataSymbols ! i]) s1 [0..<29]
      in foldl (\<lambda>s i. s[43 + i := dataSymbols ! (29 + i)]) s2 [0..<29])"

record Ft8EncodedResult =
  ft8_symbols :: "nat list"
  ft8_text :: string

definition encodeFt8Message :: "string \<Rightarrow> Ft8EncodedResult" where
  "encodeFt8Message message =
     (let txt = trim (toUpperCase message);
          message77 = packMessage77 txt;
          data91 = appendCrc message77;
          coded174 = ldpcEncode data91;
          dataSymbols = bitsToSymbols coded174
      in \<lparr>ft8_symbols = insertCostasAndMerge dataSymbols, ft8_text = txt\<rparr>)"

section \<open>Specification: reading the tones back\<close>

definition tone_bits :: "nat \<Rightarrow> nat list" where
  "tone_bits t = (case index_from (\<lambda>x. x = t) FT8_GRAY_MAP of None \<Rightarrow> [] | Some v \<Rightarrow> [v div 4, v div 2 mod 2, v mod 2])"

definition ft8_coded_bits :: "nat list \<Rightarrow> nat list" where
  \<comment> \<open>the 174 bits of the data tones\<close>
  "ft8_coded_bits symbols = concat (map tone_bits (take 29 (drop 7 symbols) @ take 29 (drop 43 symbols)))"

definition letter_of :: "nat \<Rightarrow> char" where
  "letter_of v = (if v = 0 then CHR '' '' else char_of (v + 64))"

record ft8_fields =
  n28a :: nat
  n28b :: nat
  rbit :: nat
  g15 :: nat
  i3 :: nat

definition fields_of_bits :: "nat list \<Rightarrow> ft8_fields" where
  "fields_of_bits bs =
     \<lparr>n28a = bits_value (take 28 bs), n28b = bits_value (take 28 (drop 29 bs)),
      rbit = bits_value (take 1 (drop 58 bs)), g15 = bits_value (take 15 (drop 59 bs)),
      i3 = bits_value (take 3 (drop 74 bs))\<rparr>"

section \<open>Lemmas on bits\<close>

lemma parity8_eq: "parity8 x = of_bool (odd_bits 8 x)"
proof -
  have f: "odd_bits 8 y = odd_bits 4 (y XOR drop_bit 4 y)" "odd_bits 4 y = odd_bits 2 (y XOR drop_bit 2 y)"
    "odd_bits 2 y = odd_bits (Suc 0) (y XOR drop_bit 1 y)" for y :: byte
    using odd_bits_fold[of 4 y] odd_bits_fold[of 2 y] odd_bits_fold[of "Suc 0" y]
    by (simp, simp, simp add: numeral_2_eq_2)
  have o: "unat (y AND 1) = of_bool (odd y)" for y :: byte
    by (simp add: and_one_eq mod_2_eq_odd)
  show ?thesis
    unfolding parity8_def Let_def o f odd_bits_1 by (rule refl)
qed

lemma length_set_bit_at [simp]: "length (set_bit_at d i) = length d"
  by (simp add: set_bit_at_def)

lemma bit_index_eq: "i div 8 = j div 8 \<Longrightarrow> 7 - i mod 8 = 7 - j mod 8 \<longleftrightarrow> i = (j :: nat)"
  using div_mult_mod_eq[of i 8] div_mult_mod_eq[of j 8] mod_less_divisor[of 8 i] mod_less_divisor[of 8 j]
  by (auto, linarith)

lemma get_set_bit:
  assumes "j < 8 * length d"
  shows "get_bit (set_bit_at d i) j = (if i = j then 1 else get_bit d j)"
proof (cases "i div 8 = j div 8")
  case True
  have j: "j div 8 < length d" using assms by linarith
  have m: "7 - j mod 8 < 8" by simp
  show ?thesis
    using j m bit_index_eq[OF True] True
    by (auto simp: get_bit_eq set_bit_at_def byte_at_def bit_or_iff bit_exp_iff)
next
  case False
  then show ?thesis
    by (auto simp: get_bit_eq set_bit_at_def byte_at_def)
qed

definition fill_bits :: "(nat \<Rightarrow> bool) \<Rightarrow> nat \<Rightarrow> buffer \<Rightarrow> buffer" where
  "fill_bits f n d = foldl (\<lambda>r i. if f i then set_bit_at r i else r) d [0..<n]"

lemma length_fill_bits [simp]: "length (fill_bits f n d) = length d"
  unfolding fill_bits_def by (induction n) auto

lemma get_fill_bits:
  "j < 8 * length d \<Longrightarrow> get_bit (fill_bits f n d) j = (if j < n \<and> f j then 1 else get_bit d j)"
proof (induction n)
  case 0
  then show ?case by (simp add: fill_bits_def)
next
  case (Suc n)
  have "fill_bits f (Suc n) d = (if f n then set_bit_at (fill_bits f n d) n else fill_bits f n d)"
    by (simp add: fill_bits_def)
  then show ?case
    using Suc get_set_bit[of j "fill_bits f n d" n] by (auto simp: less_Suc_eq)
qed

lemma get_bit_zeros [simp]: "get_bit (replicate n 0) i = 0"
  by (auto simp: get_bit_eq byte_at_def)

lemma ldpc_bits:
  assumes "i < 174"
  shows "get_bit (ldpcEncode d) i = (if i < 91 then get_bit d i else of_bool (parity_sum d (i - 91) \<noteq> 0))"
proof -
  define par where "par = fill_bits (\<lambda>i. parity_sum d i \<noteq> 0) 83 (replicate 11 0)"
  have l: "ldpcEncode d = fill_bits (\<lambda>i. (if i < 91 then get_bit d i else get_bit par (i - 91)) \<noteq> 0) 174 (replicate 22 0)"
    unfolding ldpcEncode_def Let_def ft8_consts par_def fill_bits_def by (rule refl)
  have "get_bit par (i - 91) = of_bool (parity_sum d (i - 91) \<noteq> 0)" if "91 \<le> i"
    using that assms by (simp add: par_def get_fill_bits)
  then show ?thesis
    using assms get_bit_less[of d i] by (auto simp: l get_fill_bits)
qed

lemma bytes_value_bit:
  "bit (foldl (\<lambda>bits i. push_bit 8 bits OR unat (byte_at m i)) (0 :: nat) [0..<n]) k \<longleftrightarrow>
     k < 8 * n \<and> get_bit m (8 * n - 1 - k) = 1"
proof (induction n arbitrary: k)
  case 0
  then show ?case by simp
next
  case (Suc n)
  show ?case
  proof (cases "k < 8")
    case True
    define l where "l = 7 - k"
    with True have l: "l < 8" "k = 7 - l" "l = 7 - k" by simp_all
    have e: "8 * Suc n - 1 - k = n * 8 + l" using True unfolding l(3) by arith
    have "(8 * Suc n - 1 - k) div 8 = n" "(8 * Suc n - 1 - k) mod 8 = 7 - k"
      unfolding e using l(1,3) by simp_all
    moreover have "7 - (7 - k) = k" using True by simp
    ultimately show ?thesis
      using True by (simp add: get_bit_eq bit_or_iff bit_push_bit_iff_nat bit_unsigned_iff)
  next
    case False
    then have "\<not> bit (unat (byte_at m n)) k" by (auto simp: bit_unsigned_iff dest: bit_imp_le_length)
    moreover have "8 * n - 1 - (k - 8) = 8 * Suc n - 1 - k" using False by simp
    ultimately show ?thesis
      using False Suc.IH[of "k - 8"] by (auto simp: bit_or_iff bit_push_bit_iff_nat)
  qed
qed

section \<open>The CRC\<close>

lemma crc_step_eq:
  "crc_step r b = take_bit 14 (if bit (push_bit 1 r OR b) 13 then (push_bit 1 r OR b) XOR FT8_CRC_POLYNOMIAL
     else push_bit 1 r OR b)"
proof -
  have top: "x AND push_bit (FT8_CRC_WIDTH - 1) 1 = 0 \<longleftrightarrow> \<not> bit x 13" for x :: nat
    using and_exp_eq_0_iff_not_bit[of x 13] by (simp add: FT8_CRC_WIDTH_def push_bit_eq_mult)
  have m: "x AND (2 ^ FT8_CRC_WIDTH - 1) = take_bit 14 (x :: nat)" for x
    by (simp only: FT8_CRC_WIDTH_def and_mask_low)
  show ?thesis
    unfolding crc_step_def Let_def top m not_not by (rule refl)
qed

lemma crc_step_bound: "crc_step r b < 2 ^ 13"
proof -
  have p: "bit FT8_CRC_POLYNOMIAL 13" by (simp add: FT8_CRC_POLYNOMIAL_def bit_0)
  have "\<not> bit (crc_step r b) n" if "13 \<le> n" for n
    using that p unfolding crc_step_eq bit_take_bit_iff by (cases "n = 13") (simp_all add: bit_xor_iff)
  then have "take_bit 13 (crc_step r b) = crc_step r b"
    by (intro bit_eqI) (metis bit_take_bit_iff not_le)
  then show ?thesis using take_bit_nat_less_exp[of 13 "crc_step r b"] by simp
qed

lemma crc_bound: "computeCrc14 m < 2 ^ 13"
proof -
  have "foldl (\<lambda>r i. crc_step r (if i < 77 then get_bit m i else 0)) 0 [0..<Suc n] < 2 ^ 13" for n
    using crc_step_bound by simp
  from this[of 90] show ?thesis
    unfolding computeCrc14_def ft8_consts by (simp del: upt_Suc)
qed

lemma appendCrc_bits:
  assumes "length m = 10" "i < 91"
  shows "get_bit (appendCrc m) i = (if i < 77 then get_bit m i else of_bool (bit (computeCrc14 m) (90 - i)))"
proof -
  define v where "v = foldl (\<lambda>bits i. push_bit 8 bits OR unat (byte_at m i)) (0 :: nat) [0..<10]"
  define b where "b = push_bit 14 (drop_bit 3 v) OR computeCrc14 m"
  have "appendCrc m = map (\<lambda>i. of_nat (drop_bit (8 * (12 - 1 - i)) (push_bit 5 b))) [0..<12]"
    unfolding appendCrc_def Let_def v_def[symmetric] b_def[symmetric] ft8_consts of_nat_and_255 by (simp add: mult.commute)
  also have "\<dots> = be_bytes 12 (push_bit 5 b)"
    using byte_be_bytes[of _ 12 "push_bit 5 b"] by (intro nth_equalityI) (auto simp: byte_at_def)
  finally have a: "get_bit (appendCrc m) i = of_bool (bit (push_bit 5 b) (95 - i))"
    using assms(2) by (simp add: get_bit_be_bytes)
  have c: "\<not> bit (computeCrc14 m) n" if "14 \<le> n" for n
  proof -
    have "take_bit 14 (computeCrc14 m) = computeCrc14 m"
      using crc_bound[of m] by (simp add: take_bit_nat_eq_self)
    then show ?thesis using that by (metis bit_take_bit_iff not_le)
  qed
  have "95 - i - 5 = 90 - i" using assms(2) by simp
  moreover have "i < 77 \<Longrightarrow> 79 - (3 + (90 - i - 14)) = i \<and> 14 \<le> 90 - i \<and> 3 + (90 - i - 14) < 80" by arith
  moreover have "\<not> i < 77 \<Longrightarrow> 90 - i < 14" using assms(2) by simp
  ultimately show ?thesis
    using assms(2) c[of "90 - i"] bytes_value_bit[of m 10 "3 + (90 - i - 14)"] get_bit_less[of m i] unfolding a b_def v_def[symmetric]
    by (auto simp: bit_or_iff bit_push_bit_iff_nat bit_drop_bit_eq less_2_cases_iff)
qed

section \<open>Tones\<close>

lemma write_range:
  "k + n \<le> length s \<Longrightarrow> length (foldl (\<lambda>s i. s[k + i := f i]) s [0..<n]) = length s \<and>
     (\<forall>j < length s. foldl (\<lambda>s i. s[k + i := f i]) s [0..<n] ! j = (if k \<le> j \<and> j < k + n then f (j - k) else s ! j))"
  by (induction n) (auto simp: nth_list_update)

lemma write_three:
  "a + n \<le> b \<Longrightarrow> b + n \<le> c \<Longrightarrow> c + n \<le> length s \<Longrightarrow>
     length (foldl (\<lambda>s i. s[a + i := f i, b + i := f i, c + i := f i]) s [0..<n]) = length s \<and>
     (\<forall>j < length s. foldl (\<lambda>s i. s[a + i := f i, b + i := f i, c + i := f i]) s [0..<n] ! j =
       (if a \<le> j \<and> j < a + n then f (j - a) else if b \<le> j \<and> j < b + n then f (j - b)
        else if c \<le> j \<and> j < c + n then f (j - c) else s ! j))"
  by (induction n) (auto simp: nth_list_update)

lemma costas_layout:
  assumes "length d = 58"
  shows "insertCostasAndMerge d = FT8_COSTAS @ take 29 d @ FT8_COSTAS @ drop 29 d @ FT8_COSTAS"
proof (rule nth_equalityI)
  define s1 where "s1 = foldl (\<lambda>s i. s[i := FT8_COSTAS ! i, 36 + i := FT8_COSTAS ! i, 72 + i := FT8_COSTAS ! i])
      (replicate 79 0) [0..<7]"
  define s2 where "s2 = foldl (\<lambda>s i. s[7 + i := d ! i]) s1 [0..<29]"
  have e: "insertCostasAndMerge d = foldl (\<lambda>s i. s[43 + i := d ! (29 + i)]) s2 [0..<29]"
    unfolding insertCostasAndMerge_def Let_def s1_def s2_def by (rule refl)
  have l1: "length s1 = 79" and n1: "j < 79 \<Longrightarrow> s1 ! j =
      (if j < 7 then FT8_COSTAS ! j else if 36 \<le> j \<and> j < 43 then FT8_COSTAS ! (j - 36)
       else if 72 \<le> j then FT8_COSTAS ! (j - 72) else 0)" for j
    using write_three[of 0 7 36 72 "replicate 79 0" "\<lambda>i. FT8_COSTAS ! i"] by (auto simp: s1_def)
  have l2: "length s2 = 79" and n2: "j < 79 \<Longrightarrow> s2 ! j = (if 7 \<le> j \<and> j < 36 then d ! (j - 7) else s1 ! j)" for j
    using write_range[of 7 29 s1 "\<lambda>i. d ! i"] l1 by (auto simp: s2_def)
  have l3: "length (insertCostasAndMerge d) = 79"
    and n3: "j < 79 \<Longrightarrow> insertCostasAndMerge d ! j = (if 43 \<le> j \<and> j < 72 then d ! (29 + (j - 43)) else s2 ! j)" for j
    using write_range[of 43 29 s2 "\<lambda>i. d ! (29 + i)"] l2 by (auto simp: e)
  show "length (insertCostasAndMerge d) = length (FT8_COSTAS @ take 29 d @ FT8_COSTAS @ drop 29 d @ FT8_COSTAS)"
    using l3 assms costas_tones(1) by simp
  fix j
  assume "j < length (insertCostasAndMerge d)"
  then have "j < 79" by (simp add: l3)
  then show "insertCostasAndMerge d ! j = (FT8_COSTAS @ take 29 d @ FT8_COSTAS @ drop 29 d @ FT8_COSTAS) ! j"
    using assms by (auto simp: n1 n2 n3 nth_append costas_tones(1))
qed

lemma gray_inverse: "v < 8 \<Longrightarrow> tone_bits (FT8_GRAY_MAP ! v) = [v div 4, v div 2 mod 2, v mod 2]"
proof -
  assume "v < 8"
  then have "v \<in> {0, 1, 2, 3, 4, 5, 6, 7}" by auto
  then show ?thesis
    by (elim insertE emptyE) (simp_all add: tone_bits_def FT8_GRAY_MAP_def)
qed

definition tone_value :: "buffer \<Rightarrow> nat \<Rightarrow> nat" where
  "tone_value c i = 4 * get_bit c (3 * i) + 2 * get_bit c (3 * i + 1) + get_bit c (3 * i + 2)"

lemma bitsToSymbols_eq: "bitsToSymbols c = map (\<lambda>i. FT8_GRAY_MAP ! tone_value c i) [0..<58]"
proof -
  have "foldl (\<lambda>value b. push_bit 1 value OR get_bit c (i * 3 + b)) 0 [0..<3] = tone_value c i" for i
  proof -
    have o: "x * 2 OR b = 2 * x + b" if "b < 2" for x b :: nat
      using that by (auto simp: less_2_cases_iff or_Suc_0_eq)
    have "[0..<3] = [0, 1, 2 :: nat]" by (simp add: upt_rec)
    then show ?thesis
      by (simp add: o get_bit_less tone_value_def mult.commute[of i])
  qed
  then show ?thesis by (simp add: bitsToSymbols_def)
qed

lemma tone_value_less: "tone_value c i < 8"
  using get_bit_less[of c "3 * i"] get_bit_less[of c "3 * i + 1"] get_bit_less[of c "3 * i + 2"]
  by (simp add: tone_value_def)

lemma tone_bits_value: "tone_bits (FT8_GRAY_MAP ! tone_value c i) = map (get_bit c) [3 * i..<3 * i + 3]"
proof -
  have "tone_value c i div 4 = get_bit c (3 * i)" "tone_value c i div 2 mod 2 = get_bit c (3 * i + 1)"
    "tone_value c i mod 2 = get_bit c (3 * i + 2)"
    using get_bit_less[of c "3 * i"] get_bit_less[of c "3 * i + 1"] get_bit_less[of c "3 * i + 2"]
    by (auto simp: tone_value_def less_2_cases_iff)
  then show ?thesis
    by (simp add: gray_inverse[OF tone_value_less] upt_rec)
qed

lemma concat_triples: "concat (map (\<lambda>i. map f [3 * i..<3 * i + 3]) [0..<n]) = map f [0..<3 * n]"
proof (induction n)
  case (Suc n)
  have "[0..<3 * Suc n] = [0..<3 * n] @ [3 * n..<3 * n + 3]"
    using upt_add_eq_append[of 0 "3 * n" 3] by (simp add: add.commute)
  with Suc show ?case by simp
qed simp

lemma coded_bits_recovered:
  "ft8_coded_bits (insertCostasAndMerge (bitsToSymbols c)) = map (get_bit c) [0..<174]"
proof -
  let ?d = "bitsToSymbols c"
  have l: "length ?d = 58" by (simp add: bitsToSymbols_def)
  have "take 29 (drop 7 (insertCostasAndMerge ?d)) @ take 29 (drop 43 (insertCostasAndMerge ?d)) = ?d"
    using l costas_tones(1) by (simp add: costas_layout[OF l])
  then have "ft8_coded_bits (insertCostasAndMerge ?d) = concat (map (\<lambda>i. map (get_bit c) [3 * i..<3 * i + 3]) [0..<58])"
    unfolding ft8_coded_bits_def by (simp add: bitsToSymbols_eq comp_def tone_bits_value)
  then show ?thesis by (simp add: concat_triples)
qed

section \<open>Fields\<close>

lemma length_message77 [simp]: "length (packMessage77 m) = 10"
proof -
  have "tryPackStandard ps = Some r \<Longrightarrow> length r = 10" for ps r
    by (auto simp: tryPackStandard_def assembleBits77_def bigintToBytes77_def Let_def
        split: if_splits option.splits prod.splits)
  then show ?thesis
    by (auto simp: packMessage77_def packFreeText_def bigintToBytes77_def Let_def split: option.splits)
qed

lemma payload_bits:
  "take 77 (map (get_bit (ldpcEncode (appendCrc (packMessage77 m)))) [0..<174]) = map (get_bit (packMessage77 m)) [0..<77]"
  by (simp add: take_map take_upt ldpc_bits appendCrc_bits cong: map_cong)

lemma low_bits_eq: "0 \<le> x \<Longrightarrow> low_bits k x = take_bit k (nat x)"
  unfolding low_bits_def by (metis nat_take_bit_eq take_bit_eq_mask mask_eq_exp_minus_1)

lemma low_bits_less: "low_bits k x < 2 ^ k"
  using take_bit_eq_mask[of k x] take_bit_int_less_exp[of k x] take_bit_nonnegative[of k x]
  by (simp add: low_bits_def mask_eq_exp_minus_1 nat_less_iff)

lemma low_bits_take [simp]: "take_bit k (low_bits k x) = low_bits k x"
  by (simp add: take_bit_nat_eq_self low_bits_less)

lemma drop_low: "drop_bit k (push_bit k a OR low_bits k x) = a"
  using drop_field[of k a "low_bits k x"] by (simp only: low_bits_take)

lemma take_low: "take_bit k (push_bit k a OR low_bits k x) = low_bits k x"
  using take_field[of k a "low_bits k x"] by (simp only: low_bits_take)

lemma assembled_fields:
  "fields_of_bits (map (get_bit (assembleBits77 a r1 b r2 r g i)) [0..<77]) =
     \<lparr>n28a = low_bits 28 a, n28b = low_bits 28 b, rbit = low_bits 1 r, g15 = low_bits 15 g, i3 = low_bits 3 i\<rparr>"
proof -
  define b1 where "b1 = push_bit 28 (0 :: nat) OR low_bits 28 a"
  define b2 where "b2 = push_bit 1 b1 OR low_bits 1 r1"
  define b3 where "b3 = push_bit 28 b2 OR low_bits 28 b"
  define b4 where "b4 = push_bit 1 b3 OR low_bits 1 r2"
  define b5 where "b5 = push_bit 1 b4 OR low_bits 1 r"
  define b6 where "b6 = push_bit 15 b5 OR low_bits 15 g"
  define b7 where "b7 = push_bit 3 b6 OR low_bits 3 i"
  have d: "assembleBits77 a r1 b r2 r g i = be_bytes 10 (push_bit 3 b7)"
    unfolding assembleBits77_def bigintToBytes77_def Let_def b7_def b6_def b5_def b4_def b3_def b2_def b1_def
    by (rule refl)
  have s: "drop_bit 3 b7 = b6" "drop_bit 15 b6 = b5" "drop_bit 1 b5 = b4" "drop_bit 1 b4 = b3"
    "drop_bit 28 b3 = b2" "drop_bit 1 b2 = b1"
    by (simp_all only: b7_def b6_def b5_def b4_def b3_def b2_def drop_low)
  have t: "take_bit 3 b7 = low_bits 3 i" "take_bit 15 b6 = low_bits 15 g" "take_bit 1 b5 = low_bits 1 r"
    "take_bit 28 b3 = low_bits 28 b" "take_bit 28 b1 = low_bits 28 a"
    unfolding b7_def b6_def b5_def b3_def b1_def by (rule take_low)+
  have f: "bits_value (map (get_bit (assembleBits77 a r1 b r2 r g i)) [k..<k + w]) = take_bit w (drop_bit (77 - (k + w)) b7)"
    if "k + w \<le> 77" for k w
    using bits_value_be_bytes[of k "k + w" 10 "push_bit 3 b7"] that drop_push[of 3 "80 - (k + w)" b7]
    by (simp add: d)
  have sl: "take w (drop k (map h [0..<77])) = map h [k..<k + w]" if "k + w \<le> 77" for h :: "nat \<Rightarrow> nat" and k w
    using that by (simp add: drop_map take_map take_upt)
  have x2: "drop_bit 18 b7 = b5"
    using drop_drop[of 3 18 b7] by (simp add: s del: drop_bit_drop_bit)
  have x3: "drop_bit 20 b7 = b3"
    using drop_drop[of 18 20 b7] drop_drop[of 1 2 b5] by (simp add: x2 s s[unfolded One_nat_def] del: drop_bit_drop_bit)
  have x4: "drop_bit 49 b7 = b1"
    using drop_drop[of 20 49 b7] drop_drop[of 28 29 b3] by (simp add: x3 s s[unfolded One_nat_def] del: drop_bit_drop_bit)
  note x6 = s(1) x2 x3 x4
  show ?thesis
    using f[of 0 28] f[of 29 28] f[of 58 1] f[of 59 15] f[of 74 3] sl[of 0 28] sl[of 29 28] sl[of 58 1] sl[of 59 15]
      sl[of 74 3] t x6
    by (simp add: fields_of_bits_def)
qed

section \<open>Callsigns\<close>

definition unpack28 :: "nat \<Rightarrow> string" where
  \<comment> \<open>the callsign of a field that is not a special token\<close>
  "unpack28 n =
     (let v = n - 2063592
      in [FT8_CHAR_TABLE_ALPHANUM ! (v div (36 * 10 * 27 * 27 * 27)),
          FT8_CHAR_TABLE_ALPHANUM ! (v div (10 * 27 * 27 * 27) mod 36 + 1),
          char_of (v div (27 * 27 * 27) mod 10 + 48),
          letter_of (v div (27 * 27) mod 27), letter_of (v div 27 mod 27), letter_of (v mod 27)])"

lemma table_index_in:
  assumes "c \<in> set table"
  shows "\<exists>k < length table. table_index table c = int k \<and> table ! k = c"
proof -
  from assms obtain k where "index_from (\<lambda>x. x = c) table = Some k"
    using index_from_None[of "\<lambda>x. x = c" table] by (cases "index_from (\<lambda>x. x = c) table") auto
  moreover from this have "k < length table" "table ! k = c" by (auto simp: index_from_Some)
  ultimately show ?thesis by (auto simp: table_index_def)
qed

lemma table_codes: "map code FT8_CHAR_TABLE_ALPHANUM = 32 # [48..<58] @ [65..<91]"
  by (simp add: FT8_CHAR_TABLE_ALPHANUM_def code_def upt_conv_Cons)

lemma table_length: "length FT8_CHAR_TABLE_ALPHANUM = 37"
  by (simp add: FT8_CHAR_TABLE_ALPHANUM_def)

lemma table_nth:
  "isDigit c \<Longrightarrow> FT8_CHAR_TABLE_ALPHANUM ! (code c - 48 + 1) = c"
  "isUpper c \<Longrightarrow> FT8_CHAR_TABLE_ALPHANUM ! (code c - 55 + 1) = c"
proof -
  have eq: "FT8_CHAR_TABLE_ALPHANUM ! k = c" if "k < 37" "(32 # [48..<58] @ [65..<91]) ! k = code c" for k
    using that table_codes by (metis char_of_code nth_map table_length)
  show "isDigit c \<Longrightarrow> FT8_CHAR_TABLE_ALPHANUM ! (code c - 48 + 1) = c"
    by (rule eq) (auto simp: isDigit_def code_def nth_append simp del: upt_rec_numeral)
  show "isUpper c \<Longrightarrow> FT8_CHAR_TABLE_ALPHANUM ! (code c - 55 + 1) = c"
    by (rule eq) (auto simp: isUpper_def code_def nth_append simp del: upt_rec_numeral)
qed

lemma alnum_in_table: "is_alnum c \<Longrightarrow> c \<in> set FT8_CHAR_TABLE_ALPHANUM"
proof -
  assume "is_alnum c"
  then have "\<exists>k < 37. FT8_CHAR_TABLE_ALPHANUM ! k = c"
    using table_nth[of c] unfolding is_alnum_def
    by (auto simp: isDigit_def isUpper_def code_def intro: exI[of _ "code c - 48 + 1"] exI[of _ "code c - 55 + 1"])
  then show ?thesis using table_length nth_mem by metis
qed

lemma index_values:
  "c = CHR '' '' \<or> is_alnum c \<Longrightarrow> \<exists>k < 37. charIndex37 c = int k \<and> FT8_CHAR_TABLE_ALPHANUM ! k = c"
  "is_alnum c \<Longrightarrow> \<exists>k < 36. charIndex36 c = int k \<and> FT8_CHAR_TABLE_ALPHANUM ! (k + 1) = c"
  "isDigit c \<Longrightarrow> \<exists>k < 10. digitIndex c = int k \<and> char_of (k + 48) = c"
  "c = CHR '' '' \<or> isUpper c \<Longrightarrow> \<exists>k < 27. letterSpaceIndex c = int k \<and> letter_of k = c"
proof -
  have u: "isUpper c \<Longrightarrow> 65 \<le> code c \<and> code c \<le> 90 \<and> c \<noteq> CHR '' '' \<and> \<not> isDigit c"
    and n: "isDigit c \<Longrightarrow> 48 \<le> code c \<and> code c \<le> 57 \<and> c \<noteq> CHR '' '' \<and> \<not> isUpper c"
    by (auto simp: char_simps)
  have b: "CHR '' '' \<in> set FT8_CHAR_TABLE_ALPHANUM" by (simp add: FT8_CHAR_TABLE_ALPHANUM_def)
  show "c = CHR '' '' \<or> is_alnum c \<Longrightarrow> \<exists>k < 37. charIndex37 c = int k \<and> FT8_CHAR_TABLE_ALPHANUM ! k = c"
    unfolding charIndex37_def table_length[symmetric] using alnum_in_table[of c] b by (intro table_index_in) blast
  show "is_alnum c \<Longrightarrow> \<exists>k < 36. charIndex36 c = int k \<and> FT8_CHAR_TABLE_ALPHANUM ! (k + 1) = c"
  proof -
    assume a: "is_alnum c"
    show ?thesis
    proof (cases "isDigit c")
      case True
      then show ?thesis using table_nth(1)[OF True] n by (intro exI[of _ "code c - 48"]) (auto simp: charIndex36_def)
    next
      case False
      with a have up: "isUpper c" by (simp add: is_alnum_def)
      then show ?thesis using table_nth(2)[OF up] u by (intro exI[of _ "code c - 55"]) (auto simp: charIndex36_def)
    qed
  qed
  show "isDigit c \<Longrightarrow> \<exists>k < 10. digitIndex c = int k \<and> char_of (k + 48) = c"
    using n by (intro exI[of _ "code c - 48"]) (auto simp: digitIndex_def)
  show "c = CHR '' '' \<or> isUpper c \<Longrightarrow> \<exists>k < 27. letterSpaceIndex c = int k \<and> letter_of k = c"
    using u by (intro exI[of _ "if c = CHR '' '' then 0 else code c - 64"]) (auto simp: letterSpaceIndex_def letter_of_def)
qed

definition plain_call :: "string \<Rightarrow> bool" where
  \<comment> \<open>an upper-case callsign the packing has a number for\<close>
  "plain_call c \<longleftrightarrow> word_ok c \<and> c \<notin> {''DE'', ''QRZ'', ''CQ''} \<and>
     (case normalizeCallsign c of None \<Rightarrow> False | Some n \<Rightarrow> standard_call n)"

lemma packed_call:
  assumes "plain_call c"
  shows "\<exists>n v. normalizeCallsign c = Some n \<and> packCallsign28 c = int v \<and> 2063592 \<le> v \<and> v < 2 ^ 28 \<and> unpack28 v = n"
proof -
  from assms obtain n where n: "normalizeCallsign c = Some n" "standard_call n" and w: "word_ok c"
    and t: "c \<noteq> ''DE''" "c \<noteq> ''QRZ''" "c \<noteq> ''CQ''"
    by (auto simp: plain_call_def split: option.splits)
  have u: "trim (toUpperCase c) = c" using w by (simp add: word_ok_def)
  have s: "n ! 0 = CHR '' '' \<or> is_alnum (n ! 0)" "is_alnum (n ! 1)" "isDigit (n ! 2)"
    "n ! 3 = CHR '' '' \<or> isUpper (n ! 3)" "n ! 4 = CHR '' '' \<or> isUpper (n ! 4)" "n ! 5 = CHR '' '' \<or> isUpper (n ! 5)"
    using n(2) unfolding standard_call_def by auto
  obtain c0 c1 c2 c3 c4 c5 where c0: "c0 < 37" "charIndex37 (n ! 0) = int c0" "FT8_CHAR_TABLE_ALPHANUM ! c0 = n ! 0"
    and c1: "c1 < 36" "charIndex36 (n ! 1) = int c1" "FT8_CHAR_TABLE_ALPHANUM ! (c1 + 1) = n ! 1"
    and c2: "c2 < 10" "digitIndex (n ! 2) = int c2" "char_of (c2 + 48) = n ! 2"
    and c3: "c3 < 27" "letterSpaceIndex (n ! 3) = int c3" "letter_of c3 = n ! 3"
    and c4: "c4 < 27" "letterSpaceIndex (n ! 4) = int c4" "letter_of c4 = n ! 4"
    and c5: "c5 < 27" "letterSpaceIndex (n ! 5) = int c5" "letter_of c5 = n ! 5"
    using index_values(1)[OF s(1)] index_values(2)[OF s(2)] index_values(3)[OF s(3)] index_values(4)[OF s(4)]
      index_values(4)[OF s(5)] index_values(4)[OF s(6)] by metis
  define v where "v = c0 * 36 * 10 * 27 * 27 * 27 + c1 * 10 * 27 * 27 * 27 + c2 * 27 * 27 * 27 + c3 * 27 * 27 + c4 * 27 + c5"
  have p: "packCallsign28 c = int (2063592 + v)"
    using t n(1) c0(2) c1(2) c2(2) c3(2) c4(2) c5(2)
    unfolding packCallsign28_def Let_def u NTOKENS_def v_def by simp
  have b: "2063592 + v < 2 ^ 28" using c0(1) c1(1) c2(1) c3(1) c4(1) c5(1) unfolding v_def by simp
  have "2063592 + v - 2063592 = v" by simp
  then have "unpack28 (2063592 + v) = [n ! 0, n ! 1, n ! 2, n ! 3, n ! 4, n ! 5]"
    unfolding unpack28_def Let_def using mixed_radix[OF c1(1) c2(1) c3(1) c4(1) c5(1) v_def]
    by (simp only: c0(3) c1(3) c2(3) c3(3) c4(3) c5(3))
  then have "unpack28 (2063592 + v) = n" using standard_nth[OF n(2)] by simp
  then show ?thesis using n(1) p b by (intro exI[of _ n] exI[of _ "2063592 + v"]) simp
qed

section \<open>Grid squares and three-word messages\<close>

definition grid_of :: "nat \<Rightarrow> string" where
  "grid_of g = (let v = g - 1 in
     [char_of (v div 1800 + 65), char_of (v div 100 mod 18 + 65), char_of (v div 10 mod 10 + 48), char_of (v mod 10 + 48)])"

lemma code_char_of [simp]: "n < 256 \<Longrightarrow> code (char_of n) = n"
  by (simp add: code_def take_bit_nat_eq_self)

lemma grid_digits:
  assumes "a < 18" "b < 18" "c < 10" "d < (10 :: nat)" "v = a * 1800 + b * 100 + c * 10 + d"
  shows "v div 1800 = a" "v div 100 mod 18 = b" "v div 10 mod 10 = c" "v mod 10 = d"
proof -
  have v: "v = ((a * 18 + b) * 10 + c) * 10 + d" using assms(5) by (simp add: algebra_simps)
  have d1: "v div 10 = (a * 18 + b) * 10 + c" unfolding v by (rule digit_of(1)[OF assms(4)])
  have d2: "v div 100 = a * 18 + b"
    using div_mult2_eq[of v 10 10] digit_of(1)[OF assms(3)] by (simp add: d1)
  show "v div 1800 = a"
    using div_mult2_eq[of v 100 18] digit_of(1)[OF assms(2)] by (simp add: d2)
  show "v div 100 mod 18 = b" unfolding d2 by (rule digit_of(2)[OF assms(2)])
  show "v div 10 mod 10 = c" unfolding d1 by (rule digit_of(2)[OF assms(3)])
  show "v mod 10 = d" unfolding v by (rule digit_of(2)[OF assms(4)])
qed

lemma list4: "length x = 4 \<Longrightarrow> x = [x ! 0, x ! 1, x ! 2, x ! 3]"
  by (rule nth_equalityI) (auto simp: nth_Cons' numeral_eq_Suc less_Suc_eq)

lemma packed_grid:
  assumes "isGridLocator x" "word_ok x"
  shows "\<exists>v. packGrid15 x = int v \<and> 0 < v \<and> v \<le> 32400 \<and> grid_of v = x"
proof -
  have u: "toUpperCase x = x" using assms(2) by (simp add: word_ok_def)
  have l: "length x = 4" using assms(1) by (simp add: isGridLocator_def)
  have "upper_char (x ! 0) = x ! 0" "upper_char (x ! 1) = x ! 1"
    using assms(2) l by (auto simp: word_ok_def)
  then have b: "65 \<le> code (x ! 0)" "code (x ! 0) \<le> 82" "65 \<le> code (x ! 1)" "code (x ! 1) \<le> 82"
    "48 \<le> code (x ! 2)" "code (x ! 2) \<le> 57" "48 \<le> code (x ! 3)" "code (x ! 3) \<le> 57"
    using assms(1) by (auto simp: isGridLocator_def in_A_R_def isDigit_def, auto simp: code_def)
  define a b c d where d: "a = code (x ! 0) - 65" "b = code (x ! 1) - 65" "c = code (x ! 2) - 48" "d = code (x ! 3) - 48"
  have e: "code (x ! 0) = a + 65" "code (x ! 1) = b + 65" "code (x ! 2) = c + 48" "code (x ! 3) = d + 48"
    and r: "a < 18" "b < 18" "c < 10" "d < 10"
    using b unfolding d by linarith+
  have p: "packGrid15 x = int (a * 1800 + b * 100 + c * 10 + d + 1)"
    using l r unfolding packGrid15_def Let_def u e by simp
  have "grid_of (a * 1800 + b * 100 + c * 10 + d + 1) = map char_of [a + 65, b + 65, c + 48, d + 48]"
    unfolding grid_of_def Let_def add_diff_cancel_right' grid_digits[OF r refl] by simp
  also have "\<dots> = [x ! 0, x ! 1, x ! 2, x ! 3]"
    unfolding e[symmetric] list.map char_of_code by (rule refl)
  finally have "grid_of (a * 1800 + b * 100 + c * 10 + d + 1) = x" using list4[OF l] by simp
  then show ?thesis
    using p r by (intro exI[of _ "a * 1800 + b * 100 + c * 10 + d + 1"]) simp
qed

lemma grid_exists:
  assumes "0 < v" "v \<le> 32400"
  shows "isGridLocator (grid_of v)" "word_ok (grid_of v)" "packGrid15 (grid_of v) = int v"
proof -
  define w where "w = v - 1"
  define a b c d where d: "a = w div 1800" "b = w div 100 mod 18" "c = w div 10 mod 10" "d = w mod 10"
  have r: "a < 18" "b < 18" "c < 10" "d < 10"
    using assms unfolding d w_def by (simp_all add: less_mult_imp_div_less)
  have g: "grid_of v = [char_of (a + 65), char_of (b + 65), char_of (c + 48), char_of (d + 48)]"
    unfolding grid_of_def Let_def w_def[symmetric] d by (rule refl)
  have c: "code (char_of (a + 65)) = a + 65" "code (char_of (b + 65)) = b + 65" "code (char_of (c + 48)) = c + 48"
    "code (char_of (d + 48)) = d + 48"
    using r by simp_all
  have up: "upper_char x = x" if "code x < 97" for x
    using that by (simp add: upper_char_def code_def Let_def)
  have ups: "upper_char (char_of (a + 65)) = char_of (a + 65)" "upper_char (char_of (b + 65)) = char_of (b + 65)"
    "upper_char (char_of (c + 48)) = char_of (c + 48)" "upper_char (char_of (d + 48)) = char_of (d + 48)"
    by (rule up; use c r in simp)+
  have k: "code CHR ''A'' = 65" "code CHR ''R'' = 82" "code CHR ''0'' = 48" "code CHR ''9'' = 57"
    by (simp_all add: code_def)
  show "isGridLocator (grid_of v)"
    using r unfolding isGridLocator_def in_A_R_def isDigit_def k g by (simp add: ups c)
  show w: "word_ok (grid_of v)"
    using r unfolding word_ok_def g isSpace_def by (simp add: ups c)
  have u: "toUpperCase (grid_of v) = grid_of v" using w by (simp add: word_ok_def)
  have s: "w = a * 1800 + b * 100 + c * 10 + d"
  proof -
    have "w = w div 10 * 10 + d" unfolding d by simp
    moreover have "w div 10 = w div 100 * 10 + c" unfolding d using div_mult2_eq[of w 10 10] by simp
    moreover have "w div 100 = a * 18 + b" unfolding d using div_mult2_eq[of w 100 18] by simp
    ultimately show ?thesis by simp
  qed
  show "packGrid15 (grid_of v) = int v"
    using r s assms unfolding packGrid15_def Let_def u unfolding g by (simp add: c w_def)
qed

section \<open>The generator matrix\<close>

definition generator_bit :: "nat \<Rightarrow> nat \<Rightarrow> nat" where
  "generator_bit i j = get_bit (FTX_LDPC_GENERATOR ! i) j"

lemma parity_byte:
  "odd_bits 8 (byte_at d n AND byte_at r n) \<longleftrightarrow> odd (\<Sum>m<8. get_bit d (8 * n + m) * get_bit r (8 * n + m))"
proof -
  have e: "(8 * n + m) div 8 = n" "(8 * n + m) mod 8 = m" if "m < 8" for m using that by simp_all
  have "(\<Sum>m<8. get_bit d (8 * n + m) * get_bit r (8 * n + m))
      = (\<Sum>m<8. of_bool (bit (byte_at d n AND byte_at r n) (7 - m)))"
    by (intro sum.cong refl) (simp add: get_bit_eq e bit_and_iff)
  also have "\<dots> = (\<Sum>m<8. of_bool (bit (byte_at d n AND byte_at r n) m))"
    by (rule sum.reindex_bij_witness[of _ "\<lambda>m. 7 - m" "\<lambda>m. 7 - m"]) auto
  finally show ?thesis by (simp add: odd_bits_def del: sum_of_bool_eq)
qed

lemma parity_sum_partial:
  assumes "i < 83" "n \<le> 12"
  shows "foldl (\<lambda>nsum j. nsum XOR parity8 (byte_at d j AND FTX_LDPC_GENERATOR ! i ! j)) 0 [0..<n]
    = of_bool (odd (\<Sum>j<8 * n. get_bit d j * generator_bit i j))"
  using assms(2)
proof (induction n)
  case 0
  then show ?case by simp
next
  case (Suc n)
  have "length (FTX_LDPC_GENERATOR ! i) = 12"
    using generator_shape assms(1) nth_mem by metis
  then have g: "FTX_LDPC_GENERATOR ! i ! n = byte_at (FTX_LDPC_GENERATOR ! i) n"
    using Suc.prems by (simp add: byte_at_def)
  have "(\<Sum>j<8 * Suc n. get_bit d j * generator_bit i j) =
      (\<Sum>j<8 * n. get_bit d j * generator_bit i j) + (\<Sum>m<8. get_bit d (8 * n + m) * generator_bit i (8 * n + m))"
    using sum.atLeastLessThan_concat[of 0 "8 * n" "8 * n + 8" "\<lambda>j. get_bit d j * generator_bit i j"]
      sum.shift_bounds_nat_ivl[of "\<lambda>j. get_bit d j * generator_bit i j" 0 "8 * n" 8]
    by (simp add: lessThan_atLeast0 add.commute)
  then show ?case
    using Suc parity_byte[of d n "FTX_LDPC_GENERATOR ! i"]
    by (auto simp: parity8_eq g generator_bit_def)
qed

lemma generator_padding: "i < 83 \<Longrightarrow> 91 \<le> j \<Longrightarrow> j < 96 \<Longrightarrow> generator_bit i j = 0"
proof -
  assume a: "i < 83" "91 \<le> j" "j < 96"
  have "\<forall>row \<in> set FTX_LDPC_GENERATOR. take_bit 5 (row ! 11) = 0"
    by (simp add: FTX_LDPC_GENERATOR_def)
  then have "take_bit 5 (FTX_LDPC_GENERATOR ! i ! 11) = 0"
    using a(1) generator_shape(1) nth_mem by metis
  moreover have "j div 8 = 11" "7 - j mod 8 < 5"
    using a(2,3) by presburger+
  ultimately have "\<not> bit (FTX_LDPC_GENERATOR ! i ! 11) (7 - j mod 8)"
    by (metis bit_take_bit_iff bit_0_eq bot_apply bot_bool_def)
  then show ?thesis using \<open>j div 8 = 11\<close>
    by (simp add: generator_bit_def get_bit_eq byte_at_def)
qed

lemma parity_sum_spec:
  assumes "i < 83"
  shows "parity_sum d i = (\<Sum>j<91. get_bit d j * generator_bit i j) mod 2"
proof -
  have "(\<Sum>j<96. get_bit d j * generator_bit i j) = (\<Sum>j<91. get_bit d j * generator_bit i j)"
    using generator_padding[OF assms] by (intro sum.mono_neutral_right) auto
  then show ?thesis
    using parity_sum_partial[OF assms, of 12 d] by (simp add: parity_sum_def FTX_LDPC_K_BYTES_def mod_2_eq_odd)
qed

section \<open>Packing of three-word messages\<close>

lemma encode_bits:
  "ft8_coded_bits (ft8_symbols (encodeFt8Message m)) =
     map (get_bit (ldpcEncode (appendCrc (packMessage77 (trim (toUpperCase m)))))) [0..<174]"
  by (simp add: encodeFt8Message_def Let_def coded_bits_recovered)

lemma plain_call_word: "plain_call c \<Longrightarrow> word_ok c \<and> c \<noteq> ''CQ''"
  by (simp add: plain_call_def)

lemma pack_three:
  assumes "plain_call a" "plain_call b" "word_ok x"
  shows "packMessage77 (three_words a b x) =
    (case third_field x of
       None \<Rightarrow> packFreeText (three_words a b x)
     | Some (g, r) \<Rightarrow> assembleBits77 (packCallsign28 a) 0 (packCallsign28 b) 0 r g 1)"
proof -
  have "word_ok a" "word_ok b" using assms plain_call_word by auto
  note s = three_words_split[OF this assms(3)]
  have "\<not> packCallsign28 a < 0" "\<not> packCallsign28 b < 0"
    using packed_call[OF assms(1)] packed_call[OF assms(2)] by auto
  then show ?thesis
    using plain_call_word[OF assms(1)]
    by (simp add: packMessage77_def tryPackStandard_def s I3_STANDARD_def Let_def split: option.splits prod.splits)
qed

lemma encode_three:
  assumes "plain_call a" "plain_call b" "word_ok x"
  shows "ft8_symbols (encodeFt8Message (three_words a b x)) =
    insertCostasAndMerge (bitsToSymbols (ldpcEncode (appendCrc (packMessage77 (three_words a b x)))))"
  using three_words_split(2,3)[of a b x] assms plain_call_word
  by (simp add: encodeFt8Message_def Let_def)

lemma report_field:
  assumes "parseReport rep = Some (v, False)" "word_ok rep"
  shows "third_field rep = Some (v, 0) \<and> (\<exists>g. isGridLocator g \<and> word_ok g \<and> packGrid15 g = v)"
proof -
  have u: "toUpperCase rep = rep" using assms(2) by (simp add: word_ok_def)
  from assms(1) obtain db where db: "signed_number rep = Some db" "- 30 \<le> db" "db \<le> 30" "v = REPORT_BASE + (db + 35)"
    by (auto simp: parseReport_def u Let_def split: option.splits if_splits)
  then obtain s ds where s: "rep = s # ds" "s = CHR ''+'' \<or> s = CHR ''-''"
    by (auto simp: signed_number_def split: list.splits if_splits)
  then have n: "\<not> isGridLocator rep" "rep \<noteq> ''RR73''" "rep \<noteq> ''RRR''" "rep \<noteq> ''73''"
    by (auto simp: isGridLocator_def in_A_R_def upper_char_def code_def)
  have "v = int (nat v)" "0 < nat v" "nat v \<le> 32400"
    using db(2-4) by (simp_all add: ft8_consts)
  then have "\<exists>g. isGridLocator g \<and> word_ok g \<and> packGrid15 g = v"
    using grid_exists[of "nat v"] by metis
  then show ?thesis using n assms(1) by (simp add: third_field_def)
qed

lemma codeword_parts:
  fixes m
  defines "s \<equiv> ft8_symbols (encodeFt8Message m)" and "p \<equiv> packMessage77 (trim (toUpperCase m))"
  shows "length s = 79" "\<forall>t \<in> set s. t < 8"
    "take 7 s = FT8_COSTAS" "take 7 (drop 36 s) = FT8_COSTAS" "drop 72 s = FT8_COSTAS"
    "take 77 (ft8_coded_bits s) = map (get_bit p) [0..<77]"
    "bits_value (take 14 (drop 77 (ft8_coded_bits s))) = computeCrc14 p"
    "\<forall>i < 83. ft8_coded_bits s ! (91 + i) = (\<Sum>j<91. ft8_coded_bits s ! j * generator_bit i j) mod 2"
proof -
  let ?d = "appendCrc p"
  let ?t = "bitsToSymbols (ldpcEncode ?d)"
  have e: "s = insertCostasAndMerge ?t"
    unfolding s_def p_def encodeFt8Message_def Let_def by simp
  have l: "length ?t = 58" by (simp add: bitsToSymbols_def)
  note c = costas_layout[OF l, folded e]
  show "length s = 79" using l by (simp add: c costas_tones(1))
  have "FT8_GRAY_MAP ! v < 8" if "v < 8" for v
    using that gray_map_permutation(1,2) nth_mem[of v FT8_GRAY_MAP] by simp
  then have "\<forall>t \<in> set ?t. t < 8"
    unfolding bitsToSymbols_eq using tone_value_less by auto
  then show "\<forall>t \<in> set s. t < 8"
    using costas_tones(2) unfolding c by (auto dest: in_set_takeD in_set_dropD)
  show "take 7 s = FT8_COSTAS" "take 7 (drop 36 s) = FT8_COSTAS" "drop 72 s = FT8_COSTAS"
    using l costas_tones(1) unfolding c by simp_all
  have b: "ft8_coded_bits s = map (get_bit (ldpcEncode ?d)) [0..<174]"
    unfolding e by (rule coded_bits_recovered)
  show "take 77 (ft8_coded_bits s) = map (get_bit p) [0..<77]"
    unfolding b p_def by (rule payload_bits)
  have "length p = 10" unfolding p_def by (rule length_message77)
  then have "take 14 (drop 77 (ft8_coded_bits s)) = map (\<lambda>i. of_bool (bit (computeCrc14 p) (90 - i))) [77..<91]"
    unfolding b by (simp add: drop_map take_map take_upt ldpc_bits appendCrc_bits cong: map_cong)
  also have "bits_value \<dots> = take_bit 14 (computeCrc14 p)"
    by (subst bits_value_slice[where m = 91 and v = "computeCrc14 p"]) simp_all
  also have "\<dots> = computeCrc14 p"
    using crc_bound[of p] by (simp add: take_bit_nat_eq_self)
  finally show "bits_value (take 14 (drop 77 (ft8_coded_bits s))) = computeCrc14 p" .
  show "\<forall>i < 83. ft8_coded_bits s ! (91 + i) = (\<Sum>j<91. ft8_coded_bits s ! j * generator_bit i j) mod 2"
  proof (intro allI impI)
    fix i :: nat
    assume i: "i < 83"
    have "ft8_coded_bits s ! (91 + i) = of_bool (parity_sum ?d i \<noteq> 0)"
      using i by (simp add: b ldpc_bits)
    also have "\<dots> = (\<Sum>j<91. get_bit ?d j * generator_bit i j) mod 2"
      using parity_sum_spec[OF i, of ?d] by (simp add: mod_2_eq_odd)
    also have "(\<Sum>j<91. get_bit ?d j * generator_bit i j) = (\<Sum>j<91. ft8_coded_bits s ! j * generator_bit i j)"
      by (intro sum.cong refl) (simp add: b ldpc_bits)
    finally show "ft8_coded_bits s ! (91 + i) = (\<Sum>j<91. ft8_coded_bits s ! j * generator_bit i j) mod 2" .
  qed
qed

section \<open>Properties\<close>

text \<open>
  For every message text the encoder gives 79 tones from 0 to 7, framed and split by three
  Costas arrays, and the 174 bits of the data tones are: the 77 bits of the packed message,
  the 14 bits of its CRC, and 83 parity bits, each the sum modulo two of the 91 bits before
  them selected by its row of the generator matrix.
\<close>

theorem ft8_codeword_systematic:
  "let s = ft8_symbols (encodeFt8Message m); p = packMessage77 (trim (toUpperCase m)); bs = ft8_coded_bits s in
     length s = 79 \<and> set s \<subseteq> {..<8} \<and>
     take 7 s = FT8_COSTAS \<and> take 7 (drop 36 s) = FT8_COSTAS \<and> drop 72 s = FT8_COSTAS \<and>
     take 77 bs = map (get_bit p) [0..<77] \<and> bits_value (take 14 (drop 77 bs)) = computeCrc14 p \<and>
     map (\<lambda>i. bs ! (91 + i)) [0..<83] = map (\<lambda>i. (\<Sum>j<91. bs ! j * generator_bit i j) mod 2) [0..<83]"
  using codeword_parts[of m] by (auto simp: Let_def)

text \<open>
  The CRC register never uses its top bit: the shift register tests bit 13 of the value it
  has just shifted instead of bit 14, so the checksum has 13 bits and the first bit of the
  14-bit CRC field is zero in every transmission.
\<close>

theorem ft8_crc_has_13_bits:
  "computeCrc14 buf < 2 ^ 13 \<and> ft8_coded_bits (ft8_symbols (encodeFt8Message m)) ! 77 = 0"
proof -
  let ?p = "packMessage77 (trim (toUpperCase m))"
  have "ft8_coded_bits (ft8_symbols (encodeFt8Message m)) ! 77 = of_bool (bit (computeCrc14 ?p) 13)"
    unfolding encode_bits by (simp add: ldpc_bits appendCrc_bits)
  moreover have "take_bit 13 (computeCrc14 ?p) = computeCrc14 ?p"
    using crc_bound[of ?p] by (simp add: take_bit_nat_eq_self)
  then have "\<not> bit (computeCrc14 ?p) 13" by (metis bit_take_bit_iff less_irrefl)
  ultimately show ?thesis using crc_bound by simp
qed

text \<open>
  C10: A standard message with a grid square loses nothing: the fields read back from the tones
  are the two normalised callsigns, the grid square, a clear R bit and the message type 1.
\<close>

theorem ft8_grid_message_recovered:
  assumes "plain_call a" "plain_call b" "isGridLocator x" "word_ok x"
  shows "let f = fields_of_bits (take 77 (ft8_coded_bits (ft8_symbols (encodeFt8Message (three_words a b x))))) in
    normalizeCallsign a = Some (unpack28 (n28a f)) \<and> normalizeCallsign b = Some (unpack28 (n28b f)) \<and>
    grid_of (g15 f) = x \<and> rbit f = 0 \<and> i3 f = 1"
proof -
  define f where "f = fields_of_bits (take 77 (ft8_coded_bits (ft8_symbols (encodeFt8Message (three_words a b x)))))"
  obtain n v where a: "normalizeCallsign a = Some n" "packCallsign28 a = int v" "v < 2 ^ 28" "unpack28 v = n"
    using packed_call[OF assms(1)] by blast
  obtain k w where b: "normalizeCallsign b = Some k" "packCallsign28 b = int w" "w < 2 ^ 28" "unpack28 w = k"
    using packed_call[OF assms(2)] by blast
  obtain g where g: "packGrid15 x = int g" "g \<le> 32400" "grid_of g = x"
    using packed_grid[OF assms(3,4)] by blast
  have t: "third_field x = Some (int g, 0)" using assms(3) g(1) by (simp add: third_field_def)
  have "f = fields_of_bits (map (get_bit (packMessage77 (three_words a b x))) [0..<77])"
    unfolding f_def encode_three[OF assms(1,2,4)] coded_bits_recovered payload_bits by (rule refl)
  also have "\<dots> = \<lparr>n28a = low_bits 28 (int v), n28b = low_bits 28 (int w), rbit = low_bits 1 0, g15 = low_bits 15 (int g), i3 = low_bits 3 1\<rparr>"
    by (simp add: pack_three[OF assms(1,2,4)] t assembled_fields a(2) b(2))
  finally show ?thesis
    using a b g unfolding f_def[symmetric] Let_def by (simp add: low_bits_eq take_bit_nat_eq_self)
qed

theorem ft8_grid_message_recovered_witness:
  "grid_of (g15 (fields_of_bits (take 77 (ft8_coded_bits (ft8_symbols (encodeFt8Message (three_words ''K1ABC'' ''W9XYZ'' ''FN42''))))))) = ''FN42'' \<and>
   unpack28 (n28a (fields_of_bits (take 77 (ft8_coded_bits (ft8_symbols (encodeFt8Message (three_words ''K1ABC'' ''W9XYZ'' ''FN42''))))))) = '' K1ABC''"
proof -
  have c: "plain_call ''K1ABC''" "plain_call ''W9XYZ''" "isGridLocator ''FN42''" "word_ok ''FN42''"
    "normalizeCallsign ''K1ABC'' = Some '' K1ABC''"
    by code_simp+
  then show ?thesis
    using ft8_grid_message_recovered[OF c(1-4)] by (simp add: Let_def)
qed

text \<open>
  Acknowledgements and reports are not distinguishable from grid squares: the packed codes of
  RRR and 73 are those of the grid squares AA01 and AA02, RR73 is taken for a grid square and
  never reaches its own code, and every report without an R is sent as exactly the tones of
  a message with some grid square in its place.
\<close>

theorem ft8_reports_collide_with_grids:
  assumes "plain_call a" "plain_call b" "word_ok rep" "parseReport rep = Some (v, False)"
  shows "(\<exists>g. isGridLocator g \<and> ft8_symbols (encodeFt8Message (three_words a b rep)) = ft8_symbols (encodeFt8Message (three_words a b g))) \<and>
    ft8_symbols (encodeFt8Message (three_words a b ''RRR'')) = ft8_symbols (encodeFt8Message (three_words a b ''AA01'')) \<and>
    ft8_symbols (encodeFt8Message (three_words a b ''73'')) = ft8_symbols (encodeFt8Message (three_words a b ''AA02'')) \<and>
    third_field ''RR73'' = Some (32374, 0)"
proof -
  obtain g where g: "isGridLocator g" "word_ok g" "packGrid15 g = v" and t: "third_field rep = Some (v, 0)"
    using report_field[OF assms(4,3)] by blast
  have 1: "\<exists>g. isGridLocator g \<and> ft8_symbols (encodeFt8Message (three_words a b rep)) = ft8_symbols (encodeFt8Message (three_words a b g))"
    using g t by (intro exI[of _ g])
      (simp add: encode_three[OF assms(1,2)] assms(3) pack_three[OF assms(1,2)] third_field_def)
  have w: "word_ok ''RRR''" "word_ok ''73''" "word_ok ''AA01''" "word_ok ''AA02''" by code_simp+
  have f: "third_field ''RRR'' = Some (2, 0)" "third_field ''73'' = Some (3, 0)" "third_field ''AA01'' = Some (2, 0)"
    "third_field ''AA02'' = Some (3, 0)"
    by code_simp+
  have 2: "ft8_symbols (encodeFt8Message (three_words a b ''RRR'')) = ft8_symbols (encodeFt8Message (three_words a b ''AA01''))"
    "ft8_symbols (encodeFt8Message (three_words a b ''73'')) = ft8_symbols (encodeFt8Message (three_words a b ''AA02''))"
    by (simp_all add: encode_three[OF assms(1,2)] w pack_three[OF assms(1,2)] f)
  have 3: "third_field ''RR73'' = Some (32374, 0)" by code_simp
  show ?thesis using 1 2 3 by simp
qed

theorem ft8_reports_collide_with_grids_witness:
  "\<exists>g. isGridLocator g \<and> ft8_symbols (encodeFt8Message (three_words ''K1ABC'' ''W9XYZ'' ''-15'')) =
     ft8_symbols (encodeFt8Message (three_words ''K1ABC'' ''W9XYZ'' g))"
proof -
  have c: "plain_call ''K1ABC''" "plain_call ''W9XYZ''" "word_ok ''-15''" "parseReport ''-15'' = Some (3261, False)"
    by code_simp+
  show ?thesis using ft8_reports_collide_with_grids[OF c] by (rule conjunct1)
qed

text \<open>
  A five-character callsign that begins with a digit, such as 9A1AB or 3D2RP, is refused by
  the packing (the digit it aligns is the first one), so a message that contains it is sent
  as free text and everything after its thirteenth character is lost.
\<close>

theorem leading_digit_call_not_packed:
  assumes "length c = 5" "isDigit (hd c)" "\<forall>v \<in> set c. is_alnum v" "word_ok b" "b \<noteq> ''CQ''" "word_ok x" "word_ok y"
    "length b = 5"
  shows "packCallsign28 c = - 1 \<and>
    packMessage77 (three_words b c x) = packFreeText (three_words b c x) \<and>
    (take 1 x = take 1 y \<longrightarrow> packMessage77 (three_words b c x) = packMessage77 (three_words b c y))"
proof -
  have w: "word_ok c" using assms(1,3) is_alnum_simps by (auto simp: word_ok_def)
  then have u: "trim (toUpperCase c) = c" by (simp add: word_ok_def)
  obtain d r where dr: "c = d # r" using assms(1) by (cases c) auto
  have "normalizeCallsign c = None"
    using assms(1,2) by (simp add: normalizeCallsign_def dr padEnd_def numeral_2_eq_2)
  then have p: "packCallsign28 c = - 1"
    using assms(1) unfolding packCallsign28_def Let_def u by auto
  have f: "packMessage77 (three_words b c z) = packFreeText (three_words b c z)" if "word_ok z" for z
    using assms(5) p by (simp add: packMessage77_def tryPackStandard_def three_words_split[OF assms(4) w that] Let_def)
  have "take 13 (padEnd 13 (three_words b c z)) = b @ CHR '' '' # c @ CHR '' '' # take 1 z" if "z \<noteq> []" for z
    using that assms(1,8) by (cases z) (simp_all add: three_words_def padEnd_def)
  then have "packFreeText (three_words b c x) = packFreeText (three_words b c y)" if "take 1 x = take 1 y"
    using that assms(6,7) three_words_split(2)[OF assms(4) w] unfolding packFreeText_def
    by (simp add: word_ok_def)
  then show ?thesis using p f assms(6,7) by simp
qed

theorem leading_digit_call_not_packed_witness:
  "packCallsign28 ''9A1AB'' = - 1 \<and>
    packMessage77 (three_words ''K1ABC'' ''9A1AB'' ''FN42'') = packMessage77 (three_words ''K1ABC'' ''9A1AB'' ''FM18'')"
proof -
  have c: "isDigit (hd ''9A1AB'')" "\<forall>v \<in> set ''9A1AB''. is_alnum v" "word_ok ''K1ABC''" "''K1ABC'' \<noteq> ''CQ''"
    "word_ok ''FN42''" "word_ok ''FM18''"
    by code_simp+
  have l: "length ''9A1AB'' = 5" "length ''K1ABC'' = 5" "take 1 ''FN42'' = take 1 ''FM18''" by simp_all
  show ?thesis
    using leading_digit_call_not_packed[OF l(1) c(1-6) l(2)] l(3) by blast
qed

end
