(* ===== verification/JsRegex.thy ===== *)
theory JsRegex
  imports TextOps
begin

text \<open>
  The regular expressions of the sources. \<open>rmatch\<close> lists the ways a pattern matches a prefix of
  the text in the order in which JavaScript's backtracking matcher tries them (greedy
  repetitions longest first, alternatives left to right), each with the capture groups set so
  far and the text left over; \<open>full_match\<close> is \<open>text.match(/^...$/)\<close>: the first way that uses up
  the text. All repetitions in the modelled patterns are over a character class.
\<close>

datatype rx =
    Rep "char \<Rightarrow> bool" nat "nat option" \<comment> \<open>class, lower and upper bound\<close>
  | Cat rx rx
  | Alt rx rx
  | Opt rx
  | Grp nat rx

type_synonym captures = "nat \<Rightarrow> string option"

primrec rmatch :: "rx \<Rightarrow> captures \<times> string \<Rightarrow> (captures \<times> string) list" where
  "rmatch (Rep p lo hi) = (\<lambda>(c, s).
     let n = length (takeWhile p s);
         m = (case hi of None \<Rightarrow> n | Some h \<Rightarrow> min n h)
     in map (\<lambda>k. (c, drop k s)) (rev [lo..<Suc m]))"
| "rmatch (Cat r1 r2) = (\<lambda>st. concat (map (rmatch r2) (rmatch r1 st)))"
| "rmatch (Alt r1 r2) = (\<lambda>st. rmatch r1 st @ rmatch r2 st)"
| "rmatch (Opt r) = (\<lambda>st. rmatch r st @ [st])"
| "rmatch (Grp n r) = (\<lambda>(c, s).
     map (\<lambda>(c', s'). (c'(n \<mapsto> take (length s - length s') s), s')) (rmatch r (c, s)))"

definition full_match :: "rx \<Rightarrow> string \<Rightarrow> captures option" where
  "full_match r s = map_option fst (find (\<lambda>(c, s'). s' = []) (rmatch r (\<lambda>_. None, s)))"

section \<open>Classes and abbreviations of the syntax\<close>

definition ci :: "(char \<Rightarrow> bool) \<Rightarrow> char \<Rightarrow> bool" where
  \<comment> \<open>a class of upper-case characters under the flag \<open>i\<close>\<close>
  "ci p c = p (upper_char c)"

definition in_range :: "char \<Rightarrow> char \<Rightarrow> char \<Rightarrow> bool" where
  "in_range a b c \<longleftrightarrow> code a \<le> code c \<and> code c \<le> code b"

definition wordChar :: "char \<Rightarrow> bool" where
  \<comment> \<open>the class \<open>\w\<close>\<close>
  "wordChar c \<longleftrightarrow> isUpper (upper_char c) \<or> isDigit c \<or> c = CHR ''_''"

definition dot :: "char \<Rightarrow> bool" where
  "dot c \<longleftrightarrow> code c \<noteq> 10 \<and> code c \<noteq> 13"

definition one :: "(char \<Rightarrow> bool) \<Rightarrow> rx" where
  "one p = Rep p 1 (Some 1)"

fun lit :: "string \<Rightarrow> rx" where
  \<comment> \<open>a literal text under the flag \<open>i\<close>\<close>
  "lit [] = Rep (\<lambda>_. False) 0 None"
| "lit [x] = one (ci (\<lambda>c. c = x))"
| "lit (x # xs) = Cat (one (ci (\<lambda>c. c = x))) (lit xs)"

definition blanks :: rx where
  \<comment> \<open>\<open>\s+\<close>\<close>
  "blanks = Rep isSpace 1 None"

section \<open>Words and blanks\<close>

lemma takeWhile_word: "\<forall>x \<in> set w. p x \<Longrightarrow> (v = [] \<or> \<not> p (hd v)) \<Longrightarrow> takeWhile p (w @ v) = w"
  by (cases v) (simp_all add: takeWhile_append)

lemma takeWhile_none [simp]: "v \<noteq> [] \<Longrightarrow> \<not> p (hd v) \<Longrightarrow> takeWhile p v = []"
  by (cases v) simp_all

lemma blanks_fail [simp]: "\<not> isSpace x \<Longrightarrow> rmatch blanks (c, x # v) = []" "rmatch blanks (c, []) = []"
  by (simp_all add: blanks_def)

lemma blanks_none: "v = [] \<or> \<not> isSpace (hd v) \<Longrightarrow> rmatch (Cat blanks r) (c, v) = []"
  by (cases v) (simp_all add: blanks_def)

lemma blanks_one: "v \<noteq> [] \<Longrightarrow> \<not> isSpace (hd v) \<Longrightarrow> rmatch (Cat blanks r) (c, CHR '' '' # v) = rmatch r (c, v)"
  by (simp add: blanks_def)

lemma upt_last: "lo \<le> n \<Longrightarrow> rev [lo..<Suc n] = n # rev [lo..<n]"
  by simp

text \<open>
  A greedy word group followed by a blank: every shorter choice for the word leaves a
  character of the word where the blank is expected, so only the whole word survives.
\<close>

lemma word_then_blank:
  assumes "\<forall>x \<in> set w. p x" "\<And>x. p x \<Longrightarrow> \<not> isSpace x" "lo \<le> length w" "hi = None \<or> (\<exists>h. hi = Some h \<and> length w \<le> h)"
    "v \<noteq> []" "\<not> isSpace (hd v)"
  shows "rmatch (Cat (Grp n (Rep p lo hi)) (Cat blanks r)) (c, w @ CHR '' '' # v) = rmatch r (c(n \<mapsto> w), v)"
proof -
  have "\<not> p CHR '' ''" using assms(2) isSpace_blank by blast
  then have t: "length (takeWhile p (w @ CHR '' '' # v)) = length w"
    using assms(1) by (simp add: takeWhile_word)
  have m: "(case hi of None \<Rightarrow> length w | Some h \<Rightarrow> min (length w) h) = length w"
    using assms(4) by auto
  have short: "rmatch (Cat blanks r) (c', drop k (w @ CHR '' '' # v)) = []" if "k < length w" for k c'
  proof (rule blanks_none)
    have "drop k (w @ CHR '' '' # v) = w ! k # drop (Suc k) w @ CHR '' '' # v"
      using that by (simp add: Cons_nth_drop_Suc[symmetric])
    then show "drop k (w @ CHR '' '' # v) = [] \<or> \<not> isSpace (hd (drop k (w @ CHR '' '' # v)))"
      using assms(1,2) that by simp
  qed
  let ?s = "w @ CHR '' '' # v"
  have "rmatch (Cat (Grp n (Rep p lo hi)) (Cat blanks r)) (c, ?s) =
      concat (map (\<lambda>k. rmatch (Cat blanks r) (c(n \<mapsto> take (length ?s - length (drop k ?s)) ?s), drop k ?s)) (rev [lo..<Suc (length w)]))"
    by (simp only: rmatch.simps prod.case Let_def t m map_map comp_def)
  also have "\<dots> = rmatch (Cat blanks r) (c(n \<mapsto> w), CHR '' '' # v)
      @ concat (map (\<lambda>k. rmatch (Cat blanks r) (c(n \<mapsto> take (length ?s - length (drop k ?s)) ?s), drop k ?s)) (rev [lo..<length w]))"
    using assms(3) by (simp only: upt_last list.map concat.simps) simp
  also have "concat (map (\<lambda>k. rmatch (Cat blanks r) (c(n \<mapsto> take (length ?s - length (drop k ?s)) ?s), drop k ?s)) (rev [lo..<length w])) = []"
    by (simp only: concat_eq_Nil_conv) (auto simp only: set_map set_rev set_upt image_iff atLeastLessThan_iff short)
  finally show ?thesis unfolding append_Nil2 blanks_one[OF assms(5,6)] .
qed

text \<open>A word that is too short, or is followed by neither a blank nor its end, does not match.\<close>

lemma word_too_short:
  assumes "length (takeWhile p s) < lo"
  shows "rmatch (Cat (Grp n (Rep p lo None)) r) (c, s) = []" "rmatch (Cat (Rep p lo hi) r) (c, s) = []"
  using assms by (simp_all add: Let_def split: option.splits)

section \<open>Patterns without groups\<close>

primrec no_groups :: "rx \<Rightarrow> bool" where
  "no_groups (Rep p lo hi) = True"
| "no_groups (Cat r1 r2) = (no_groups r1 \<and> no_groups r2)"
| "no_groups (Alt r1 r2) = (no_groups r1 \<and> no_groups r2)"
| "no_groups (Opt r) = no_groups r"
| "no_groups (Grp n r) = False"

definition rests :: "rx \<Rightarrow> string \<Rightarrow> string list" where
  "rests r s = map snd (rmatch r (\<lambda>_. None, s))"

definition accepts :: "rx \<Rightarrow> string \<Rightarrow> bool" where
  "accepts r s \<longleftrightarrow> [] \<in> set (rests r s)"

lemma rmatch_no_groups: "no_groups r \<Longrightarrow> rmatch r (c, s) = map (Pair c) (rests r s)"
proof (induction r arbitrary: c s)
  case (Rep p lo hi)
  then show ?case by (simp add: rests_def Let_def split: option.splits)
next
  case (Cat r1 r2)
  have e: "rmatch r2 (d, v) = map (Pair d) (rests r2 v)" for d v using Cat by simp
  have f: "rmatch r1 (d, s) = map (Pair d) (rests r1 s)" for d using Cat by simp
  show ?case
    by (simp add: rests_def[of "Cat r1 r2"] f e map_concat comp_def)
next
  case (Alt r1 r2)
  then show ?case by (simp add: rests_def[of "Alt r1 r2"])
next
  case (Opt r)
  then show ?case by (simp add: rests_def[of "Opt r"])
next
  case (Grp n r)
  then show ?case by simp
qed

lemma rests_simps:
  "no_groups r1 \<Longrightarrow> no_groups r2 \<Longrightarrow> rests (Cat r1 r2) s = concat (map (rests r2) (rests r1 s))"
  "rests (Alt r1 r2) s = rests r1 s @ rests r2 s"
  "rests (Opt r) s = rests r s @ [s]"
  by (simp_all add: rests_def[of "Cat r1 r2"] rests_def[of "Alt r1 r2"] rests_def[of "Opt r"] rmatch_no_groups map_concat comp_def)
    (simp_all add: rests_def)

lemma no_groups_one [simp]: "no_groups (one p)"
  by (simp add: one_def)

lemma accepts_Alt: "accepts (Alt r1 r2) x \<longleftrightarrow> accepts r1 x \<or> accepts r2 x"
  by (simp add: accepts_def rests_simps)

lemma rests_Rep: "rests (Rep p lo hi) s = map (\<lambda>k. drop k s)
    (rev [lo..<Suc (case hi of None \<Rightarrow> length (takeWhile p s) | Some h \<Rightarrow> min (length (takeWhile p s)) h)])"
  by (simp add: rests_def Let_def comp_def split: option.splits)

lemma rests_one: "rests (one p) s = (case s of [] \<Rightarrow> [] | x # v \<Rightarrow> if p x then [v] else [])"
  by (cases s) (auto simp: one_def rests_Rep)

lemma rests_two: "rests (Rep p 2 (Some 2)) s = (case s of x # y # v \<Rightarrow> if p x \<and> p y then [v] else [] | _ \<Rightarrow> [])"
  by (auto simp: rests_Rep numeral_2_eq_2 split: list.splits)

lemma rmatch_one: "rmatch (one p) (c, s) = (case s of [] \<Rightarrow> [] | x # v \<Rightarrow> if p x then [(c, v)] else [])"
  by (cases s) (auto simp: one_def)

lemma find_group:
  "find (\<lambda>(c, s'). s' = []) (map (\<lambda>(c', s'). (c'(n \<mapsto> take (length s - length s') s), s')) (map (Pair c) vs))
     = (if [] \<in> set vs then Some (c(n \<mapsto> s), []) else None)"
  by (induction vs) auto

lemma full_match_accepts: "no_groups r \<Longrightarrow> full_match r s \<noteq> None \<longleftrightarrow> accepts r s"
  by (auto simp: full_match_def accepts_def rmatch_no_groups find_None_iff)

end
