(* ===== verification/Ft8Messages.thy ===== *)
theory Ft8Messages
  imports Ft8Encoder JsRegex
begin

text \<open>
  FT8 message texts: composing the text of a stage of a contact (\<open>composeFt8Message\<close> of
  \<open>src/lib/ft8/ft8Encoder.ts\<close>) and reading calls, grid and report out of a decoded text
  (\<open>extractCallInfo\<close> of \<open>src/lib/ft8/ft8MessageParser.ts\<close>). The lemmas say what the parser
  makes of the texts the composer writes.
\<close>

section \<open>Composing\<close>

datatype tx_type = TxCQ | TxGRID | TxREPORT | TxRR73 | Tx73 | TxFREE

record Ft8ComposeParams =
  cp_myCallsign :: string
  cp_myGrid :: string
  cp_type :: tx_type
  cp_targetCall :: "string option"
  cp_report :: "string option"
  cp_cqDirection :: "string option"
  cp_freeText :: "string option"

definition composeFt8Message :: "Ft8ComposeParams \<Rightarrow> string" where
  "composeFt8Message params =
     (let my = trim (toUpperCase (cp_myCallsign params));
          grid = take 4 (trim (toUpperCase (cp_myGrid params)));
          target = (case cp_targetCall params of None \<Rightarrow> [] | Some t \<Rightarrow> trim (toUpperCase t))
      in case cp_type params of
           TxCQ \<Rightarrow>
             (let dir = (case cp_cqDirection params of None \<Rightarrow> [] | Some d \<Rightarrow> trim (toUpperCase d))
              in if dir \<noteq> [] then ''CQ '' @ dir @ '' '' @ my @ '' '' @ grid else ''CQ '' @ my @ '' '' @ grid)
         | TxGRID \<Rightarrow> my @ '' '' @ target @ '' '' @ grid
         | TxREPORT \<Rightarrow> my @ '' '' @ target @ '' '' @ (case cp_report params of None \<Rightarrow> ''+00'' | Some r \<Rightarrow> r)
         | TxRR73 \<Rightarrow> my @ '' '' @ target @ '' RR73''
         | Tx73 \<Rightarrow> my @ '' '' @ target @ '' 73''
         | TxFREE \<Rightarrow> take 13 (trim (toUpperCase (case cp_freeText params of None \<Rightarrow> [] | Some f \<Rightarrow> f))))"

section \<open>Patterns\<close>

definition callChar :: "char \<Rightarrow> bool" where
  \<comment> \<open>\<open>[A-Z0-9/]\<close> under the flag \<open>i\<close>\<close>
  "callChar c \<longleftrightarrow> is_alnum (upper_char c) \<or> c = CHR ''/''"

definition call_rx :: "nat \<Rightarrow> rx" where
  "call_rx n = Grp n (Rep callChar 3 None)"

definition grid_rx :: rx where
  \<comment> \<open>\<open>[A-R]{2}\d{2}(?:[a-x]{2})?\<close>\<close>
  "grid_rx = Cat (Rep (ci (in_range CHR ''A'' CHR ''R'')) 2 (Some 2))
     (Cat (Rep isDigit 2 (Some 2)) (Opt (Rep (ci (in_range CHR ''A'' CHR ''X'')) 2 (Some 2))))"

definition report_rx :: rx where
  \<comment> \<open>\<open>R?[+-]\d{2}|RR73|RRR|73\<close>\<close>
  "report_rx = Alt (Cat (Opt (lit ''R'')) (Cat (one (\<lambda>c. c = CHR ''+'' \<or> c = CHR ''-'')) (Rep isDigit 2 (Some 2))))
     (Alt (lit ''RR73'') (Alt (lit ''RRR'') (lit ''73'')))"

definition CQ_REGEX :: rx where
  "CQ_REGEX = Cat (lit ''CQ'') (Cat blanks (Cat (Opt (Cat (Grp 1 (Rep wordChar 2 (Some 4))) blanks))
     (Cat (call_rx 2) (Cat blanks (Grp 3 grid_rx)))))"

definition QSO_GRID_REGEX :: rx where
  "QSO_GRID_REGEX = Cat (call_rx 1) (Cat blanks (Cat (call_rx 2) (Cat blanks (Grp 3 grid_rx))))"

definition QSO_REPORT_REGEX :: rx where
  "QSO_REPORT_REGEX = Cat (call_rx 1) (Cat blanks (Cat (call_rx 2) (Cat blanks (Grp 3 report_rx))))"

definition COMPOUND_REGEX :: rx where
  "COMPOUND_REGEX = Cat (one (\<lambda>c. c = CHR ''<'')) (Cat (call_rx 1) (Cat (one (\<lambda>c. c = CHR ''>''))
     (Cat blanks (Cat (call_rx 2) (Cat blanks (Grp 3 (Rep dot 1 None)))))))"

definition GRID_PATTERN :: rx where "GRID_PATTERN = grid_rx"
definition REPORT_PATTERN :: rx where "REPORT_PATTERN = report_rx"

definition FOX_SEGMENT_REGEX :: rx where
  "FOX_SEGMENT_REGEX = Cat (Grp 1 (Rep (\<lambda>c. callChar c \<or> c = CHR ''<'' \<or> c = CHR ''>'') 3 None))
     (Cat blanks (Cat (call_rx 2) (Cat blanks (Grp 3 (Rep dot 1 None)))))"

section \<open>Parsing\<close>

record FoxCallPair =
  fox_sender :: string
  fox_receiver :: string
  fox_report :: string

record ExtractedCallInfo =
  callsign :: "string option"
  info_grid :: "string option"
  isCQ :: bool
  info_cqDirection :: "string option"
  signalReport :: "string option"
  senderCallsign :: "string option"
  isCompound :: bool
  isFoxMulti :: bool
  foxCallPairs :: "FoxCallPair list"

definition no_info :: ExtractedCallInfo where
  \<comment> \<open>\<open>{}\<close>\<close>
  "no_info = \<lparr>callsign = None, info_grid = None, isCQ = False, info_cqDirection = None, signalReport = None,
     senderCallsign = None, isCompound = False, isFoxMulti = False, foxCallPairs = []\<rparr>"

fun split_on :: "char \<Rightarrow> string \<Rightarrow> string list" where
  \<comment> \<open>\<open>split\<close> at a single character\<close>
  "split_on x [] = [[]]"
| "split_on x (c # s) = (if c = x then [] # split_on x s
     else (case split_on x s of [] \<Rightarrow> [[c]] | w # ws \<Rightarrow> (c # w) # ws))"

definition fox_pairs :: "string \<Rightarrow> FoxCallPair list" where
  "fox_pairs trimmed =
     (let segments = filter (\<lambda>s. s \<noteq> []) (map trim (split_on CHR '';'' trimmed))
      in if length segments \<ge> 2
         then concat (map (\<lambda>seg. case full_match FOX_SEGMENT_REGEX seg of
             None \<Rightarrow> []
           | Some parts \<Rightarrow>
               [\<lparr>fox_sender = filter (\<lambda>c. c \<noteq> CHR ''<'' \<and> c \<noteq> CHR ''>'') (the (parts 1)),
                 fox_receiver = the (parts 2), fox_report = the (parts 3)\<rparr>]) segments)
         else [])"

definition extractCallInfo :: "string \<Rightarrow> ExtractedCallInfo" where
  "extractCallInfo message =
     (let trimmed = trim message;
          pairs = (if CHR '';'' \<in> set trimmed then fox_pairs trimmed else [])
      in if length pairs \<ge> 2 then
           no_info\<lparr>callsign := Some (fox_receiver (pairs ! 0)), senderCallsign := Some (fox_sender (pairs ! 0)),
             signalReport := Some (fox_report (pairs ! 0)), isFoxMulti := True, foxCallPairs := pairs\<rparr>
         else case full_match COMPOUND_REGEX trimmed of
           Some c \<Rightarrow>
             (let thirdField = trim (the (c 3))
              in no_info\<lparr>callsign := c 2, senderCallsign := c 1,
                  info_grid := (if full_match GRID_PATTERN thirdField \<noteq> None then Some thirdField else None),
                  signalReport := (if full_match REPORT_PATTERN thirdField \<noteq> None then Some thirdField else None),
                  isCompound := True\<rparr>)
         | None \<Rightarrow>
         (case full_match CQ_REGEX trimmed of
           Some c \<Rightarrow> no_info\<lparr>callsign := c 2, info_grid := c 3, isCQ := True, info_cqDirection := c 1, senderCallsign := c 2\<rparr>
         | None \<Rightarrow>
         (case full_match QSO_GRID_REGEX trimmed of
           Some c \<Rightarrow> no_info\<lparr>callsign := c 2, info_grid := c 3, senderCallsign := c 1\<rparr>
         | None \<Rightarrow>
         (case full_match QSO_REPORT_REGEX trimmed of
           Some c \<Rightarrow> no_info\<lparr>callsign := c 2, signalReport := c 3, senderCallsign := c 1\<rparr>
         | None \<Rightarrow> no_info))))"

section \<open>What the parser makes of three words\<close>

definition call_word :: "string \<Rightarrow> bool" where
  "call_word w \<longleftrightarrow> 3 \<le> length w \<and> (\<forall>c \<in> set w. is_alnum c \<or> c = CHR ''/'')"

lemma callChar_simps: "callChar c \<Longrightarrow> \<not> isSpace c"
proof -
  assume "callChar c"
  moreover have "\<not> is_alnum (upper_char c)" if "isSpace c"
    using that by (auto simp: char_simps upper_char_def Let_def)
  ultimately show ?thesis by (auto simp: callChar_def char_simps)
qed

lemma call_word_chars:
  assumes "call_word w"
  shows "\<forall>c \<in> set w. callChar c" "word_ok w" "CHR '';'' \<notin> set w" "w \<noteq> []" "hd w \<noteq> CHR ''<''"
proof -
  have s: "upper_char CHR ''/'' = CHR ''/''" "\<not> isSpace CHR ''/''"
    by (auto simp: char_simps upper_char_def)
  have c: "c = CHR ''/'' \<or> is_alnum c" if "c \<in> set w" for c using assms that by (auto simp: call_word_def)
  show "\<forall>c \<in> set w. callChar c"
    using c is_alnum_simps(2) by (metis callChar_def)
  show n: "w \<noteq> []" using assms by (auto simp: call_word_def)
  show "word_ok w"
    using c n s is_alnum_simps by (auto simp: word_ok_def)
  have x: "\<not> is_alnum CHR '';''" "\<not> is_alnum CHR ''<''" by (simp_all add: char_simps)
  show "CHR '';'' \<notin> set w" using c x by blast
  show "hd w \<noteq> CHR ''<''" using c[of "hd w"] n x by auto
qed

lemma cq_needs_blank:
  assumes "call_word a"
  shows "rmatch (Cat (lit ''CQ'') (Cat blanks r)) (c, a @ v) = []"
proof -
  obtain x y z a' where a: "a = x # y # z # a'"
    using assms by (auto simp: call_word_def numeral_3_eq_3 Suc_le_length_iff)
  have "\<not> isSpace z" using call_word_chars(1)[OF assms] callChar_simps a by simp
  then show ?thesis
    by (simp add: a rmatch_one)
qed

lemma two_calls:
  assumes "call_word a" "call_word b" "x \<noteq> []" "\<not> isSpace (hd x)"
  shows "rmatch (Cat (call_rx 1) (Cat blanks (Cat (call_rx 2) (Cat blanks r)))) (c, three_words a b x)
    = rmatch r (c(1 \<mapsto> a, 2 \<mapsto> b), x)"
proof -
  note w = call_word_chars[OF assms(1)] call_word_chars[OF assms(2)]
  have "3 \<le> length b" using assms(2) by (simp add: call_word_def)
  have "3 \<le> length a" using assms(1) by (simp add: call_word_def)
  moreover have "b @ CHR '' '' # x \<noteq> []" "\<not> isSpace (hd (b @ CHR '' '' # x))"
    using w(6,9) callChar_simps by auto
  ultimately have first: "rmatch (Cat (Grp 1 (Rep callChar 3 None)) (Cat blanks q)) (c, a @ CHR '' '' # b @ CHR '' '' # x)
      = rmatch q (c(1 \<mapsto> a), b @ CHR '' '' # x)" for q c
    using word_then_blank[OF w(1) callChar_simps, of 3 None] by blast
  have second: "rmatch (Cat (Grp 2 (Rep callChar 3 None)) (Cat blanks q)) (c, b @ CHR '' '' # x) = rmatch q (c(2 \<mapsto> b), x)" for q c
    using word_then_blank[OF w(6) callChar_simps, of 3 None x] \<open>3 \<le> length b\<close> assms(3,4) by blast
  show ?thesis
    unfolding three_words_def call_rx_def first second by (rule refl)
qed

lemma three_words_parts:
  assumes "call_word a" "call_word b" "x \<noteq> []" "\<not> isSpace (hd x)" "no_groups r"
  shows "full_match (Cat (call_rx 1) (Cat blanks (Cat (call_rx 2) (Cat blanks (Grp 3 r))))) (three_words a b x)
    = (if accepts r x then Some ((\<lambda>_. None)(1 \<mapsto> a, 2 \<mapsto> b, 3 \<mapsto> x)) else None)"
  unfolding full_match_def two_calls[OF assms(1-4)]
  by (simp only: rmatch.simps(5) prod.case rmatch_no_groups[OF assms(5)] find_group accepts_def) simp

lemma field_no_groups: "no_groups grid_rx" "no_groups report_rx"
  by (simp_all add: grid_rx_def report_rx_def one_def)

lemma parse_three_words:
  assumes "call_word a" "call_word b" "word_ok x" "CHR '';'' \<notin> set x"
  shows "extractCallInfo (three_words a b x) =
    (if accepts grid_rx x then no_info\<lparr>callsign := Some b, info_grid := Some x, senderCallsign := Some a\<rparr>
     else if accepts report_rx x then no_info\<lparr>callsign := Some b, signalReport := Some x, senderCallsign := Some a\<rparr>
     else no_info)"
proof -
  note a = call_word_chars[OF assms(1)] and b = call_word_chars[OF assms(2)]
  have x: "x \<noteq> []" "\<not> isSpace (hd x)" using assms(3) by (auto simp: word_ok_def)
  have t: "trim (three_words a b x) = three_words a b x"
    by (rule three_words_split(3)[OF a(2) b(2) assms(3)])
  have n: "CHR '';'' \<notin> set (three_words a b x)"
    using a(3) b(3) assms(4) by (auto simp: three_words_def)
  obtain y a' where y: "a = y # a'" "y \<noteq> CHR ''<''" using a(4,5) by (cases a) auto
  have c: "full_match COMPOUND_REGEX (three_words a b x) = None"
    using y by (simp add: full_match_def COMPOUND_REGEX_def rmatch_one three_words_def)
  have q: "full_match CQ_REGEX (three_words a b x) = None"
    unfolding full_match_def CQ_REGEX_def three_words_def cq_needs_blank[OF assms(1)] by simp
  show ?thesis
    using three_words_parts[OF assms(1,2) x field_no_groups(1), folded QSO_GRID_REGEX_def]
      three_words_parts[OF assms(1,2) x field_no_groups(2), folded QSO_REPORT_REGEX_def]
    by (simp add: extractCallInfo_def t n c q Let_def)
qed

end
