(* ===== verification/Ft8Sequencer.thy ===== *)
theory Ft8Sequencer
  imports Ft8Messages PromiseQueue
begin

text \<open>
  The FT8 auto-sequencer, the class \<open>Ft8AutoSequencer\<close> of \<open>src/lib/ft8/ft8AutoSequencer.ts\<close>.
  The state record has the fields of the class; what the class tells its listeners is the
  list of outputs of a step. The clock is an argument of the operations (\<open>now\<close>, the text
  \<open>new Date().toISOString()\<close>). The time-outs of \<open>setTimeout\<close> that have not fired are
  \<open>timers\<close>, a list of handles with the closure's saved direction: clearing or firing removes
  one, starting another contact does not.
\<close>

datatype AutoSeqState = IDLE | CQ_SENT | CALL_RECEIVED | REPORT_SENT | WAITING_RR73 | CALLING
  | REPORT_RECEIVED | RR73_SENT | QSO_COMPLETE

datatype AutoSeqMode = CqMode | CallMode
datatype digital_mode = FT8 | FT4

record Ft8AutoSequencerConfig =
  cfg_myCallsign :: string
  cfg_myGrid :: string
  cfg_mode :: digital_mode
  txFreqHz :: rat

record AutoSeqQsoResult =
  qr_callsign :: string
  qr_grid :: "string option"
  qr_reportSent :: string
  qr_reportReceived :: string
  qr_startTime :: string
  qr_endTime :: string
  qr_mode :: digital_mode
  qr_frequency :: rat

record Ft8AutoSequencer =
  config :: Ft8AutoSequencerConfig
  seq_state :: AutoSeqState
  seqMode :: "AutoSeqMode option"
  targetCallsign :: "string option"
  cqDirection :: "string option"
  targetGrid :: "string option"
  reportSent :: string
  reportReceived :: string
  qsoStartTime :: string
  cyclesSinceResponse :: nat
  totalRetries :: nat
  reCqTimer :: "nat option"
  timers :: "(nat \<times> string option) list"
  next_timer :: nat

datatype seq_out =
    TxRequest string "nat list" tx_type
  | QsoComplete AutoSeqQsoResult
  | StateChange AutoSeqState "string option"

type_synonym seq_action = "Ft8AutoSequencer \<Rightarrow> Ft8AutoSequencer \<times> seq_out list"

definition RETRY_CYCLE_THRESHOLD :: nat where "RETRY_CYCLE_THRESHOLD = 3"
definition MAX_RETRIES :: nat where "MAX_RETRIES = 5"

definition both :: "seq_action \<Rightarrow> seq_action \<Rightarrow> seq_action" where
  \<comment> \<open>one statement after the other\<close>
  "both f g s = (let (s1, o1) = f s; (s2, o2) = g s1 in (s2, o1 @ o2))"

definition upd :: "(Ft8AutoSequencer \<Rightarrow> Ft8AutoSequencer) \<Rightarrow> seq_action" where
  "upd f s = (f s, [])"

definition nothing :: seq_action where
  "nothing s = (s, [])"

definition truthy :: "string option \<Rightarrow> string option" where
  \<comment> \<open>an optional text in a condition: absent and empty are false\<close>
  "truthy x = (case x of None \<Rightarrow> None | Some v \<Rightarrow> if v = [] then None else Some v)"

section \<open>State management\<close>

definition transitionTo :: "AutoSeqState \<Rightarrow> string option \<Rightarrow> seq_action" where
  "transitionTo newState detail s =
     (s\<lparr>seq_state := newState\<rparr>, if seq_state s \<noteq> newState then [StateChange newState detail] else [])"

definition resetQsoState :: "Ft8AutoSequencer \<Rightarrow> Ft8AutoSequencer" where
  "resetQsoState s = s\<lparr>targetCallsign := None, targetGrid := None, reportSent := [], reportReceived := [],
     qsoStartTime := [], cyclesSinceResponse := 0, totalRetries := 0, seqMode := None, cqDirection := None\<rparr>"

definition clearReCqTimer :: "Ft8AutoSequencer \<Rightarrow> Ft8AutoSequencer" where
  "clearReCqTimer s = (case reCqTimer s of
     None \<Rightarrow> s
   | Some t \<Rightarrow> s\<lparr>reCqTimer := None, timers := filter (\<lambda>x. fst x \<noteq> t) (timers s)\<rparr>)"

definition new_sequencer :: "Ft8AutoSequencerConfig \<Rightarrow> Ft8AutoSequencer" where
  "new_sequencer cfg = \<lparr>config = cfg\<lparr>cfg_myCallsign := trim (toUpperCase (cfg_myCallsign cfg)),
       cfg_myGrid := trim (toUpperCase (cfg_myGrid cfg))\<rparr>,
     seq_state = IDLE, seqMode = None, targetCallsign = None, cqDirection = None, targetGrid = None,
     reportSent = [], reportReceived = [], qsoStartTime = [], cyclesSinceResponse = 0, totalRetries = 0,
     reCqTimer = None, timers = [], next_timer = 0\<rparr>"

section \<open>Transmissions\<close>

definition formatSnrReport :: "rat \<Rightarrow> string" where
  "formatSnrReport snr =
     (let clamped = max (- 30) (min 30 (js_round snr));
          sgn' = (if clamped \<ge> 0 then CHR ''+'' else CHR ''-'');
          magnitude = padStart 2 CHR ''0'' (nat_text (nat \<bar>clamped\<bar>))
      in sgn' # magnitude)"

definition params_of :: "Ft8AutoSequencer \<Rightarrow> tx_type \<Rightarrow> Ft8ComposeParams" where
  "params_of s t = \<lparr>cp_myCallsign = cfg_myCallsign (config s), cp_myGrid = cfg_myGrid (config s), cp_type = t,
     cp_targetCall = None, cp_report = None, cp_cqDirection = None, cp_freeText = None\<rparr>"

definition notifyTxRequest :: "Ft8ComposeParams \<Rightarrow> tx_type \<Rightarrow> seq_action" where
  "notifyTxRequest params t s =
     (let encoded = encodeFt8Message (composeFt8Message params)
      in (s, [TxRequest (ft8_text encoded) (ft8_symbols encoded) t]))"

definition emitCQ :: seq_action where
  "emitCQ s = notifyTxRequest ((params_of s TxCQ)\<lparr>cp_cqDirection := cqDirection s\<rparr>) TxCQ s"

definition emitTxRequest :: "tx_type \<Rightarrow> string option \<Rightarrow> seq_action" where
  "emitTxRequest t report s =
     (case truthy (targetCallsign s) of
        None \<Rightarrow> (s, [])
      | Some target \<Rightarrow> notifyTxRequest ((params_of s t)\<lparr>cp_targetCall := Some target, cp_report := report\<rparr>) t s)"

definition emitCallMessage :: seq_action where
  "emitCallMessage s =
     (case truthy (targetCallsign s) of
        None \<Rightarrow> (s, [])
      | Some target \<Rightarrow> notifyTxRequest ((params_of s TxGRID)\<lparr>cp_targetCall := Some target\<rparr>) TxGRID s)"

definition retransmitCurrentStage :: seq_action where
  "retransmitCurrentStage s =
     (case seq_state s of
        CQ_SENT \<Rightarrow> emitCQ s
      | CALLING \<Rightarrow> emitCallMessage s
      | REPORT_SENT \<Rightarrow> if reportSent s \<noteq> [] then emitTxRequest TxREPORT (Some (reportSent s)) s else (s, [])
      | WAITING_RR73 \<Rightarrow> emitTxRequest TxRR73 None s
      | RR73_SENT \<Rightarrow> if reportSent s \<noteq> [] then emitTxRequest TxREPORT (Some (''R'' @ reportSent s)) s else (s, [])
      | _ \<Rightarrow> (s, []))"

section \<open>Start, stop, configuration\<close>

definition startCQ :: "string \<Rightarrow> string option \<Rightarrow> seq_action" where
  "startCQ now direction =
     both (upd (\<lambda>s. (resetQsoState s)\<lparr>seqMode := Some CqMode, cqDirection := direction, qsoStartTime := now\<rparr>))
     (both (transitionTo CQ_SENT (Some (case direction of None \<Rightarrow> ''CQ'' | Some d \<Rightarrow> if d = [] then ''CQ'' else ''CQ '' @ d)))
       emitCQ)"

definition callStation :: "string \<Rightarrow> string \<Rightarrow> seq_action" where
  "callStation now target =
     both (upd (\<lambda>s. (resetQsoState s)\<lparr>seqMode := Some CallMode, targetCallsign := Some (trim (toUpperCase target)),
         qsoStartTime := now\<rparr>))
     (both (transitionTo CALLING (Some (trim (toUpperCase target)))) emitCallMessage)"

definition halt :: seq_action where
  "halt = both (upd (\<lambda>s. resetQsoState (clearReCqTimer s))) (transitionTo IDLE (Some ''halted by operator''))"

record partial_config =
  pc_myCallsign :: "string option"
  pc_myGrid :: "string option"
  pc_mode :: "digital_mode option"
  pc_txFreqHz :: "rat option"

definition updateConfig :: "partial_config \<Rightarrow> seq_action" where
  "updateConfig p s =
     (let c0 = config s;
          c1 = (case pc_myCallsign p of None \<Rightarrow> c0 | Some x \<Rightarrow> c0\<lparr>cfg_myCallsign := trim (toUpperCase x)\<rparr>);
          c2 = (case pc_myGrid p of None \<Rightarrow> c1 | Some x \<Rightarrow> c1\<lparr>cfg_myGrid := trim (toUpperCase x)\<rparr>);
          c3 = (case pc_mode p of None \<Rightarrow> c2 | Some x \<Rightarrow> c2\<lparr>cfg_mode := x\<rparr>);
          c4 = (case pc_txFreqHz p of None \<Rightarrow> c3 | Some x \<Rightarrow> c3\<lparr>txFreqHz := x\<rparr>)
      in (s\<lparr>config := c4\<rparr>, []))"

section \<open>Completion and retries\<close>

definition completeQso :: "string \<Rightarrow> seq_action" where
  "completeQso now =
     both (\<lambda>s. transitionTo QSO_COMPLETE (targetCallsign s) s)
     (both (\<lambda>s. (s, [QsoComplete \<lparr>qr_callsign = (case targetCallsign s of None \<Rightarrow> [] | Some t \<Rightarrow> t),
         qr_grid = targetGrid s, qr_reportSent = reportSent s, qr_reportReceived = reportReceived s,
         qr_startTime = qsoStartTime s, qr_endTime = now, qr_mode = cfg_mode (config s),
         qr_frequency = txFreqHz (config s)\<rparr>]))
     (\<lambda>s. let wasCqMode = (seqMode s = Some CqMode);
             savedDirection = cqDirection s;
             s1 = resetQsoState s
         in if wasCqMode
            then (s1\<lparr>reCqTimer := Some (next_timer s1), timers := timers s1 @ [(next_timer s1, savedDirection)],
                    next_timer := Suc (next_timer s1)\<rparr>, [])
            else transitionTo IDLE None s1))"

definition re_cq :: "string \<Rightarrow> nat \<Rightarrow> seq_action" where
  \<comment> \<open>the callback of the re-CQ time-out with handle \<open>t\<close>\<close>
  "re_cq now t s =
     (case map_of (timers s) t of
        None \<Rightarrow> (s, [])
      | Some direction \<Rightarrow>
          startCQ now direction (s\<lparr>timers := filter (\<lambda>x. fst x \<noteq> t) (timers s), reCqTimer := None\<rparr>))"

definition notifyRxCycleEnd :: seq_action where
  "notifyRxCycleEnd s =
     (if seq_state s = IDLE \<or> seq_state s = QSO_COMPLETE then (s, [])
      else let s1 = s\<lparr>cyclesSinceResponse := cyclesSinceResponse s + 1\<rparr> in
      if cyclesSinceResponse s1 \<ge> RETRY_CYCLE_THRESHOLD
      then let s2 = s1\<lparr>totalRetries := totalRetries s1 + 1, cyclesSinceResponse := 0\<rparr> in
           if totalRetries s2 > MAX_RETRIES
           then both (transitionTo IDLE (Some ''no response after maximum retries'')) (upd resetQsoState) s2
           else retransmitCurrentStage s2
      else (s1, []))"

section \<open>Decodes\<close>

definition isFromTarget :: "Ft8AutoSequencer \<Rightarrow> ExtractedCallInfo \<Rightarrow> bool" where
  "isFromTarget s info =
     (case targetCallsign s of
        None \<Rightarrow> False
      | Some t \<Rightarrow> t \<noteq> [] \<and> map_option toUpperCase (senderCallsign info) = Some t)"

definition isRelevantMessage :: "Ft8AutoSequencer \<Rightarrow> ExtractedCallInfo \<Rightarrow> bool" where
  "isRelevantMessage s info =
     (if map_option toUpperCase (callsign info) = Some (cfg_myCallsign (config s)) then True
      else if isFromTarget s info then True
      else isFoxMulti info \<and>
        (\<exists>pair \<in> set (foxCallPairs info). toUpperCase (fox_receiver pair) = cfg_myCallsign (config s)))"

definition is_final :: "string \<Rightarrow> bool" where
  "is_final rpt \<longleftrightarrow> rpt = ''RR73'' \<or> rpt = ''73''"

definition handleCqModeDecode :: "string \<Rightarrow> rat \<Rightarrow> ExtractedCallInfo \<Rightarrow> seq_action" where
  "handleCqModeDecode now snr info s =
     (case seq_state s of
        CQ_SENT \<Rightarrow>
          (case truthy (senderCallsign info) of
             None \<Rightarrow> (s, [])
           | Some sender \<Rightarrow>
               if map_option toUpperCase (callsign info) = Some (cfg_myCallsign (config s)) then
                 let target = toUpperCase sender;
                     report = formatSnrReport snr
                 in both (upd (\<lambda>s. s\<lparr>targetCallsign := Some target, targetGrid := info_grid info,
                        qsoStartTime := (if qsoStartTime s = [] then now else qsoStartTime s)\<rparr>))
                    (both (transitionTo CALL_RECEIVED (Some target))
                    (both (upd (\<lambda>s. s\<lparr>reportSent := report\<rparr>))
                    (both (emitTxRequest TxREPORT (Some report))
                      (transitionTo REPORT_SENT (Some (''sent '' @ report @ '' to '' @ target)))))) s
               else (s, []))
      | REPORT_SENT \<Rightarrow>
          if \<not> isFromTarget s info then (s, [])
          else (case map_option toUpperCase (truthy (signalReport info)) of
             None \<Rightarrow> (s, [])
           | Some rpt \<Rightarrow>
               if is_final rpt
               then both (upd (\<lambda>s. s\<lparr>reportReceived := rpt\<rparr>)) (both (emitTxRequest Tx73 None) (completeQso now)) s
               else both (upd (\<lambda>s. s\<lparr>reportReceived := rpt\<rparr>))
                      (both (transitionTo WAITING_RR73 (Some (''received '' @ rpt))) (emitTxRequest TxRR73 None)) s)
      | WAITING_RR73 \<Rightarrow>
          if \<not> isFromTarget s info then (s, [])
          else (case map_option toUpperCase (truthy (signalReport info)) of
             None \<Rightarrow> (s, [])
           | Some rpt \<Rightarrow> if is_final rpt then completeQso now s else emitTxRequest TxRR73 None s)
      | _ \<Rightarrow> (s, []))"

definition handleCallModeDecode :: "string \<Rightarrow> rat \<Rightarrow> ExtractedCallInfo \<Rightarrow> seq_action" where
  "handleCallModeDecode now snr info s =
     (case seq_state s of
        CALLING \<Rightarrow>
          if \<not> isFromTarget s info then (s, [])
          else (case map_option toUpperCase (truthy (signalReport info)) of
             Some rpt \<Rightarrow>
               (let report = formatSnrReport snr
                in both (upd (\<lambda>s. s\<lparr>reportReceived := rpt,
                       targetGrid := (if truthy (info_grid info) \<noteq> None \<and> truthy (targetGrid s) = None
                         then info_grid info else targetGrid s)\<rparr>))
                   (both (transitionTo REPORT_RECEIVED (Some (''received '' @ rpt)))
                   (both (upd (\<lambda>s. s\<lparr>reportSent := report\<rparr>))
                   (both (emitTxRequest TxREPORT (Some (''R'' @ report)))
                     (transitionTo RR73_SENT (Some (''sent R'' @ report)))))) s)
           | None \<Rightarrow>
               (case truthy (info_grid info) of
                  None \<Rightarrow> (s, [])
                | Some g \<Rightarrow>
                    both (upd (\<lambda>s. s\<lparr>targetGrid := (if truthy (targetGrid s) = None then Some g else targetGrid s)\<rparr>))
                      emitCallMessage s))
      | RR73_SENT \<Rightarrow>
          if \<not> isFromTarget s info then (s, [])
          else (case map_option toUpperCase (truthy (signalReport info)) of
             None \<Rightarrow> (s, [])
           | Some rpt \<Rightarrow>
               if is_final rpt then both (emitTxRequest Tx73 None) (completeQso now) s
               else let report = formatSnrReport snr
                    in both (upd (\<lambda>s. s\<lparr>reportSent := report\<rparr>)) (emitTxRequest TxREPORT (Some (''R'' @ report))) s)
      | _ \<Rightarrow> (s, []))"

definition handleDecode :: "string \<Rightarrow> string \<Rightarrow> rat \<Rightarrow> seq_action" where
  "handleDecode now message snr s =
     (if seq_state s = IDLE then (s, [])
      else let info = extractCallInfo message in
      if \<not> isRelevantMessage s info then (s, [])
      else let s1 = s\<lparr>cyclesSinceResponse := 0, totalRetries := 0\<rparr> in
      (case seqMode s1 of
         Some CqMode \<Rightarrow> handleCqModeDecode now snr info s1
       | Some CallMode \<Rightarrow> handleCallModeDecode now snr info s1
       | None \<Rightarrow> (s1, [])))"

section \<open>Runs\<close>

datatype seq_event =
    StartCQ "string option"
  | CallStation string
  | Halt
  | UpdateConfig partial_config
  | Decode string rat
  | RxCycleEnd
  | ReCqFires nat

fun seq_step :: "Ft8AutoSequencer \<Rightarrow> string \<times> seq_event \<Rightarrow> Ft8AutoSequencer \<times> seq_out list" where
  "seq_step s (now, StartCQ d) = startCQ now d s"
| "seq_step s (now, CallStation t) = callStation now t s"
| "seq_step s (now, Halt) = halt s"
| "seq_step s (now, UpdateConfig p) = updateConfig p s"
| "seq_step s (now, Decode m snr) = handleDecode now m snr s"
| "seq_step s (now, RxCycleEnd) = notifyRxCycleEnd s"
| "seq_step s (now, ReCqFires t) = re_cq now t s"

abbreviation seq_run :: "Ft8AutoSequencer \<Rightarrow> (string \<times> seq_event) list \<Rightarrow> Ft8AutoSequencer \<times> seq_out list" where
  "seq_run \<equiv> steps seq_step"

section \<open>Lemmas\<close>

lemmas seq_combinators = both_def upd_def nothing_def transitionTo_def notifyTxRequest_def Let_def

lemmas seq_emit = emitCQ_def emitTxRequest_def emitCallMessage_def

lemmas seq_ops = startCQ_def callStation_def halt_def updateConfig_def completeQso_def re_cq_def
  notifyRxCycleEnd_def retransmitCurrentStage_def

lemmas seq_decode = handleDecode_def handleCqModeDecode_def handleCallModeDecode_def

lemma emit_keeps [simp]:
  "fst (emitCQ s) = s" "fst (emitTxRequest t r s) = s" "fst (emitCallMessage s) = s"
  "fst (retransmitCurrentStage s) = s"
  by (simp_all add: seq_emit retransmitCurrentStage_def notifyTxRequest_def Let_def split: option.splits AutoSeqState.splits)

lemma fst_both [simp]: "fst (both f g s) = fst (g (fst (f s)))"
  by (simp add: both_def case_prod_beta Let_def)

lemma snd_both [simp]: "snd (both f g s) = snd (f s) @ snd (g (fst (f s)))"
  by (simp add: both_def case_prod_beta Let_def)

lemma upd_simps [simp]: "fst (upd f s) = f s" "snd (upd f s) = []"
  by (simp_all add: upd_def)

lemma transition_simps [simp]: "fst (transitionTo st d s) = s\<lparr>seq_state := st\<rparr>"
  by (simp add: transitionTo_def)

lemma snr_report_nonempty [simp]: "formatSnrReport snr \<noteq> []"
  by (simp add: formatSnrReport_def Let_def)

definition seq_ok :: "Ft8AutoSequencer \<Rightarrow> bool" where
  "seq_ok s \<longleftrightarrow>
     cyclesSinceResponse s < 3 \<and> totalRetries s \<le> 5 \<and>
     (case seq_state s of
        IDLE \<Rightarrow> seqMode s = None
      | CQ_SENT \<Rightarrow> seqMode s = Some CqMode
      | REPORT_SENT \<Rightarrow> seqMode s = Some CqMode \<and> targetCallsign s \<noteq> None \<and> reportSent s \<noteq> []
      | WAITING_RR73 \<Rightarrow> seqMode s = Some CqMode \<and> targetCallsign s \<noteq> None \<and> reportSent s \<noteq> []
      | CALLING \<Rightarrow> seqMode s = Some CallMode \<and> targetCallsign s \<noteq> None
      | RR73_SENT \<Rightarrow> seqMode s = Some CallMode \<and> targetCallsign s \<noteq> None \<and> reportSent s \<noteq> []
      | QSO_COMPLETE \<Rightarrow> seqMode s = None \<and> (\<exists>t. reCqTimer s = Some t \<and> t \<in> fst ` set (timers s))
      | CALL_RECEIVED \<Rightarrow> False
      | REPORT_RECEIVED \<Rightarrow> False)"

lemma seq_ok_new: "seq_ok (new_sequencer cfg)"
  by (simp add: seq_ok_def new_sequencer_def)

lemma decode_ok: "seq_ok s \<Longrightarrow> seq_ok (fst (handleDecode now m snr s))"
  by (cases "seq_state s")
    (auto simp: seq_ok_def handleDecode_def handleCqModeDecode_def handleCallModeDecode_def Let_def completeQso_def
      resetQsoState_def split: option.splits)

lemma cycle_ok: "seq_ok s \<Longrightarrow> seq_ok (fst (notifyRxCycleEnd s))"
  by (cases "seq_state s")
    (auto simp: seq_ok_def notifyRxCycleEnd_def Let_def RETRY_CYCLE_THRESHOLD_def MAX_RETRIES_def resetQsoState_def)

lemma seq_ok_step: "seq_ok s \<Longrightarrow> seq_ok (fst (seq_step s e))"
proof -
  assume ok: "seq_ok s"
  obtain now ev where e: "e = (now, ev)" by (cases e)
  show ?thesis
  proof (cases ev)
    case (UpdateConfig p)
    have "seq_ok (s\<lparr>config := c\<rparr>)" for c using ok by (cases "seq_state s") (simp_all add: seq_ok_def)
    then show ?thesis unfolding e UpdateConfig seq_step.simps updateConfig_def Let_def fst_conv .
  next
    case (ReCqFires t)
    then show ?thesis
      using ok by (cases "map_of (timers s) t") (simp_all add: e re_cq_def, simp add: startCQ_def seq_ok_def resetQsoState_def)
  qed (use ok decode_ok cycle_ok in \<open>auto simp: e startCQ_def callStation_def halt_def seq_ok_def resetQsoState_def\<close>)
qed

lemma seq_reachable: "seq_ok (fst (seq_run (new_sequencer cfg) es))"
  by (rule steps_ok[where ok = seq_ok]) (simp_all add: seq_ok_step seq_ok_new)

section \<open>Who can complete a contact\<close>

definition completes :: "seq_out list \<Rightarrow> bool" where
  "completes os \<longleftrightarrow> (\<exists>q. QsoComplete q \<in> set os)"

definition final_free :: "string \<Rightarrow> bool" where
  \<comment> \<open>the parser finds no final acknowledgement in the text\<close>
  "final_free m \<longleftrightarrow> (case map_option toUpperCase (truthy (signalReport (extractCallInfo m))) of
     None \<Rightarrow> True | Some rpt \<Rightarrow> \<not> is_final rpt)"

lemma completes_append [simp]: "completes (xs @ ys) \<longleftrightarrow> completes xs \<or> completes ys" "\<not> completes []"
  by (auto simp: completes_def)

lemma emit_completes [simp]:
  "\<not> completes (snd (emitCQ s))" "\<not> completes (snd (emitTxRequest t r s))" "\<not> completes (snd (emitCallMessage s))"
  "\<not> completes (snd (retransmitCurrentStage s))" "\<not> completes (snd (transitionTo st d s))"
  by (auto simp: completes_def seq_emit retransmitCurrentStage_def notifyTxRequest_def transitionTo_def Let_def
      split: option.splits AutoSeqState.splits)

lemma decode_completes: "final_free m \<Longrightarrow> \<not> completes (snd (handleDecode now m snr s))"
  by (auto simp: final_free_def handleDecode_def handleCqModeDecode_def handleCallModeDecode_def Let_def
      split: option.splits AutoSeqMode.splits AutoSeqState.splits)

lemma step_completes:
  assumes "case e of Decode m snr \<Rightarrow> final_free m | _ \<Rightarrow> True"
  shows "\<not> completes (snd (seq_step s (now, e)))"
proof (cases e)
  case (UpdateConfig p)
  then show ?thesis by (simp add: updateConfig_def Let_def)
next
  case (Decode m snr)
  then show ?thesis using assms decode_completes by simp
qed (auto simp: startCQ_def callStation_def halt_def notifyRxCycleEnd_def re_cq_def Let_def split: option.splits)

section \<open>Silence\<close>

definition active_seq :: "Ft8AutoSequencer \<Rightarrow> bool" where
  "active_seq s \<longleftrightarrow> seq_state s \<noteq> IDLE \<and> seq_state s \<noteq> QSO_COMPLETE"

definition waited :: "Ft8AutoSequencer \<Rightarrow> nat" where
  "waited s = 3 * totalRetries s + cyclesSinceResponse s"

fun is_tx :: "seq_out \<Rightarrow> bool" where
  "is_tx (TxRequest m syms t) = True"
| "is_tx _ = False"

definition sent :: "seq_out list \<Rightarrow> nat" where
  "sent os = length (filter is_tx os)"

lemma sent_append [simp]: "sent (xs @ ys) = sent xs + sent ys"
  by (simp add: sent_def)

lemma retransmit_one: "sent (snd (retransmitCurrentStage s)) \<le> 1"
  by (auto simp: sent_def seq_emit retransmitCurrentStage_def notifyTxRequest_def Let_def
      split: option.splits AutoSeqState.splits)

lemma silent_cycle:
  assumes "seq_ok s" "active_seq s"
  shows "waited s \<le> 17"
    "waited s = 17 \<Longrightarrow> seq_state (fst (notifyRxCycleEnd s)) = IDLE \<and> sent (snd (notifyRxCycleEnd s)) = 0"
    "waited s < 17 \<Longrightarrow> seq_state (fst (notifyRxCycleEnd s)) = seq_state s \<and>
       waited (fst (notifyRxCycleEnd s)) = waited s + 1 \<and>
       sent (snd (notifyRxCycleEnd s)) + totalRetries s \<le> totalRetries (fst (notifyRxCycleEnd s))"
proof -
  have b: "cyclesSinceResponse s \<le> 2" "totalRetries s \<le> 5" using assms(1) by (auto simp: seq_ok_def)
  then show "waited s \<le> 17" by (simp add: waited_def)
  have e: "notifyRxCycleEnd s =
    (if cyclesSinceResponse s = 2
     then if totalRetries s = 5
          then both (transitionTo IDLE (Some ''no response after maximum retries'')) (upd resetQsoState)
                 (s\<lparr>totalRetries := 6, cyclesSinceResponse := 0\<rparr>)
          else retransmitCurrentStage (s\<lparr>totalRetries := totalRetries s + 1, cyclesSinceResponse := 0\<rparr>)
     else (s\<lparr>cyclesSinceResponse := cyclesSinceResponse s + 1\<rparr>, []))"
    using assms(2) b by (auto simp: notifyRxCycleEnd_def active_seq_def Let_def RETRY_CYCLE_THRESHOLD_def MAX_RETRIES_def)
  show "waited s = 17 \<Longrightarrow> seq_state (fst (notifyRxCycleEnd s)) = IDLE \<and> sent (snd (notifyRxCycleEnd s)) = 0"
  proof -
    assume "waited s = 17"
    then have "cyclesSinceResponse s = 2" "totalRetries s = 5" using b unfolding waited_def by presburger+
    then show ?thesis by (simp add: e resetQsoState_def) (simp add: transitionTo_def sent_def)
  qed
  show "waited s < 17 \<Longrightarrow> seq_state (fst (notifyRxCycleEnd s)) = seq_state s \<and>
       waited (fst (notifyRxCycleEnd s)) = waited s + 1 \<and>
       sent (snd (notifyRxCycleEnd s)) + totalRetries s \<le> totalRetries (fst (notifyRxCycleEnd s))"
    using b retransmit_one[of "s\<lparr>totalRetries := totalRetries s + 1, cyclesSinceResponse := 0\<rparr>"]
    by (auto simp: e waited_def sent_def)
qed

lemma silent_run:
  assumes "seq_ok s" "active_seq s" "length nows = 18 - waited s"
  shows "seq_state (fst (seq_run s (map (\<lambda>n. (n, RxCycleEnd)) nows))) = IDLE \<and>
    sent (snd (seq_run s (map (\<lambda>n. (n, RxCycleEnd)) nows))) + totalRetries s \<le> 5"
  using assms
proof (induction nows arbitrary: s)
  case Nil
  then show ?case using silent_cycle(1)[of s] by simp
next
  case (Cons n nows)
  note c = silent_cycle[OF Cons.prems(1,2)]
  show ?case
  proof (cases "waited s = 17")
    case True
    then have "nows = []" "totalRetries s = 5" using Cons.prems(1,3) by (auto simp: waited_def seq_ok_def)
    then show ?thesis using c(2)[OF True] by (simp add: case_prod_beta Let_def)
  next
    case False
    then have w: "waited s < 17" using c(1) by simp
    let ?s = "fst (notifyRxCycleEnd s)"
    have "seq_ok ?s" "active_seq ?s" "length nows = 18 - waited ?s"
      using cycle_ok[OF Cons.prems(1)] c(3)[OF w] Cons.prems(2,3) w by (simp_all add: active_seq_def)
    from Cons.IH[OF this] c(3)[OF w] show ?thesis by (simp add: case_prod_beta Let_def)
  qed
qed

end
