(* ===== verification/Ft8Contacts.thy ===== *)
theory Ft8Contacts
  imports Ft8Sequencer
begin

text \<open>
  Contacts between stations that run the FT8 auto-sequencer: what the texts it transmits mean
  to its own parser, a closed world of such stations (\<open>on_air\<close>), and the properties of the
  sequencer.
\<close>

section \<open>A contact that is answered with 73\<close>

lemma short_fields:
  "accepts grid_rx ''73'' = False" "accepts report_rx ''73'' = True" "accepts grid_rx ''RR73'' = True"
  by code_simp+

lemma grid_accepted: "isGridLocator g \<Longrightarrow> accepts grid_rx g"
proof -
  assume g: "isGridLocator g"
  then have l: "length g = 4" by (simp add: isGridLocator_def)
  then obtain a b c d where e: "g = [a, b, c, d]"
    by (auto simp: numeral_eq_Suc length_Suc_conv)
  have r: "ci (in_range CHR ''A'' CHR ''R'') a" "ci (in_range CHR ''A'' CHR ''R'') b" "isDigit c" "isDigit d"
    using g by (auto simp: isGridLocator_def e ci_def in_range_def in_A_R_def)
  then show ?thesis
    by (simp add: accepts_def grid_rx_def rests_simps rests_two e)
qed

lemma not_grid:
  "x \<noteq> [] \<Longrightarrow> \<not> ci (in_range CHR ''A'' CHR ''R'') (hd x) \<Longrightarrow> \<not> accepts grid_rx x"
  "x \<noteq> [] \<Longrightarrow> \<not> ci (in_range CHR ''A'' CHR ''R'') (hd (tl x)) \<Longrightarrow> \<not> accepts grid_rx x"
  by (cases x; auto simp: accepts_def grid_rx_def rests_simps rests_two split: list.splits)+

lemma snr_report_form:
  "\<exists>s a b. formatSnrReport snr = [s, a, b] \<and> (s = CHR ''+'' \<or> s = CHR ''-'') \<and> isDigit a \<and> isDigit b"
proof -
  define n where "n = nat \<bar>max (- 30) (min 30 (js_round snr))\<bar>"
  have n: "n \<le> 30" unfolding n_def by auto
  have d: "isDigit (char_of (48 + k))" if "k < 10" for k :: nat
    using that by (simp add: isDigit_def) (simp add: code_def)
  have "\<exists>a b. padStart 2 CHR ''0'' (nat_text n) = [a, b] \<and> isDigit a \<and> isDigit b"
  proof (cases "n < 10")
    case True
    have "isDigit CHR ''0''" by (simp add: isDigit_def code_def)
    then show ?thesis using True d[of n] by (simp add: nat_text.simps[of n] padStart_def)
  next
    case False
    then have "n div 10 < 10" "n mod 10 < 10" using n by simp_all
    then show ?thesis using False d[of "n div 10"] d[of "n mod 10"]
      by (simp add: nat_text.simps[of n] nat_text.simps[of "n div 10"] padStart_def)
  qed
  then show ?thesis
    unfolding formatSnrReport_def Let_def n_def[symmetric] by auto
qed

lemma snr_report_fields:
  fixes snr
  defines "r \<equiv> formatSnrReport snr"
  shows "\<not> accepts grid_rx r" "accepts report_rx r" "\<not> accepts grid_rx (''R'' @ r)" "accepts report_rx (''R'' @ r)"
    "word_ok r" "CHR '';'' \<notin> set r" "\<not> is_final r" "\<not> is_final (''R'' @ r)"
proof -
  obtain s a b where r: "r = [s, a, b]" "s = CHR ''+'' \<or> s = CHR ''-''" "isDigit a" "isDigit b"
    using snr_report_form[of snr] unfolding r_def by blast
  have g: "\<not> ci (in_range CHR ''A'' CHR ''R'') s"
    using r(2) by (auto simp: ci_def in_range_def upper_char_def code_def)
  show "\<not> accepts grid_rx r" using not_grid(1)[of r] g by (simp add: r(1))
  show "\<not> accepts grid_rx (''R'' @ r)" using not_grid(2)[of "''R'' @ r"] g by (simp add: r(1))
  have l: "ci (\<lambda>c. c = CHR ''R'') CHR ''R''" by (simp add: ci_def upper_char_def)
  show "accepts report_rx r" "accepts report_rx (''R'' @ r)"
    unfolding report_rx_def accepts_Alt r(1) using r(2-4) l
    by (intro disjI1; force simp: accepts_def rests_simps rests_one rests_two)+
  have d: "\<not> isSpace c \<and> upper_char c = c \<and> c \<noteq> CHR '';''" if "isDigit c" for c
    using that by (auto simp: char_simps upper_char_def Let_def)
  have s: "\<not> isSpace s \<and> upper_char s = s \<and> s \<noteq> CHR '';''"
    using r(2) by (auto simp: isSpace_def code_def upper_char_def)
  show "word_ok r" "CHR '';'' \<notin> set r"
    using s d[OF r(3)] d[OF r(4)] by (auto simp: r(1) word_ok_def)
  show "\<not> is_final r" "\<not> is_final (''R'' @ r)"
    using r(2) by (auto simp: r(1) is_final_def)
qed

section \<open>Texts on the air\<close>

definition nice_text :: "string \<Rightarrow> bool" where
  \<comment> \<open>no final acknowledgement; a sender the parser finds is a callsign or the station called\<close>
  "nice_text m \<longleftrightarrow> final_free m \<and>
     (\<forall>sender. truthy (senderCallsign (extractCallInfo m)) = Some sender \<longrightarrow>
        call_word (toUpperCase sender) \<or> map_option toUpperCase (callsign (extractCallInfo m)) = Some (toUpperCase sender))"

definition dir_ok :: "string option \<Rightarrow> bool" where
  "dir_ok d \<longleftrightarrow> (case d of None \<Rightarrow> True | Some x \<Rightarrow> CHR '';'' \<notin> set x)"

definition station_ok :: "Ft8AutoSequencer \<Rightarrow> bool" where
  "station_ok s \<longleftrightarrow>
     call_word (cfg_myCallsign (config s)) \<and> isGridLocator (take 4 (cfg_myGrid (config s))) \<and>
     word_ok (take 4 (cfg_myGrid (config s))) \<and> cfg_myGrid (config s) = trim (toUpperCase (cfg_myGrid (config s))) \<and>
     (case targetCallsign s of None \<Rightarrow> True | Some t \<Rightarrow> call_word t) \<and>
     (reportSent s = [] \<or> (\<exists>snr. reportSent s = formatSnrReport snr)) \<and>
     dir_ok (cqDirection s) \<and> (\<forall>x \<in> set (timers s). dir_ok (snd x))"

lemma ft8_text_simp [simp]: "ft8_text (encodeFt8Message m) = trim (toUpperCase m)"
  by (simp add: encodeFt8Message_def Let_def)

lemma upper_no_semicolon [simp]: "CHR '';'' \<in> set (toUpperCase s) \<longleftrightarrow> CHR '';'' \<in> set s"
proof -
  have "upper_char c = CHR '';'' \<longleftrightarrow> c = CHR '';''" for c
  proof (cases "97 \<le> code c \<and> code c \<le> 122")
    case True
    then have u: "upper_char c = char_of (code c - 32)" by (simp add: upper_char_def code_def Let_def)
    define k where "k = code c - 32"
    have "k < 256" "65 \<le> k" using True unfolding k_def by arith+
    then have "code (upper_char c) \<ge> 65" unfolding u k_def[symmetric] by simp
    moreover have "code c \<ge> 97" using True by simp
    ultimately have "upper_char c \<noteq> CHR '';''" "c \<noteq> CHR '';''" by (auto simp: code_def)
    then show ?thesis by simp
  next
    case False
    then have "upper_char c = c" by (auto simp: upper_char_def code_def Let_def)
    then show ?thesis by simp
  qed
  then show ?thesis unfolding toUpperCase_def set_map image_iff by metis
qed

lemma trim_subset: "set (trim s) \<subseteq> set s"
  unfolding trim_def by (metis set_dropWhileD set_rev subsetI)

lemma three_words_nice:
  assumes "call_word a" "call_word b" "word_ok x" "CHR '';'' \<notin> set x"
    "accepts grid_rx x \<or> (accepts report_rx x \<and> \<not> is_final x)"
  shows "nice_text (three_words a b x)"
proof -
  have "toUpperCase a = a" "toUpperCase x = x"
    using call_word_chars(2)[OF assms(1)] assms(3) by (simp_all add: word_ok_def)
  then show ?thesis
    using assms(1,5) unfolding nice_text_def final_free_def parse_three_words[OF assms(1-4)]
    by (auto simp: no_info_def truthy_def)
qed

lemma cq_text_nice:
  assumes "trim m = CHR ''C'' # CHR ''Q'' # v" "v = [] \<or> isSpace (hd v)" "CHR '';'' \<notin> set m"
  shows "nice_text m"
proof -
  have n: "CHR '';'' \<notin> set (trim m)" using assms(3) trim_subset by blast
  have c: "full_match COMPOUND_REGEX (trim m) = None"
    by (simp add: full_match_def COMPOUND_REGEX_def rmatch_one assms(1))
  have "\<not> callChar (hd v)" if "v \<noteq> []" using assms(2) that callChar_simps by blast
  then have "takeWhile callChar v = []" by (cases v) auto
  then have "length (takeWhile callChar (trim m)) < 3" by (simp add: assms(1))
  note short = word_too_short(1)[OF this]
  have g: "full_match QSO_GRID_REGEX (trim m) = None" "full_match QSO_REPORT_REGEX (trim m) = None"
    unfolding full_match_def QSO_GRID_REGEX_def QSO_REPORT_REGEX_def call_rx_def short by simp_all
  show ?thesis
    unfolding nice_text_def final_free_def
    by (auto simp: extractCallInfo_def n c g Let_def no_info_def truthy_def split: option.splits)
qed

definition good_step :: "Ft8AutoSequencer \<times> seq_out list \<Rightarrow> bool" where
  "good_step r \<longleftrightarrow> station_ok (fst r) \<and> (\<forall>m syms t. TxRequest m syms t \<in> set (snd r) \<longrightarrow> nice_text m)"

lemma good_both: "good_step (f s) \<Longrightarrow> good_step (g (fst (f s))) \<Longrightarrow> good_step (both f g s)"
  unfolding good_step_def fst_both snd_both set_append by blast

lemma good_upd: "station_ok (f s) \<Longrightarrow> good_step (upd f s)"
  by (simp add: good_step_def)

lemma good_transition: "station_ok s \<Longrightarrow> good_step (transitionTo st d s)"
  by (auto simp: good_step_def station_ok_def transitionTo_def)

lemma good_same: "station_ok s \<Longrightarrow> good_step (s, [])"
  by (simp add: good_step_def)

lemma station_words:
  assumes "station_ok s"
  shows "trim (toUpperCase (cfg_myCallsign (config s))) = cfg_myCallsign (config s)"
    "targetCallsign s = Some t \<Longrightarrow> trim (toUpperCase t) = t \<and> t \<noteq> [] \<and> call_word t"
  using assms call_word_chars(2,4)[of "cfg_myCallsign (config s)"] call_word_chars(2,4)[of t]
  by (auto simp: station_ok_def word_ok_def)

lemma grid_no_semicolon:
  assumes "isGridLocator g" "word_ok g"
  shows "CHR '';'' \<notin> set g"
proof -
  obtain a b c d where e: "g = [a, b, c, d]"
    using assms(1) list4[of g] unfolding isGridLocator_def by blast
  then have "upper_char a = a" "upper_char b = b" using assms(2) unfolding e word_ok_def by simp_all
  then have "in_A_R a" "in_A_R b" "isDigit c" "isDigit d" using assms(1) unfolding e isGridLocator_def by simp_all
  then show ?thesis unfolding e by (auto simp: in_A_R_def isDigit_def code_def)
qed

lemma good_to_target:
  assumes "station_ok s" "targetCallsign s = Some t"
    "composeFt8Message p = cfg_myCallsign (config s) @ '' '' @ t @ '' '' @ x" "word_ok x" "CHR '';'' \<notin> set x"
    "accepts grid_rx x \<or> (accepts report_rx x \<and> \<not> is_final x)"
  shows "good_step (notifyTxRequest p ty s)"
proof -
  have c: "call_word (cfg_myCallsign (config s))" "call_word t"
    using assms(1,2) by (auto simp: station_ok_def)
  have "composeFt8Message p = three_words (cfg_myCallsign (config s)) t x"
    using assms(3) by (simp add: three_words_def)
  then have "trim (toUpperCase (composeFt8Message p)) = three_words (cfg_myCallsign (config s)) t x"
    using three_words_split(2,3)[OF call_word_chars(2)[OF c(1)] call_word_chars(2)[OF c(2)] assms(4)] by simp
  then show ?thesis
    using assms(1) three_words_nice[OF c assms(4-6)] by (simp add: good_step_def notifyTxRequest_def Let_def)
qed

lemma good_report:
  assumes "station_ok s" "r = formatSnrReport snr \<or> r = ''R'' @ formatSnrReport snr"
  shows "good_step (emitTxRequest TxREPORT (Some r) s)"
proof (cases "targetCallsign s")
  case None
  then show ?thesis using assms(1) by (simp add: emitTxRequest_def truthy_def good_same)
next
  case (Some t)
  note w = station_words(1)[OF assms(1)] station_words(2)[OF assms(1) Some]
  have "word_ok r" "CHR '';'' \<notin> set r" "accepts grid_rx r \<or> (accepts report_rx r \<and> \<not> is_final r)"
    using assms(2) snr_report_fields[of snr] by (auto simp: word_ok_def char_simps upper_char_def)
  then show ?thesis
    using w Some good_to_target[OF assms(1) Some, of "(params_of s TxREPORT)\<lparr>cp_targetCall := Some t, cp_report := Some r\<rparr>" r]
    by (simp add: emitTxRequest_def truthy_def composeFt8Message_def params_of_def Let_def)
qed

lemma good_rr73: "station_ok s \<Longrightarrow> good_step (emitTxRequest TxRR73 None s)"
proof (cases "targetCallsign s")
  case None
  assume "station_ok s"
  then show ?thesis using None by (simp add: emitTxRequest_def truthy_def good_same)
next
  case (Some t)
  assume ok: "station_ok s"
  note w = station_words(1)[OF ok] station_words(2)[OF ok Some]
  have "word_ok ''RR73''" "CHR '';'' \<notin> set ''RR73''" by code_simp+
  then show ?thesis
    using w Some good_to_target[OF ok Some, of "(params_of s TxRR73)\<lparr>cp_targetCall := Some t, cp_report := None\<rparr>" "''RR73''"]
      short_fields(3)
    by (simp add: emitTxRequest_def truthy_def composeFt8Message_def params_of_def Let_def)
qed

lemma good_call: "station_ok s \<Longrightarrow> good_step (emitCallMessage s)"
proof (cases "targetCallsign s")
  case None
  assume "station_ok s"
  then show ?thesis using None by (simp add: emitCallMessage_def truthy_def good_same)
next
  case (Some t)
  assume ok: "station_ok s"
  let ?g = "take 4 (cfg_myGrid (config s))"
  note w = station_words(1)[OF ok] station_words(2)[OF ok Some]
  have g: "isGridLocator ?g" "word_ok ?g" "trim (toUpperCase (cfg_myGrid (config s))) = cfg_myGrid (config s)"
    using ok by (auto simp: station_ok_def)
  have "CHR '';'' \<notin> set ?g" by (rule grid_no_semicolon[OF g(1,2)])
  then show ?thesis
    using w Some g(2,3) grid_accepted[OF g(1)]
      good_to_target[OF ok Some, of "(params_of s TxGRID)\<lparr>cp_targetCall := Some t\<rparr>" ?g]
    by (simp add: emitCallMessage_def truthy_def composeFt8Message_def params_of_def Let_def)
qed

lemma trim_front:
  assumes "\<not> isSpace x" "\<not> isSpace y"
  shows "\<exists>w. trim (x # y # v) = x # y # w \<and> (w = [] \<or> (v \<noteq> [] \<and> hd w = hd v))"
proof -
  have "dropWhile isSpace (rev v @ [y, x]) = dropWhile isSpace (rev v) @ [y, x]"
    using assms(2) by (induction v rule: rev_induct) (auto simp: dropWhile_append3)
  then have t: "trim (x # y # v) = x # y # rev (dropWhile isSpace (rev v))"
    using assms(1) by (simp add: trim_def)
  obtain u where "rev v = u @ dropWhile isSpace (rev v)"
    by (metis takeWhile_dropWhile_id)
  then have "v = rev (dropWhile isSpace (rev v)) @ rev u"
    by (metis rev_append rev_rev_ident)
  then show ?thesis unfolding t
    by (metis hd_append2 append_is_Nil_conv)
qed

lemma good_cq: "station_ok s \<Longrightarrow> good_step (emitCQ s)"
proof -
  assume ok: "station_ok s"
  let ?p = "(params_of s TxCQ)\<lparr>cp_cqDirection := cqDirection s\<rparr>"
  let ?m = "composeFt8Message ?p"
  have g: "CHR '';'' \<notin> set (take 4 (cfg_myGrid (config s)))"
    using ok by (intro grid_no_semicolon) (simp_all add: station_ok_def)
  have c: "CHR '';'' \<notin> set (cfg_myCallsign (config s))"
    using ok call_word_chars(3) by (simp add: station_ok_def)
  have gr: "trim (toUpperCase (cfg_myGrid (config s))) = cfg_myGrid (config s)"
    using ok by (simp add: station_ok_def)
  have d: "CHR '';'' \<notin> set (trim (toUpperCase x))" if "cqDirection s = Some x" for x
    using ok that trim_subset[of "toUpperCase x"] by (auto simp: station_ok_def dir_ok_def)
  have "\<exists>w. ?m = ''CQ '' @ w \<and> CHR '';'' \<notin> set w"
    using c g d station_words(1)[OF ok]
    by (auto simp: composeFt8Message_def params_of_def Let_def gr split: option.splits)
  then obtain w where m: "?m = ''CQ '' @ w" "CHR '';'' \<notin> set w" by blast
  have up: "toUpperCase ?m = CHR ''C'' # CHR ''Q'' # CHR '' '' # toUpperCase w"
    by (simp add: m(1) toUpperCase_def upper_char_def)
  have cq: "\<not> isSpace CHR ''C''" "\<not> isSpace CHR ''Q''" by (simp_all add: isSpace_def code_def)
  obtain u where u: "trim (toUpperCase ?m) = CHR ''C'' # CHR ''Q'' # u" "u = [] \<or> hd u = CHR '' ''"
    using trim_front[OF cq, of "CHR '' '' # toUpperCase w"] unfolding up by auto
  have tt: "trim (CHR ''C'' # CHR ''Q'' # u) = CHR ''C'' # CHR ''Q'' # u"
    using u(1) trim_idem[of "toUpperCase ?m"] by simp
  have "CHR '';'' \<notin> set (CHR ''C'' # CHR ''Q'' # u)"
    using m(2) trim_subset[of "toUpperCase ?m"] unfolding u(1) by (auto simp: up)
  then have "nice_text (trim (toUpperCase ?m))"
    unfolding u(1) using u(2) by (intro cq_text_nice[OF tt]) auto
  then show ?thesis
    using ok by (simp add: good_step_def emitCQ_def notifyTxRequest_def Let_def)
qed

section \<open>Stations that only hear each other\<close>

lemma station_upd [simp]:
  "station_ok (s\<lparr>seq_state := x1\<rparr>) = station_ok s" "station_ok (s\<lparr>reportReceived := x2\<rparr>) = station_ok s"
  "station_ok (s\<lparr>targetGrid := x3\<rparr>) = station_ok s" "station_ok (s\<lparr>qsoStartTime := x2\<rparr>) = station_ok s"
  "station_ok (s\<lparr>cyclesSinceResponse := x4\<rparr>) = station_ok s" "station_ok (s\<lparr>totalRetries := x4\<rparr>) = station_ok s"
  "station_ok (s\<lparr>seqMode := x5\<rparr>) = station_ok s" "station_ok (s\<lparr>reCqTimer := x6\<rparr>) = station_ok s"
  "station_ok (s\<lparr>next_timer := x4\<rparr>) = station_ok s"
  by (simp_all add: station_ok_def)

lemma station_set [simp]:
  "station_ok s \<Longrightarrow> station_ok (s\<lparr>reportSent := formatSnrReport snr\<rparr>)"
  "station_ok s \<Longrightarrow> call_word t \<Longrightarrow> station_ok (s\<lparr>targetCallsign := Some t\<rparr>)"
  "station_ok s \<Longrightarrow> dir_ok d \<Longrightarrow> station_ok (s\<lparr>cqDirection := d\<rparr>)"
  "station_ok s \<Longrightarrow> station_ok (resetQsoState s)"
  "station_ok s \<Longrightarrow> station_ok (clearReCqTimer s)"
  "station_ok s \<Longrightarrow> station_ok (s\<lparr>timers := filter p (timers s)\<rparr>)"
  by (auto simp: station_ok_def resetQsoState_def clearReCqTimer_def dir_ok_def split: option.splits)

lemmas good_intros = good_both good_upd good_transition good_report good_rr73 good_call good_cq good_same

lemma decode_target:
  assumes "station_ok s" "nice_text m" "truthy (senderCallsign (extractCallInfo m)) = Some sender"
    "map_option toUpperCase (callsign (extractCallInfo m)) = Some (cfg_myCallsign (config s))"
  shows "call_word (toUpperCase sender)"
  using assms by (auto simp: nice_text_def station_ok_def)

lemma good_decode: "station_ok s \<Longrightarrow> nice_text m \<Longrightarrow> good_step (handleDecode now m snr s)"
proof -
  assume ok: "station_ok s" and m: "nice_text m"
  let ?s = "s\<lparr>cyclesSinceResponse := 0, totalRetries := 0\<rparr>" and ?i = "extractCallInfo m"
  have oks: "station_ok ?s" using ok by (simp add: station_ok_def)
  have ff: "map_option toUpperCase (truthy (signalReport ?i)) = Some rpt \<Longrightarrow> \<not> is_final rpt" for rpt
    using m by (simp only: nice_text_def final_free_def option.case simp_thms)
  have target: "truthy (senderCallsign ?i) = Some sender \<Longrightarrow>
      map_option toUpperCase (callsign ?i) = Some (cfg_myCallsign (config ?s)) \<Longrightarrow> call_word (toUpperCase sender)" for sender
    using decode_target[OF oks m] by simp
  have "good_step (handleCqModeDecode now snr ?i ?s)"
  proof (cases "seq_state s")
    case CQ_SENT
    show ?thesis
    proof (cases "truthy (senderCallsign ?i)")
      case None
      then show ?thesis using oks CQ_SENT by (simp add: handleCqModeDecode_def good_same)
    next
      case (Some sender)
      show ?thesis
      proof (cases "map_option toUpperCase (callsign ?i) = Some (cfg_myCallsign (config ?s))")
        case True
        note t = target[OF Some True]
        obtain z where z: "callsign ?i = Some z" "toUpperCase z = cfg_myCallsign (config s)" using True by auto
        show ?thesis
          by (simp add: handleCqModeDecode_def Let_def CQ_SENT Some z) (intro good_intros disjI1 refl; simp add: ok t)
      next
        case False
        then show ?thesis
          using oks by (auto simp: handleCqModeDecode_def Let_def CQ_SENT Some good_same)
      qed
    qed
  qed (use oks ff in \<open>auto simp: handleCqModeDecode_def intro!: good_intros split: option.splits\<close>)
  moreover have "good_step (handleCallModeDecode now snr ?i ?s)"
    using oks ff
    by (cases "seq_state s") (auto simp: handleCallModeDecode_def Let_def intro!: good_intros split: option.splits)
  ultimately show ?thesis
    using ok oks by (auto simp: handleDecode_def Let_def good_same split: option.splits AutoSeqMode.splits)
qed

lemma good_step_event:
  assumes "station_ok s"
    "case e of StartCQ d \<Rightarrow> dir_ok d | CallStation t \<Rightarrow> call_word (trim (toUpperCase t)) | UpdateConfig p \<Rightarrow> False
     | Decode m snr \<Rightarrow> nice_text m | _ \<Rightarrow> True"
  shows "good_step (seq_step s (now, e))"
proof (cases e)
  case (StartCQ d)
  then show ?thesis using assms by (auto simp: startCQ_def intro!: good_intros)
next
  case (CallStation t)
  then show ?thesis using assms by (auto simp: callStation_def intro!: good_intros)
next
  case Halt
  then show ?thesis using assms by (auto simp: halt_def intro!: good_intros)
next
  case (UpdateConfig p)
  then show ?thesis using assms by simp
next
  case (Decode m snr)
  then show ?thesis using assms good_decode by simp
next
  case RxCycleEnd
  have "good_step (retransmitCurrentStage s)" if "station_ok s" for s
    using that
    by (auto simp: retransmitCurrentStage_def station_ok_def split: AutoSeqState.splits
        intro!: good_intros dest: sym[of "reportSent s"])
  then show ?thesis
    using assms by (auto simp: RxCycleEnd notifyRxCycleEnd_def Let_def intro!: good_intros)
next
  case (ReCqFires t)
  have "dir_ok d" if "map_of (timers s) t = Some d" for d
    using assms(1) map_of_SomeD[OF that] by (auto simp: station_ok_def)
  then show ?thesis
    using assms by (auto simp: ReCqFires re_cq_def startCQ_def split: option.splits intro!: good_intros)
qed

definition texts_of :: "seq_out list \<Rightarrow> string list" where
  "texts_of os = concat (map (\<lambda>out. case out of TxRequest m syms t \<Rightarrow> [m] | _ \<Rightarrow> []) os)"

definition valid_config :: "Ft8AutoSequencerConfig \<Rightarrow> bool" where
  "valid_config cfg \<longleftrightarrow> call_word (trim (toUpperCase (cfg_myCallsign cfg))) \<and>
     isGridLocator (take 4 (trim (toUpperCase (cfg_myGrid cfg)))) \<and>
     word_ok (take 4 (trim (toUpperCase (cfg_myGrid cfg)))) \<and>
     trim (toUpperCase (trim (toUpperCase (cfg_myGrid cfg)))) = trim (toUpperCase (cfg_myGrid cfg))"

definition heard_or_operated :: "string list \<Rightarrow> seq_event \<Rightarrow> bool" where
  "heard_or_operated air e = (case e of
     StartCQ d \<Rightarrow> dir_ok d
   | CallStation t \<Rightarrow> call_word (trim (toUpperCase t))
   | UpdateConfig p \<Rightarrow> False
   | Decode m snr \<Rightarrow> m \<in> set air
   | _ \<Rightarrow> True)"

inductive on_air :: "(nat \<Rightarrow> Ft8AutoSequencer) \<Rightarrow> string list \<Rightarrow> seq_out list \<Rightarrow> bool" where
  switched_on: "(\<And>i. valid_config (cfg i)) \<Longrightarrow> on_air (\<lambda>i. new_sequencer (cfg i)) [] []"
| station_acts: "on_air f air outs \<Longrightarrow> heard_or_operated air e \<Longrightarrow> seq_step (f i) (now, e) = (s', os) \<Longrightarrow>
     on_air (f(i := s')) (air @ texts_of os) (outs @ os)"

lemma on_air_invariant:
  "on_air f air outs \<Longrightarrow> (\<forall>i. station_ok (f i)) \<and> (\<forall>m \<in> set air. nice_text m) \<and> \<not> completes outs"
proof (induction rule: on_air.induct)
  case (switched_on cfg)
  have "station_ok (new_sequencer (cfg i))" for i
    using switched_on[of i] by (simp add: station_ok_def new_sequencer_def valid_config_def dir_ok_def)
  then show ?case by simp
next
  case (station_acts f air outs e i now s' os)
  have n: "case e of StartCQ d \<Rightarrow> dir_ok d | CallStation t \<Rightarrow> call_word (trim (toUpperCase t)) | UpdateConfig p \<Rightarrow> False
     | Decode m snr \<Rightarrow> nice_text m | _ \<Rightarrow> True"
    using station_acts.hyps(2) station_acts.IH by (cases e) (auto simp: heard_or_operated_def)
  have "good_step (s', os)"
    using good_step_event[OF _ n, of "f i" now] station_acts.IH station_acts.hyps(3) by simp
  moreover have "case e of Decode m snr \<Rightarrow> final_free m | _ \<Rightarrow> True"
    using n by (cases e) (auto simp: nice_text_def)
  then have "\<not> completes os"
    using step_completes[of e "f i" now] station_acts.hyps(3) by simp
  ultimately show ?case
    using station_acts.IH by (auto simp: good_step_def texts_of_def split: seq_out.splits)
qed

section \<open>A contact step by step\<close>

definition my_cfg :: Ft8AutoSequencerConfig where
  \<comment> \<open>a station for the examples\<close>
  "my_cfg = \<lparr>cfg_myCallsign = ''K1ABC'', cfg_myGrid = ''FN42'', cfg_mode = FT8, txFreqHz = 1500\<rparr>"

lemma my_station: "valid_config my_cfg" "valid_config (my_cfg\<lparr>cfg_myCallsign := ''W9XYZ'', cfg_myGrid := ''EM12''\<rparr>)"
  unfolding valid_config_def my_cfg_def by code_simp+

definition transmits :: "string \<Rightarrow> tx_type \<Rightarrow> seq_out" where
  "transmits m t = TxRequest (ft8_text (encodeFt8Message m)) (ft8_symbols (encodeFt8Message m)) t"

lemma compose_simps:
  assumes "targetCallsign s = Some b" "trim (toUpperCase b) = b" "trim (toUpperCase (cfg_myCallsign (config s))) = cfg_myCallsign (config s)"
  shows "composeFt8Message (params_of s TxREPORT\<lparr>cp_targetCall := Some b, cp_report := Some r\<rparr>) = three_words (cfg_myCallsign (config s)) b r"
    "composeFt8Message (params_of s TxRR73\<lparr>cp_targetCall := Some b, cp_report := None\<rparr>) = three_words (cfg_myCallsign (config s)) b ''RR73''"
    "composeFt8Message (params_of s Tx73\<lparr>cp_targetCall := Some b, cp_report := None\<rparr>) = three_words (cfg_myCallsign (config s)) b ''73''"
  using assms by (simp_all add: composeFt8Message_def params_of_def three_words_def Let_def)

lemma emit_simps:
  assumes "targetCallsign s = Some b" "b \<noteq> []" "trim (toUpperCase b) = b" "trim (toUpperCase (cfg_myCallsign (config s))) = cfg_myCallsign (config s)"
  shows "emitTxRequest TxREPORT (Some r) s = (s, [transmits (three_words (cfg_myCallsign (config s)) b r) TxREPORT])"
    "emitTxRequest TxRR73 None s = (s, [transmits (three_words (cfg_myCallsign (config s)) b ''RR73'') TxRR73])"
    "emitTxRequest Tx73 None s = (s, [transmits (three_words (cfg_myCallsign (config s)) b ''73'') Tx73])"
  using assms by (simp_all add: emitTxRequest_def notifyTxRequest_def truthy_def Let_def transmits_def compose_simps)

lemma texts_transmits: "texts_of (transmits m t # os) = trim (toUpperCase m) # texts_of os"
  by (simp add: transmits_def texts_of_def)

lemma completed:
  assumes "seqMode s = Some CqMode" "targetCallsign s = Some b" "seq_state s \<noteq> QSO_COMPLETE"
  shows "\<exists>s'. completeQso t s = (s', [StateChange QSO_COMPLETE (Some b), QsoComplete \<lparr>qr_callsign = b, qr_grid = targetGrid s,
      qr_reportSent = reportSent s, qr_reportReceived = reportReceived s, qr_startTime = qsoStartTime s, qr_endTime = t,
      qr_mode = cfg_mode (config s), qr_frequency = txFreqHz (config s)\<rparr>]) \<and> seq_state s' = QSO_COMPLETE"
  using assms by (simp add: completeQso_def both_def transitionTo_def Let_def resetQsoState_def)

lemma contact_steps:
  assumes up: "toUpperCase a = a" "toUpperCase b = b" "trim a = a" "trim b = b" and b: "b \<noteq> []"
    and my: "cfg_myCallsign (config s) = a"
    and i: "extractCallInfo m = no_info\<lparr>callsign := Some a, info_grid := g, signalReport := r, senderCallsign := Some b\<rparr>"
  shows "\<lbrakk>seq_state s = CQ_SENT; seqMode s = Some CqMode\<rbrakk> \<Longrightarrow> handleDecode t m snr s =
     (s\<lparr>cyclesSinceResponse := 0, totalRetries := 0, targetCallsign := Some b, targetGrid := g,
         qsoStartTime := (if qsoStartTime s = [] then t else qsoStartTime s), reportSent := formatSnrReport snr, seq_state := REPORT_SENT\<rparr>,
      [StateChange CALL_RECEIVED (Some b), transmits (three_words a b (formatSnrReport snr)) TxREPORT,
       StateChange REPORT_SENT (Some (''sent '' @ formatSnrReport snr @ '' to '' @ b))])"
   "\<lbrakk>seq_state s = REPORT_SENT; seqMode s = Some CqMode; targetCallsign s = Some b; r = Some r'; r' \<noteq> []; toUpperCase r' = r'; \<not> is_final r'\<rbrakk> \<Longrightarrow>
     handleDecode t m snr s = (s\<lparr>cyclesSinceResponse := 0, totalRetries := 0, reportReceived := r', seq_state := WAITING_RR73\<rparr>,
      [StateChange WAITING_RR73 (Some (''received '' @ r')), transmits (three_words a b ''RR73'') TxRR73])"
   "\<lbrakk>seq_state s = WAITING_RR73; seqMode s = Some CqMode; targetCallsign s = Some b; r = Some r'; toUpperCase r' = r'; is_final r'\<rbrakk> \<Longrightarrow>
     handleDecode t m snr s = completeQso t (s\<lparr>cyclesSinceResponse := 0, totalRetries := 0\<rparr>)"
  using assms emit_simps
  by (auto simp: handleDecode_def isRelevantMessage_def handleCqModeDecode_def isFromTarget_def no_info_def truthy_def
      both_def upd_def transitionTo_def is_final_def Let_def)

lemma contact_run:
  assumes "valid_config cfg" "a = trim (toUpperCase (cfg_myCallsign cfg))" "call_word b" "isGridLocator x" "word_ok x"
    "r1 = formatSnrReport snr1" "r2 = ''R'' @ formatSnrReport snr2"
  shows "\<exists>s' os. seq_run (new_sequencer cfg) [(t0, StartCQ None), (t1, Decode (three_words b a x) snr1),
       (t2, Decode (three_words b a r2) v2), (t3, Decode (three_words b a ''73'') v3)] = (s', os) \<and>
     filter (\<lambda>out. \<exists>q. out = QsoComplete q) os =
       [QsoComplete \<lparr>qr_callsign = b, qr_grid = Some x, qr_reportSent = r1, qr_reportReceived = r2,
          qr_startTime = (if t0 = [] then t1 else t0), qr_endTime = t3, qr_mode = cfg_mode cfg, qr_frequency = txFreqHz cfg\<rparr>] \<and>
     drop 1 (texts_of os) = [three_words a b r1, three_words a b ''RR73''] \<and>
     seq_state s' = QSO_COMPLETE"
proof -
  have a: "call_word a" using assms(1,2) by (simp add: valid_config_def)
  note wa = call_word_chars(2,4)[OF a] and wb = call_word_chars(2,4)[OF assms(3)]
  have up: "toUpperCase a = a" "toUpperCase b = b" "trim a = a" "trim b = b" using wa wb by (simp_all add: word_ok_def)
  note r1 = snr_report_fields[of snr1, folded assms(6)] and r2 = snr_report_fields[of snr2]
  have rr: "word_ok r2" "CHR '';'' \<notin> set r2" "\<not> accepts grid_rx r2" "accepts report_rx r2" "\<not> is_final r2" "r2 \<noteq> []"
    using r2 by (auto simp: assms(7) word_ok_def char_simps upper_char_def)
  have u2: "toUpperCase r2 = r2" using rr(1) by (simp add: word_ok_def)
  have f: "word_ok ''73''" "word_ok ''RR73''" "toUpperCase ''73'' = ''73''" "is_final ''73''" by code_simp+
  have i1: "extractCallInfo (three_words b a x) = no_info\<lparr>callsign := Some a, info_grid := Some x, senderCallsign := Some b\<rparr>"
    using parse_three_words[OF assms(3) a assms(5) grid_no_semicolon[OF assms(4,5)]] grid_accepted[OF assms(4)] by simp
  have i2: "extractCallInfo (three_words b a r2) = no_info\<lparr>callsign := Some a, signalReport := Some r2, senderCallsign := Some b\<rparr>"
    using parse_three_words[OF assms(3) a rr(1,2)] rr(3,4) by simp
  have i3: "extractCallInfo (three_words b a ''73'') = no_info\<lparr>callsign := Some a, signalReport := Some ''73'', senderCallsign := Some b\<rparr>"
    using parse_three_words[OF assms(3) a f(1)] short_fields by simp
  have t: "trim (toUpperCase (three_words a b y)) = three_words a b y" if "word_ok y" for y
    using three_words_split[OF wa(1) wb(1) that] by simp
  have j1: "extractCallInfo (three_words b a x) =
      no_info\<lparr>callsign := Some a, info_grid := Some x, signalReport := None, senderCallsign := Some b\<rparr>"
    by (simp add: i1 no_info_def)
  have j2: "extractCallInfo (three_words b a r2) =
      no_info\<lparr>callsign := Some a, info_grid := None, signalReport := Some r2, senderCallsign := Some b\<rparr>"
    by (simp add: i2 no_info_def)
  have j3: "extractCallInfo (three_words b a ''73'') =
      no_info\<lparr>callsign := Some a, info_grid := None, signalReport := Some ''73'', senderCallsign := Some b\<rparr>"
    by (simp add: i3 no_info_def)
  obtain s1 o1 where s1: "seq_step (new_sequencer cfg) (t0, StartCQ None) = (s1, o1)" by fastforce
  have c: "seq_state s1 = CQ_SENT" "seqMode s1 = Some CqMode" "config s1 = config (new_sequencer cfg)" "qsoStartTime s1 = t0"
    "length (texts_of o1) = 1" "filter (\<lambda>out. \<exists>q. out = QsoComplete q) o1 = []"
    using s1 by (auto simp: startCQ_def both_def upd_def transitionTo_def emitCQ_def notifyTxRequest_def texts_of_def
        new_sequencer_def Let_def resetQsoState_def)
  have my: "cfg_myCallsign (config s1) = a" using c(3) assms(2) by (simp add: new_sequencer_def)
  have st1: "seq_step s1 (t1, Decode (three_words b a x) snr1) =
     (s1\<lparr>cyclesSinceResponse := 0, totalRetries := 0, targetCallsign := Some b, targetGrid := Some x,
         qsoStartTime := (if t0 = [] then t1 else t0), reportSent := r1, seq_state := REPORT_SENT\<rparr>,
      [StateChange CALL_RECEIVED (Some b), transmits (three_words a b r1) TxREPORT,
       StateChange REPORT_SENT (Some (''sent '' @ r1 @ '' to '' @ b))])" (is "_ = (?s2, _)")
    using contact_steps(1)[OF up wb(2) my j1 c(1,2)] by (simp add: c(4) assms(6))
  have st2: "seq_step ?s2 (t2, Decode (three_words b a r2) v2) =
     (?s2\<lparr>cyclesSinceResponse := 0, totalRetries := 0, reportReceived := r2, seq_state := WAITING_RR73\<rparr>,
      [StateChange WAITING_RR73 (Some (''received '' @ r2)), transmits (three_words a b ''RR73'') TxRR73])" (is "_ = (?s3, _)")
    using contact_steps(2)[OF up wb(2) _ j2, of ?s2 r2] my c(2) u2 rr(5,6) by simp
  have st3: "seq_step ?s3 (t3, Decode (three_words b a ''73'') v3) = completeQso t3 (?s3\<lparr>cyclesSinceResponse := 0, totalRetries := 0\<rparr>)"
    using contact_steps(3)[OF up wb(2) _ j3, of ?s3 "''73''"] my c(2) f(3,4) by simp
  obtain s4 where st4: "completeQso t3 (?s3\<lparr>cyclesSinceResponse := 0, totalRetries := 0\<rparr>) =
      (s4, [StateChange QSO_COMPLETE (Some b), QsoComplete \<lparr>qr_callsign = b, qr_grid = Some x, qr_reportSent = r1,
        qr_reportReceived = r2, qr_startTime = (if t0 = [] then t1 else t0), qr_endTime = t3,
        qr_mode = cfg_mode cfg, qr_frequency = txFreqHz cfg\<rparr>])" and s4: "seq_state s4 = QSO_COMPLETE"
    using completed[of "?s3\<lparr>cyclesSinceResponse := 0, totalRetries := 0\<rparr>" b t3] c(2,3)
    by (auto simp: new_sequencer_def)
  let ?q = "QsoComplete \<lparr>qr_callsign = b, qr_grid = Some x, qr_reportSent = r1,
        qr_reportReceived = r2, qr_startTime = (if t0 = [] then t1 else t0), qr_endTime = t3,
        qr_mode = cfg_mode cfg, qr_frequency = txFreqHz cfg\<rparr>"
  let ?os = "o1 @ [StateChange CALL_RECEIVED (Some b), transmits (three_words a b r1) TxREPORT,
       StateChange REPORT_SENT (Some (''sent '' @ r1 @ '' to '' @ b))] @
      [StateChange WAITING_RR73 (Some (''received '' @ r2)), transmits (three_words a b ''RR73'') TxRR73] @
      [StateChange QSO_COMPLETE (Some b), ?q]"
  have run: "seq_run (new_sequencer cfg) [(t0, StartCQ None), (t1, Decode (three_words b a x) snr1),
       (t2, Decode (three_words b a r2) v2), (t3, Decode (three_words b a ''73'') v3)] = (s4, ?os)"
    by (simp only: steps.simps s1 st1 st2 st3 st4 Let_def prod.case append.simps append_Nil2)
  have "filter (\<lambda>out. \<exists>q. out = QsoComplete q) ?os = [?q]"
    using c(6) by (simp add: transmits_def)
  moreover obtain t1 where "texts_of o1 = [t1]" using c(5) by (cases "texts_of o1") auto
  then have "drop 1 (texts_of ?os) = [three_words a b r1, three_words a b ''RR73'']"
    using t[OF r1(5)] t[OF f(2)] by (simp add: texts_of_def transmits_def)
  ultimately show ?thesis using run s4 by blast
qed

section \<open>Properties\<close>

text \<open>
  C23: The sequencer's state is consistent in every reachable state: the operating mode, the target
  and the report match the stage of the contact, no stage is left half-way, and after a
  completed contact the timer that calls CQ again is running.
\<close>

theorem sequencer_state_consistent:
  "seq_ok (fst (seq_run (new_sequencer cfg) es))"
  by (rule seq_reachable)

text \<open>
  C24: An unanswered station gives up: in any reachable state that is neither idle nor just
  complete, the cycle in which the 18 silent cycles counted since the last relevant decode are
  full brings the sequencer to idle, after at most five retransmissions.
\<close>

theorem silent_station_gives_up:
  assumes "s = fst (seq_run (new_sequencer cfg) es)" "seq_state s \<noteq> IDLE" "seq_state s \<noteq> QSO_COMPLETE"
    "length nows + 3 * totalRetries s + cyclesSinceResponse s = 18"
  shows "seq_state (fst (seq_run s (map (\<lambda>n. (n, RxCycleEnd)) nows))) = IDLE \<and>
    length (filter is_tx (snd (seq_run s (map (\<lambda>n. (n, RxCycleEnd)) nows)))) \<le> 5"
proof -
  have "seq_ok s" unfolding assms(1) by (rule seq_reachable)
  moreover have "active_seq s" "length nows = 18 - waited s"
    using assms(2-4) by (simp_all add: active_seq_def waited_def)
  ultimately show ?thesis using silent_run[of s nows] by (simp add: sent_def)
qed

theorem silent_station_gives_up_witness:
  "seq_state (fst (seq_run (fst (seq_run (new_sequencer my_cfg) [(''t'', CallStation ''W9XYZ'')]))
     (map (\<lambda>n. (n, RxCycleEnd)) (replicate 18 ''t'')))) = IDLE"
  using silent_station_gives_up[OF refl, of my_cfg "[(''t'', CallStation ''W9XYZ'')]" "replicate 18 ''t''"]
  by (simp add: callStation_def resetQsoState_def case_prod_beta Let_def)

text \<open>
  C16: Stations that run this sequencer and hear only one another never log a contact: whatever
  stations call CQ or call one another, whoever hears what and when, and however many cycles
  pass, none of them ever reports a completed contact. The acknowledgement the sequencer
  sends, RR73, is a well-formed grid square, and its own parser reads it as one; the 73 that
  would end the contact is only ever sent in answer to an acknowledgement.
\<close>

theorem no_contact_between_sequencers:
  assumes "on_air f air outs"
  shows "\<not> (\<exists>q. QsoComplete q \<in> set outs)"
  using on_air_invariant[OF assms] by (simp add: completes_def)

theorem no_contact_between_sequencers_witness:
  "\<exists>f air outs. three_words ''W9XYZ'' ''K1ABC'' ''EM12'' \<in> set air \<and>
     targetCallsign (f 0) = Some ''W9XYZ'' \<and> seq_state (f 0) = REPORT_SENT \<and> seq_state (f 1) = CALLING \<and>
     on_air f air outs \<and> \<not> (\<exists>q. QsoComplete q \<in> set outs)"
proof -
  let ?m = "three_words ''W9XYZ'' ''K1ABC'' ''EM12''"
  let ?cfg = "\<lambda>i. if i = (1 :: nat) then my_cfg\<lparr>cfg_myCallsign := ''W9XYZ'', cfg_myGrid := ''EM12''\<rparr> else my_cfg"
  let ?f0 = "\<lambda>i. new_sequencer (?cfg i)"
  have a0: "on_air ?f0 [] []" by (rule on_air.switched_on) (simp add: my_station)
  obtain s1 o1 where s1: "seq_step (?f0 1) (''t0'', CallStation ''K1ABC'') = (s1, o1)" by fastforce
  have t: "trim (toUpperCase ''K1ABC'') = ''K1ABC''" "trim (toUpperCase ''W9XYZ'') = ''W9XYZ''"
    "trim (toUpperCase ''EM12'') = ''EM12''" "call_word ''K1ABC''" "call_word ''W9XYZ''" "toUpperCase ''W9XYZ'' = ''W9XYZ''"
    "toUpperCase ''K1ABC'' = ''K1ABC''" "trim ''K1ABC'' = ''K1ABC''" "trim ''W9XYZ'' = ''W9XYZ''"
    "isGridLocator ''EM12''" "word_ok ''EM12''" "trim (toUpperCase ?m) = ?m"
    by code_simp+
  have m: "?m \<in> set (texts_of o1)" and st1: "seq_state s1 = CALLING"
    using s1 t by (auto simp: callStation_def both_def upd_def transitionTo_def emitCallMessage_def truthy_def
        notifyTxRequest_def new_sequencer_def my_cfg_def Let_def texts_of_def composeFt8Message_def params_of_def
        resetQsoState_def
        three_words_def)
  have a1: "on_air (?f0(1 := s1)) ([] @ texts_of o1) ([] @ o1)"
    by (rule on_air.station_acts[OF a0 _ s1]) (simp add: heard_or_operated_def t)
  obtain s2 o2 where s2: "seq_step ((?f0(1 := s1)) 0) (''t1'', StartCQ None) = (s2, o2)" by fastforce
  have a2: "on_air (?f0(1 := s1, 0 := s2)) (([] @ texts_of o1) @ texts_of o2) (([] @ o1) @ o2)"
    by (rule on_air.station_acts[OF a1 _ s2]) (simp add: heard_or_operated_def dir_ok_def)
  obtain s3 o3 where s3: "seq_step ((?f0(1 := s1, 0 := s2)) 0) (''t2'', Decode ?m 7) = (s3, o3)" by fastforce
  let ?f = "?f0(1 := s1, 0 := s2, 0 := s3)"
  have a3: "on_air ?f ((([] @ texts_of o1) @ texts_of o2) @ texts_of o3) ((([] @ o1) @ o2) @ o3)"
    by (rule on_air.station_acts[OF a2 _ s3]) (simp add: heard_or_operated_def m)
  have i: "extractCallInfo ?m = no_info\<lparr>callsign := Some ''K1ABC'', info_grid := Some ''EM12'', senderCallsign := Some ''W9XYZ''\<rparr>"
    using parse_three_words[OF t(5,4,11)] grid_accepted[OF t(10)] by simp
  have c2: "seq_state s2 = CQ_SENT" "seqMode s2 = Some CqMode" "cfg_myCallsign (config s2) = ''K1ABC''"
    using s2 t by (auto simp: startCQ_def both_def upd_def transitionTo_def emitCQ_def notifyTxRequest_def
        new_sequencer_def my_cfg_def Let_def resetQsoState_def)
  have "s3 = fst (handleDecode ''t2'' ?m 7 s2)" using s3 by simp
  then have "seq_state s3 = REPORT_SENT" "targetCallsign s3 = Some ''W9XYZ''"
    using c2 t by (simp_all add: handleDecode_def i isRelevantMessage_def handleCqModeDecode_def no_info_def truthy_def Let_def)
  then show ?thesis
    using a3 no_contact_between_sequencers[OF a3] m st1
    by (intro exI[of _ ?f] exI[of _ "(([] @ texts_of o1) @ texts_of o2) @ texts_of o3"] exI[of _ "(([] @ o1) @ o2) @ o3"]) auto
qed

text \<open>
  C15: A station that answers with 73 completes the contact: called by station b, the sequencer in
  CQ mode sends its CQ, a report of b's signal and the acknowledgement, and logs b with the
  grid square b gave, both reports, and the times of the CQ and of the 73. The report received
  is logged with the R it was sent with.
\<close>

theorem contact_logged:
  assumes "valid_config cfg" "a = trim (toUpperCase (cfg_myCallsign cfg))" "call_word b" "isGridLocator x" "word_ok x"
    "r1 = formatSnrReport snr1" "r2 = ''R'' @ formatSnrReport snr2"
  shows "\<exists>s' os. seq_run (new_sequencer cfg) [(t0, StartCQ None), (t1, Decode (three_words b a x) snr1),
       (t2, Decode (three_words b a r2) v2), (t3, Decode (three_words b a ''73'') v3)] = (s', os) \<and>
     filter (\<lambda>out. \<exists>q. out = QsoComplete q) os =
       [QsoComplete \<lparr>qr_callsign = b, qr_grid = Some x, qr_reportSent = r1, qr_reportReceived = r2,
          qr_startTime = (if t0 = [] then t1 else t0), qr_endTime = t3, qr_mode = cfg_mode cfg, qr_frequency = txFreqHz cfg\<rparr>] \<and>
     drop 1 (texts_of os) = [three_words a b r1, three_words a b ''RR73''] \<and>
     seq_state s' = QSO_COMPLETE"
  using contact_run[OF assms] .

theorem contact_logged_witness:
  "\<exists>os. snd (seq_run (new_sequencer my_cfg) [(''12:00'', StartCQ None),
       (''12:01'', Decode (three_words ''W9XYZ'' ''K1ABC'' ''EM12'') 7), (''12:02'', Decode (three_words ''W9XYZ'' ''K1ABC'' ''R-04'') 6),
       (''12:03'', Decode (three_words ''W9XYZ'' ''K1ABC'' ''73'') 8)]) = os \<and>
     (\<exists>q. QsoComplete q \<in> set os \<and> qr_callsign q = ''W9XYZ'' \<and> qr_reportSent q = ''+07'' \<and> qr_reportReceived q = ''R-04'')"
proof -
  have e: "trim (toUpperCase (cfg_myCallsign my_cfg)) = ''K1ABC''" "call_word ''W9XYZ''" "isGridLocator ''EM12''" "word_ok ''EM12''"
    "formatSnrReport 7 = ''+07''" "formatSnrReport (- 4) = ''-04''"
    unfolding my_cfg_def by code_simp+
  from contact_logged[OF my_station(1) e(1)[symmetric] e(2-4) refl refl, of "''12:00''" "''12:01''" 7 "''12:02''" "- 4" 6 "''12:03''" 8]
  obtain s' os where r: "seq_run (new_sequencer my_cfg) [(''12:00'', StartCQ None),
       (''12:01'', Decode (three_words ''W9XYZ'' ''K1ABC'' ''EM12'') 7), (''12:02'', Decode (three_words ''W9XYZ'' ''K1ABC'' (''R'' @ ''-04'')) 6),
       (''12:03'', Decode (three_words ''W9XYZ'' ''K1ABC'' ''73'') 8)] = (s', os)"
    and q: "filter (\<lambda>out. \<exists>q. out = QsoComplete q) os = [QsoComplete \<lparr>qr_callsign = ''W9XYZ'', qr_grid = Some ''EM12'',
      qr_reportSent = ''+07'', qr_reportReceived = ''R'' @ ''-04'', qr_startTime = ''12:00'', qr_endTime = ''12:03'',
      qr_mode = cfg_mode my_cfg, qr_frequency = txFreqHz my_cfg\<rparr>]" (is "_ = [?q]")
    unfolding e(5,6) by auto
  have "?q \<in> set os" using q by (metis (no_types, lifting) filter_eq_ConsD in_set_conv_decomp)
  then show ?thesis using r by (intro exI[of _ os]) (auto intro!: exI)
qed

text \<open>
  Calling a station just after a completed contact in CQ mode does not stop the timer that
  calls CQ again: when that timer runs out, the call is abandoned and CQ is sent instead. Only
  halting clears it.
\<close>

theorem stale_timer_abandons_call:
  assumes "s = fst (seq_run (new_sequencer cfg) es)" "seq_state s = QSO_COMPLETE"
  shows "\<exists>k. reCqTimer (fst (seq_step s (t1, CallStation b))) = Some k \<and>
     seq_state (fst (seq_step s (t1, CallStation b))) = CALLING \<and>
     seq_state (fst (seq_run s [(t1, CallStation b), (t2, ReCqFires k)])) = CQ_SENT \<and>
     targetCallsign (fst (seq_run s [(t1, CallStation b), (t2, ReCqFires k)])) = None"
proof -
  have "seq_ok s" unfolding assms(1) by (rule seq_reachable)
  then obtain k where k: "reCqTimer s = Some k" "k \<in> fst ` set (timers s)" using assms(2) by (auto simp: seq_ok_def)
  then obtain d where "map_of (timers s) k = Some d" by (metis map_of_eq_None_iff not_None_eq)
  then show ?thesis
    using k(1) by (simp add: callStation_def startCQ_def re_cq_def resetQsoState_def case_prod_beta Let_def)
qed

theorem stale_timer_abandons_call_witness:
  "\<exists>es k. seq_state (fst (seq_run (new_sequencer my_cfg) (es @ [(''12:04'', CallStation ''N0AAA'')]))) = CALLING \<and>
     seq_state (fst (seq_run (new_sequencer my_cfg) (es @ [(''12:04'', CallStation ''N0AAA''), (''12:05'', ReCqFires k)]))) = CQ_SENT"
proof -
  have e: "trim (toUpperCase (cfg_myCallsign my_cfg)) = ''K1ABC''" "call_word ''W9XYZ''" "isGridLocator ''EM12''" "word_ok ''EM12''"
    unfolding my_cfg_def by code_simp+
  let ?es = "[(''12:00'', StartCQ None),
       (''12:01'', Decode (three_words ''W9XYZ'' ''K1ABC'' ''EM12'') 7), (''12:02'', Decode (three_words ''W9XYZ'' ''K1ABC'' (''R'' @ formatSnrReport 3)) 6),
       (''12:03'', Decode (three_words ''W9XYZ'' ''K1ABC'' ''73'') 8)]"
  obtain s' os where r: "seq_run (new_sequencer my_cfg) ?es = (s', os)" and q: "seq_state s' = QSO_COMPLETE"
    using contact_run[OF my_station(1) e(1)[symmetric] e(2-4) refl refl, of "''12:00''" "''12:01''" 7 "''12:02''" 3 6 "''12:03''" 8] by auto
  have s: "s' = fst (seq_run (new_sequencer my_cfg) ?es)" using r by simp
  obtain k where "seq_state (fst (seq_step s' (''12:04'', CallStation ''N0AAA''))) = CALLING"
     "seq_state (fst (seq_run s' [(''12:04'', CallStation ''N0AAA''), (''12:05'', ReCqFires k)])) = CQ_SENT"
    using stale_timer_abandons_call[OF s q, of "''12:04''" "''N0AAA''" "''12:05''"] by blast
  then show ?thesis
    unfolding s by (intro exI[of _ ?es] exI[of _ k]) (simp only: steps_append case_prod_beta Let_def fst_conv steps.simps append_Nil2)
qed

end
