(* ===== verification/LogRows.thy ===== *)
theory LogRows
  imports JsonValue
begin

text \<open>
  Logbook entries and the rows they are stored in (\<open>src/lib/db/types.ts\<close> and the converters of
  \<open>src/lib/sync/syncEngine.ts\<close> and \<open>src/lib/sync/modules/logbookSync.ts\<close>), and the field-level
  conflict detection and merge of \<open>src/lib/sync/conflict.ts\<close>.

  The properties of a \<open>LogEntry\<close> that the sync code reads by name only (identity, version,
  device, time stamps) are record fields; all others are also read by computed name
  (\<open>local[field]\<close>), so they are a map from property names to values, \<open>None\<close> for a property
  that is absent. A database row is modelled the same way, \<open>None\<close> for a null column. Instants
  are numbers.
\<close>

section \<open>Values\<close>

definition nullish :: "jv option \<Rightarrow> bool" where
  \<comment> \<open>\<open>v == null\<close>\<close>
  "nullish v \<longleftrightarrow> v = None \<or> v = Some JNull"

definition coalesce :: "jv option \<Rightarrow> jv option \<Rightarrow> jv option" where
  \<comment> \<open>\<open>v ?? d\<close>\<close>
  "coalesce v d = (if nullish v then d else v)"

fun js_truthy :: "jv option \<Rightarrow> bool" where
  "js_truthy None = False"
| "js_truthy (Some JNull) = False"
| "js_truthy (Some (JBool b)) = b"
| "js_truthy (Some (JNum q)) = (q \<noteq> 0)"
| "js_truthy (Some JNotFinite) = False"
| "js_truthy (Some (JStr s)) = (s \<noteq> [])"
| "js_truthy (Some (JArr vs)) = True"
| "js_truthy (Some (JObj kvs)) = True"

fun js_same :: "jv option \<Rightarrow> jv option \<Rightarrow> bool" where
  \<comment> \<open>\<open>v === w\<close> of two values that are different objects when they are objects\<close>
  "js_same None None = True"
| "js_same (Some JNull) (Some JNull) = True"
| "js_same (Some (JBool a)) (Some (JBool b)) = (a = b)"
| "js_same (Some (JNum a)) (Some (JNum b)) = (a = b)"
| "js_same (Some (JStr a)) (Some (JStr b)) = (a = b)"
| "js_same _ _ = False"

fun join :: "string \<Rightarrow> string list \<Rightarrow> string" where
  "join sep [] = []"
| "join sep [x] = x"
| "join sep (x # xs) = x @ sep @ join sep xs"

primrec decimals :: "nat \<Rightarrow> rat \<Rightarrow> string" where
  "decimals 0 q = []"
| "decimals (Suc k) q = (if q = 0 then [] else
     let d = \<lfloor>10 * q\<rfloor> in char_of (48 + nat d) # decimals k (10 * q - of_int d))"

definition number_text :: "rat \<Rightarrow> string" where
  \<comment> \<open>\<open>String\<close> of a number of ordinary size with at most 17 decimals\<close>
  "number_text q =
     (let a = \<bar>q\<bar>; i = \<lfloor>a\<rfloor>; f = a - of_int i
      in (if q < 0 then ''-'' else []) @ nat_text (nat i) @ (if f = 0 then [] else CHR ''.'' # decimals 17 f))"

fun js_string :: "jv \<Rightarrow> string" where
  "js_string JNull = ''null''"
| "js_string (JBool b) = (if b then ''true'' else ''false'')"
| "js_string (JNum q) = number_text q"
| "js_string JNotFinite = ''NaN''"
| "js_string (JStr s) = s"
| "js_string (JArr vs) = join '','' (map (\<lambda>v. if v = JNull then [] else js_string v) vs)"
| "js_string (JObj kvs) = ''[object Object]''"

definition String_of :: "jv option \<Rightarrow> string" where
  "String_of v = (case v of None \<Rightarrow> ''undefined'' | Some x \<Rightarrow> js_string x)"

section \<open>Entries and rows\<close>

record LogEntry =
  le_id :: string
  le_createdAt :: int
  le_updatedAt :: int
  le_version :: "int option"
  le_lastDeviceId :: "string option"
  le_field :: "string \<rightharpoonup> jv"

record LogRow =
  rw_id :: string
  rw_created_at :: int
  rw_updated_at :: int
  rw_deleted_at :: "int option"
  rw_version :: "int option"
  rw_device_id :: "string option"
  rw_col :: "string \<rightharpoonup> jv"

definition log_columns :: "(string \<times> string \<times> jv option) list" where
  \<comment> \<open>property, column and the default of a null column\<close>
  "log_columns =
     [(''callsign'', ''callsign'', Some (JStr [])), (''frequency'', ''frequency'', Some (JNum 0)),
      (''mode'', ''mode'', Some (JStr [])), (''band'', ''band'', Some (JStr [])),
      (''date'', ''date'', Some (JStr [])), (''timeOn'', ''time_on'', Some (JStr [])),
      (''timeOff'', ''time_off'', None), (''rstSent'', ''rst_sent'', None), (''rstRcvd'', ''rst_rcvd'', None),
      (''grid'', ''grid'', None), (''myGrid'', ''my_grid'', None), (''dxcc'', ''dxcc'', None),
      (''name'', ''name'', None), (''qth'', ''qth'', None), (''notes'', ''notes'', None),
      (''qslSent'', ''qsl_sent'', None), (''qslRcvd'', ''qsl_rcvd'', None), (''lotw'', ''lotw_status'', None),
      (''eqsl'', ''eqsl_status'', None), (''stationCallsign'', ''station_callsign'', None),
      (''operatorCallsign'', ''operator_callsign'', None), (''guestSessionId'', ''guest_session_id'', None)]"

definition field_of_cols :: "(string \<rightharpoonup> jv) \<Rightarrow> string \<rightharpoonup> jv" where
  "field_of_cols cols f =
     (if f = ''isGuestEntry'' then (if js_truthy (cols ''is_guest_entry'') then cols ''is_guest_entry'' else None)
      else case map_of log_columns f of
        None \<Rightarrow> None
      | Some (c, d) \<Rightarrow> coalesce (cols c) d)"

definition column_of :: "string \<Rightarrow> string option" where
  \<comment> \<open>the property a column is written from\<close>
  "column_of c = map_of (map (\<lambda>(f, c, d). (c, f)) log_columns) c"

definition cols_of_field :: "(string \<rightharpoonup> jv) \<Rightarrow> string \<rightharpoonup> jv" where
  \<comment> \<open>the columns that \<open>logEntryToRow\<close> writes from the properties\<close>
  "cols_of_field fld c =
     (if c = ''is_guest_entry'' then coalesce (fld ''isGuestEntry'') (Some (JBool False))
      else case column_of c of
        None \<Rightarrow> None
      | Some f \<Rightarrow>
          if f \<in> {''frequency'', ''mode'', ''band''} then (if js_truthy (fld f) then fld f else None)
          else coalesce (fld f) None)"

section \<open>Conflicts\<close>

definition CONFLICT_FIELDS :: "string list" where
  "CONFLICT_FIELDS = [''callsign'', ''frequency'', ''mode'', ''band'', ''date'', ''timeOn'', ''timeOff'',
     ''rstSent'', ''rstRcvd'', ''grid'', ''name'', ''qth'', ''notes'', ''txPower'', ''myGrid'', ''propMode'',
     ''mySig'', ''mySigInfo'', ''sig'', ''sigInfo'', ''contestId'', ''srx'', ''stx'']"

definition AUTO_MERGE_FIELDS :: "string list" where
  "AUTO_MERGE_FIELDS = [''qslSent'', ''qslRcvd'', ''lotw'', ''eqsl'', ''lotwQslSent'', ''lotwQslRcvd'',
     ''clublogStatus'', ''qrzcomStatus'', ''country'', ''dxcc'', ''cqZone'', ''ituZone'', ''continent'']"

definition field_differs :: "jv option \<Rightarrow> jv option \<Rightarrow> bool" where
  "field_differs localVal remoteVal =
     (if nullish localVal \<and> nullish remoteVal then False
      else if localVal = Some (JStr []) \<and> remoteVal = Some (JStr []) then False
      else if js_same localVal remoteVal then False
      else String_of localVal \<noteq> String_of remoteVal)"

definition detectFieldConflicts :: "LogEntry \<Rightarrow> LogEntry \<Rightarrow> string list" where
  "detectFieldConflicts local remote =
     filter (\<lambda>f. field_differs (le_field local f) (le_field remote f)) CONFLICT_FIELDS"

definition QSL_RANK :: "(string \<times> int) list" where
  "QSL_RANK = [(''N'', 0), (''R'', 1), (''I'', 2), (''Y'', 3)]"

definition qsl_rank :: "string \<Rightarrow> int" where
  "qsl_rank s = (case map_of QSL_RANK s of None \<Rightarrow> - 1 | Some r \<Rightarrow> r)"

definition QSL_STATUS_FIELDS :: "string list" where
  "QSL_STATUS_FIELDS = [''qslSent'', ''qslRcvd'', ''lotwQslSent'', ''lotwQslRcvd'']"

definition merge_value :: "string \<Rightarrow> jv option \<Rightarrow> jv option \<Rightarrow> jv option" where
  "merge_value f localVal remoteVal =
     (if nullish localVal \<and> \<not> nullish remoteVal then remoteVal
      else if \<not> nullish localVal \<and> \<not> nullish remoteVal \<and> \<not> js_same localVal remoteVal then
        (case (localVal, remoteVal) of
           (Some (JBool a), Some (JBool b)) \<Rightarrow> if b \<and> \<not> a then Some (JBool True) else localVal
         | (Some (JStr a), Some (JStr b)) \<Rightarrow>
             if f \<in> set QSL_STATUS_FIELDS then (if qsl_rank b > qsl_rank a then remoteVal else localVal)
             else localVal
         | _ \<Rightarrow> localVal)
      else localVal)"

definition autoMerge :: "int \<Rightarrow> LogEntry \<Rightarrow> LogEntry \<Rightarrow> LogEntry" where
  "autoMerge now local remote =
     (let merged = foldl (\<lambda>m f. m(f := merge_value f (le_field local f) (le_field remote f)))
            (le_field local) AUTO_MERGE_FIELDS
      in local\<lparr>le_field := merged,
          le_version := Some (max (case le_version local of None \<Rightarrow> 0 | Some v \<Rightarrow> v)
            (case le_version remote of None \<Rightarrow> 0 | Some v \<Rightarrow> v)),
          le_updatedAt := now\<rparr>)"

section \<open>Lemmas\<close>

lemma fold_updates:
  "foldl (\<lambda>m f. m(f := g f)) m fs = (\<lambda>f. if f \<in> set fs then g f else m f)"
  by (induction fs arbitrary: m) auto

lemma merged_field:
  "le_field (autoMerge now l r) f =
     (if f \<in> set AUTO_MERGE_FIELDS then merge_value f (le_field l f) (le_field r f) else le_field l f)"
  by (simp add: autoMerge_def Let_def fold_updates)

lemma autoMerge_simps [simp]:
  "le_id (autoMerge now l r) = le_id l" "le_createdAt (autoMerge now l r) = le_createdAt l"
  "le_updatedAt (autoMerge now l r) = now" "le_lastDeviceId (autoMerge now l r) = le_lastDeviceId l"
  by (simp_all add: autoMerge_def Let_def)

lemma js_same_commute: "js_same v w = js_same w v"
  by (cases "(v, w)" rule: js_same.cases) auto

lemma field_differs_commute: "field_differs v w = field_differs w v"
  by (auto simp: field_differs_def js_same_commute)

lemma core_fields_not_merged: "set CONFLICT_FIELDS \<inter> set AUTO_MERGE_FIELDS = {}"
  by (simp add: CONFLICT_FIELDS_def AUTO_MERGE_FIELDS_def)

definition qsl_level :: "jv option \<Rightarrow> int" where
  \<comment> \<open>how confirmed a value of a status field is; an absent value is below every other\<close>
  "qsl_level v = (case v of Some (JStr s) \<Rightarrow> qsl_rank s | Some (JBool b) \<Rightarrow> of_bool b | _ \<Rightarrow> - 2)"

definition status_value :: "string \<Rightarrow> jv option \<Rightarrow> bool" where
  \<comment> \<open>the values the type of a status field allows, or none\<close>
  "status_value f v \<longleftrightarrow> v = None \<or>
     (if f \<in> {''lotw'', ''eqsl''} then \<exists>b. v = Some (JBool b) else \<exists>s r. v = Some (JStr s) \<and> map_of QSL_RANK s = Some r)"

definition status_fields :: "string list" where
  "status_fields = ''lotw'' # ''eqsl'' # QSL_STATUS_FIELDS"

lemma rank_above: "- 2 \<le> qsl_rank s"
  by (simp add: qsl_rank_def QSL_RANK_def)

lemma rank_inj: "map_of QSL_RANK s = Some r \<Longrightarrow> map_of QSL_RANK t = Some r' \<Longrightarrow> qsl_rank s = qsl_rank t \<Longrightarrow> s = t"
  by (auto simp: qsl_rank_def QSL_RANK_def split: if_splits)

lemma merge_value_level:
  assumes "f \<in> set status_fields" "status_value f v" "status_value f w"
  shows "qsl_level (merge_value f v w) = max (qsl_level v) (qsl_level w)" "merge_value f v w = merge_value f w v"
    "status_value f (merge_value f v w)"
proof -
  have f: "f \<in> set QSL_STATUS_FIELDS \<longleftrightarrow> f \<noteq> ''lotw'' \<and> f \<noteq> ''eqsl''"
    using assms(1) by (auto simp: status_fields_def QSL_STATUS_FIELDS_def)
  consider (none) "v = None \<or> w = None"
    | (bools) a b where "v = Some (JBool a)" "w = Some (JBool b)"
    | (texts) a b where "v = Some (JStr a)" "w = Some (JStr b)" "f \<in> set QSL_STATUS_FIELDS"
    using assms(2,3) f by (auto simp: status_value_def split: if_splits)
  then show "qsl_level (merge_value f v w) = max (qsl_level v) (qsl_level w)"
  proof cases
    case none
    have "- 2 \<le> qsl_level x" "x \<noteq> Some JNull" if "status_value f x" for x
      using that by (auto simp: status_value_def qsl_level_def rank_above split: if_splits)
    then have "qsl_level None \<le> qsl_level v" "qsl_level None \<le> qsl_level w" "v \<noteq> Some JNull" "w \<noteq> Some JNull"
      using assms(2,3) by (simp_all add: qsl_level_def)
    then show ?thesis using none by (auto simp: merge_value_def nullish_def max_def)
  next
    case bools
    then show ?thesis by (auto simp: merge_value_def nullish_def qsl_level_def)
  next
    case texts
    then show ?thesis by (auto simp: merge_value_def nullish_def qsl_level_def)
  qed
  show "merge_value f v w = merge_value f w v"
    using assms(2,3) f
    by (auto simp: status_value_def merge_value_def nullish_def split: if_splits dest: rank_inj)
  show "status_value f (merge_value f v w)"
    using assms(2,3) by (auto simp: merge_value_def status_value_def split: if_splits)
qed

end
