(* ===== verification/LogRepair.thy ===== *)
theory LogRepair
  imports LogRows
begin

text \<open>
  The one-time repair of old log entries (\<open>src/lib/sync/logbookMetadataBackfill.ts\<close>), which both
  pulls of the log run first: entries without a station grid or a country number are looked up
  on the server in pieces of one hundred ids, and what is missing is filled in. A failed
  request throws, after the pieces before it were written. The state is the marker of the
  signed-in user in \<open>localStorage\<close> and the \<open>logEntries\<close> store; the ids of the store in the
  order \<open>getAll\<close> gives them are an argument. The store does not change while a request is under
  way.
\<close>

section \<open>Repair\<close>

function pieces :: "nat \<Rightarrow> 'a list \<Rightarrow> 'a list list" where
  \<comment> \<open>\<open>slice(offset, offset + n)\<close> for \<open>offset\<close> in steps of \<open>n\<close>\<close>
  "pieces n xs = (if xs = [] \<or> n = 0 then [] else take n xs # pieces n (drop n xs))"
  by pat_completeness auto
termination by (relation "measure (\<lambda>(n, xs). length xs)") auto

declare pieces.simps [simp del]

record BackfillRow =
  bf_id :: string
  bf_my_grid :: "jv option"
  bf_dxcc :: "jv option"
  bf_deleted_at :: "int option"

definition fill_row :: "(string \<rightharpoonup> LogEntry) \<Rightarrow> BackfillRow \<Rightarrow> (string \<rightharpoonup> LogEntry)" where
  "fill_row db row =
     (if bf_deleted_at row \<noteq> None then db
      else case db (bf_id row) of
        None \<Rightarrow> db
      | Some entry \<Rightarrow>
          let myGrid = coalesce (le_field entry ''myGrid'') (coalesce (bf_my_grid row) None);
              dxcc = coalesce (le_field entry ''dxcc'') (coalesce (bf_dxcc row) None)
          in if \<not> js_same myGrid (le_field entry ''myGrid'') \<or> \<not> js_same dxcc (le_field entry ''dxcc'')
             then db(le_id entry \<mapsto> entry\<lparr>le_field := (le_field entry)(''myGrid'' := myGrid, ''dxcc'' := dxcc)\<rparr>)
             else db)"

fun backfill_pieces ::
    "(string list \<Rightarrow> string + BackfillRow list) \<Rightarrow> string list list \<Rightarrow> (string \<rightharpoonup> LogEntry) \<Rightarrow>
     string option \<times> (string \<rightharpoonup> LogEntry)" where
  "backfill_pieces meta [] db = (None, db)"
| "backfill_pieces meta (ids # rest) db =
     (case meta ids of
        Inl e \<Rightarrow> (Some (''Logbook metadata repair failed: '' @ e), db)
      | Inr rows \<Rightarrow> backfill_pieces meta rest (foldl fill_row db rows))"

definition backfill ::
    "(string list \<Rightarrow> string + BackfillRow list) \<Rightarrow> string list \<Rightarrow> bool \<Rightarrow> bool \<times> (string \<rightharpoonup> LogEntry) \<Rightarrow>
     string option \<times> bool \<times> (string \<rightharpoonup> LogEntry)" where
  \<comment> \<open>\<open>keys\<close> are the ids of the store, \<open>room\<close> says whether the marker can be written, the pair is the marker and the store\<close>
  "backfill meta keys room = (\<lambda>(done', db).
     if done' then (None, done', db)
     else let candidates = filter (\<lambda>k. case db k of None \<Rightarrow> False
                | Some e \<Rightarrow> nullish (le_field e ''myGrid'') \<or> nullish (le_field e ''dxcc'')) keys;
              (err, db') = backfill_pieces meta (pieces 100 candidates) db
          in if err \<noteq> None then (err, done', db') else (None, room, db'))"

definition store_ok :: "(string \<rightharpoonup> LogEntry) \<Rightarrow> bool" where
  "store_ok db \<longleftrightarrow> (\<forall>k e. db k = Some e \<longrightarrow> le_id e = k)"

section \<open>The repair only fills\<close>

definition filled :: "LogEntry \<Rightarrow> LogEntry \<Rightarrow> bool" where
  \<comment> \<open>the second is the first with missing grid and country filled in\<close>
  "filled e e' \<longleftrightarrow> (\<exists>g d. e' = e\<lparr>le_field := (le_field e)(''myGrid'' := g, ''dxcc'' := d)\<rparr> \<and>
     (nullish (le_field e ''myGrid'') \<or> g = le_field e ''myGrid'') \<and>
     (nullish (le_field e ''dxcc'') \<or> d = le_field e ''dxcc''))"

lemma filled_refl: "filled e e"
  unfolding filled_def by (intro exI[of _ "le_field e ''myGrid''"] exI[of _ "le_field e ''dxcc''"]) simp

lemma filled_trans: "filled e e' \<Longrightarrow> filled e' e'' \<Longrightarrow> filled e e''"
  unfolding filled_def by (elim exE conjE, rule_tac x = ga in exI, rule_tac x = da in exI) (auto simp: nullish_def)

definition fills :: "(string \<rightharpoonup> LogEntry) \<Rightarrow> (string \<rightharpoonup> LogEntry) \<Rightarrow> bool" where
  "fills db db' \<longleftrightarrow> store_ok db' \<and> (\<forall>k. rel_option filled (db k) (db' k))"

lemma rel_filled_refl: "rel_option filled x x"
  by (cases x) (simp_all add: filled_refl)

lemma rel_filled_trans: "rel_option filled x y \<Longrightarrow> rel_option filled y z \<Longrightarrow> rel_option filled x z"
  by (cases x; cases y; cases z) (auto intro: filled_trans)

lemma fills_refl: "store_ok db \<Longrightarrow> fills db db"
  by (simp add: fills_def rel_filled_refl)

lemma fills_trans: "fills db db' \<Longrightarrow> fills db' db'' \<Longrightarrow> fills db db''"
  unfolding fills_def by (blast intro: rel_filled_trans)

lemma fill_row_fills: "store_ok db \<Longrightarrow> fills db (fill_row db row)"
proof -
  assume ok: "store_ok db"
  show ?thesis
  proof (cases "bf_deleted_at row \<noteq> None \<or> db (bf_id row) = None")
    case True
    then show ?thesis using fills_refl[OF ok] by (auto simp: fill_row_def)
  next
    case False
    then obtain e where e: "db (bf_id row) = Some e" "bf_deleted_at row = None" by auto
    then have i: "le_id e = bf_id row" using ok by (simp add: store_ok_def)
    let ?e = "e\<lparr>le_field := (le_field e)(''myGrid'' := coalesce (le_field e ''myGrid'') (coalesce (bf_my_grid row) None),
      ''dxcc'' := coalesce (le_field e ''dxcc'') (coalesce (bf_dxcc row) None))\<rparr>"
    have "filled e ?e"
      unfolding filled_def
      by (intro exI[of _ "coalesce (le_field e ''myGrid'') (coalesce (bf_my_grid row) None)"]
          exI[of _ "coalesce (le_field e ''dxcc'') (coalesce (bf_dxcc row) None)"]) (simp add: coalesce_def)
    then have "fills db (db(le_id e \<mapsto> ?e))"
      using ok e(1) by (auto simp: fills_def store_ok_def i rel_filled_refl)
    then show ?thesis using fills_refl[OF ok] e by (simp add: fill_row_def Let_def)
  qed
qed

lemma fills_ok: "fills db db' \<Longrightarrow> store_ok db'"
  by (simp add: fills_def)

lemma fill_rows: "store_ok db \<Longrightarrow> fills db (foldl fill_row db rows)"
proof (induction rows arbitrary: db)
  case (Cons r rows)
  have "fills db (fill_row db r)" by (rule fill_row_fills[OF Cons.prems])
  then show ?case using Cons.IH[OF fills_ok] fills_trans by force
qed (simp add: fills_refl)

lemma fill_pieces: "store_ok db \<Longrightarrow> fills db (snd (backfill_pieces meta ps db))"
proof (induction ps arbitrary: db)
  case (Cons ids ps)
  then show ?case
    using fill_rows[OF Cons.prems] fills_ok fills_trans by (force simp: fills_refl split: sum.split)
qed (simp add: fills_refl)

lemma backfill_fills:
  assumes "store_ok db" "backfill meta keys room (done0, db) = (err, done1, db')"
  shows "fills db db'" "err \<noteq> None \<longrightarrow> done1 = done0"
proof -
  define ps where "ps = pieces 100 (filter (\<lambda>k. case db k of None \<Rightarrow> False
    | Some e \<Rightarrow> nullish (le_field e ''myGrid'') \<or> nullish (le_field e ''dxcc'')) keys)"
  obtain x y where xy: "backfill_pieces meta ps db = (x, y)" by fastforce
  have "fills db y" using fill_pieces[OF assms(1), of meta ps] by (simp add: xy)
  moreover have "(err, done1, db') = (if done0 then (None, done0, db) else if x \<noteq> None then (x, done0, y) else (None, room, y))"
    using assms(2) by (auto simp: backfill_def Let_def xy ps_def[symmetric])
  ultimately show "fills db db'" "err \<noteq> None \<longrightarrow> done1 = done0"
    using fills_refl[OF assms(1)] by (auto split: if_splits)
qed

lemma fills_None: "fills db db' \<Longrightarrow> db' k = None \<longleftrightarrow> db k = None"
  unfolding fills_def by (metis option.rel_distinct(1,2) option.exhaust)

lemma fills_dom: "fills db db' \<Longrightarrow> dom db' = dom db"
  using fills_None[of db db'] by (auto simp: dom_def)

lemma backfill_empty: "backfill meta keys room (d, Map.empty) = (None, d \<or> room, Map.empty)"
  by (simp add: backfill_def pieces.simps)

end
