(* ===== verification/PagedPull.thy ===== *)
theory PagedPull
  imports Prelude "HOL-Library.Multiset"
begin

text \<open>
  The contract of the incremental pulls of the sync layer. Two modules fetch a table in pages
  of a fixed size, ordered by a key, each page asking for the rows whose key is strictly above
  that of the last row seen: the version pull of \<open>src/lib/sync/syncEngine.ts\<close> and the
  timestamp pull of \<open>src/lib/sync/modules/logbookSync.ts\<close>. The server is a parameter; what
  the modules rely on is \<open>page_law\<close>, the documented behaviour of
  \<open>select().gt().order().limit()\<close>, where the order of rows with equal keys is not promised.

  The loop ends on every such server. It pulls every row above the cursor exactly once and in
  order when the keys are distinct; rows that share their key with the last row of a full page
  are skipped.
\<close>

definition page_law :: "nat \<Rightarrow> ('r \<Rightarrow> 'k::linorder) \<Rightarrow> ('c \<Rightarrow> 'k \<Rightarrow> bool) \<Rightarrow> 'r list \<Rightarrow> ('c \<Rightarrow> 'r list) \<Rightarrow> bool" where
  "page_law n key beyond rows fetch \<longleftrightarrow>
     (\<forall>c. \<exists>s. mset s = mset (filter (\<lambda>r. beyond c (key r)) rows) \<and> sorted (map key s) \<and> fetch c = take n s)"

definition page_server :: "nat \<Rightarrow> ('r \<Rightarrow> 'k::linorder) \<Rightarrow> ('c \<Rightarrow> 'k \<Rightarrow> bool) \<Rightarrow> 'r list \<Rightarrow> 'c \<Rightarrow> 'r list" where
  \<comment> \<open>a server that keeps rows with equal keys in the order of the table\<close>
  "page_server n key beyond rows c = take n (sort_key key (filter (\<lambda>r. beyond c (key r)) rows))"

lemma page_server_law: "page_law n key beyond rows (page_server n key beyond rows)"
  by (auto simp: page_law_def page_server_def intro!: exI[of _ "sort_key _ _"])

lemma page_rows: "page_law n key beyond rows fetch \<Longrightarrow> set (fetch c) \<subseteq> {r \<in> set rows. beyond c (key r)}"
proof -
  assume "page_law n key beyond rows fetch"
  then obtain s where s: "mset s = mset (filter (\<lambda>r. beyond c (key r)) rows)" "fetch c = take n s"
    unfolding page_law_def by blast
  have "set s = set (filter (\<lambda>r. beyond c (key r)) rows)" using s(1) by (metis set_mset_mset)
  then show ?thesis using s(2) by (auto dest: in_set_takeD)
qed

lemma sorted_le_last: "sorted ks \<Longrightarrow> k \<in> set ks \<Longrightarrow> (k :: 'a::linorder) \<le> last ks"
  by (induction ks) auto

locale paged_pull =
  fixes loop :: "('c \<Rightarrow> 'r list) \<Rightarrow> 'c \<Rightarrow> 's \<Rightarrow> 'x option"
    and nxt :: "'c \<Rightarrow> 'r list \<Rightarrow> 'c"
    and app :: "'c \<Rightarrow> 'r list \<Rightarrow> 's \<Rightarrow> 's"
    and fin :: "'s \<Rightarrow> 'x"
    and key :: "'r \<Rightarrow> 'k::linorder"
    and beyond :: "'c \<Rightarrow> 'k \<Rightarrow> bool"
    and n :: nat
  assumes loop_step: "loop f c s = (let rs = f c in
      if rs = [] then Some (fin s)
      else if length rs = n then loop f (nxt c rs) (app c rs s) else Some (fin (app c rs s)))"
    and page_size: "0 < n"
    and beyond_nxt: "rs \<noteq> [] \<Longrightarrow> sorted (map key rs) \<Longrightarrow> \<forall>r \<in> set rs. beyond c (key r) \<Longrightarrow>
      beyond (nxt c rs) k \<longleftrightarrow> key (last rs) < k"
    and beyond_up: "beyond c k \<Longrightarrow> k \<le> k' \<Longrightarrow> beyond c k'"
begin

definition run_pages :: "('c \<times> 'r list) list \<Rightarrow> 's \<Rightarrow> 's" where
  "run_pages ps s = foldl (\<lambda>s (c, rs). app c rs s) s ps"

lemma run_pages_simps [simp]: "run_pages [] s = s" "run_pages ((c, rs) # ps) s = run_pages ps (app c rs s)"
  by (simp_all add: run_pages_def)

text \<open>The loop ends: every full page moves the cursor above at least one more key.\<close>

lemma loop_ends:
  assumes "page_law n key beyond rows f"
  shows "\<exists>ps. loop f c s = Some (fin (run_pages ps s)) \<and>
    (\<forall>p \<in> set ps. snd p \<noteq> [] \<and> set (snd p) \<subseteq> {r \<in> set rows. beyond c (key r)})"
proof (induction "card {k \<in> key ` set rows. beyond c k}" arbitrary: c s rule: less_induct)
  case less
  obtain t where t: "mset t = mset (filter (\<lambda>r. beyond c (key r)) rows)" "sorted (map key t)" "f c = take n t"
    using assms unfolding page_law_def by blast
  show ?case
  proof (cases "f c \<noteq> [] \<and> length (f c) = n")
    case True
    let ?c = "nxt c (f c)"
    have in_c: "set (f c) \<subseteq> {r \<in> set rows. beyond c (key r)}" by (rule page_rows[OF assms])
    have srt: "sorted (map key (f c))" using t(2,3) by (simp add: take_map[symmetric] sorted_wrt_take)
    have up: "beyond ?c k \<longleftrightarrow> key (last (f c)) < k" for k
      using beyond_nxt[OF _ srt] True in_c by blast
    have l: "last (f c) \<in> set (f c)" using True by simp
    then have sub: "beyond c k" if "beyond ?c k" for k
      using that up beyond_up in_c less_imp_le by blast
    moreover have "key (last (f c)) \<in> {k \<in> key ` set rows. beyond c k}" "\<not> beyond ?c (key (last (f c)))"
      using l in_c up by auto
    ultimately have "{k \<in> key ` set rows. beyond ?c k} \<subset> {k \<in> key ` set rows. beyond c k}" by auto
    then have "card {k \<in> key ` set rows. beyond ?c k} < card {k \<in> key ` set rows. beyond c k}"
      by (intro psubset_card_mono) auto
    from less(1)[OF this, of "app c (f c) s"] obtain ps where
      l: "loop f ?c (app c (f c) s) = Some (fin (run_pages ps (app c (f c) s)))"
      and ps: "\<forall>p \<in> set ps. snd p \<noteq> [] \<and> set (snd p) \<subseteq> {r \<in> set rows. beyond ?c (key r)}" by blast
    have "loop f c s = Some (fin (run_pages ((c, f c) # ps) s))"
      using True l by (subst loop_step) (simp add: Let_def)
    moreover have "\<forall>p \<in> set ((c, f c) # ps). snd p \<noteq> [] \<and> set (snd p) \<subseteq> {r \<in> set rows. beyond c (key r)}"
      using True in_c ps sub by fastforce
    ultimately show ?thesis by blast
  next
    case False
    define ps where "ps = (if f c = [] then [] else [(c, f c)])"
    have "loop f c s = Some (fin (run_pages ps s))"
      using False by (subst loop_step) (auto simp: Let_def ps_def)
    moreover have "\<forall>p \<in> set ps. snd p \<noteq> [] \<and> set (snd p) \<subseteq> {r \<in> set rows. beyond c (key r)}"
      using page_rows[OF assms, of c] by (simp add: ps_def)
    ultimately show ?thesis by blast
  qed
qed

text \<open>Distinct keys: the pages are the rows above the cursor, cut into pieces.\<close>

lemma sorted_tail:
  assumes "S = sort_key key (filter (\<lambda>r. beyond c (key r)) rows)" "distinct (map key rows)" "0 < m" "m \<le> length S"
  shows "filter (\<lambda>r. key (S ! (m - 1)) < key r) S = drop m S"
proof -
  have d: "distinct (map key S)" unfolding assms(1) using assms(2)
    by (auto simp: distinct_map intro: inj_on_subset)
  have sl: "sorted_wrt (\<lambda>x y. key x < key y) S"
  proof -
    have "sorted_wrt (<) (map key S)" using d assms(1) by (simp add: strict_sorted_iff)
    then show ?thesis by (simp add: sorted_wrt_map)
  qed
  have "filter (\<lambda>r. key (S ! (m - 1)) < key r) (take m S) = []"
  proof -
    have "\<not> key (S ! (m - 1)) < key r" if r: "r \<in> set (take m S)" for r
    proof -
      obtain i where i: "i < m" "r = S ! i" using r assms(4) by (auto simp: in_set_conv_nth)
      have "i = m - 1 \<or> i < m - 1" "m - 1 < length S" using i(1) assms(3,4) by linarith+
      then show ?thesis
        using sorted_wrt_nth_less[OF sl, of i "m - 1"] i(2) by (auto dest: order_less_trans)
    qed
    then show ?thesis by (simp add: filter_empty_conv)
  qed
  moreover have "key (S ! (m - 1)) < key r" if r: "r \<in> set (drop m S)" for r
  proof -
    obtain i where "i < length (drop m S)" "r = drop m S ! i" using r by (metis in_set_conv_nth)
    then have i: "m + i < length S" "r = S ! (m + i)" using assms(4) by auto
    then show ?thesis using sorted_wrt_nth_less[OF sl, of "m - 1" "m + i"] assms(3) by auto
  qed
  then have "filter (\<lambda>r. key (S ! (m - 1)) < key r) (drop m S) = drop m S" by simp
  ultimately show ?thesis by (metis append.simps(1) append_take_drop_id filter_append)
qed

lemma pulls_all:
  assumes "page_law n key beyond rows f" "distinct (map key rows)"
  shows "\<exists>ps. loop f c s = Some (fin (run_pages ps s)) \<and>
    concat (map snd ps) = sort_key key (filter (\<lambda>r. beyond c (key r)) rows) \<and>
    (\<forall>p \<in> set ps. snd p \<noteq> [] \<and> (\<forall>r \<in> set (snd p). beyond (fst p) (key r)) \<and> sorted (map key (snd p)))"
proof (induction "length (filter (\<lambda>r. beyond c (key r)) rows)" arbitrary: c s rule: less_induct)
  case less
  define S where "S = sort_key key (filter (\<lambda>r. beyond c (key r)) rows)"
  obtain t where t: "mset t = mset (filter (\<lambda>r. beyond c (key r)) rows)" "sorted (map key t)" "f c = take n t"
    using assms(1) unfolding page_law_def by blast
  have "inj_on key (set (filter (\<lambda>r. beyond c (key r)) rows))"
    using assms(2) by (auto simp: distinct_map intro: inj_on_subset)
  then have "S = t" unfolding S_def by (intro sort_key_inj_key_eq) (simp_all add: t)
  then have p: "f c = take n S" by (simp add: t(3))
  have inS: "\<forall>r \<in> set S. beyond c (key r)" by (simp add: S_def)
  have srt: "sorted (map key S)" by (simp add: S_def)
  have ok: "\<forall>r \<in> set (f c). beyond c (key r)" "sorted (map key (f c))"
    using p inS srt by (auto dest: in_set_takeD simp: take_map[symmetric] sorted_wrt_take)
  show ?case
  proof (cases "f c \<noteq> [] \<and> length (f c) = n")
    case True
    let ?c = "nxt c (f c)"
    have n: "n \<le> length S" using True p by (auto simp: min_def split: if_splits)
    have l: "last (f c) = S ! (n - 1)"
      using True n page_size unfolding p by (simp add: last_conv_nth)
    have up: "beyond ?c k \<longleftrightarrow> key (S ! (n - 1)) < k" for k
      using beyond_nxt[OF _ ok(2,1)] True l by simp
    have lS: "S ! (n - 1) \<in> set S" using n page_size by simp
    have "beyond c k" if "beyond ?c k" for k
      using that up beyond_up inS lS less_imp_le by blast
    then have "filter (\<lambda>r. beyond ?c (key r)) rows = filter (\<lambda>r. beyond ?c (key r)) (filter (\<lambda>r. beyond c (key r)) rows)"
      by (simp, metis)
    then have tail: "sort_key key (filter (\<lambda>r. beyond ?c (key r)) rows) = drop n S"
      using sorted_tail[OF S_def assms(2) page_size n] by (simp add: S_def up filter_sort[symmetric] del: filter_filter)
    have "length (filter (\<lambda>r. beyond ?c (key r)) rows) = length (drop n S)"
      using arg_cong[OF tail, of length] by simp
    also have "\<dots> < length (filter (\<lambda>r. beyond c (key r)) rows)"
      using n page_size by (simp add: S_def)
    finally obtain ps where ps: "loop f ?c (app c (f c) s) = Some (fin (run_pages ps (app c (f c) s)))"
      "concat (map snd ps) = drop n S"
      "\<forall>p \<in> set ps. snd p \<noteq> [] \<and> (\<forall>r \<in> set (snd p). beyond (fst p) (key r)) \<and> sorted (map key (snd p))"
      using less(1)[of ?c "app c (f c) s"] tail by auto
    have "concat (map snd ((c, f c) # ps)) = S" using p ps(2) by simp
    then show ?thesis
      using True ps(1,3) ok unfolding S_def[symmetric]
      by (subst loop_step) (auto simp: Let_def intro!: exI[of _ "(c, f c) # ps"])
  next
    case False
    have "f c = S"
    proof (cases "f c = []")
      case True
      then show ?thesis using p page_size by simp
    next
      case f: False
      then have "length (take n S) < n" using False p by auto
      then show ?thesis using p by simp
    qed
    then show ?thesis
      using False ok unfolding S_def[symmetric]
      by (cases "f c = []") (auto simp: loop_step[of f c] Let_def intro: exI[of _ "[]"] exI[of _ "[(c, f c)]"])
  qed
qed

text \<open>
  Rows that share the key of the last row of a full page are never asked for: when the page
  ends inside the rows with the highest key, the rest of them is lost.
\<close>

lemma skips_ties:
  assumes "page_law n key beyond rows f" "\<forall>r \<in> set rows. key r \<le> k"
    "length (filter (\<lambda>r. beyond c (key r) \<and> key r \<noteq> k) rows) < n"
    "n < length (filter (\<lambda>r. beyond c (key r)) rows)"
  shows "length (f c) = n" "loop f c s = Some (fin (app c (f c) s))" "key (last (f c)) = k" "\<not> beyond (nxt c (f c)) k"
    "f (nxt c (f c)) = []"
proof -
  obtain t where t: "mset t = mset (filter (\<lambda>r. beyond c (key r)) rows)" "sorted (map key t)" "f c = take n t"
    using assms(1) unfolding page_law_def by blast
  then have "length t = length (filter (\<lambda>r. beyond c (key r)) rows)" by (metis size_mset)
  then show len: "length (f c) = n" using t(3) assms(4) by simp
  have inr: "set (f c) \<subseteq> {r \<in> set rows. beyond c (key r)}" by (rule page_rows[OF assms(1)])
  have ne: "f c \<noteq> []" using len page_size by auto
  have srt: "sorted (map key (f c))" using t(2,3) by (simp add: take_map[symmetric] sorted_wrt_take)
  show lk: "key (last (f c)) = k"
  proof (rule ccontr)
    assume no: "key (last (f c)) \<noteq> k"
    have "key r \<le> key (last (f c))" if "r \<in> set (f c)" for r
      using sorted_le_last[OF srt, of "key r"] that ne by (simp add: last_map)
    moreover have "key (last (f c)) < k"
      using no ne inr assms(2) last_in_set[OF ne] by fastforce
    ultimately have "filter (\<lambda>r. key r \<noteq> k) (f c) = f c" by (force simp: filter_id_conv)
    then have "n \<le> length (filter (\<lambda>r. key r \<noteq> k) t)"
      using len t(3) by (metis append_take_drop_id filter_append length_append le_add1)
    also have "length (filter (\<lambda>r. key r \<noteq> k) t) = length (filter (\<lambda>r. beyond c (key r) \<and> key r \<noteq> k) rows)"
    proof -
      have "size (filter_mset (\<lambda>r. key r \<noteq> k) (mset t)) = size (filter_mset (\<lambda>r. key r \<noteq> k) (mset (filter (\<lambda>r. beyond c (key r)) rows)))"
        by (simp only: t(1))
      then have "length (filter (\<lambda>r. key r \<noteq> k) t) = length (filter (\<lambda>r. key r \<noteq> k) (filter (\<lambda>r. beyond c (key r)) rows))"
        by (simp only: mset_filter[symmetric] size_mset)
      then show ?thesis by simp
    qed
    finally show False using assms(3) by simp
  qed
  show nb: "\<not> beyond (nxt c (f c)) k" using beyond_nxt[OF ne srt] inr lk by fastforce
  have "r \<notin> set (f (nxt c (f c)))" for r
  proof
    assume "r \<in> set (f (nxt c (f c)))"
    then have "r \<in> set rows" "beyond (nxt c (f c)) (key r)" using page_rows[OF assms(1), of "nxt c (f c)"] by auto
    then show False using nb assms(2) beyond_up by blast
  qed
  then show e: "f (nxt c (f c)) = []" by (metis last_in_set)
  have "loop f (nxt c (f c)) s' = Some (fin s')" for s' by (subst loop_step) (simp add: e)
  then show "loop f c s = Some (fin (app c (f c) s))" using len ne by (subst loop_step) (simp add: Let_def)
qed

end

end
