(* ===== verification/QsoSync.thy ===== *)
theory QsoSync
  imports LogRepair PagedPull
begin

text \<open>
  The version-based pull of the QSO sync engine (\<open>src/lib/sync/syncEngine.ts\<close>). The server is the
  parameter \<open>sel\<close>: given a version, what the query for the rows above it answers, an error or
  a page. The state is the version cursor in \<open>localStorage\<close>, the \<open>logEntries\<close> store of
  IndexedDB, the time stamp of the sync metadata and the marker of the repair (\<open>LogRepair\<close>) that
  every pull awaits first; a transaction of the store does not fail. A pull that throws keeps
  what the repair and the pages before it changed.
\<close>

section \<open>State\<close>

definition QSO_BATCH_SIZE :: nat where "QSO_BATCH_SIZE = 100"

datatype delta_operation = DeltaUpsert | DeltaDelete

record QSODelta =
  qd_id :: string
  qd_version :: int
  qd_deviceId :: string
  qd_operation :: delta_operation
  qd_data :: LogRow
  qd_updatedAt :: int

record SyncPullResult =
  pr_entries :: "QSODelta list"
  pr_latestVersion :: int
  pr_hasMore :: bool

record QSOSyncEngine =
  eng_device :: string
  version_key :: "int option"
  log_store :: "string \<rightharpoonup> LogEntry"
  meta_stamp :: "int option"
  repair_marker :: bool

definition getLocalVersion :: "QSOSyncEngine \<Rightarrow> int" where
  "getLocalVersion s = (case version_key s of None \<Rightarrow> 0 | Some v \<Rightarrow> v)"

definition setLocalVersion :: "int \<Rightarrow> QSOSyncEngine \<Rightarrow> QSOSyncEngine" where
  "setLocalVersion v s = s\<lparr>version_key := Some v\<rparr>"

section \<open>Conversion\<close>

definition delta_of_row :: "LogRow \<Rightarrow> QSODelta" where
  "delta_of_row row = \<lparr>qd_id = rw_id row, qd_version = (case rw_version row of None \<Rightarrow> 1 | Some v \<Rightarrow> v),
     qd_deviceId = (case rw_device_id row of None \<Rightarrow> [] | Some d \<Rightarrow> d),
     qd_operation = (if rw_deleted_at row \<noteq> None then DeltaDelete else DeltaUpsert),
     qd_data = row, qd_updatedAt = rw_updated_at row\<rparr>"

definition deltaToLogEntry :: "QSODelta \<Rightarrow> LogEntry" where
  "deltaToLogEntry delta =
     (let row = qd_data delta
      in \<lparr>le_id = rw_id row, le_createdAt = rw_created_at row, le_updatedAt = rw_updated_at row,
          le_version = Some (case rw_version row of None \<Rightarrow> qd_version delta | Some v \<Rightarrow> v),
          le_lastDeviceId = Some (case rw_device_id row of None \<Rightarrow> qd_deviceId delta | Some d \<Rightarrow> d),
          le_field = field_of_cols (rw_col row)\<rparr>)"

definition rowToLogEntry :: "LogRow \<Rightarrow> LogEntry option" where
  "rowToLogEntry row =
     (if rw_deleted_at row \<noteq> None then None
      else Some \<lparr>le_id = rw_id row, le_createdAt = rw_created_at row, le_updatedAt = rw_updated_at row,
        le_version = Some (case rw_version row of None \<Rightarrow> 1 | Some v \<Rightarrow> v),
        le_lastDeviceId = rw_device_id row, le_field = field_of_cols (rw_col row)\<rparr>)"

definition logEntryToRow :: "string \<Rightarrow> LogEntry \<Rightarrow> LogRow" where
  "logEntryToRow device entry =
     \<lparr>rw_id = le_id entry, rw_created_at = le_createdAt entry, rw_updated_at = le_updatedAt entry,
      rw_deleted_at = None, rw_version = Some (case le_version entry of None \<Rightarrow> 1 | Some v \<Rightarrow> v),
      rw_device_id = Some device, rw_col = cols_of_field (le_field entry)\<rparr>"

section \<open>Pull\<close>

definition shouldResolveConflict :: "string \<Rightarrow> LogEntry \<Rightarrow> QSODelta \<Rightarrow> bool" where
  "shouldResolveConflict device local delta =
     (if qd_deviceId delta \<noteq> [] \<and> qd_deviceId delta \<noteq> device
      then qd_version delta \<noteq> (case le_version local of None \<Rightarrow> 0 | Some v \<Rightarrow> v)
      else False)"

definition pullChanges :: "(int \<Rightarrow> string + LogRow list) \<Rightarrow> int \<Rightarrow> string + SyncPullResult" where
  "pullChanges sel version' =
     (case sel version' of
        Inl e \<Rightarrow> Inl (''QSO pull failed: '' @ e)
      | Inr rows \<Rightarrow>
          if rows = [] then Inr \<lparr>pr_entries = [], pr_latestVersion = version', pr_hasMore = False\<rparr>
          else let es = map delta_of_row rows
               in Inr \<lparr>pr_entries = es, pr_latestVersion = foldl max version' (map qd_version es),
                    pr_hasMore = (length rows = QSO_BATCH_SIZE)\<rparr>)"

definition merge_pulled :: "int \<Rightarrow> LogEntry \<Rightarrow> QSODelta \<Rightarrow> LogEntry" where
  "merge_pulled now localEntry delta =
     (let remoteEntry = deltaToLogEntry delta;
          merged = autoMerge now localEntry remoteEntry;
          fields = (if nullish (le_field merged ''myGrid'')
            then (le_field merged)(''myGrid'' := le_field remoteEntry ''myGrid'') else le_field merged)
      in merged\<lparr>le_field := fields,
           le_version := Some (max (case le_version localEntry of None \<Rightarrow> 0 | Some v \<Rightarrow> v) (qd_version delta)),
           le_lastDeviceId := Some (qd_deviceId delta)\<rparr>)"

definition apply_delta :: "string \<Rightarrow> int \<Rightarrow> (string \<rightharpoonup> LogEntry) \<Rightarrow> QSODelta \<Rightarrow> (string \<rightharpoonup> LogEntry)" where
  "apply_delta device now db delta =
     (case qd_operation delta of
        DeltaDelete \<Rightarrow> db(qd_id delta := None)
      | DeltaUpsert \<Rightarrow>
          let remoteEntry = deltaToLogEntry delta
          in case db (qd_id delta) of
               Some localEntry \<Rightarrow>
                 if shouldResolveConflict device localEntry delta
                 then db(le_id localEntry \<mapsto> merge_pulled now localEntry delta)
                 else db(le_id remoteEntry \<mapsto> remoteEntry\<lparr>le_version := Some (qd_version delta),
                        le_lastDeviceId := Some (qd_deviceId delta)\<rparr>)
             | None \<Rightarrow> db(le_id remoteEntry \<mapsto> remoteEntry\<lparr>le_version := Some (qd_version delta),
                        le_lastDeviceId := Some (qd_deviceId delta)\<rparr>))"

definition apply_page :: "int \<Rightarrow> SyncPullResult \<Rightarrow> QSOSyncEngine \<Rightarrow> QSOSyncEngine" where
  "apply_page now r s =
     (let s1 = s\<lparr>log_store := foldl (apply_delta (eng_device s) now) (log_store s) (pr_entries r)\<rparr>;
          s2 = setLocalVersion (pr_latestVersion r) s1
      in s2\<lparr>meta_stamp := Some (qd_updatedAt (last (pr_entries r)))\<rparr>)"

partial_function (option) pull_loop ::
    "int \<Rightarrow> (int \<Rightarrow> string + LogRow list) \<Rightarrow> int \<Rightarrow> nat \<Rightarrow> QSOSyncEngine \<Rightarrow> ((string + nat) \<times> QSOSyncEngine) option" where
  "pull_loop now sel currentVersion totalApplied s =
     (case pullChanges sel currentVersion of
        Inl e \<Rightarrow> Some (Inl e, s)
      | Inr r \<Rightarrow>
          if pr_entries r = [] then Some (Inr totalApplied, s)
          else let s' = apply_page now r s; total = totalApplied + length (pr_entries r)
               in if pr_hasMore r then pull_loop now sel (pr_latestVersion r) total s'
                  else Some (Inr total, s'))"

type_synonym repair_env = "(string list \<Rightarrow> string + BackfillRow list) \<times> string list \<times> bool"
  \<comment> \<open>what the repair's query answers, the ids of the store, and whether the marker can be written\<close>

definition pullAndApply ::
    "repair_env \<Rightarrow> int \<Rightarrow> (int \<Rightarrow> string + LogRow list) \<Rightarrow> QSOSyncEngine \<Rightarrow> ((string + nat) \<times> QSOSyncEngine) option" where
  "pullAndApply env now sel s =
     (case env of (meta, keys, room) \<Rightarrow>
        (case backfill meta keys room (repair_marker s, log_store s) of
           (Some e, done', db) \<Rightarrow> Some (Inl e, s\<lparr>log_store := db, repair_marker := done'\<rparr>)
         | (None, done', db) \<Rightarrow>
             let s1 = s\<lparr>log_store := db, repair_marker := done'\<rparr>
             in pull_loop now sel (getLocalVersion s1) 0 s1))"

section \<open>Push\<close>

record ConflictEntry =
  ce_entryId :: string
  ce_localVersion :: int
  ce_remoteVersion :: int
  ce_conflictFields :: "string list"
  ce_localData :: LogEntry
  ce_remoteData :: LogRow

record SyncPushResult =
  pu_processedIds :: "string list"
  pu_conflicts :: "ConflictEntry list"
  pu_latestVersion :: int

record upsert_error =
  ue_code :: string
  ue_message :: string

fun conflicts_of :: "LogEntry list \<Rightarrow> LogRow list \<Rightarrow> ConflictEntry list option" where
  \<comment> \<open>\<open>None\<close>: a conversion to \<open>null\<close> is read from, which throws\<close>
  "conflicts_of batch [] = Some []"
| "conflicts_of batch (serverRow # rest) =
     (case find (\<lambda>e. le_id e = rw_id serverRow) batch of
        None \<Rightarrow> conflicts_of batch rest
      | Some localEntry \<Rightarrow>
          let serverVersion = (case rw_version serverRow of None \<Rightarrow> 1 | Some v \<Rightarrow> v);
              localVersion = (case le_version localEntry of None \<Rightarrow> 0 | Some v \<Rightarrow> v)
          in if serverVersion > localVersion
             then (case rowToLogEntry serverRow of
                     None \<Rightarrow> None
                   | Some remote \<Rightarrow>
                       let conflictFields = detectFieldConflicts localEntry remote;
                           c = \<lparr>ce_entryId = rw_id serverRow, ce_localVersion = localVersion,
                                ce_remoteVersion = serverVersion, ce_conflictFields = conflictFields,
                                ce_localData = localEntry, ce_remoteData = serverRow\<rparr>
                       in map_option (\<lambda>cs. if conflictFields \<noteq> [] then c # cs else cs) (conflicts_of batch rest))
             else conflicts_of batch rest)"

definition conflict_error :: "upsert_error \<Rightarrow> bool" where
  "conflict_error e \<longleftrightarrow> ue_code e = ''23505'' \<or> js_includes (ue_message e) ''conflict''"

fun push_batches ::
    "(LogRow list \<Rightarrow> upsert_error + int option list option) \<Rightarrow> (string list \<Rightarrow> LogRow list option) \<Rightarrow> string \<Rightarrow>
     LogEntry list list \<Rightarrow> SyncPushResult \<Rightarrow> string + SyncPushResult" where
  "push_batches ups sel device [] acc = Inr acc"
| "push_batches ups sel device (batch # rest) acc =
     (case ups (map (logEntryToRow device) batch) of
        Inl error \<Rightarrow>
          if conflict_error error
          then (case sel (map le_id batch) of
                  None \<Rightarrow> push_batches ups sel device rest acc
                | Some serverEntries \<Rightarrow>
                    (case conflicts_of batch serverEntries of
                       None \<Rightarrow> Inl ''TypeError''
                     | Some cs \<Rightarrow> push_batches ups sel device rest (acc\<lparr>pu_conflicts := pu_conflicts acc @ cs\<rparr>)))
          else Inl (''QSO push batch failed: '' @ ue_message error)
      | Inr data \<Rightarrow>
          push_batches ups sel device rest
            (acc\<lparr>pu_processedIds := pu_processedIds acc @ map le_id batch,
                 pu_latestVersion := (case data of None \<Rightarrow> pu_latestVersion acc
                   | Some vs \<Rightarrow> foldl (\<lambda>m v. case v of None \<Rightarrow> m | Some x \<Rightarrow> if x > m then x else m) (pu_latestVersion acc) vs)\<rparr>))"

definition pushChanges ::
    "(LogRow list \<Rightarrow> upsert_error + int option list option) \<Rightarrow> (string list \<Rightarrow> LogRow list option) \<Rightarrow>
     LogEntry list \<Rightarrow> QSOSyncEngine \<Rightarrow> (string + SyncPushResult) \<times> QSOSyncEngine" where
  "pushChanges ups sel es s =
     (case push_batches ups sel (eng_device s) (pieces QSO_BATCH_SIZE es)
             \<lparr>pu_processedIds = [], pu_conflicts = [], pu_latestVersion = getLocalVersion s\<rparr> of
        Inl e \<Rightarrow> (Inl e, s)
      | Inr r \<Rightarrow> (Inr r, setLocalVersion (pu_latestVersion r) s))"

definition resetVersion :: "QSOSyncEngine \<Rightarrow> QSOSyncEngine" where
  "resetVersion s = setLocalVersion 0 s"

section \<open>Conflicts between two entries\<close>

definition resolveConflicts :: "int \<Rightarrow> LogEntry \<Rightarrow> LogEntry \<Rightarrow> LogEntry" where
  "resolveConflicts now local remote =
     (let conflicts = detectFieldConflicts local remote;
          localVersion = (case le_version local of None \<Rightarrow> 0 | Some v \<Rightarrow> v);
          remoteVersion = (case le_version remote of None \<Rightarrow> 0 | Some v \<Rightarrow> v);
          merged = autoMerge now local remote
      in if conflicts = [] then merged
         else if remoteVersion > localVersion
         then merged\<lparr>le_field := foldl (\<lambda>m f. m(f := le_field remote f)) (le_field merged) conflicts,
                le_version := Some remoteVersion, le_lastDeviceId := le_lastDeviceId remote\<rparr>
         else merged\<lparr>le_version := Some localVersion\<rparr>)"

section \<open>The pull as a paged pull\<close>

definition row_version :: "LogRow \<Rightarrow> int" where
  "row_version row = qd_version (delta_of_row row)"

definition qso_table :: "LogRow list \<Rightarrow> (int \<Rightarrow> LogRow list) \<Rightarrow> bool" where
  \<comment> \<open>what the service answers for a table of rows\<close>
  "qso_table rows fetch \<longleftrightarrow> page_law QSO_BATCH_SIZE row_version (\<lambda>c v. c < v) rows fetch"

definition answers :: "('c \<Rightarrow> 'r list) \<Rightarrow> 'c \<Rightarrow> string + 'r list" where
  \<comment> \<open>a service that answers every query\<close>
  "answers f c = Inr (f c)"

definition page_result :: "int \<Rightarrow> LogRow list \<Rightarrow> SyncPullResult" where
  "page_result c rs = \<lparr>pr_entries = map delta_of_row rs, pr_latestVersion = foldl max c (map row_version rs),
     pr_hasMore = (length rs = QSO_BATCH_SIZE)\<rparr>"

lemma pull_page:
  "pullChanges (answers f) c = Inr (if f c = [] then \<lparr>pr_entries = [], pr_latestVersion = c, pr_hasMore = False\<rparr>
     else page_result c (f c))"
  by (simp add: pullChanges_def page_result_def Let_def answers_def comp_def row_version_def[abs_def])

lemma fold_max: "foldl max (c :: int) ks = Max (insert c (set ks))"
proof (induction ks arbitrary: c)
  case (Cons k ks)
  then show ?case by (cases "ks = []") (simp_all add: Max.insert max.assoc max.commute max.left_commute)
qed simp

lemma last_sorted: "ks \<noteq> [] \<Longrightarrow> sorted ks \<Longrightarrow> \<forall>k \<in> set ks. c < k \<Longrightarrow> foldl max (c :: int) ks = last ks"
  unfolding fold_max by (intro Max_eqI) (auto intro: less_imp_le sorted_le_last)


interpretation qso: paged_pull
  "\<lambda>f c st. pull_loop now (answers f) c (fst st) (snd st)"
  "\<lambda>c rs. foldl max c (map row_version rs)"
  "\<lambda>c rs st. (fst st + length rs, apply_page now (page_result c rs) (snd st))"
  "\<lambda>st. (Inr (fst st), snd st)" row_version "\<lambda>c v. c < v" QSO_BATCH_SIZE
proof
  fix f :: "int \<Rightarrow> LogRow list" and c :: int and st :: "nat \<times> QSOSyncEngine"
  show "pull_loop now (answers f) c (fst st) (snd st) = (let rs = f c in
      if rs = [] then Some (Inr (fst st), snd st)
      else if length rs = QSO_BATCH_SIZE then pull_loop now (answers f) (foldl max c (map row_version rs))
        (fst (fst st + length rs, apply_page now (page_result c rs) (snd st)))
        (snd (fst st + length rs, apply_page now (page_result c rs) (snd st)))
      else Some (Inr (fst (fst st + length rs, apply_page now (page_result c rs) (snd st))),
        snd (fst st + length rs, apply_page now (page_result c rs) (snd st))))"
    by (subst pull_loop.simps) (simp add: pull_page page_result_def Let_def)
next
  show "0 < QSO_BATCH_SIZE" by (simp add: QSO_BATCH_SIZE_def)
next
  fix rs :: "LogRow list" and c k :: int
  assume "rs \<noteq> []" "sorted (map row_version rs)" "\<forall>r \<in> set rs. c < row_version r"
  then show "foldl max c (map row_version rs) < k \<longleftrightarrow> row_version (last rs) < k"
    using last_sorted[of "map row_version rs" c] by (simp add: last_map)
qed simp

fun pulls :: "(repair_env \<times> int \<times> (int \<Rightarrow> string + LogRow list)) list \<Rightarrow> QSOSyncEngine \<Rightarrow> QSOSyncEngine option" where
  \<comment> \<open>consecutive pulls, each at its time and against its server\<close>
  "pulls [] s = Some s"
| "pulls ((env, now, sel) # ps) s = (case pullAndApply env now sel s of None \<Rightarrow> None | Some (r, s') \<Rightarrow> pulls ps s')"

lemma delta_simps [simp]:
  "qd_id (delta_of_row r) = rw_id r" "qd_data (delta_of_row r) = r" "qd_version (delta_of_row r) = row_version r"
  by (simp_all add: delta_of_row_def row_version_def)

lemma apply_page_simps [simp]:
  "eng_device (apply_page now r s) = eng_device s"
  "log_store (apply_page now r s) = foldl (apply_delta (eng_device s) now) (log_store s) (pr_entries r)"
  "version_key (apply_page now r s) = Some (pr_latestVersion r)"
  "repair_marker (apply_page now r s) = repair_marker s"
  by (simp_all add: apply_page_def Let_def setLocalVersion_def)

lemma page_result_simps [simp]:
  "pr_entries (page_result c rs) = map delta_of_row rs"
  "pr_latestVersion (page_result c rs) = foldl max c (map row_version rs)"
  by (simp_all add: page_result_def)

lemma pages_applied:
  fixes now
  defines "R \<equiv> qso.run_pages now"
  shows "fst (R ps st) = fst st + length (concat (map snd ps))"
    "eng_device (snd (R ps st)) = eng_device (snd st)"
    "log_store (snd (R ps st)) = foldl (apply_delta (eng_device (snd st)) now) (log_store (snd st)) (map delta_of_row (concat (map snd ps)))"
    "ps \<noteq> [] \<Longrightarrow> version_key (snd (R ps st)) = Some (foldl max (fst (last ps)) (map row_version (snd (last ps))))"
    "ps = [] \<Longrightarrow> R ps st = st"
    "repair_marker (snd (R ps st)) = repair_marker (snd st)"
proof -
  show "fst (R ps st) = fst st + length (concat (map snd ps))" unfolding R_def by (induction ps arbitrary: st) auto
  show d: "eng_device (snd (R ps st)) = eng_device (snd st)" for st
    unfolding R_def by (induction ps arbitrary: st) auto
  show "log_store (snd (R ps st)) = foldl (apply_delta (eng_device (snd st)) now) (log_store (snd st)) (map delta_of_row (concat (map snd ps)))"
    unfolding R_def by (induction ps arbitrary: st) auto
  show "ps \<noteq> [] \<Longrightarrow> version_key (snd (R ps st)) = Some (foldl max (fst (last ps)) (map row_version (snd (last ps))))"
    unfolding R_def by (induction ps arbitrary: st) auto
  show "ps = [] \<Longrightarrow> R ps st = st" by (simp add: R_def)
  show "repair_marker (snd (R ps st)) = repair_marker (snd st)" unfolding R_def by (induction ps arbitrary: st) auto
qed

lemma apply_delta_frame:
  assumes "store_ok db"
  shows "store_ok (apply_delta dev now db (delta_of_row r))"
    "k \<noteq> rw_id r \<Longrightarrow> apply_delta dev now db (delta_of_row r) k = db k"
    "rw_deleted_at r = None \<Longrightarrow> apply_delta dev now db (delta_of_row r) (rw_id r) \<noteq> None"
proof -
  have i: "le_id (deltaToLogEntry (delta_of_row r)) = rw_id r" by (simp add: deltaToLogEntry_def Let_def)
  have m: "le_id (merge_pulled now e d) = le_id e" for e d by (simp add: merge_pulled_def Let_def)
  have o: "qd_operation (delta_of_row r) = (if rw_deleted_at r \<noteq> None then DeltaDelete else DeltaUpsert)"
    by (simp add: delta_of_row_def)
  show "store_ok (apply_delta dev now db (delta_of_row r))"
    using assms by (auto simp: apply_delta_def Let_def store_ok_def i m o split: option.splits if_splits)
  show "k \<noteq> rw_id r \<Longrightarrow> apply_delta dev now db (delta_of_row r) k = db k"
    using assms by (auto simp: apply_delta_def Let_def store_ok_def i o split: option.splits)
  show "rw_deleted_at r = None \<Longrightarrow> apply_delta dev now db (delta_of_row r) (rw_id r) \<noteq> None"
    using assms by (auto simp: apply_delta_def Let_def store_ok_def i o split: option.splits)
qed

lemma apply_rows_frame:
  assumes "store_ok db" "\<forall>r \<in> set rs. rw_id r \<noteq> k"
  shows "store_ok (foldl (apply_delta dev now) db (map delta_of_row rs)) \<and>
    foldl (apply_delta dev now) db (map delta_of_row rs) k = db k"
  using assms by (induction rs arbitrary: db) (auto simp: apply_delta_frame)

lemma apply_rows_ok: "store_ok db \<Longrightarrow> store_ok (foldl (apply_delta dev now) db (map delta_of_row rs))"
  by (induction rs arbitrary: db) (simp_all add: apply_delta_frame)

lemma apply_rows_dom:
  assumes "store_ok db" "\<forall>r \<in> set rs. rw_deleted_at r = None"
  shows "dom (foldl (apply_delta dev now) db (map delta_of_row rs)) = dom db \<union> rw_id ` set rs"
  using assms
proof (induction rs arbitrary: db)
  case (Cons r rs)
  have "dom (apply_delta dev now db (delta_of_row r)) = insert (rw_id r) (dom db)"
  proof (rule set_eqI)
    fix k
    show "k \<in> dom (apply_delta dev now db (delta_of_row r)) \<longleftrightarrow> k \<in> insert (rw_id r) (dom db)"
      using Cons.prems(2) apply_delta_frame(2)[OF Cons.prems(1), where k = k and r = r]
        apply_delta_frame(3)[OF Cons.prems(1), where r = r]
      by (cases "k = rw_id r") (auto simp: domIff)
  qed
  then show ?case using Cons.IH[OF apply_delta_frame(1)[OF Cons.prems(1)]] Cons.prems(2) by auto
qed simp

lemma loop_frame:
  \<comment> \<open>the loop ends, never lowers the cursor, and leaves every entry alone whose rows are not above the cursor\<close>
  assumes "qso_table rows f" "store_ok (log_store s)"
    "\<forall>r \<in> set rows. rw_id r = k \<longrightarrow> row_version r \<le> getLocalVersion s"
  shows "\<exists>n s'. pull_loop now (answers f) (getLocalVersion s) 0 s = Some (Inr n, s') \<and> store_ok (log_store s') \<and>
    log_store s' k = log_store s k \<and> getLocalVersion s \<le> getLocalVersion s'"
proof -
  obtain ps where l: "pull_loop now (answers f) (getLocalVersion s) 0 s =
      Some (Inr (fst (qso.run_pages now ps (0, s))), snd (qso.run_pages now ps (0, s)))"
    and ps: "\<forall>p \<in> set ps. snd p \<noteq> [] \<and> set (snd p) \<subseteq> {r \<in> set rows. getLocalVersion s < row_version r}"
    using qso.loop_ends[OF assms(1)[unfolded qso_table_def], where c = "getLocalVersion s" and s = "(0, s)" and now = now] by auto
  let ?s' = "snd (qso.run_pages now ps (0, s))"
  have "\<forall>r \<in> set (concat (map snd ps)). rw_id r \<noteq> k" using ps assms(3) by fastforce
  from apply_rows_frame[OF assms(2) this, of "eng_device s" now]
  have "store_ok (log_store ?s')" "log_store ?s' k = log_store s k" by (simp_all add: pages_applied(3))
  moreover have "getLocalVersion s \<le> getLocalVersion ?s'"
  proof (cases "ps = []")
    case True
    then show ?thesis by (simp add: pages_applied(5))
  next
    case False
    then have p: "snd (last ps) \<noteq> []" "set (snd (last ps)) \<subseteq> {r \<in> set rows. getLocalVersion s < row_version r}"
      using ps last_in_set by blast+
    then have h: "getLocalVersion s < row_version (hd (snd (last ps)))" using hd_in_set[OF p(1)] by blast
    have "row_version (hd (snd (last ps))) \<le> foldl max (fst (last ps)) (map row_version (snd (last ps)))"
      unfolding fold_max using p(1) by (intro Max_ge) auto
    then show ?thesis using h False by (simp add: getLocalVersion_def[of ?s'] pages_applied(4))
  qed
  ultimately show ?thesis using l by simp
qed

lemma version_of_update [simp]: "getLocalVersion (s\<lparr>log_store := db, repair_marker := d\<rparr>) = getLocalVersion s"
  by (simp add: getLocalVersion_def)

lemma pull_cases:
  \<comment> \<open>a pull is its repair, and the loop when that does not throw\<close>
  assumes "store_ok (log_store s)"
  obtains (throws) e d db where "pullAndApply env now sel s = Some (Inl e, s\<lparr>log_store := db, repair_marker := d\<rparr>)"
      "fills (log_store s) db"
    | (loops) d db where "pullAndApply env now sel s = pull_loop now sel (getLocalVersion s) 0 (s\<lparr>log_store := db, repair_marker := d\<rparr>)"
      "fills (log_store s) db"
proof -
  obtain meta keys room where env: "env = (meta, keys, room)" by (cases env)
  obtain err d db where b: "backfill meta keys room (repair_marker s, log_store s) = (err, d, db)"
    by (metis prod.exhaust)
  show ?thesis
    using backfill_fills(1)[OF assms b] throws[of _ d db] loops[of d db]
    by (cases err) (simp_all add: pullAndApply_def env b)
qed

lemma pull_frame:
  \<comment> \<open>a pull ends, never lowers the cursor, and adds no entry whose rows are not above the cursor\<close>
  assumes "qso_table rows f" "store_ok (log_store s)" "log_store s k = None"
    "\<forall>r \<in> set rows. rw_id r = k \<longrightarrow> row_version r \<le> getLocalVersion s"
  shows "\<exists>x s'. pullAndApply env now (answers f) s = Some (x, s') \<and> store_ok (log_store s') \<and>
    log_store s' k = None \<and> getLocalVersion s \<le> getLocalVersion s'"
proof (rule pull_cases[OF assms(2), of env now "answers f"], goal_cases)
  case (1 e d db)
  then show ?thesis using assms(3) by (simp add: fills_ok fills_None)
next
  case (2 d db)
  then show ?thesis
    using loop_frame[OF assms(1), of "s\<lparr>log_store := db, repair_marker := d\<rparr>" k now] assms(3,4)
    by (auto simp: fills_ok fills_None)
qed


section \<open>Fields that survive\<close>

definition synced_fields :: "string set" where
  "synced_fields = insert ''isGuestEntry'' (fst ` set log_columns)"

definition log_fields_ok :: "(string \<rightharpoonup> jv) \<Rightarrow> bool" where
  \<comment> \<open>the types of the required fields, and no stored null\<close>
  "log_fields_ok fld \<longleftrightarrow> (\<forall>f. fld f \<noteq> Some JNull) \<and>
     fld ''callsign'' \<noteq> None \<and> fld ''date'' \<noteq> None \<and> fld ''timeOn'' \<noteq> None \<and>
     (\<exists>q. fld ''frequency'' = Some (JNum q)) \<and> (\<exists>m. fld ''mode'' = Some (JStr m)) \<and>
     (\<exists>b. fld ''band'' = Some (JStr b)) \<and> (fld ''isGuestEntry'' = None \<or> fld ''isGuestEntry'' = Some (JBool True))"

lemma columns_table:
  "list_all (\<lambda>(f, c, d). column_of c = Some f \<and> c \<noteq> ''is_guest_entry'' \<and> f \<noteq> ''isGuestEntry'') log_columns"
  "map (\<lambda>(f, c, d). d) (filter (\<lambda>(f, c, d). f \<in> {''callsign'', ''mode'', ''band'', ''date'', ''timeOn''}) log_columns) =
    replicate 5 (Some (JStr []))"
  "map (\<lambda>(f, c, d). d) (filter (\<lambda>(f, c, d). f = ''frequency'') log_columns) =
    replicate 1 (Some (JNum 0))"
  "map (\<lambda>(f, c, d). d) (filter (\<lambda>(f, c, d). f \<notin> {''callsign'', ''frequency'', ''mode'', ''band'', ''date'', ''timeOn''}) log_columns) =
    replicate 16 None"
  by code_simp+

lemma member_table: "e \<in> set xs \<Longrightarrow> P e \<Longrightarrow> map g (filter P xs) = replicate k y \<Longrightarrow> g e = y"
proof -
  assume e: "e \<in> set xs" "P e" and m: "map g (filter P xs) = replicate k y"
  have "g e \<in> set (map g (filter P xs))" using e by simp
  then show "g e = y" unfolding m by simp
qed

lemma columns_invert:
  assumes "(f, c, d) \<in> set log_columns"
  shows "column_of c = Some f" "c \<noteq> ''is_guest_entry''" "f \<noteq> ''isGuestEntry''"
    "f \<in> {''callsign'', ''mode'', ''band'', ''date'', ''timeOn''} \<Longrightarrow> d = Some (JStr [])"
    "f = ''frequency'' \<Longrightarrow> d = Some (JNum 0)"
    "f \<notin> {''callsign'', ''frequency'', ''mode'', ''band'', ''date'', ''timeOn''} \<Longrightarrow> d = None"
proof -
  show "column_of c = Some f" "c \<noteq> ''is_guest_entry''" "f \<noteq> ''isGuestEntry''"
    using columns_table(1) assms unfolding list_all_iff by fast+
  show "f \<in> {''callsign'', ''mode'', ''band'', ''date'', ''timeOn''} \<Longrightarrow> d = Some (JStr [])"
    using member_table[OF assms _ columns_table(2)] by fast
  show "f = ''frequency'' \<Longrightarrow> d = Some (JNum 0)"
    using member_table[OF assms _ columns_table(3)] by fast
  show "f \<notin> {''callsign'', ''frequency'', ''mode'', ''band'', ''date'', ''timeOn''} \<Longrightarrow> d = None"
    using member_table[OF assms _ columns_table(4)] by fast
qed

lemma columns_round_trip:
  assumes "log_fields_ok fld" "(f, c, d) \<in> set log_columns"
  shows "coalesce (cols_of_field fld c) d = fld f"
proof -
  note inv = columns_invert[OF assms(2)]
  note ok = assms(1)[unfolded log_fields_ok_def]
  have v: "cols_of_field fld c = (if f \<in> {''frequency'', ''mode'', ''band''} then (if js_truthy (fld f) then fld f else None)
      else coalesce (fld f) None)"
    using inv(1,2) by (simp add: cols_of_field_def)
  have nn: "v \<noteq> None \<Longrightarrow> v \<noteq> Some JNull \<Longrightarrow> coalesce (coalesce v None) x = v" for v x
    by (auto simp: coalesce_def nullish_def)
  show ?thesis
  proof (cases "f = ''frequency''")
    case True
    then obtain q where "fld f = Some (JNum q)" using ok by auto
    then show ?thesis using v inv(5)[OF True] by (simp add: True coalesce_def nullish_def)
  next
    case freq: False
    show ?thesis
    proof (cases "f = ''mode'' \<or> f = ''band''")
      case True
      then obtain m where "fld f = Some (JStr m)" using ok by auto
      moreover have "d = Some (JStr [])" "f \<in> {''frequency'', ''mode'', ''band''}" using True inv(4) by auto
      ultimately show ?thesis using v by (simp add: coalesce_def nullish_def)
    next
      case tf: False
      then have w: "cols_of_field fld c = coalesce (fld f) None" using v freq by simp
      show ?thesis
      proof (cases "f \<in> {''callsign'', ''date'', ''timeOn''}")
        case True
        have "fld f \<noteq> None" "fld f \<noteq> Some JNull" using True ok by auto
        then show ?thesis unfolding w by (rule nn)
      next
        case False
        then have "d = None" using inv(6) freq tf by simp
        moreover have "fld f \<noteq> Some JNull" using ok by simp
        ultimately show ?thesis unfolding w by (simp add: coalesce_def nullish_def)
      qed
    qed
  qed
qed

lemma fields_round_trip:
  assumes "log_fields_ok fld"
  shows "field_of_cols (cols_of_field fld) f = (if f \<in> synced_fields then fld f else None)"
proof (cases "f = ''isGuestEntry''")
  case True
  have "fld f = None \<or> fld f = Some (JBool True)" using assms unfolding log_fields_ok_def True by blast
  then show ?thesis
    by (auto simp: True field_of_cols_def cols_of_field_def coalesce_def nullish_def synced_fields_def)
next
  case False
  show ?thesis
  proof (cases "map_of log_columns f")
    case None
    then have "f \<notin> synced_fields" using False unfolding map_of_eq_None_iff by (simp add: synced_fields_def)
    then show ?thesis using None False by (simp add: field_of_cols_def)
  next
    case (Some e)
    then obtain c d where e: "e = (c, d)" "(f, c, d) \<in> set log_columns" by (cases e) (auto dest: map_of_SomeD)
    then have "f \<in> synced_fields" unfolding synced_fields_def by force
    then show ?thesis using columns_round_trip[OF assms e(2)] Some e(1) False by (simp add: field_of_cols_def)
  qed
qed

section \<open>Pushes\<close>

definition accepted :: "(LogRow list \<Rightarrow> upsert_error + int option list option) \<Rightarrow> string \<Rightarrow> LogEntry list \<Rightarrow> bool" where
  "accepted ups device batch \<longleftrightarrow> \<not> isl (ups (map (logEntryToRow device) batch))"

definition reported :: "LogEntry list \<Rightarrow> ConflictEntry \<Rightarrow> bool" where
  "reported batch c \<longleftrightarrow> ce_localData c \<in> set batch \<and> le_id (ce_localData c) = ce_entryId c \<and>
     ce_localVersion c < ce_remoteVersion c \<and> ce_conflictFields c \<noteq> []"

lemma conflicts_reported: "conflicts_of batch rows = Some cs \<Longrightarrow> \<forall>c \<in> set cs. reported batch c"
proof (induction rows arbitrary: cs)
  case (Cons r rows)
  show ?case
  proof (cases "find (\<lambda>e. le_id e = rw_id r) batch")
    case (Some e)
    then have "e \<in> set batch" "le_id e = rw_id r" by (auto simp: find_Some_iff)
    then show ?thesis
      using Cons Some by (auto simp: Let_def reported_def split: if_splits option.splits)
  qed (use Cons in simp)
qed simp

lemma fold_seen: "(m :: int) \<le> foldl (\<lambda>m v. case v of None \<Rightarrow> m | Some x \<Rightarrow> if x > m then x else m) m vs"
proof (induction vs arbitrary: m)
  case (Cons v vs)
  show ?case using Cons[of "case v of None \<Rightarrow> m | Some x \<Rightarrow> if x > m then x else m"]
    by (simp split: option.splits if_splits)
qed simp

lemma push_batches_outcome:
  "push_batches ups sel dev bs acc = Inr r \<Longrightarrow>
     pu_processedIds r = pu_processedIds acc @ concat (map (map le_id) (filter (accepted ups dev) bs)) \<and>
     pu_latestVersion acc \<le> pu_latestVersion r \<and>
     (\<forall>c \<in> set (pu_conflicts r) - set (pu_conflicts acc). \<exists>b \<in> set bs. \<not> accepted ups dev b \<and> reported b c)"
proof (induction bs arbitrary: acc)
  case (Cons b bs)
  show ?case
  proof (cases "ups (map (logEntryToRow dev) b)")
    case (Inl error)
    obtain cs where cs: "push_batches ups sel dev bs (acc\<lparr>pu_conflicts := pu_conflicts acc @ cs\<rparr>) = Inr r"
      "\<forall>c \<in> set cs. reported b c"
    proof (cases "sel (map le_id b)")
      case None
      then have "push_batches ups sel dev bs (acc\<lparr>pu_conflicts := pu_conflicts acc @ []\<rparr>) = Inr r"
        using Cons.prems Inl by (simp split: if_splits)
      then show ?thesis by (rule that) simp
    next
      case (Some rows)
      then show ?thesis
        using Cons.prems Inl that conflicts_reported[of b rows] by (auto split: if_splits option.splits)
    qed
    have "\<not> accepted ups dev b" by (simp add: accepted_def Inl)
    then show ?thesis using Cons.IH[OF cs(1)] cs(2) by auto
  next
    case (Inr data)
    have a: "accepted ups dev b" by (simp add: accepted_def Inr)
    obtain v where v: "push_batches ups sel dev bs (acc\<lparr>pu_processedIds := pu_processedIds acc @ map le_id b, pu_latestVersion := v\<rparr>) = Inr r"
      "pu_latestVersion acc \<le> v"
      using Cons.prems Inr fold_seen by (auto split: option.splits)
    then show ?thesis using Cons.IH[OF v(1)] a by auto
  qed
qed simp

section \<open>Examples\<close>

definition ex_row :: "string \<Rightarrow> int \<Rightarrow> LogRow" where
  "ex_row i v = \<lparr>rw_id = i, rw_created_at = 0, rw_updated_at = v, rw_deleted_at = None, rw_version = Some v,
     rw_device_id = Some ''phone'', rw_col = [''callsign'' \<mapsto> JStr ''W9XYZ'']\<rparr>"

definition ex_engine :: "int option \<Rightarrow> QSOSyncEngine" where
  "ex_engine v = \<lparr>eng_device = ''desk'', version_key = v, log_store = Map.empty, meta_stamp = None,
     repair_marker = False\<rparr>"

definition ex_repair :: repair_env where
  "ex_repair = ((\<lambda>ids. Inr [\<lparr>bf_id = ''q1'', bf_my_grid = Some (JStr ''FN42''), bf_dxcc = Some (JNum 291), bf_deleted_at = None\<rparr>]),
     [''q1''], True)"

definition ex_service :: "LogRow list \<Rightarrow> int \<Rightarrow> LogRow list" where
  "ex_service rows = page_server QSO_BATCH_SIZE row_version (\<lambda>c v. c < v) rows"

definition ex_entry :: "string \<Rightarrow> int option \<Rightarrow> LogEntry" where
  "ex_entry call v = \<lparr>le_id = ''q1'', le_createdAt = 0, le_updatedAt = 0, le_version = v, le_lastDeviceId = None,
     le_field = [''callsign'' \<mapsto> JStr call, ''date'' \<mapsto> JStr ''2026-01-01'', ''timeOn'' \<mapsto> JStr ''12:00'',
       ''frequency'' \<mapsto> JNum 14074, ''mode'' \<mapsto> JStr ''FT8'', ''band'' \<mapsto> JStr ''20m'', ''contestId'' \<mapsto> JStr ''CQWW'',
       ''qslRcvd'' \<mapsto> JStr ''Y'']\<rparr>"

lemma ex_table: "qso_table rows (ex_service rows)"
  by (simp add: qso_table_def ex_service_def page_server_law)

lemma ex_simps [simp]: "row_version (ex_row i v) = v" "rw_id (ex_row i v) = i" "rw_version (ex_row i v) = Some v"
  "rw_deleted_at (ex_row i v) = None" "getLocalVersion (ex_engine u) = (case u of None \<Rightarrow> 0 | Some x \<Rightarrow> x)"
  "log_store (ex_engine u) = Map.empty" "version_key (ex_engine u) = u"
  by (simp_all add: ex_row_def ex_engine_def row_version_def delta_of_row_def getLocalVersion_def)

lemma ex_entry_ok: "log_fields_ok (le_field (ex_entry c v))"
  by (simp add: log_fields_ok_def ex_entry_def)

lemma nat_text_inj: "inj nat_text"
  by (metis injI digits_value_nat_text)

section \<open>Properties\<close>



text \<open>
  C17: The version a row is pulled by counts the changes of that row, so it starts at one for every
  contact. Once a device has seen any version, a contact another device logs afterwards and
  nobody edits is never pulled, however often the device pulls, whatever its repairs meet and
  whatever else the table holds.
\<close>

theorem new_contact_never_pulled:
  assumes "1 \<le> getLocalVersion s" "store_ok (log_store s)" "log_store s i = None"
    "\<forall>(env, now, rows, f) \<in> set sv. qso_table rows f \<and> (\<forall>r \<in> set rows. rw_id r = i \<longrightarrow> rw_version r = Some 1)"
  shows "\<exists>s'. pulls (map (\<lambda>(env, now, rows, f). (env, now, answers f)) sv) s = Some s' \<and> log_store s' i = None"
  using assms
proof (induction sv arbitrary: s)
  case Nil
  then show ?case by simp
next
  case (Cons v sv)
  obtain env now rows f where v: "v = (env, now, rows, f)" by (cases v)
  have "\<forall>r \<in> set rows. rw_id r = i \<longrightarrow> row_version r \<le> getLocalVersion s"
    using Cons.prems(1,4) by (auto simp: v row_version_def delta_of_row_def)
  moreover have "qso_table rows f" using Cons.prems(4) by (simp add: v)
  ultimately obtain x s' where "pullAndApply env now (answers f) s = Some (x, s')" "store_ok (log_store s')"
    "log_store s' i = None" "getLocalVersion s \<le> getLocalVersion s'"
    using pull_frame[of rows f s i env now] Cons.prems(2,3) by auto
  then show ?case
    using Cons.IH[of s'] Cons.prems(1,4) by (simp add: v)
qed

theorem new_contact_never_pulled_witness:
  "\<exists>s'. pulls [(ex_repair, 5, answers (ex_service [ex_row ''a'' 2, ex_row ''b'' 1])),
        (((\<lambda>_. Inl ''offline''), [''a''], True), 6, answers (ex_service [ex_row ''a'' 3, ex_row ''b'' 1]))]
      (ex_engine (Some 1)) = Some s' \<and> log_store s' ''b'' = None"
  using new_contact_never_pulled[of "ex_engine (Some 1)" "''b''" "[(ex_repair, 5, [ex_row ''a'' 2, ex_row ''b'' 1], ex_service [ex_row ''a'' 2, ex_row ''b'' 1]),
      (((\<lambda>_. Inl ''offline''), [''a''], True), 6, [ex_row ''a'' 3, ex_row ''b'' 1], ex_service [ex_row ''a'' 3, ex_row ''b'' 1])]"]
  by (auto simp: store_ok_def ex_table)

text \<open>
  A log whose rows all have the same version, as after an import, is pulled only up to the
  first page: of more than one hundred rows a new device gets exactly one hundred, and the
  next pull gets nothing more, whatever its repair does.
\<close>

theorem same_version_log_truncated:
  assumes "qso_table rows f" "\<forall>r \<in> set rows. row_version r = 1 \<and> rw_deleted_at r = None" "distinct (map rw_id rows)"
    "100 < length rows" "version_key s = None" "log_store s = Map.empty"
  shows "\<exists>s'. pulls [(env1, t1, answers f), (env2, t2, answers f)] s = Some s' \<and> card (dom (log_store s')) = 100"
proof -
  have c: "getLocalVersion s = 0" by (simp add: getLocalVersion_def assms(5))
  have all0: "\<forall>r \<in> set rows. row_version r \<le> 1" "length (filter (\<lambda>r. 0 < row_version r \<and> row_version r \<noteq> 1) rows) < QSO_BATCH_SIZE"
    "QSO_BATCH_SIZE < length (filter (\<lambda>r. 0 < row_version r) rows)"
  proof -
    have "filter (\<lambda>r. 0 < row_version r) rows = rows" "filter (\<lambda>r. 0 < row_version r \<and> row_version r \<noteq> 1) rows = []"
      using assms(2) by (auto simp: filter_id_conv filter_empty_conv)
    then show "\<forall>r \<in> set rows. row_version r \<le> 1" "length (filter (\<lambda>r. 0 < row_version r \<and> row_version r \<noteq> 1) rows) < QSO_BATCH_SIZE"
      "QSO_BATCH_SIZE < length (filter (\<lambda>r. 0 < row_version r) rows)"
      using assms(2,4) by (simp_all add: QSO_BATCH_SIZE_def)
  qed
  have law: "page_law QSO_BATCH_SIZE row_version (\<lambda>c v. c < v) rows f" using assms(1) by (simp add: qso_table_def)
  let ?rs = "f 0"
  obtain s0 where s0: "pullAndApply env1 t1 (answers f) s = pull_loop t1 (answers f) 0 0 s0" "log_store s0 = Map.empty"
    using backfill_empty[of _ _ _ "repair_marker s"] by (cases env1) (simp add: pullAndApply_def assms(6) c)
  have p: "length ?rs = 100" "pull_loop t1 (answers f) 0 0 s0 = Some (Inr (length ?rs), apply_page t1 (page_result 0 ?rs) s0)"
    using qso.skips_ties(1)[OF law, where k = 1 and c = 0]
      qso.skips_ties(2)[OF law, where k = 1 and c = 0 and s = "(0, s0)" and now = t1] all0
    by (simp_all add: QSO_BATCH_SIZE_def)
  let ?s1 = "apply_page t1 (page_result 0 ?rs) s0"
  have inr: "set ?rs \<subseteq> {r \<in> set rows. 0 < row_version r}" by (rule page_rows[OF law])
  then have v: "map row_version ?rs = replicate 100 1"
    using assms(2) p(1) by (intro replicate_eqI) auto
  have l1: "getLocalVersion ?s1 = 1" unfolding getLocalVersion_def by (simp add: v fold_max)
  have "dom (log_store ?s1) = rw_id ` set ?rs"
    using apply_rows_dom[of Map.empty ?rs "eng_device s0" t1] inr assms(2) s0(2) by (auto simp: store_ok_def)
  moreover obtain t where t: "mset t = mset (filter (\<lambda>r. 0 < row_version r) rows)" "f 0 = take QSO_BATCH_SIZE t"
    using law unfolding page_law_def by meson
  then have "mset (map rw_id t) = mset (map rw_id (filter (\<lambda>r. 0 < row_version r) rows))" by simp
  then have "distinct (map rw_id t)"
    using assms(3) by (metis distinct_map_filter mset_eq_imp_distinct_iff)
  then have "distinct (map rw_id ?rs)" using t(2) by (metis distinct_take take_map)
  ultimately have card: "card (dom (log_store ?s1)) = 100"
    using p(1) by (metis distinct_card length_map set_map)
  have "f 1 = []" using page_rows[OF law, of 1] assms(2) last_in_set[of "f 1"] by fastforce
  then have stop: "pull_loop t2 (answers f) 1 0 s2 = Some (Inr 0, s2)" for s2
    by (simp add: pull_loop.simps pull_page)
  have "store_ok (log_store ?s1)"
    using apply_rows_ok[of Map.empty "eng_device s0" t1 ?rs] s0(2) by (simp add: store_ok_def)
  then obtain x s2 where "pullAndApply env2 t2 (answers f) ?s1 = Some (x, s2)" "dom (log_store s2) = dom (log_store ?s1)"
    by (rule pull_cases[of ?s1 env2 t2 "answers f"]) (auto simp: l1 stop fills_dom)
  then show ?thesis using p(2) s0(1) card by simp
qed

theorem same_version_log_truncated_witness:
  "\<exists>s'. pulls [(ex_repair, 5, answers (ex_service (map (\<lambda>i. ex_row (nat_text i) 1) [0..<150]))),
       (ex_repair, 6, answers (ex_service (map (\<lambda>i. ex_row (nat_text i) 1) [0..<150])))] (ex_engine None) = Some s' \<and>
     card (dom (log_store s')) = 100"
  by (rule same_version_log_truncated[OF ex_table])
    (auto simp: comp_def distinct_map intro: inj_on_subset[OF nat_text_inj])

text \<open>
  A pulled row replaces the local entry unless another device wrote it. A device that pushes
  an entry and pulls its own row back therefore keeps exactly the properties that have a
  column: those without one, such as the contest, the serial numbers, the transmit power, the
  state or the station chain, are erased from its log.
\<close>

theorem own_row_erases_local_fields:
  assumes "log_fields_ok (le_field e)" "db (le_id e) = Some e"
  shows "\<exists>e'. apply_delta dev now db (delta_of_row (logEntryToRow dev e)) (le_id e) = Some e' \<and>
    (\<forall>f. le_field e' f = (if f \<in> synced_fields then le_field e f else None)) \<and>
    {''contestId'', ''srx'', ''stx'', ''txPower'', ''state'', ''chainId'', ''mySig'', ''lotwQslRcvd'', ''country''} \<inter> synced_fields = {}"
proof -
  have "{''contestId'', ''srx'', ''stx'', ''txPower'', ''state'', ''chainId'', ''mySig'', ''lotwQslRcvd'', ''country''} \<inter> synced_fields = {}"
    by (simp add: synced_fields_def log_columns_def)
  then show ?thesis
    using assms fields_round_trip[OF assms(1)]
    by (simp add: apply_delta_def delta_of_row_def logEntryToRow_def shouldResolveConflict_def deltaToLogEntry_def Let_def)
qed

theorem own_row_erases_local_fields_witness:
  "\<exists>e'. apply_delta ''desk'' 7 [''q1'' \<mapsto> ex_entry ''W9XYZ'' None] (delta_of_row (logEntryToRow ''desk'' (ex_entry ''W9XYZ'' None))) ''q1'' = Some e' \<and>
    le_field e' ''contestId'' = None \<and> le_field (ex_entry ''W9XYZ'' None) ''contestId'' = Some (JStr ''CQWW'')"
proof -
  have i: "le_id (ex_entry ''W9XYZ'' None) = ''q1''" "le_field (ex_entry ''W9XYZ'' None) ''contestId'' = Some (JStr ''CQWW'')"
    by (simp_all add: ex_entry_def)
  obtain e' where e: "apply_delta ''desk'' 7 [''q1'' \<mapsto> ex_entry ''W9XYZ'' None] (delta_of_row (logEntryToRow ''desk'' (ex_entry ''W9XYZ'' None))) ''q1'' = Some e'"
    "\<forall>f. le_field e' f = (if f \<in> synced_fields then le_field (ex_entry ''W9XYZ'' None) f else None)" "''contestId'' \<notin> synced_fields"
    using own_row_erases_local_fields[OF ex_entry_ok, of "[''q1'' \<mapsto> ex_entry ''W9XYZ'' None]" "''W9XYZ''" None "''desk''" 7]
    unfolding i by auto
  have "le_field e' ''contestId'' = None" using e(2)[THEN spec[where x = "''contestId''"]] e(3) by simp
  then show ?thesis using e(1) i(2) by blast
qed

text \<open>
  C30: Merging two versions of an entry never loses a confirmation: every one of the six
  confirmation fields (the QSL statuses and the LoTW and eQSL flags) is the higher of the two. In
  these six fields and in the version, which is the higher one, the merge does not depend on
  which of the two entries is the local one. In the core fields it does: they are those of the
  local entry.
\<close>

theorem merge_keeps_confirmations:
  assumes "\<forall>f \<in> set status_fields. status_value f (le_field l f) \<and> status_value f (le_field r f)"
  shows "(\<forall>f \<in> set status_fields. le_field (autoMerge t1 l r) f = le_field (autoMerge t2 r l) f \<and>
      qsl_level (le_field (autoMerge t1 l r) f) = max (qsl_level (le_field l f)) (qsl_level (le_field r f))) \<and>
    (\<forall>f \<in> set CONFLICT_FIELDS. le_field (autoMerge t1 l r) f = le_field l f) \<and>
    le_version (autoMerge t1 l r) = le_version (autoMerge t2 r l)"
proof -
  have s: "set status_fields \<subseteq> set AUTO_MERGE_FIELDS"
    by (simp add: status_fields_def QSL_STATUS_FIELDS_def AUTO_MERGE_FIELDS_def)
  have "le_field (autoMerge t1 l r) f = le_field (autoMerge t2 r l) f \<and>
      qsl_level (le_field (autoMerge t1 l r) f) = max (qsl_level (le_field l f)) (qsl_level (le_field r f))"
    if "f \<in> set status_fields" for f
    using that s assms merge_value_level[OF that] by (auto simp: merged_field)
  moreover have "le_field (autoMerge t1 l r) f = le_field l f" if "f \<in> set CONFLICT_FIELDS" for f
    using that core_fields_not_merged by (auto simp: merged_field)
  moreover have "le_version (autoMerge t1 l r) = le_version (autoMerge t2 r l)"
    by (simp add: autoMerge_def Let_def max.commute)
  ultimately show ?thesis by blast
qed

theorem merge_keeps_confirmations_witness:
  "le_field (autoMerge 3 ((ex_entry ''W9XYZ'' None)\<lparr>le_field := Map.empty\<rparr>) (ex_entry ''W9XYZ'' None)) ''qslRcvd'' =
   le_field (autoMerge 4 (ex_entry ''W9XYZ'' None) ((ex_entry ''W9XYZ'' None)\<lparr>le_field := Map.empty\<rparr>)) ''qslRcvd''"
proof -
  have "\<forall>f \<in> set status_fields. status_value f (le_field ((ex_entry ''W9XYZ'' None)\<lparr>le_field := Map.empty\<rparr>) f) \<and>
      status_value f (le_field (ex_entry ''W9XYZ'' None) f)"
    by (simp add: status_fields_def QSL_STATUS_FIELDS_def status_value_def ex_entry_def QSL_RANK_def)
  moreover have "''qslRcvd'' \<in> set status_fields" by (simp add: status_fields_def QSL_STATUS_FIELDS_def)
  ultimately show ?thesis using merge_keeps_confirmations by blast
qed

text \<open>
  Two devices that resolve the same conflict the opposite way round agree on it: when their
  versions differ, the resolved entries have no conflicting field left and the same version.
\<close>

theorem conflict_resolution_agrees:
  assumes "le_version l = Some v" "le_version r = Some w" "v \<noteq> w" "0 \<le> v" "0 \<le> w"
  shows "detectFieldConflicts (resolveConflicts t1 l r) (resolveConflicts t2 r l) = [] \<and>
    le_version (resolveConflicts t1 l r) = le_version (resolveConflicts t2 r l)"
proof -
  let ?C = "detectFieldConflicts l r"
  have C: "detectFieldConflicts r l = ?C" by (simp add: detectFieldConflicts_def field_differs_commute)
  have inC: "f \<in> set ?C \<longleftrightarrow> f \<in> set CONFLICT_FIELDS \<and> field_differs (le_field l f) (le_field r f)" for f
    by (simp add: detectFieldConflicts_def)
  have same: "\<not> field_differs x x" for x by (simp add: field_differs_def)
  have m: "le_field (autoMerge t l' r') f = le_field l' f" if "f \<in> set CONFLICT_FIELDS" for f l' r' t
    using that core_fields_not_merged by (auto simp: merged_field)
  have "\<not> field_differs (le_field (resolveConflicts t1 l r) f) (le_field (resolveConflicts t2 r l) f)"
    if f: "f \<in> set CONFLICT_FIELDS" for f
    using f inC[of f] m[OF f] same assms(3)
    by (auto simp: resolveConflicts_def C Let_def assms(1,2) fold_updates field_differs_commute)
  moreover have "le_version (resolveConflicts t1 l r) = le_version (resolveConflicts t2 r l)"
    using assms by (auto simp: resolveConflicts_def C Let_def autoMerge_def max_def)
  ultimately show ?thesis by (simp add: detectFieldConflicts_def filter_empty_conv)
qed

theorem conflict_resolution_agrees_witness:
  "detectFieldConflicts (resolveConflicts 3 (ex_entry ''W9XYZ'' (Some 2)) (ex_entry ''W9XYY'' (Some 5)))
     (resolveConflicts 4 (ex_entry ''W9XYY'' (Some 5)) (ex_entry ''W9XYZ'' (Some 2))) = []"
  using conflict_resolution_agrees[of "ex_entry ''W9XYZ'' (Some 2)" 2 "ex_entry ''W9XYY'' (Some 5)" 5 3 4]
  by (simp add: ex_entry_def)

text \<open>
  A push that returns accounts for every batch: the processed entries are exactly those of the
  batches the service accepted, a reported conflict belongs to an entry of a refused batch
  that the service holds in a newer version with a differing field, and the cursor never goes
  back. The local store is not changed.
\<close>

theorem push_outcome:
  assumes "pushChanges ups sel es s = (Inr r, s')"
  shows "pu_processedIds r = concat (map (map le_id) (filter (accepted ups (eng_device s)) (pieces 100 es))) \<and>
    (\<forall>c \<in> set (pu_conflicts r). \<exists>b \<in> set (pieces 100 es). \<not> accepted ups (eng_device s) b \<and> reported b c) \<and>
    getLocalVersion s \<le> getLocalVersion s' \<and> log_store s' = log_store s"
proof -
  have "push_batches ups sel (eng_device s) (pieces 100 es)
      \<lparr>pu_processedIds = [], pu_conflicts = [], pu_latestVersion = getLocalVersion s\<rparr> = Inr r"
    and s': "s' = setLocalVersion (pu_latestVersion r) s"
    using assms by (auto simp: pushChanges_def QSO_BATCH_SIZE_def split: sum.splits)
  from push_batches_outcome[OF this(1)] show ?thesis
    by (simp add: s' setLocalVersion_def getLocalVersion_def)
qed

theorem push_outcome_witness:
  "\<exists>r s'. pushChanges (\<lambda>rs. Inr (Some [Some 4])) (\<lambda>_. None) [ex_entry ''W1AW'' None] (ex_engine (Some 1)) = (Inr r, s') \<and>
    pu_processedIds r = [''q1''] \<and> 1 \<le> getLocalVersion s'"
proof -
  obtain r s' where "pushChanges (\<lambda>rs. Inr (Some [Some 4])) (\<lambda>_. None) [ex_entry ''W1AW'' None] (ex_engine (Some 1)) = (Inr r, s')"
    by (simp add: pushChanges_def QSO_BATCH_SIZE_def pieces.simps)
  from push_outcome[OF this] this show ?thesis
    by (auto simp: pieces.simps accepted_def ex_entry_def)
qed

text \<open>
  When a batch is refused for a conflict and the service holds a newer, deleted version of an
  entry, the push throws instead of reporting: the conversion of a deleted row is null and its
  properties are read.
\<close>

theorem deleted_row_breaks_push:
  assumes "ups (map (logEntryToRow (eng_device s)) [e]) = Inl err" "conflict_error err"
    "sel [le_id e] = Some [row]" "rw_id row = le_id e" "rw_deleted_at row \<noteq> None"
    "rw_version row = Some v" "le_version e = Some w" "w < v"
  shows "pushChanges ups sel [e] s = (Inl ''TypeError'', s)"
  using assms by (simp add: pushChanges_def QSO_BATCH_SIZE_def pieces.simps rowToLogEntry_def Let_def)

theorem deleted_row_breaks_push_witness:
  "pushChanges (\<lambda>_. Inl \<lparr>ue_code = ''23505'', ue_message = ''duplicate key''\<rparr>)
     (\<lambda>_. Some [(ex_row ''q1'' 3)\<lparr>rw_deleted_at := Some 9\<rparr>]) [ex_entry ''W1AW'' (Some 2)] (ex_engine (Some 1)) =
   (Inl ''TypeError'', ex_engine (Some 1))"
  by (rule deleted_row_breaks_push[where v = 3 and w = 2]) (auto simp: conflict_error_def ex_row_def ex_entry_def)

end
