(* ===== verification/WriteQueue.thy ===== *)
theory WriteQueue
  imports OfflineQueue
begin

text \<open>
  The persistent offline write queue (\<open>src/lib/sync/writeQueue.ts\<close>, entry type from
  \<open>src/lib/sync/types.ts\<close>). The fresh identifier of an entry and the current time are
  arguments of \<open>enqueue\<close>; so is whether the storage has room.
\<close>

datatype operation = Upsert | Delete
datatype entry_status = Pending | Failed

type_synonym row_data = "(string \<times> jv) list"

record WriteQueueEntry =
  queueId :: string
  wq_table :: string
  wq_operation :: operation
  wq_data :: row_data
  timestamp :: int
  retryCount :: nat
  wq_status :: entry_status

type_synonym WriteQueue = "WriteQueueEntry Queue"

definition MAX_ENTRIES :: nat where "MAX_ENTRIES = 2000"

definition data_id :: "row_data \<Rightarrow> string option" where
  \<comment> \<open>\<open>data.id as string | undefined\<close>\<close>
  "data_id d = (case map_of d ''id'' of Some (JStr s) \<Rightarrow> Some s | _ \<Rightarrow> None)"

definition same_row :: "string \<Rightarrow> string option \<Rightarrow> WriteQueueEntry \<Rightarrow> bool" where
  "same_row table i e \<longleftrightarrow> wq_table e = table \<and> data_id (wq_data e) = i"

definition evict :: "WriteQueueEntry list \<Rightarrow> WriteQueueEntry list" where
  "evict es =
     (if length es \<ge> MAX_ENTRIES then
        (case index_from (\<lambda>e. wq_status e = Failed) es of
           Some i \<Rightarrow> remove_at i es
         | None \<Rightarrow> tl es)
      else es)"

definition wq_enqueue :: "string \<Rightarrow> int \<Rightarrow> bool \<Rightarrow> string \<Rightarrow> operation \<Rightarrow> row_data \<Rightarrow> WriteQueue \<Rightarrow> WriteQueue" where
  "wq_enqueue uuid now room table operation d q =
     (let dataId = data_id d;
          es1 = (if dataId \<noteq> None \<and> dataId \<noteq> Some [] then filter (\<lambda>e. \<not> same_row table dataId e) (entries q)
                 else entries q);
          es2 = evict es1
      in save room (q\<lparr>entries := es2 @ [\<lparr>queueId = uuid, wq_table = table, wq_operation = operation,
           wq_data = d, timestamp = now, retryCount = 0, wq_status = Pending\<rparr>]\<rparr>))"

definition wq_dequeue :: "bool \<Rightarrow> string list \<Rightarrow> WriteQueue \<Rightarrow> WriteQueue" where
  "wq_dequeue room ids q =
     (if ids = [] then q
      else save room (q\<lparr>entries := filter (\<lambda>e. queueId e \<notin> set ids) (entries q)\<rparr>))"

definition wq_getPending :: "WriteQueue \<Rightarrow> WriteQueueEntry list" where
  "wq_getPending q = filter (\<lambda>e. wq_status e = Pending) (entries q)"

definition wq_getPendingForTables :: "string list \<Rightarrow> WriteQueue \<Rightarrow> WriteQueueEntry list" where
  "wq_getPendingForTables tables q = filter (\<lambda>e. wq_status e = Pending \<and> wq_table e \<in> set tables) (entries q)"

definition wq_hasPendingForId :: "string \<Rightarrow> string \<Rightarrow> WriteQueue \<Rightarrow> bool" where
  "wq_hasPendingForId table i q \<longleftrightarrow>
     list_ex (\<lambda>e. wq_table e = table \<and> wq_status e = Pending \<and> data_id (wq_data e) = Some i) (entries q)"

definition wq_getFailed :: "WriteQueue \<Rightarrow> WriteQueueEntry list" where
  "wq_getFailed q = filter (\<lambda>e. wq_status e = Failed) (entries q)"

definition wq_markFailed :: "bool \<Rightarrow> string \<Rightarrow> WriteQueue \<Rightarrow> WriteQueue" where
  "wq_markFailed room i q =
     (if list_ex (\<lambda>e. queueId e = i) (entries q)
      then save room (q\<lparr>entries := update_first (\<lambda>e. queueId e = i)
             (\<lambda>e. e\<lparr>wq_status := Failed, retryCount := retryCount e + 1\<rparr>) (entries q)\<rparr>)
      else q)"

definition wq_retry :: "bool \<Rightarrow> string \<Rightarrow> WriteQueue \<Rightarrow> WriteQueue" where
  "wq_retry room i q =
     (if list_ex (\<lambda>e. queueId e = i) (entries q)
      then save room (q\<lparr>entries := update_first (\<lambda>e. queueId e = i) (\<lambda>e. e\<lparr>wq_status := Pending\<rparr>) (entries q)\<rparr>)
      else q)"

definition wq_retryAll :: "bool \<Rightarrow> WriteQueue \<Rightarrow> WriteQueue" where
  "wq_retryAll room q =
     (let es = map (\<lambda>e. if wq_status e = Failed then e\<lparr>wq_status := Pending\<rparr> else e) (entries q)
      in if list_ex (\<lambda>e. wq_status e = Failed) (entries q) then save room (q\<lparr>entries := es\<rparr>) else q)"

definition wq_clear :: "bool \<Rightarrow> WriteQueue \<Rightarrow> WriteQueue" where
  "wq_clear room q = save room (q\<lparr>entries := []\<rparr>)"

datatype wq_op =
    Enqueue string int string operation row_data
  | Dequeue "string list"
  | MarkFailed string
  | Retry string
  | RetryAll
  | Clear

fun wq_step :: "WriteQueue \<Rightarrow> wq_op \<times> bool \<Rightarrow> WriteQueue" where
  \<comment> \<open>an operation, and whether the storage has room for it\<close>
  "wq_step q (Enqueue uuid now table op1 d, room) = wq_enqueue uuid now room table op1 d q"
| "wq_step q (Dequeue ids, room) = wq_dequeue room ids q"
| "wq_step q (MarkFailed i, room) = wq_markFailed room i q"
| "wq_step q (Retry i, room) = wq_retry room i q"
| "wq_step q (RetryAll, room) = wq_retryAll room q"
| "wq_step q (Clear, room) = wq_clear room q"

fun wq_adds :: "wq_op \<times> bool \<Rightarrow> string list" where
  "wq_adds (Enqueue uuid now table op1 d, room) = [uuid]"
| "wq_adds _ = []"

lemmas wq_defs = wq_enqueue_def wq_dequeue_def wq_markFailed_def wq_retry_def wq_retryAll_def wq_clear_def Let_def

section \<open>The contract holds\<close>

lemma length_evict: "length es \<le> MAX_ENTRIES \<Longrightarrow> length (evict es) < MAX_ENTRIES"
proof -
  assume le: "length es \<le> MAX_ENTRIES"
  have "length (remove_at i es) < MAX_ENTRIES" if "index_from (\<lambda>e. wq_status e = Failed) es = Some i" for i
    using that le index_from_Some[of _ es i] by (auto simp: remove_at_def)
  then show ?thesis using le by (auto simp: evict_def MAX_ENTRIES_def split: option.splits)
qed

lemma set_evict: "set (evict es) \<subseteq> set es"
  using set_remove_at[of _ es] by (cases es) (auto simp: evict_def split: option.splits)

lemma subseq_evict: "subseq (evict es) es"
  by (cases es) (auto simp: evict_def subseq_remove_at split: option.splits)

interpretation wq: offline_queue wq_step entries queueId wq_adds MAX_ENTRIES
proof (unfold_locales, goal_cases)
  case (1 q o1)
  have "length (evict (filter P (entries q))) < MAX_ENTRIES" "length (evict (entries q)) < MAX_ENTRIES" for P
    using 1 order_trans[OF length_filter_le[of P "entries q"] 1] by (auto intro!: length_evict)
  then show ?case
    using 1 by (cases "(q, o1)" rule: wq_step.cases)
      (auto simp: wq_defs less_eq_Suc_le intro: order_trans[OF length_filter_le])
next
  case (2 q o1)
  have s: "set (evict es) \<subseteq> set es" for es by (rule set_evict)
  show ?case
    using s[of "entries q"] s[of "filter P (entries q)" for P]
    by (cases "(q, o1)" rule: wq_step.cases)
      (auto simp: wq_defs image_iff dest!: set_mp[OF s] set_mp[OF set_update_first])
qed

section \<open>Invariant\<close>

definition row_key :: "WriteQueueEntry \<Rightarrow> (string \<times> string) option" where
  "row_key e = (case data_id (wq_data e) of Some (c # cs) \<Rightarrow> Some (wq_table e, c # cs) | _ \<Rightarrow> None)"

definition one_per_row :: "WriteQueueEntry list \<Rightarrow> bool" where
  "one_per_row es \<longleftrightarrow> distinct (filter (\<lambda>k. k \<noteq> None) (map row_key es))"

lemma one_per_row_subseq: "subseq es fs \<Longrightarrow> one_per_row fs \<Longrightarrow> one_per_row es"
  unfolding one_per_row_def by (meson subseq_filter subseq_map subseq_distinct_trans)

lemma row_key_update [simp]: "row_key (e\<lparr>wq_status := s\<rparr>) = row_key e" "row_key (e\<lparr>retryCount := n\<rparr>) = row_key e"
  by (simp_all add: row_key_def split: option.splits list.splits)

lemma one_per_row_same_keys: "map row_key es = map row_key fs \<Longrightarrow> one_per_row es = one_per_row fs"
  by (simp add: one_per_row_def)

lemma one_per_row_snoc: "one_per_row (es @ [e]) \<longleftrightarrow> one_per_row es \<and> (row_key e = None \<or> (\<forall>x \<in> set es. row_key x \<noteq> row_key e))"
  by (auto simp: one_per_row_def image_iff)

lemma one_per_row_enqueue:
  assumes "one_per_row (entries q)"
  shows "one_per_row (entries (wq_enqueue uuid now room table op1 d q))"
proof -
  let ?new = "\<lparr>queueId = uuid, wq_table = table, wq_operation = op1, wq_data = d, timestamp = now,
    retryCount = 0, wq_status = Pending\<rparr>"
  show ?thesis
  proof (cases "data_id d = None \<or> data_id d = Some []")
    case True
    then have "row_key ?new = None" by (auto simp: row_key_def)
    moreover have "entries (wq_enqueue uuid now room table op1 d q) = evict (entries q) @ [?new]"
      using True by (auto simp: wq_enqueue_def)
    ultimately show ?thesis
      using one_per_row_subseq[OF subseq_evict assms] by (simp add: one_per_row_snoc)
  next
    case False
    let ?es = "filter (\<lambda>e. \<not> same_row table (data_id d) e) (entries q)"
    have e: "entries (wq_enqueue uuid now room table op1 d q) = evict ?es @ [?new]"
      using False by (auto simp: wq_enqueue_def)
    have "row_key x \<noteq> row_key ?new" if "x \<in> set (evict ?es)" for x
    proof -
      have "\<not> same_row table (data_id d) x" using that set_evict[of ?es] by auto
      then show ?thesis using False
        by (auto simp: row_key_def same_row_def split: option.splits list.splits)
    qed
    moreover have "one_per_row (evict ?es)"
      using one_per_row_subseq[OF subseq_evict one_per_row_subseq[OF subseq_filter_left assms]] .
    ultimately show ?thesis unfolding e one_per_row_snoc by blast
  qed
qed

lemma one_per_row_step:
  assumes "one_per_row (entries q)"
  shows "one_per_row (entries (wq_step q o1))"
proof -
  obtain x room where o1: "o1 = (x, room)" by (cases o1)
  have m: "map row_key (map (\<lambda>e. if wq_status e = Failed then e\<lparr>wq_status := Pending\<rparr> else e) es) = map row_key es" for es
    by (induction es) auto
  show ?thesis
  proof (cases x)
    case (Enqueue uuid now table op1 d)
    then show ?thesis using assms o1 one_per_row_enqueue by simp
  next
    case (Dequeue ids)
    then show ?thesis using assms o1 by (auto simp: wq_defs intro: one_per_row_subseq[OF subseq_filter_left])
  next
    case RetryAll
    then show ?thesis using assms o1 one_per_row_same_keys[OF m] by (auto simp: wq_defs)
  qed (use assms o1 in \<open>auto simp: wq_defs one_per_row_same_keys[OF map_update_first] one_per_row_def[of "[]"]\<close>)
qed

lemma one_per_row_run: "one_per_row (entries q) \<Longrightarrow> one_per_row (entries (wq.runs q os))"
  by (induction os arbitrary: q) (auto simp: one_per_row_step)

lemma saved_step: "saved q \<Longrightarrow> saved (wq_step q (o1, True))"
  by (cases o1) (auto simp: wq_defs saved_save[of "q\<lparr>entries := x\<rparr>" for x, simplified] saved_def load_def)

section \<open>Properties\<close>

text \<open>
  C35: Over every sequence of operations, with a full or failing storage at any of them, a queue
  that starts empty never holds more than 2000 entries and never two entries for the same row
  of the same table.
\<close>

theorem write_queue_bounded_and_unique:
  "length (entries (foldl wq_step (load None) os)) \<le> MAX_ENTRIES \<and>
   one_per_row (entries (foldl wq_step (load None) os))"
proof -
  have e: "entries (load None :: WriteQueue) = []" by (simp add: load_def)
  show ?thesis
    using wq.runs_bounded[of "load None" os] one_per_row_run[of "load None" os] e
    by (simp add: wq.runs_def one_per_row_def)
qed

text \<open>
  The newest write of a row wins. After \<open>enqueue\<close> of a row with an identifier the last
  entry is that write, pending and untried; no other entry is for the same row; and below the
  limit every entry for another row is kept, in order.
\<close>

theorem newest_write_wins:
  assumes "data_id d = Some i" "i \<noteq> []"
  shows "\<exists>es. entries (wq_enqueue uuid now room table op1 d q) = es @ [\<lparr>queueId = uuid, wq_table = table,
      wq_operation = op1, wq_data = d, timestamp = now, retryCount = 0, wq_status = Pending\<rparr>] \<and>
    (\<forall>e \<in> set es. \<not> same_row table (Some i) e) \<and>
    subseq es (entries q) \<and>
    (length (entries q) < MAX_ENTRIES \<longrightarrow> es = filter (\<lambda>e. \<not> same_row table (Some i) e) (entries q))"
proof -
  let ?es = "filter (\<lambda>e. \<not> same_row table (Some i) e) (entries q)"
  have "entries (wq_enqueue uuid now room table op1 d q) = evict ?es @ [\<lparr>queueId = uuid, wq_table = table,
      wq_operation = op1, wq_data = d, timestamp = now, retryCount = 0, wq_status = Pending\<rparr>]"
    using assms by (simp add: wq_enqueue_def)
  moreover have "\<forall>e \<in> set (evict ?es). \<not> same_row table (Some i) e" using set_evict[of ?es] by auto
  moreover have "subseq (evict ?es) (entries q)"
    using subseq_order.trans[OF subseq_evict subseq_filter_left] .
  moreover have "length (entries q) < MAX_ENTRIES \<Longrightarrow> evict ?es = ?es"
    using le_less_trans[OF length_filter_le[of "\<lambda>e. \<not> same_row table (Some i) e" "entries q"], of MAX_ENTRIES]
    by (simp add: evict_def)
  ultimately show ?thesis by blast
qed

theorem newest_write_wins_witness:
  "\<exists>es. entries (wq_enqueue ''q2'' 5 True ''watches'' Upsert [(''id'', JStr ''w1'')] (load None)) = es @ [\<lparr>queueId = ''q2'',
      wq_table = ''watches'', wq_operation = Upsert, wq_data = [(''id'', JStr ''w1'')], timestamp = 5, retryCount = 0, wq_status = Pending\<rparr>] \<and>
    (\<forall>e \<in> set es. \<not> same_row ''watches'' (Some ''w1'') e) \<and> subseq es (entries (load None)) \<and>
    (length (entries (load None :: WriteQueue)) < MAX_ENTRIES \<longrightarrow> es = filter (\<lambda>e. \<not> same_row ''watches'' (Some ''w1'') e) (entries (load None)))"
  by (rule newest_write_wins) (simp_all add: data_id_def)

text \<open>
  An acknowledged write is never sent again: once \<open>dequeue\<close> has removed an entry, no later
  sequence of operations brings its identifier back, unless a new entry is given it.
\<close>

theorem acknowledged_write_stays_gone:
  assumes "i \<in> set ids" "i \<notin> set (concat (map wq_adds os))"
  shows "i \<notin> queueId ` set (entries (foldl wq_step (wq_dequeue room ids q) os))"
proof -
  have "i \<notin> queueId ` set (entries (wq_dequeue room ids q))"
    using assms(1) by (auto simp: wq_dequeue_def)
  from wq.gone_stays_gone[OF this assms(2)] show ?thesis by (simp add: wq.runs_def)
qed

theorem acknowledged_write_stays_gone_witness:
  "''q1'' \<notin> queueId ` set (entries (foldl wq_step (wq_dequeue True [''q1'']
     (wq_enqueue ''q1'' 0 True ''watches'' Upsert [(''id'', JStr ''w1'')] (load None))) [(RetryAll, True), (MarkFailed ''q1'', True)]))"
  by (rule acknowledged_write_stays_gone) simp_all

text \<open>
  Nothing is lost over a reload: after any sequence of operations for which the storage had
  room, a new instance loads exactly the entries of the old one.
\<close>

theorem write_queue_survives_reload:
  "entries (load (stored (foldl wq_step (load None) (map (\<lambda>o1. (o1, True)) os))))
     = entries (foldl wq_step (load None) (map (\<lambda>o1. (o1, True)) os))"
proof -
  have "saved (foldl wq_step q (map (\<lambda>o1. (o1, True)) os))" if "saved q" for q
    using that by (induction os arbitrary: q) (auto simp: saved_step)
  from this[of "load None"] show ?thesis by (simp add: saved_def load_def)
qed

end
