(* ===== verification/LogbookSync.thy ===== *)
theory LogbookSync
  imports QsoSync WriteQueue
begin

text \<open>
  The logbook module of the sync manager (\<open>src/lib/sync/modules/logbookSync.ts\<close>), which pulls by
  time stamp after the repair of \<open>LogRepair\<close>. The service is a parameter as in \<open>QsoSync\<close>; the
  cursor of a first pull is \<open>None\<close>.
\<close>

section \<open>Pull\<close>

definition LOG_BATCH_SIZE :: nat where "LOG_BATCH_SIZE = 100"

definition logbook_entry :: "LogRow \<Rightarrow> LogEntry option" where
  \<comment> \<open>\<open>rowToLogEntry\<close> of this module: no version and no device\<close>
  "logbook_entry row =
     (if rw_deleted_at row \<noteq> None then None
      else Some \<lparr>le_id = rw_id row, le_createdAt = rw_created_at row, le_updatedAt = rw_updated_at row,
        le_version = None, le_lastDeviceId = None, le_field = field_of_cols (rw_col row)\<rparr>)"

definition put_row :: "(string \<rightharpoonup> LogEntry) \<Rightarrow> LogRow \<Rightarrow> (string \<rightharpoonup> LogEntry)" where
  "put_row db row =
     (if rw_deleted_at row \<noteq> None then db(rw_id row := None)
      else case logbook_entry row of None \<Rightarrow> db | Some e \<Rightarrow> db(le_id e \<mapsto> e))"

definition newest :: "int option \<Rightarrow> LogRow \<Rightarrow> int option" where
  "newest m row = (case m of None \<Rightarrow> Some (rw_updated_at row)
     | Some t \<Rightarrow> if rw_updated_at row > t then Some (rw_updated_at row) else m)"

partial_function (option) logbook_loop ::
    "(int option \<Rightarrow> string + LogRow list) \<Rightarrow> int option \<Rightarrow> int option \<Rightarrow> (string \<rightharpoonup> LogEntry) \<Rightarrow>
     ((string + int option) \<times> (string \<rightharpoonup> LogEntry)) option" where
  "logbook_loop sel cursor maxTimestamp db =
     (case sel cursor of
        Inl e \<Rightarrow> Some (Inl (''Logbook pull failed: '' @ e), db)
      | Inr data \<Rightarrow>
          if data = [] then Some (Inr maxTimestamp, db)
          else let db' = foldl put_row db data;
                   m = foldl newest maxTimestamp data
               in if length data = LOG_BATCH_SIZE
                  then logbook_loop sel (Some (rw_updated_at (last data))) m db'
                  else Some (Inr m, db'))"

section \<open>Repair and pull\<close>

definition logbook_pull ::
    "(string list \<Rightarrow> string + BackfillRow list) \<Rightarrow> string list \<Rightarrow> bool \<Rightarrow> (int option \<Rightarrow> string + LogRow list) \<Rightarrow>
     int option \<Rightarrow> bool \<times> (string \<rightharpoonup> LogEntry) \<Rightarrow> ((string + int option) \<times> bool \<times> (string \<rightharpoonup> LogEntry)) option" where
  "logbook_pull meta keys room sel since st =
     (case backfill meta keys room st of
        (Some e, done', db) \<Rightarrow> Some (Inl e, done', db)
      | (None, done', db) \<Rightarrow>
          map_option (\<lambda>(r, db'). (r, done', db')) (logbook_loop sel since since db))"

section \<open>Push\<close>

definition logbook_row :: "LogEntry \<Rightarrow> LogRow" where
  \<comment> \<open>\<open>logEntryToRow\<close> of this module: no version and no device\<close>
  "logbook_row entry =
     \<lparr>rw_id = le_id entry, rw_created_at = le_createdAt entry, rw_updated_at = le_updatedAt entry,
      rw_deleted_at = None, rw_version = None, rw_device_id = None, rw_col = cols_of_field (le_field entry)\<rparr>"

fun push_pieces :: "(LogRow list \<Rightarrow> string option) \<Rightarrow> LogEntry list list \<Rightarrow> string option" where
  "push_pieces upsert [] = None"
| "push_pieces upsert (batch # rest) =
     (case upsert (map logbook_row batch) of
        Some e \<Rightarrow> Some (''Logbook push batch failed: '' @ e)
      | None \<Rightarrow> push_pieces upsert rest)"

definition logbook_push :: "(LogRow list \<Rightarrow> string option) \<Rightarrow> LogEntry list \<Rightarrow> string option" where
  \<comment> \<open>\<open>upsert\<close> answers an error or nothing; the entries are those \<open>getAll\<close> gives\<close>
  "logbook_push upsert allEntries = push_pieces upsert (pieces LOG_BATCH_SIZE allEntries)"

definition queued_row :: "string \<Rightarrow> row_data \<Rightarrow> row_data" where
  "queued_row userId d = filter (\<lambda>(k, v). k \<noteq> ''user_id'') d @ [(''user_id'', JStr userId)]"

definition logbook_processQueue ::
    "(row_data list \<Rightarrow> bool) \<Rightarrow> (string \<Rightarrow> string option \<Rightarrow> bool) \<Rightarrow> string \<Rightarrow> WriteQueueEntry list \<Rightarrow> string list" where
  \<comment> \<open>\<open>upsert\<close> and \<open>remove\<close> say whether the service took the rows and the soft deletion\<close>
  "logbook_processQueue upsert remove userId es =
     (let upserts = filter (\<lambda>e. wq_operation e = Upsert) es;
          deletes = filter (\<lambda>e. wq_operation e = Delete) es
      in concat (map (\<lambda>batch. if upsert (map (queued_row userId \<circ> wq_data) batch) then map queueId batch else [])
           (pieces LOG_BATCH_SIZE upserts)) @
         map queueId (filter (\<lambda>e. remove userId (data_id (wq_data e))) deletes))"

section \<open>The pull as a paged pull\<close>

definition after :: "int option \<Rightarrow> int \<Rightarrow> bool" where
  "after c t \<longleftrightarrow> (case c of None \<Rightarrow> True | Some v \<Rightarrow> v < t)"

definition log_table :: "LogRow list \<Rightarrow> (int option \<Rightarrow> LogRow list) \<Rightarrow> bool" where
  "log_table rows fetch \<longleftrightarrow> page_law LOG_BATCH_SIZE rw_updated_at after rows fetch"

interpretation lb: paged_pull
  "\<lambda>f c st. logbook_loop (answers f) c (fst st) (snd st)"
  "\<lambda>c rs. Some (rw_updated_at (last rs))"
  "\<lambda>c rs st. (foldl newest (fst st) rs, foldl put_row (snd st) rs)"
  "\<lambda>st. (Inr (fst st), snd st)" rw_updated_at after LOG_BATCH_SIZE
proof
  fix f :: "int option \<Rightarrow> LogRow list" and c and st :: "int option \<times> (string \<rightharpoonup> LogEntry)"
  show "logbook_loop (answers f) c (fst st) (snd st) = (let rs = f c in
      if rs = [] then Some (Inr (fst st), snd st)
      else if length rs = LOG_BATCH_SIZE then logbook_loop (answers f) (Some (rw_updated_at (last rs)))
        (fst (foldl newest (fst st) rs, foldl put_row (snd st) rs)) (snd (foldl newest (fst st) rs, foldl put_row (snd st) rs))
      else Some (Inr (fst (foldl newest (fst st) rs, foldl put_row (snd st) rs)), snd (foldl newest (fst st) rs, foldl put_row (snd st) rs)))"
    by (subst logbook_loop.simps) (simp add: answers_def Let_def)
qed (auto simp: LOG_BATCH_SIZE_def after_def split: option.splits)

lemma log_pages:
  "lb.run_pages ps (m, db) = (foldl newest m (concat (map snd ps)), foldl put_row db (concat (map snd ps)))"
  by (induction ps arbitrary: m db) auto

lemma put_row_at: "put_row db r k = (if k = rw_id r then logbook_entry r else db k)"
  by (simp add: put_row_def logbook_entry_def)

lemma put_rows:
  "distinct (map rw_id rs) \<Longrightarrow> foldl put_row db rs k =
     (case map_of (map (\<lambda>r. (rw_id r, logbook_entry r)) rs) k of None \<Rightarrow> db k | Some e \<Rightarrow> e)"
proof (induction rs arbitrary: db)
  case (Cons r rs)
  have "map_of (map (\<lambda>r. (rw_id r, logbook_entry r)) rs) (rw_id r) = None"
    using Cons.prems by (auto simp: map_of_eq_None_iff image_iff)
  then show ?case using Cons by (auto simp: put_row_at split: option.splits)
qed simp

lemma put_rows_dom:
  "\<forall>r \<in> set rs. rw_deleted_at r = None \<Longrightarrow> dom (foldl put_row db rs) = dom db \<union> rw_id ` set rs"
proof (induction rs arbitrary: db)
  case (Cons r rs)
  have "dom (put_row db r) = insert (rw_id r) (dom db)"
    using Cons.prems by (auto simp: put_row_def logbook_entry_def)
  then show ?case using Cons by auto
qed simp

lemma newest_max: "foldl newest (Some m) rs = Some (foldl max m (map rw_updated_at rs))"
  by (induction rs arbitrary: m) (auto simp: newest_def max_def)

lemma map_of_permuted: "mset xs = mset ys \<Longrightarrow> distinct (map fst ys) \<Longrightarrow> map_of xs = map_of ys"
proof -
  assume m: "mset xs = mset ys" and d: "distinct (map fst ys)"
  have "mset (map fst xs) = mset (map fst ys)" using m by simp
  then have "distinct (map fst xs)" using d mset_eq_imp_distinct_iff by blast
  then show "map_of xs = map_of ys" using d m map_of_inject_set mset_eq_setD by blast
qed

lemma newest_after:
  "rs \<noteq> [] \<Longrightarrow> \<forall>r \<in> set rs. after c (rw_updated_at r) \<Longrightarrow> foldl newest c rs = Some (Max (rw_updated_at ` set rs))"
proof -
  assume rs: "rs \<noteq> []" "\<forall>r \<in> set rs. after c (rw_updated_at r)"
  obtain r rs' where e: "rs = r # rs'" using rs(1) by (cases rs) auto
  have "newest c r = Some (rw_updated_at r)" using rs(2) by (auto simp: e newest_def after_def split: option.splits)
  then show ?thesis by (simp add: e newest_max fold_max)
qed

lemma pull_when_repaired:
  "logbook_pull meta keys room sel since (True, db) = map_option (\<lambda>(r, db'). (r, True, db')) (logbook_loop sel since since db)"
  by (simp add: logbook_pull_def backfill_def)

section \<open>Examples\<close>

definition log_service :: "LogRow list \<Rightarrow> int option \<Rightarrow> LogRow list" where
  \<comment> \<open>a service for the examples\<close>
  "log_service rows = page_server LOG_BATCH_SIZE rw_updated_at after rows"

lemma log_service_table: "log_table rows (log_service rows)"
  by (simp add: log_table_def log_service_def page_server_law)

lemma filter_upt_less: "filter (\<lambda>i. i < (50 :: nat)) [0..<150] = [0..<50]"
  by (rule sym, rule nth_equalityI) (simp_all add: upt_rec)

definition two_batches :: "LogRow list" where
  \<comment> \<open>fifty contacts uploaded at one time and a hundred at a later one\<close>
  "two_batches = map (\<lambda>i. ex_row (nat_text i) (if i < 50 then 10 else 20)) [0..<150]"

section \<open>Properties\<close>

text \<open>
  C14: When no two rows have the same time stamp, a pull of a repaired log is complete: it
  returns, every entry with a newer row is what that row says (gone if the row is deleted),
  every other entry is unchanged, and the new cursor is the newest stamp.
\<close>

theorem distinct_stamps_all_pulled:
  fixes rows :: "LogRow list" and since :: "int option"
  defines "news \<equiv> filter (\<lambda>r. after since (rw_updated_at r)) rows"
  assumes "log_table rows f" "distinct (map rw_updated_at rows)" "distinct (map rw_id rows)"
  shows "logbook_pull meta keys room (answers f) since (True, db) =
    Some (Inr (if news = [] then since else Some (Max (rw_updated_at ` set news))), True,
      \<lambda>k. case map_of (map (\<lambda>r. (rw_id r, logbook_entry r)) news) k of None \<Rightarrow> db k | Some e \<Rightarrow> e)"
proof -
  let ?s = "sort_key rw_updated_at news"
  obtain ps where l: "logbook_loop (answers f) since since db =
      Some (Inr (fst (lb.run_pages ps (since, db))), snd (lb.run_pages ps (since, db)))"
    and ps: "concat (map snd ps) = ?s"
    using lb.pulls_all[OF assms(2)[unfolded log_table_def] assms(3), where c = since and s = "(since, db)"]
    unfolding news_def by auto
  have "map_of (map (\<lambda>r. (rw_id r, logbook_entry r)) ?s) = map_of (map (\<lambda>r. (rw_id r, logbook_entry r)) news)"
    using assms(4) by (intro map_of_permuted) (auto simp: news_def comp_def distinct_map intro: inj_on_subset)
  moreover have "distinct (map rw_id ?s)"
    using assms(4) by (auto simp: news_def distinct_map intro: inj_on_subset)
  ultimately have "foldl put_row db ?s = (\<lambda>k. case map_of (map (\<lambda>r. (rw_id r, logbook_entry r)) news) k of None \<Rightarrow> db k | Some e \<Rightarrow> e)"
    by (intro ext) (simp add: put_rows)
  moreover have "foldl newest since ?s = (if news = [] then since else Some (Max (rw_updated_at ` set news)))"
  proof (cases "news = []")
    case False
    have "length ?s = length news" by simp
    then have "?s \<noteq> []" using False by (metis length_0_conv)
    moreover have "\<forall>r \<in> set ?s. after since (rw_updated_at r)" by (simp add: news_def)
    ultimately have "foldl newest since ?s = Some (Max (rw_updated_at ` set ?s))" by (rule newest_after)
    then show ?thesis using False by simp
  qed simp
  ultimately show ?thesis using l ps by (simp add: pull_when_repaired log_pages)
qed

theorem distinct_stamps_all_pulled_witness:
  "\<exists>db. logbook_pull (\<lambda>_. Inr []) [] True (answers (log_service [ex_row ''a'' 8, ex_row ''b'' 9])) (Some 8) (True, Map.empty) = Some (Inr (Some 9), True, db) \<and>
    db ''b'' = logbook_entry (ex_row ''b'' 9) \<and> db ''a'' = None"
  using distinct_stamps_all_pulled[OF log_service_table, of "[ex_row ''a'' 8, ex_row ''b'' 9]" "\<lambda>_. Inr []" "[]" True "Some 8" Map.empty]
  by (simp add: after_def ex_row_def)

text \<open>
  C18: Rows written by one statement share a time stamp. When a full page ends inside such a group
  the rest of the group is skipped for good: of a first upload of fewer than one hundred rows
  and a second one that brings the log above one hundred, a new device gets one hundred rows,
  and every later pull starts above the stamp of the others.
\<close>

theorem split_batch_lost:
  assumes "log_table rows f" "\<forall>r \<in> set rows. rw_updated_at r \<in> {t1, t2} \<and> rw_deleted_at r = None" "t1 < t2"
    "distinct (map rw_id rows)" "length (filter (\<lambda>r. rw_updated_at r = t1) rows) < 100" "100 < length rows"
  shows "\<exists>db. logbook_pull meta keys room (answers f) None (True, Map.empty) = Some (Inr (Some t2), True, db) \<and>
    card (dom db) = 100 \<and> logbook_pull meta keys room (answers f) (Some t2) (True, db) = Some (Inr (Some t2), True, db)"
proof -
  have law: "page_law LOG_BATCH_SIZE rw_updated_at after rows f" using assms(1) by (simp add: log_table_def)
  have any: "after None t" for t by (simp add: after_def)
  have u: "rw_updated_at r = t1 \<or> rw_updated_at r = t2" if "r \<in> set rows" for r using assms(2) that by auto
  have e: "filter (\<lambda>r. rw_updated_at r \<noteq> t2) rows = filter (\<lambda>r. rw_updated_at r = t1) rows"
    using u assms(3) by (intro filter_cong) auto
  have le: "\<forall>r \<in> set rows. rw_updated_at r \<le> t2" using u assms(3) by fastforce
  have few: "length (filter (\<lambda>r. after None (rw_updated_at r) \<and> rw_updated_at r \<noteq> t2) rows) < LOG_BATCH_SIZE"
    "LOG_BATCH_SIZE < length (filter (\<lambda>r. after None (rw_updated_at r)) rows)"
    using assms(5,6) by (simp_all add: any e LOG_BATCH_SIZE_def)
  note t = lb.skips_ties[OF law le few, unfolded LOG_BATCH_SIZE_def]
  let ?rs = "f None"
  have inr: "set ?rs \<subseteq> set rows" using page_rows[OF law, of None] by auto
  have d: "distinct (map rw_id ?rs)"
  proof -
    have "\<exists>s. mset s = mset (filter (\<lambda>r. after None (rw_updated_at r)) rows) \<and> f None = take LOG_BATCH_SIZE s"
      using law unfolding page_law_def by blast
    then obtain s where s: "mset s = mset rows" "f None = take LOG_BATCH_SIZE s" by (auto simp: any)
    have "mset (map rw_id s) = mset (map rw_id rows)" using s(1) by simp
    then have "distinct (map rw_id s)" using assms(4) mset_eq_imp_distinct_iff by blast
    then show ?thesis using s(2) by (metis distinct_take take_map)
  qed
  let ?db = "foldl put_row Map.empty ?rs"
  have dom: "dom ?db = rw_id ` set ?rs"
    using put_rows_dom[of ?rs Map.empty] inr assms(2) by auto
  have ne: "?rs \<noteq> []" using t(1) by auto
  have "foldl newest None ?rs = Some (Max (rw_updated_at ` set ?rs))" by (rule newest_after) (simp_all add: ne any)
  moreover have "Max (rw_updated_at ` set ?rs) = t2"
    using last_in_set[OF ne] t(3) inr le by (intro Max_eqI) auto
  ultimately have "logbook_pull meta keys room (answers f) None (True, Map.empty) = Some (Inr (Some t2), True, ?db)"
    using t(2)[of "(None, Map.empty)"] by (simp add: pull_when_repaired)
  moreover have "card (dom ?db) = 100" using t(1) d unfolding dom by (metis distinct_card length_map set_map)
  moreover have "f (Some t2) = []" using t(5) t(3) by simp
  then have "logbook_pull meta keys room (answers f) (Some t2) (True, ?db) = Some (Inr (Some t2), True, ?db)"
    by (simp add: pull_when_repaired logbook_loop.simps answers_def)
  ultimately show ?thesis by blast
qed

theorem split_batch_lost_witness:
  "\<exists>db. logbook_pull (\<lambda>_. Inr []) [] True (answers (log_service two_batches)) None (True, Map.empty) = Some (Inr (Some 20), True, db) \<and>
    card (dom db) = 100 \<and> length two_batches = 150"
proof -
  have u: "rw_updated_at (ex_row i v) = v" for i v by (simp add: ex_row_def)
  have l: "length (filter (\<lambda>r. rw_updated_at r = 10) two_batches) < 100"
  proof -
    have "filter (\<lambda>r. rw_updated_at r = 10) two_batches = map (\<lambda>i. ex_row (nat_text i) 10) (filter (\<lambda>i. i < 50) [0..<150])"
      by (simp add: two_batches_def filter_map comp_def u)
    then show ?thesis by (simp add: filter_upt_less)
  qed
  have d: "distinct (map rw_id two_batches)"
    by (auto simp: two_batches_def comp_def distinct_map intro: inj_on_subset[OF nat_text_inj])
  have r: "\<forall>r \<in> set two_batches. rw_updated_at r \<in> {10, 20} \<and> rw_deleted_at r = None"
    by (auto simp: two_batches_def u)
  have "length two_batches = 150" by (simp add: two_batches_def)
  then show ?thesis using split_batch_lost[OF log_service_table r _ d l, of "\<lambda>_. Inr []" "[]" True] by auto
qed

text \<open>
  The repair of old entries only adds: whatever the server answers and wherever it fails, the
  log has the same entries, and an entry differs at most in a station grid or a country number
  that it did not have. The marker is set only when no request failed.
\<close>

theorem repair_only_fills:
  assumes "store_ok db" "backfill meta keys room (done0, db) = (err, done1, db')"
  shows "dom db' = dom db \<and>
    (\<forall>k e. db k = Some e \<longrightarrow> (\<exists>e'. db' k = Some e' \<and> (\<forall>f. f \<notin> {''myGrid'', ''dxcc''} \<or> \<not> nullish (le_field e f) \<longrightarrow> le_field e' f = le_field e f) \<and>
       le_id e' = le_id e \<and> le_version e' = le_version e \<and> le_updatedAt e' = le_updatedAt e)) \<and>
    (err \<noteq> None \<longrightarrow> done1 = done0)"
proof -
  note f = backfill_fills[OF assms]
  have dom: "dom db' = dom db" by (rule fills_dom[OF f(1)])
  moreover have "\<exists>e'. db' k = Some e' \<and> (\<forall>f. f \<notin> {''myGrid'', ''dxcc''} \<or> \<not> nullish (le_field e f) \<longrightarrow> le_field e' f = le_field e f) \<and>
       le_id e' = le_id e \<and> le_version e' = le_version e \<and> le_updatedAt e' = le_updatedAt e" if "db k = Some e" for k e
  proof -
    have "rel_option filled (Some e) (db' k)" using f(1) that unfolding fills_def by metis
    then obtain e' where e': "db' k = Some e'" "filled e e'" by (auto simp: option_rel_Some1)
    then show ?thesis by (auto simp: filled_def)
  qed
  ultimately show ?thesis using f(2) by blast
qed

theorem repair_only_fills_witness:
  "dom (snd (snd (backfill (\<lambda>ids. Inr [\<lparr>bf_id = ''q1'', bf_my_grid = Some (JStr ''FN42''), bf_dxcc = None, bf_deleted_at = None\<rparr>]) [''q1''] True
     (False, [''q1'' \<mapsto> ex_entry ''W9XYZ'' None])))) = {''q1''}"
proof -
  have ok: "store_ok [''q1'' \<mapsto> ex_entry ''W9XYZ'' None]" by (simp add: store_ok_def ex_entry_def)
  let ?r = "backfill (\<lambda>ids. Inr [\<lparr>bf_id = ''q1'', bf_my_grid = Some (JStr ''FN42''), bf_dxcc = None, bf_deleted_at = None\<rparr>]) [''q1''] True
     (False, [''q1'' \<mapsto> ex_entry ''W9XYZ'' None])"
  show ?thesis using repair_only_fills[OF ok, of _ "[''q1'']" True False "fst ?r" "fst (snd ?r)" "snd (snd ?r)"] by simp
qed

end
