(* ===== verification/GearSync.thy ===== *)
theory GearSync
  imports Prelude
begin

text \<open>
  Deletions of shack gear: the queue of deletion intents
  (\<open>src/lib/sync/shackDeletionIntent.ts\<close>) and the merge of pulled rows and the push of intents
  (\<open>src/lib/sync/shackGearTombstone.ts\<close>). The items of a table and its rows are records that
  extend an id and a time stamp. The service is a parameter of the push: for an intent, what
  the update of its row answers (an error or the number of rows it matched) and what the
  query that verifies an unmatched update answers (an error or whether the row exists).
\<close>

section \<open>Deletion intents\<close>

datatype GearDeletionTable = UserRadios | Antennas | Feedlines | Accessories | StationPresets
  | InlineComponents | StationChains | CustomRadios

fun table_name :: "GearDeletionTable \<Rightarrow> string" where
  "table_name UserRadios = ''user_radios''"
| "table_name Antennas = ''antennas''"
| "table_name Feedlines = ''feedlines''"
| "table_name Accessories = ''accessories''"
| "table_name StationPresets = ''station_presets''"
| "table_name InlineComponents = ''inline_components''"
| "table_name StationChains = ''station_chains''"
| "table_name CustomRadios = ''custom_radios''"

record PendingGearDeletion =
  gd_table :: GearDeletionTable
  gd_recordId :: string
  gd_requestedAt :: int
  gd_ownerId :: string

definition gearDeletionKey :: "GearDeletionTable \<Rightarrow> string \<Rightarrow> string" where
  "gearDeletionKey table recordId = table_name table @ '':'' @ recordId"

abbreviation gd_key :: "PendingGearDeletion \<Rightarrow> string" where
  "gd_key d \<equiv> gearDeletionKey (gd_table d) (gd_recordId d)"

definition enqueueGearDeletionIntent ::
    "PendingGearDeletion list \<Rightarrow> string \<Rightarrow> GearDeletionTable \<Rightarrow> string \<Rightarrow> int \<Rightarrow> PendingGearDeletion list" where
  "enqueueGearDeletionIntent pending ownerId table recordId requestedAt =
     (let key = gearDeletionKey table recordId
      in if list_ex (\<lambda>entry. gd_key entry = key \<and> gd_ownerId entry = ownerId) pending then pending
         else pending @ [\<lparr>gd_table = table, gd_recordId = recordId, gd_requestedAt = requestedAt, gd_ownerId = ownerId\<rparr>])"

definition enqueueGearDeletionIntents ::
    "PendingGearDeletion list \<Rightarrow> string \<Rightarrow> (GearDeletionTable \<times> string) list \<Rightarrow> int \<Rightarrow> PendingGearDeletion list" where
  "enqueueGearDeletionIntents pending ownerId ents requestedAt =
     foldl (\<lambda>next (table, recordId). enqueueGearDeletionIntent next ownerId table recordId requestedAt) pending ents"

definition removeAcknowledgedGearDeletions ::
    "PendingGearDeletion list \<Rightarrow> string list \<Rightarrow> string \<Rightarrow> PendingGearDeletion list" where
  "removeAcknowledgedGearDeletions pending ack ownerId =
     filter (\<lambda>entry. \<not> (gd_key entry \<in> set ack \<and> gd_ownerId entry = ownerId)) pending"

section \<open>Pull\<close>

record TombstoneRow =
  tr_updated_at :: int
  tr_deleted_at :: "int option"

record GearItem =
  gear_id :: string

record 'g GearPullMergeResult =
  gm_merged :: "'g list"
  gm_removedIds :: "string list"
  gm_timestamps :: "int list"

definition mergeGearPullRows ::
    "'r TombstoneRow_scheme list option \<Rightarrow> ('r TombstoneRow_scheme \<Rightarrow> 'g GearItem_scheme) \<Rightarrow> ('r TombstoneRow_scheme \<Rightarrow> string) \<Rightarrow>
     'g GearItem_scheme list \<Rightarrow> GearDeletionTable \<Rightarrow> string set \<Rightarrow> 'g GearItem_scheme GearPullMergeResult option" where
  "mergeGearPullRows rows0 toLocal getRecordId currentLocal table pendingKeys =
     (case rows0 of None \<Rightarrow> None | Some rows \<Rightarrow>
      if rows = [] then None
      else
        let (activeRows, removedIds, timestamps) =
              foldl (\<lambda>(act, rem, ts) row.
                  if tr_deleted_at row \<noteq> None then (act, rem @ [getRecordId row], ts @ [tr_updated_at row])
                  else if gearDeletionKey table (getRecordId row) \<in> pendingKeys then (act, rem, ts @ [tr_updated_at row])
                  else (act @ [row], rem, ts @ [tr_updated_at row]))
                ([], [], []) rows;
            serverItems = map toLocal activeRows;
            localOnly = filter (\<lambda>item. gear_id item \<notin> gear_id ` set serverItems \<and> gear_id item \<notin> set removedIds) currentLocal
        in Some \<lparr>gm_merged = serverItems @ localOnly, gm_removedIds = removedIds, gm_timestamps = timestamps\<rparr>)"

definition pullAcknowledgementKeys :: "GearDeletionTable \<Rightarrow> string list \<Rightarrow> string list" where
  "pullAcknowledgementKeys table removedIds = map (gearDeletionKey table) removedIds"

definition pendingGearDeletionKeys :: "PendingGearDeletion list \<Rightarrow> string \<Rightarrow> string set" where
  "pendingGearDeletionKeys pending userId = gd_key ` set (filter (\<lambda>d. gd_ownerId d = userId) pending)"

section \<open>Push\<close>

fun push_loop ::
    "(PendingGearDeletion \<Rightarrow> string + nat) \<Rightarrow> (PendingGearDeletion \<Rightarrow> string + bool) \<Rightarrow>
     PendingGearDeletion list \<Rightarrow> string list \<Rightarrow> string + string list" where
  "push_loop upd verify [] acknowledged = Inr acknowledged"
| "push_loop upd verify (deletion # rest) acknowledged =
     (case upd deletion of
        Inl e \<Rightarrow> Inl (''[shackSync] Gear deletion push failed for '' @ gd_key deletion @ '': '' @ e)
      | Inr n \<Rightarrow>
          if n > 0 then push_loop upd verify rest (acknowledged @ [gd_key deletion])
          else (case verify deletion of
                  Inl e \<Rightarrow> Inl (''[shackSync] Gear deletion verify failed for '' @ gd_key deletion @ '': '' @ e)
                | Inr existing \<Rightarrow>
                    if \<not> existing then push_loop upd verify rest (acknowledged @ [gd_key deletion])
                    else push_loop upd verify rest acknowledged))"

definition pushPendingGearDeletions ::
    "(PendingGearDeletion \<Rightarrow> string + nat) \<Rightarrow> (PendingGearDeletion \<Rightarrow> string + bool) \<Rightarrow>
     string \<Rightarrow> PendingGearDeletion list \<Rightarrow> string + string list" where
  "pushPendingGearDeletions upd verify userId pending =
     (let ownedPending = filter (\<lambda>d. gd_ownerId d = userId) pending
      in if ownedPending = [] then Inr [] else push_loop upd verify ownedPending [])"

section \<open>Lemmas\<close>

lemma key_inj: "gearDeletionKey t i = gearDeletionKey t' i' \<longleftrightarrow> t = t' \<and> i = i'"
  by (cases t; cases t') (simp_all add: gearDeletionKey_def)

lemma merge_parts:
  "foldl (\<lambda>(act, rem, ts) row.
       if tr_deleted_at row \<noteq> None then (act, rem @ [g row], ts @ [tr_updated_at row])
       else if gearDeletionKey table (g row) \<in> K then (act, rem, ts @ [tr_updated_at row])
       else (act @ [row], rem, ts @ [tr_updated_at row])) (a, b, c) rows =
   (a @ filter (\<lambda>r. tr_deleted_at r = None \<and> gearDeletionKey table (g r) \<notin> K) rows,
    b @ map g (filter (\<lambda>r. tr_deleted_at r \<noteq> None) rows), c @ map tr_updated_at rows)"
  by (induction rows arbitrary: a b c) auto

lemma merge_result:
  "mergeGearPullRows rows0 toLocal g items table K =
     (case rows0 of None \<Rightarrow> None | Some rows \<Rightarrow> if rows = [] then None else
       let server = map toLocal (filter (\<lambda>r. tr_deleted_at r = None \<and> gearDeletionKey table (g r) \<notin> K) rows);
           removed = map g (filter (\<lambda>r. tr_deleted_at r \<noteq> None) rows)
       in Some \<lparr>gm_merged = server @ filter (\<lambda>i. gear_id i \<notin> gear_id ` set server \<and> gear_id i \<notin> set removed) items,
         gm_removedIds = removed, gm_timestamps = map tr_updated_at rows\<rparr>)"
  unfolding mergeGearPullRows_def merge_parts by (simp add: Let_def split: option.split)

definition push_done :: "(PendingGearDeletion \<Rightarrow> string + nat) \<Rightarrow> (PendingGearDeletion \<Rightarrow> string + bool) \<Rightarrow> PendingGearDeletion \<Rightarrow> bool" where
  "push_done upd verify d \<longleftrightarrow> (case upd d of Inl e \<Rightarrow> False | Inr n \<Rightarrow> n > 0 \<or> verify d = Inr False)"

lemma push_loop_step:
  "push_loop upd verify (d # ds) acc = Inr acks \<longleftrightarrow>
     (\<not> isl (upd d) \<and> (projr (upd d) > 0 \<or> \<not> isl (verify d))) \<and>
     push_loop upd verify ds (if push_done upd verify d then acc @ [gd_key d] else acc) = Inr acks"
  by (cases "upd d"; cases "verify d") (auto simp: push_done_def)

lemma push_loop_result:
  "push_loop upd verify ds acc = Inr acks \<Longrightarrow> acks = acc @ map gd_key (filter (push_done upd verify) ds)"
proof (induction ds arbitrary: acc)
  case (Cons d ds)
  show ?case using Cons.prems by (auto simp only: push_loop_step split: if_splits dest!: Cons.IH) simp_all
qed simp

lemma push_loop_returns:
  "list_all (\<lambda>d. \<not> isl (upd d) \<and> \<not> isl (verify d)) ds \<Longrightarrow> \<exists>acks. push_loop upd verify ds acc = Inr acks"
proof (induction ds arbitrary: acc)
  case (Cons d ds)
  then have d: "\<not> isl (upd d)" "\<not> isl (verify d)" by simp_all
  show ?case
    unfolding push_loop_step using d Cons.IH[of "if push_done upd verify d then acc @ [gd_key d] else acc"] Cons.prems
    by simp
qed simp

lemma push_result:
  assumes "pushPendingGearDeletions upd verify u pending = Inr acks"
  shows "acks = map gd_key (filter (\<lambda>d. gd_ownerId d = u \<and> push_done upd verify d) pending)"
proof (cases "filter (\<lambda>d. gd_ownerId d = u) pending = []")
  case True
  then have "filter (\<lambda>d. gd_ownerId d = u \<and> push_done upd verify d) pending = []"
    by (auto simp: filter_empty_conv)
  then show ?thesis using assms True by (simp add: pushPendingGearDeletions_def)
next
  case False
  then show ?thesis
    using assms push_loop_result[of upd verify "filter (\<lambda>d. gd_ownerId d = u) pending" "[]" acks]
    by (simp add: pushPendingGearDeletions_def Let_def conj_commute)
qed

lemma remove_ack_member:
  "d \<in> set (removeAcknowledgedGearDeletions pending ack u) \<longleftrightarrow> d \<in> set pending \<and> \<not> (gd_key d \<in> set ack \<and> gd_ownerId d = u)"
  by (simp add: removeAcknowledgedGearDeletions_def)

lemma enqueue_member:
  "d \<in> set (enqueueGearDeletionIntent pending u t i now) \<longleftrightarrow>
     d \<in> set pending \<or> (d = \<lparr>gd_table = t, gd_recordId = i, gd_requestedAt = now, gd_ownerId = u\<rparr>
       \<and> \<not> (\<exists>e \<in> set pending. gd_table e = t \<and> gd_recordId e = i \<and> gd_ownerId e = u))"
  by (auto simp: enqueueGearDeletionIntent_def Let_def list_ex_iff key_inj)

definition queued :: "PendingGearDeletion list \<Rightarrow> string \<Rightarrow> GearDeletionTable \<Rightarrow> string \<Rightarrow> bool" where
  "queued pending u t i \<longleftrightarrow> list_ex (\<lambda>d. gd_ownerId d = u \<and> gd_table d = t \<and> gd_recordId d = i) pending"

lemma queued_enqueue:
  "queued (enqueueGearDeletionIntent pending u t i now) u' t' i' \<longleftrightarrow> queued pending u' t' i' \<or> (u' = u \<and> t' = t \<and> i' = i)"
  by (auto simp: queued_def list_ex_iff enqueueGearDeletionIntent_def Let_def key_inj)

lemma queued_enqueues:
  "queued (enqueueGearDeletionIntents pending u es now) u' t' i' \<longleftrightarrow> queued pending u' t' i' \<or> (u' = u \<and> (t', i') \<in> set es)"
proof (induction es arbitrary: pending)
  case (Cons e es)
  obtain t i where e: "e = (t, i)" by force
  show ?case
    using Cons.IH[of "enqueueGearDeletionIntent pending u t i now"] by (simp add: e enqueueGearDeletionIntents_def queued_enqueue) blast
qed (simp add: enqueueGearDeletionIntents_def)

lemma queued_removed:
  "queued (removeAcknowledgedGearDeletions pending ack u) u' t i \<longleftrightarrow>
     queued pending u' t i \<and> \<not> (u' = u \<and> gearDeletionKey t i \<in> set ack)"
  by (auto simp: queued_def list_ex_iff removeAcknowledgedGearDeletions_def)

lemma pending_key_queued:
  "gearDeletionKey t i \<in> pendingGearDeletionKeys pending u \<longleftrightarrow> queued pending u t i"
  by (auto simp: pendingGearDeletionKeys_def queued_def list_ex_iff key_inj)

lemma distinct_enqueue:
  "distinct (map (\<lambda>d. (gd_ownerId d, gd_table d, gd_recordId d)) pending) \<Longrightarrow>
     distinct (map (\<lambda>d. (gd_ownerId d, gd_table d, gd_recordId d)) (enqueueGearDeletionIntent pending u t i now))"
  by (auto simp: enqueueGearDeletionIntent_def Let_def list_ex_iff key_inj)

end
