(* ===== verification/ChainOrdering.thy ===== *)
theory ChainOrdering
  imports Prelude "HOL-Library.Multiset"
begin

text \<open>
  The signal chain of a station (\<open>src/types/stationChain.ts\<close>, accessory categories from
  \<open>src/types/shack.ts\<close>) and its ordering rules (\<open>src/lib/chainOrdering.ts\<close>): the rank of a
  node, the position a new node is inserted at, and the warnings about the structure of a
  chain. The category of an accessory is looked up by a function, a parameter as in the code.
\<close>

section \<open>Nodes and categories\<close>

datatype ChainNode = RadioNode string | AccessoryNode string | FeedlineRunNode string | AntennaNode string

datatype AccessoryCategory = Amplifier | Tuner | AccFilter | AccSwitch | PowerSupply | Grounding | Rotator | Keyer | AudioDsp

definition MAX_CHAINS :: nat where "MAX_CHAINS = 10"
definition MAX_CHAIN_NODES :: nat where "MAX_CHAIN_NODES = 20"

definition SIGNAL_PATH_CATEGORIES :: "AccessoryCategory set" where
  "SIGNAL_PATH_CATEGORIES = {Amplifier, Tuner, AccFilter, AccSwitch}"

definition SHACK_CATEGORIES :: "AccessoryCategory set" where
  "SHACK_CATEGORIES = {PowerSupply, Grounding, Rotator, Keyer, AudioDsp}"

definition isSignalPathCategory :: "AccessoryCategory \<Rightarrow> bool" where
  "isSignalPathCategory category \<longleftrightarrow> category \<in> SIGNAL_PATH_CATEGORIES"

section \<open>Ranks\<close>

fun ACCESSORY_CATEGORY_RANK :: "AccessoryCategory \<Rightarrow> nat option" where
  "ACCESSORY_CATEGORY_RANK Amplifier = Some 10"
| "ACCESSORY_CATEGORY_RANK Tuner = Some 20"
| "ACCESSORY_CATEGORY_RANK AccFilter = Some 30"
| "ACCESSORY_CATEGORY_RANK AccSwitch = Some 40"
| "ACCESSORY_CATEGORY_RANK c = None"

fun BASE_RANK :: "ChainNode \<Rightarrow> nat" where
  "BASE_RANK (RadioNode i) = 0"
| "BASE_RANK (AccessoryNode i) = 25"
| "BASE_RANK (FeedlineRunNode i) = 50"
| "BASE_RANK (AntennaNode i) = 60"

fun getNodeRank :: "(string \<Rightarrow> AccessoryCategory option) \<Rightarrow> ChainNode \<Rightarrow> nat" where
  "getNodeRank cat (AccessoryNode i) =
     (case cat i of
        Some c \<Rightarrow> (case ACCESSORY_CATEGORY_RANK c of Some r \<Rightarrow> r | None \<Rightarrow> BASE_RANK (AccessoryNode i))
      | None \<Rightarrow> BASE_RANK (AccessoryNode i))"
| "getNodeRank cat n = BASE_RANK n"

fun insert_position :: "(ChainNode \<Rightarrow> nat) \<Rightarrow> nat \<Rightarrow> nat \<Rightarrow> ChainNode list \<Rightarrow> nat" where
  \<comment> \<open>the loop from index \<open>i\<close> on\<close>
  "insert_position rank newRank i [] = i"
| "insert_position rank newRank i (n # ns) =
     (if rank n > newRank then i else insert_position rank newRank (Suc i) ns)"

definition computeInsertPosition :: "(string \<Rightarrow> AccessoryCategory option) \<Rightarrow> ChainNode list \<Rightarrow> ChainNode \<Rightarrow> nat" where
  "computeInsertPosition cat nodes newNode = insert_position (getNodeRank cat) (getNodeRank cat newNode) 0 nodes"

definition splice_in :: "nat \<Rightarrow> 'a \<Rightarrow> 'a list \<Rightarrow> 'a list" where
  \<comment> \<open>\<open>splice(i, 0, x)\<close> for an index that is not past the end\<close>
  "splice_in i x xs = take i xs @ x # drop i xs"

section \<open>Equipment options\<close>

datatype node_type = TRadio | TAccessory | TFeedlineRun | TAntenna

record EquipmentTypeOption =
  eo_nodeType :: node_type
  eo_accessoryCategory :: "AccessoryCategory option"
  eo_label :: string
  eo_rank :: nat
  eo_inventoryKey :: string
  eo_color :: string

definition ALL_EQUIPMENT_OPTIONS :: "EquipmentTypeOption list" where
  "ALL_EQUIPMENT_OPTIONS =
     [\<lparr>eo_nodeType = TRadio, eo_accessoryCategory = None, eo_label = ''Radio'', eo_rank = 0,
       eo_inventoryKey = ''radio'', eo_color = ''#F97316''\<rparr>,
      \<lparr>eo_nodeType = TAccessory, eo_accessoryCategory = Some Amplifier, eo_label = ''Amplifier'', eo_rank = 10,
       eo_inventoryKey = ''amplifier'', eo_color = ''#3B82F6''\<rparr>,
      \<lparr>eo_nodeType = TAccessory, eo_accessoryCategory = Some Tuner, eo_label = ''Tuner'', eo_rank = 20,
       eo_inventoryKey = ''tuner'', eo_color = ''#3B82F6''\<rparr>,
      \<lparr>eo_nodeType = TAccessory, eo_accessoryCategory = Some AccFilter, eo_label = ''Filter'', eo_rank = 30,
       eo_inventoryKey = ''filter'', eo_color = ''#3B82F6''\<rparr>,
      \<lparr>eo_nodeType = TAccessory, eo_accessoryCategory = Some AccSwitch, eo_label = ''Switch'', eo_rank = 40,
       eo_inventoryKey = ''switch'', eo_color = ''#6366F1''\<rparr>,
      \<lparr>eo_nodeType = TFeedlineRun, eo_accessoryCategory = None, eo_label = ''Feedline'', eo_rank = 50,
       eo_inventoryKey = ''feedline'', eo_color = ''#F59E0B''\<rparr>,
      \<lparr>eo_nodeType = TAntenna, eo_accessoryCategory = None, eo_label = ''Antenna'', eo_rank = 60,
       eo_inventoryKey = ''antenna'', eo_color = ''#22C55E''\<rparr>]"

definition getValidEquipmentTypes :: "EquipmentTypeOption list" where
  "getValidEquipmentTypes = ALL_EQUIPMENT_OPTIONS"

fun option_node :: "EquipmentTypeOption \<Rightarrow> string \<Rightarrow> ChainNode" where
  \<comment> \<open>the node an option stands for\<close>
  "option_node q i = (case eo_nodeType q of TRadio \<Rightarrow> RadioNode i | TAccessory \<Rightarrow> AccessoryNode i
     | TFeedlineRun \<Rightarrow> FeedlineRunNode i | TAntenna \<Rightarrow> AntennaNode i)"

section \<open>Validation\<close>

datatype ChainWarningCode = No_radio | Multiple_radios | No_antenna | Radio_not_first | Antenna_not_last
datatype warning_severity = Info | Warning

record ChainWarning =
  cw_code :: ChainWarningCode
  cw_message :: string
  cw_severity :: warning_severity
  cw_nodeIndex :: "nat option"

definition EM_DASH :: string where
  \<comment> \<open>U+2014 in UTF-8\<close>
  "EM_DASH = map char_of [226, 128, 148 :: nat]"

definition is_radio :: "ChainNode \<Rightarrow> bool" where
  "is_radio n = (case n of RadioNode i \<Rightarrow> True | _ \<Rightarrow> False)"

definition is_antenna :: "ChainNode \<Rightarrow> bool" where
  "is_antenna n = (case n of AntennaNode i \<Rightarrow> True | _ \<Rightarrow> False)"

definition indices :: "('a \<Rightarrow> bool) \<Rightarrow> 'a list \<Rightarrow> nat list" where
  \<comment> \<open>\<open>map((n, i) => p(n) ? i : -1).filter(i => i >= 0)\<close>\<close>
  "indices p xs = map fst (filter (\<lambda>(i, x). p x) (enumerate 0 xs))"

definition validateChain :: "ChainNode list \<Rightarrow> ChainWarning list" where
  "validateChain nodes =
     (let radioIndices = indices is_radio nodes;
          antennaIndices = indices is_antenna nodes
      in (if radioIndices = [] then [\<lparr>cw_code = No_radio,
            cw_message = ''No radio '' @ EM_DASH @ '' signal has no source'', cw_severity = Info, cw_nodeIndex = None\<rparr>] else []) @
         (if length radioIndices > 1 then [\<lparr>cw_code = Multiple_radios,
            cw_message = ''Multiple radios in chain'', cw_severity = Warning, cw_nodeIndex = Some (radioIndices ! 1)\<rparr>] else []) @
         (if antennaIndices = [] \<and> nodes \<noteq> [] then [\<lparr>cw_code = No_antenna,
            cw_message = ''No antenna '' @ EM_DASH @ '' signal path incomplete'', cw_severity = Info, cw_nodeIndex = None\<rparr>] else []) @
         (if radioIndices \<noteq> [] \<and> hd radioIndices \<noteq> 0 then [\<lparr>cw_code = Radio_not_first,
            cw_message = ''Radio should be at the start'', cw_severity = Warning, cw_nodeIndex = Some (hd radioIndices)\<rparr>] else []) @
         (if antennaIndices \<noteq> [] \<and> int (last antennaIndices) \<noteq> int (length nodes) - 1 then [\<lparr>cw_code = Antenna_not_last,
            cw_message = ''Antenna should be at the end'', cw_severity = Warning, cw_nodeIndex = Some (last antennaIndices)\<rparr>] else []))"

section \<open>Lemmas\<close>

lemma insert_position_takeWhile:
  "insert_position rank r i ns = i + length (takeWhile (\<lambda>n. rank n \<le> r) ns)"
  by (induction ns arbitrary: i) auto

lemma insert_position_le: "computeInsertPosition cat nodes n \<le> length nodes"
  by (simp add: computeInsertPosition_def insert_position_takeWhile length_takeWhile_le)

lemma set_splice [simp]: "set (splice_in i x xs) = insert x (set xs)"
  unfolding splice_in_def by (metis append_take_drop_id list.simps(15) set_append Un_insert_right)

lemma mset_splice: "mset (splice_in i x xs) = add_mset x (mset xs)"
  unfolding splice_in_def by (metis append_take_drop_id mset.simps(2) mset_append union_mset_add_mset_right)

lemma insert_by_rank:
  "splice_in (computeInsertPosition cat nodes n) n nodes =
     takeWhile (\<lambda>x. getNodeRank cat x \<le> getNodeRank cat n) nodes @ n #
     dropWhile (\<lambda>x. getNodeRank cat x \<le> getNodeRank cat n) nodes"
  by (simp add: splice_in_def computeInsertPosition_def insert_position_takeWhile takeWhile_eq_take[symmetric] dropWhile_eq_drop[symmetric])

lemma indices_snoc: "indices p (xs @ [x]) = indices p xs @ (if p x then [length xs] else [])"
  by (simp add: indices_def enumerate_append_eq)

lemma indices_empty: "indices p xs = [] \<longleftrightarrow> filter p xs = []"
  by (induction xs rule: rev_induct) (auto simp: indices_snoc indices_def[of p "[]"])

lemma length_indices: "length (indices p xs) = length (filter p xs)"
  by (induction xs rule: rev_induct) (auto simp: indices_snoc indices_def[of p "[]"])

lemma indices_Nil [simp]: "indices p [] = []"
  by (simp add: indices_def)

lemma indices_Cons: "indices p (x # xs) = (if p x then [0] else []) @ map Suc (indices p xs)"
proof (induction xs rule: rev_induct)
  case Nil
  show ?case using indices_snoc[of p "[]" x] by simp
next
  case (snoc y ys)
  show ?case using indices_snoc[of p "x # ys" y] by (simp add: snoc indices_snoc)
qed

lemma hd_indices: "indices p xs \<noteq> [] \<Longrightarrow> hd (indices p xs) = 0 \<longleftrightarrow> xs \<noteq> [] \<and> p (hd xs)"
  by (cases xs) (auto simp: indices_Cons indices_def[of p "[]"] hd_map)

lemma last_indices: "indices p xs \<noteq> [] \<Longrightarrow> int (last (indices p xs)) = int (length xs) - 1 \<longleftrightarrow> xs \<noteq> [] \<and> p (last xs)"
proof (cases xs rule: rev_cases)
  case (snoc ys y)
  have "\<forall>i \<in> set (indices p ys). i < length ys"
    by (induction ys rule: rev_induct) (auto simp: indices_snoc indices_def[of p "[]"])
  then have "indices p ys \<noteq> [] \<Longrightarrow> last (indices p ys) < length ys" by simp
  then show "indices p xs \<noteq> [] \<Longrightarrow> ?thesis" using snoc by (auto simp: indices_snoc)
qed (simp add: indices_def)

lemma option_rank:
  "q \<in> set ALL_EQUIPMENT_OPTIONS \<Longrightarrow> getNodeRank (\<lambda>_. eo_accessoryCategory q) (option_node q i) = eo_rank q"
  by (auto simp: ALL_EQUIPMENT_OPTIONS_def)

lemma category_split: "c \<in> SIGNAL_PATH_CATEGORIES \<longleftrightarrow> c \<notin> SHACK_CATEGORIES"
  "isSignalPathCategory c \<longleftrightarrow> ACCESSORY_CATEGORY_RANK c \<noteq> None"
  by (cases c; simp add: SIGNAL_PATH_CATEGORIES_def SHACK_CATEGORIES_def isSignalPathCategory_def)+

lemma sorted_while:
  "sorted (map f xs) \<Longrightarrow> takeWhile (\<lambda>x. f x \<le> r) xs = filter (\<lambda>x. f x \<le> r) xs"
  "sorted (map f xs) \<Longrightarrow> dropWhile (\<lambda>x. f x \<le> r) xs = filter (\<lambda>x. r < f x) xs"
  for r :: nat
proof -
  have "takeWhile (\<lambda>x. f x \<le> r) xs = filter (\<lambda>x. f x \<le> r) xs \<and> dropWhile (\<lambda>x. f x \<le> r) xs = filter (\<lambda>x. r < f x) xs"
    if "sorted (map f xs)"
    using that
  proof (induction xs)
    case (Cons x xs)
    show ?case
    proof (cases "f x \<le> r")
      case True
      then show ?thesis using Cons by simp
    next
      case False
      then have "\<forall>y \<in> set xs. r < f y" using Cons.prems by fastforce
      then have "filter (\<lambda>x. f x \<le> r) xs = []" "filter (\<lambda>x. r < f x) xs = xs" by (auto simp: filter_empty_conv not_le)
      then show ?thesis using False by simp
    qed
  qed simp
  then show "sorted (map f xs) \<Longrightarrow> takeWhile (\<lambda>x. f x \<le> r) xs = filter (\<lambda>x. f x \<le> r) xs"
    "sorted (map f xs) \<Longrightarrow> dropWhile (\<lambda>x. f x \<le> r) xs = filter (\<lambda>x. r < f x) xs" by simp_all
qed

section \<open>Properties\<close>

text \<open>
  Inserting a node at the computed position keeps a chain in rank order, puts the node after
  every node of its own rank and moves no other node relative to the rest.
\<close>

theorem insertion_keeps_rank_order:
  assumes "sorted (map (getNodeRank cat) nodes)"
  shows "sorted (map (getNodeRank cat) (splice_in (computeInsertPosition cat nodes n) n nodes)) \<and>
    splice_in (computeInsertPosition cat nodes n) n nodes =
      filter (\<lambda>x. getNodeRank cat x \<le> getNodeRank cat n) nodes @ n # filter (\<lambda>x. getNodeRank cat x > getNodeRank cat n) nodes"
  using assms by (simp add: insert_by_rank sorted_while sorted_append sorted_filter)

theorem insertion_keeps_rank_order_witness:
  "splice_in (computeInsertPosition (\<lambda>_. Some Tuner) [RadioNode ''r'', AccessoryNode ''t'', AntennaNode ''a''] (FeedlineRunNode ''f''))
     (FeedlineRunNode ''f'') [RadioNode ''r'', AccessoryNode ''t'', AntennaNode ''a''] =
   [RadioNode ''r'', AccessoryNode ''t'', FeedlineRunNode ''f'', AntennaNode ''a'']"
  using insertion_keeps_rank_order[of "\<lambda>_. Some Tuner" "[RadioNode ''r'', AccessoryNode ''t'', AntennaNode ''a'']" "FeedlineRunNode ''f''"]
  by simp

text \<open>
  A chain is without warnings exactly when its first node is its only radio and its last node
  is an antenna; the empty chain is warned about.
\<close>

theorem chain_valid_iff:
  "validateChain nodes = [] \<longleftrightarrow>
     (\<exists>i j mid. nodes = RadioNode i # mid @ [AntennaNode j] \<and> filter is_radio mid = [])"
proof -
  have v: "validateChain nodes = [] \<longleftrightarrow> length (filter is_radio nodes) = 1 \<and> filter is_antenna nodes \<noteq> [] \<and>
      nodes \<noteq> [] \<and> is_radio (hd nodes) \<and> is_antenna (last nodes)"
    using hd_indices[of is_radio nodes] last_indices[of is_antenna nodes]
    by (auto simp: validateChain_def Let_def indices_empty length_indices le_Suc_eq not_less)
  show ?thesis
  proof
    assume "validateChain nodes = []"
    then have n: "length (filter is_radio nodes) = 1" "nodes \<noteq> []" "is_radio (hd nodes)" "is_antenna (last nodes)"
      using v by auto
    then obtain x xs where x: "nodes = x # xs" by (cases nodes) auto
    have "xs \<noteq> []" using n x by (auto simp: is_radio_def is_antenna_def split: ChainNode.splits)
    then obtain mid y where "xs = mid @ [y]" by (cases xs rule: rev_cases) auto
    then show "\<exists>i j mid. nodes = RadioNode i # mid @ [AntennaNode j] \<and> filter is_radio mid = []"
      using n x by (auto simp: is_radio_def is_antenna_def split: ChainNode.splits)
  next
    assume "\<exists>i j mid. nodes = RadioNode i # mid @ [AntennaNode j] \<and> filter is_radio mid = []"
    then show "validateChain nodes = []" using v by (auto simp: is_radio_def is_antenna_def)
  qed
qed

end
