(* ===== verification/ShackStore.thy ===== *)
theory ShackStore
  imports GearSync ChainOrdering JsonValue TextOps
begin

text \<open>
  The shack: the operator's equipment, station presets and signal chains, with every action of
  the store (\<open>src/stores/shackStore.ts\<close>; types from \<open>src/types/shack.ts\<close>, \<open>radio.ts\<close> and
  \<open>stationChain.ts\<close>; image references from \<open>src/lib/db/imageReferences.ts\<close>).

  An action is a function on the state; what it draws from its surroundings (fresh ids, the
  time, the signed-in user, the built-in radio catalogue, the profile image) is a context
  record. Properties the store never reads are a map from names to values. An update object is
  the function that spreading it over an item is; its type excludes the identity, which the
  lemmas that need it state. Instants are numbers.
\<close>

section \<open>Data\<close>

record UserRadio = GearItem +
  ra_equipmentId :: string
  ra_nickname :: "string option"
  ra_customPowerLimit :: "jv option"
  ra_imageId :: "string option"
  ra_galleryImageIds :: "string list option"
  ra_addedAt :: int
  ra_other :: "string \<rightharpoonup> jv"

record UserGear = GearItem + \<comment> \<open>an antenna, a feedline or an inline component\<close>
  ge_name :: string
  ge_imageId :: "string option"
  ge_galleryImageIds :: "string list option"
  ge_addedAt :: int
  ge_other :: "string \<rightharpoonup> jv"

record UserAccessory = UserGear +
  ac_category :: AccessoryCategory

record RadioEquipment = GearItem +
  re_displayName :: "string option"
  re_other :: "string \<rightharpoonup> jv"

record StationPreset = GearItem +
  sp_name :: string
  sp_radioId :: string
  sp_antennaId :: string
  sp_feedlineId :: "string option"
  sp_inlineComponentIds :: "string list option"
  sp_accessoryIds :: "string list"
  sp_operatingPowerWatts :: rat
  sp_linkedLocationId :: "string option"
  sp_notes :: "string option"
  sp_createdAt :: int

record FeedlineRun =
  run_id :: string
  run_feedlineId :: string
  run_inlineComponentIds :: "string list"

record StationChain = GearItem +
  sc_name :: string
  sc_nodes :: "ChainNode list"
  sc_feedlineRuns :: "FeedlineRun list"
  sc_operatingPowerWatts :: rat
  sc_linkedLocationId :: "string option"
  sc_shackAccessoryIds :: "string list"
  sc_notes :: "string option"
  sc_createdAt :: int

datatype EquipmentHistoryAction = Added | Modified | Retired | Removed | Activated | Duplicated
datatype EquipmentType = EqRadio | EqAntenna | EqFeedline | EqInline | EqAccessory | EqPreset | EqChain

record EquipmentHistoryEntry =
  eh_id :: string
  eh_timestamp :: int
  eh_action :: EquipmentHistoryAction
  eh_equipmentType :: EquipmentType
  eh_equipmentId :: string
  eh_equipmentName :: string
  eh_details :: "string option"

record ShackStore =
  radios :: "UserRadio list"
  customRadios :: "RadioEquipment list"
  activeRadioId :: "string option"
  antennas :: "UserGear list"
  feedlines :: "UserGear list"
  inlineComponents :: "UserGear list"
  accessories :: "UserAccessory list"
  stationPresets :: "StationPreset list"
  activePresetId :: "string option"
  equipmentHistory :: "EquipmentHistoryEntry list"
  stationChains :: "StationChain list"
  activeChainId :: "string option"
  pendingGearDeletions :: "PendingGearDeletion list"

record ShackContext =
  cx_uuid :: "nat \<Rightarrow> string" \<comment> \<open>the ids the action draws, in order\<close>
  cx_now :: int
  cx_owner :: string \<comment> \<open>the signed-in user, empty when there is none\<close>
  cx_catalog :: "string \<Rightarrow> RadioEquipment option"
  cx_profileImage :: "string option"

definition new_shack :: ShackStore where
  "new_shack = \<lparr>radios = [], customRadios = [], activeRadioId = None, antennas = [], feedlines = [],
     inlineComponents = [], accessories = [], stationPresets = [], activePresetId = None,
     equipmentHistory = [], stationChains = [], activeChainId = None, pendingGearDeletions = []\<rparr>"

definition MAX_RADIOS :: nat where "MAX_RADIOS = 10"
definition MAX_ANTENNAS :: nat where "MAX_ANTENNAS = 20"
definition MAX_FEEDLINES :: nat where "MAX_FEEDLINES = 20"
definition MAX_INLINE_COMPONENTS :: nat where "MAX_INLINE_COMPONENTS = 30"
definition MAX_ACCESSORIES :: nat where "MAX_ACCESSORIES = 30"
definition MAX_PRESETS :: nat where "MAX_PRESETS = 10"

definition is_id :: "string \<Rightarrow> 'i GearItem_scheme \<Rightarrow> bool" where
  "is_id i x \<longleftrightarrow> gear_id x = i"

definition without :: "string \<Rightarrow> 'i GearItem_scheme list \<Rightarrow> 'i GearItem_scheme list" where
  \<comment> \<open>\<open>items.filter(x => x.id !== id)\<close>\<close>
  "without i = filter (\<lambda>x. gear_id x \<noteq> i)"

definition ids :: "'i GearItem_scheme list \<Rightarrow> string list" where
  "ids = map gear_id"

section \<open>History\<close>

definition addHistoryEntry ::
    "string \<Rightarrow> int \<Rightarrow> EquipmentHistoryAction \<Rightarrow> EquipmentType \<Rightarrow> string \<Rightarrow> string \<Rightarrow> string option \<Rightarrow> ShackStore \<Rightarrow> ShackStore" where
  "addHistoryEntry uuid now action ty i name details s =
     (let history = equipmentHistory s @ [\<lparr>eh_id = uuid, eh_timestamp = now, eh_action = action, eh_equipmentType = ty,
            eh_equipmentId = i, eh_equipmentName = name, eh_details = details\<rparr>]
      in s\<lparr>equipmentHistory := drop (length history - 200) history\<rparr>)"

definition hist :: "ShackContext \<Rightarrow> nat \<Rightarrow> EquipmentHistoryAction \<Rightarrow> EquipmentType \<Rightarrow> string \<Rightarrow> string \<Rightarrow> string option \<Rightarrow> ShackStore \<Rightarrow> ShackStore" where
  "hist cx k = addHistoryEntry (cx_uuid cx k) (cx_now cx)"

definition resolveEquipmentById :: "ShackContext \<Rightarrow> string \<Rightarrow> RadioEquipment list \<Rightarrow> RadioEquipment option" where
  "resolveEquipmentById cx i custom = (case find (is_id i) custom of Some r \<Rightarrow> Some r | None \<Rightarrow> cx_catalog cx i)"

definition or_else :: "'a option \<Rightarrow> 'a \<Rightarrow> 'a" where
  "or_else v d = (case v of None \<Rightarrow> d | Some x \<Rightarrow> x)"

definition display_name :: "RadioEquipment option \<Rightarrow> string option" where
  "display_name q = (case q of None \<Rightarrow> None | Some r \<Rightarrow> re_displayName r)"

definition radio_name :: "ShackContext \<Rightarrow> UserRadio option \<Rightarrow> ShackStore \<Rightarrow> string" where
  "radio_name cx radio s =
     (case radio of
        None \<Rightarrow> ''Unknown''
      | Some r \<Rightarrow> or_else (ra_nickname r) (or_else (display_name (resolveEquipmentById cx (ra_equipmentId r) (customRadios s))) ''Unknown''))"

definition item_name :: "('i \<Rightarrow> string) \<Rightarrow> 'i option \<Rightarrow> string" where
  "item_name nm x = (case x of None \<Rightarrow> ''Unknown'' | Some y \<Rightarrow> nm y)"

section \<open>Image references\<close>

definition collectEquipmentImageIds :: "string option \<Rightarrow> string list option \<Rightarrow> string list" where
  \<comment> \<open>of an item's image and gallery\<close>
  "collectEquipmentImageIds img gallery =
     (case img of Some i \<Rightarrow> if i \<noteq> [] then [i] else [] | None \<Rightarrow> []) @ or_else gallery []"

definition radio_images :: "UserRadio \<Rightarrow> string list" where
  "radio_images r = collectEquipmentImageIds (ra_imageId r) (ra_galleryImageIds r)"

definition gear_images :: "'g UserGear_scheme \<Rightarrow> string list" where
  "gear_images g = collectEquipmentImageIds (ge_imageId g) (ge_galleryImageIds g)"

definition item_images :: "('i \<Rightarrow> string list) \<Rightarrow> 'i option \<Rightarrow> string list" where
  "item_images f x = (case x of None \<Rightarrow> [] | Some y \<Rightarrow> f y)"

definition countImageReferences :: "string \<Rightarrow> string option \<Rightarrow> ShackStore \<Rightarrow> nat" where
  "countImageReferences imageId profileImageId s =
     (let one = (\<lambda>v. if v = Some imageId then 1 else 0);
          both = (\<lambda>v gallery. one v + length (filter (\<lambda>g. g = imageId) (or_else gallery [])))
      in one profileImageId
         + sum_list (map (\<lambda>r. both (ra_imageId r) (ra_galleryImageIds r)) (radios s))
         + sum_list (map (\<lambda>a. both (ge_imageId a) (ge_galleryImageIds a)) (antennas s))
         + sum_list (map (\<lambda>f. one (ge_imageId f)) (feedlines s))
         + sum_list (map (\<lambda>a. both (ge_imageId a) (ge_galleryImageIds a)) (accessories s))
         + sum_list (map (\<lambda>c. one (ge_imageId c)) (inlineComponents s)))"

definition isImageReferenced :: "string \<Rightarrow> string option \<Rightarrow> ShackStore \<Rightarrow> bool" where
  "isImageReferenced imageId profileImageId s \<longleftrightarrow> countImageReferences imageId profileImageId s > 0"

definition purgeUnreferencedImages :: "ShackContext \<Rightarrow> string list \<Rightarrow> ShackStore \<Rightarrow> string list" where
  \<comment> \<open>the images whose blobs are deleted\<close>
  "purgeUnreferencedImages cx imageIds s = filter (\<lambda>i. \<not> isImageReferenced i (cx_profileImage cx) s) imageIds"

section \<open>Referential cleanup\<close>

record GearRemovalCascade =
  ca_stationPresets :: "StationPreset list"
  ca_stationChains :: "StationChain list"
  ca_activeRadioId :: "string option"
  ca_activePresetId :: "string option"
  ca_activeChainId :: "string option"
  ca_radios :: "UserRadio list"
  ca_orphanedPresetIds :: "string list"
  ca_removedRadioIds :: "string list"

definition active_in :: "string option \<Rightarrow> string list \<Rightarrow> bool" where
  \<comment> \<open>\<open>active && ids.includes(active)\<close>\<close>
  "active_in a is \<longleftrightarrow> (case a of None \<Rightarrow> False | Some i \<Rightarrow> i \<noteq> [] \<and> i \<in> set is)"

definition refers :: "string \<Rightarrow> string list \<Rightarrow> bool" where
  \<comment> \<open>\<open>id && ids.has(id)\<close>\<close>
  "refers i is \<longleftrightarrow> i \<noteq> [] \<and> i \<in> set is"

definition drop_nodes :: "(ChainNode \<Rightarrow> bool) \<Rightarrow> StationChain list \<Rightarrow> StationChain list" where
  "drop_nodes p = map (\<lambda>chain. chain\<lparr>sc_nodes := filter (\<lambda>n. \<not> p n) (sc_nodes chain)\<rparr>)"

definition drop_presets :: "(StationPreset \<Rightarrow> bool) \<Rightarrow> GearRemovalCascade \<Rightarrow> GearRemovalCascade" where
  \<comment> \<open>the presets that lose their radio or antenna are removed and no longer active\<close>
  "drop_presets p c =
     (let orphaned = ids (filter p (ca_stationPresets c))
      in c\<lparr>ca_stationPresets := filter (\<lambda>q. \<not> p q) (ca_stationPresets c),
           ca_orphanedPresetIds := ca_orphanedPresetIds c @ orphaned,
           ca_activePresetId := (if active_in (ca_activePresetId c) orphaned then None else ca_activePresetId c)\<rparr>)"

definition radio_cascade :: "string list \<Rightarrow> GearRemovalCascade \<Rightarrow> GearRemovalCascade" where
  "radio_cascade is c =
     drop_presets (\<lambda>p. refers (sp_radioId p) is)
       (c\<lparr>ca_activeRadioId := (if active_in (ca_activeRadioId c) is
              then (case ca_radios c of [] \<Rightarrow> None | r # rs \<Rightarrow> Some (gear_id r)) else ca_activeRadioId c),
          ca_stationChains := drop_nodes (\<lambda>n. case n of RadioNode i \<Rightarrow> i \<in> set is | _ \<Rightarrow> False) (ca_stationChains c)\<rparr>)"

definition antenna_cascade :: "string list \<Rightarrow> GearRemovalCascade \<Rightarrow> GearRemovalCascade" where
  "antenna_cascade is c =
     drop_presets (\<lambda>p. refers (sp_antennaId p) is)
       (c\<lparr>ca_stationChains := drop_nodes (\<lambda>n. case n of AntennaNode i \<Rightarrow> i \<in> set is | _ \<Rightarrow> False) (ca_stationChains c)\<rparr>)"

definition feedline_cascade :: "string list \<Rightarrow> GearRemovalCascade \<Rightarrow> GearRemovalCascade" where
  "feedline_cascade is c =
     (let affectedRunIds = concat (map (\<lambda>chain. map run_id (filter (\<lambda>run. run_feedlineId run \<in> set is) (sc_feedlineRuns chain)))
            (ca_stationChains c));
          chains = map (\<lambda>chain. chain\<lparr>sc_feedlineRuns := filter (\<lambda>run. run_feedlineId run \<notin> set is) (sc_feedlineRuns chain)\<rparr>)
            (ca_stationChains c)
      in c\<lparr>ca_stationChains := drop_nodes (\<lambda>n. case n of FeedlineRunNode i \<Rightarrow> i \<in> set affectedRunIds | _ \<Rightarrow> False) chains,
           ca_stationPresets := map (\<lambda>p. case sp_feedlineId p of
               Some f \<Rightarrow> if refers f is then p\<lparr>sp_feedlineId := None\<rparr> else p
             | None \<Rightarrow> p) (ca_stationPresets c)\<rparr>)"

definition accessory_cascade :: "string list \<Rightarrow> GearRemovalCascade \<Rightarrow> GearRemovalCascade" where
  "accessory_cascade is c =
     c\<lparr>ca_stationChains := map (\<lambda>chain. chain\<lparr>
           sc_nodes := filter (\<lambda>n. \<not> (case n of AccessoryNode i \<Rightarrow> i \<in> set is | _ \<Rightarrow> False)) (sc_nodes chain),
           sc_shackAccessoryIds := filter (\<lambda>a. a \<notin> set is) (sc_shackAccessoryIds chain)\<rparr>) (ca_stationChains c),
       ca_stationPresets := map (\<lambda>p. p\<lparr>sp_accessoryIds := filter (\<lambda>a. a \<notin> set is) (sp_accessoryIds p)\<rparr>) (ca_stationPresets c)\<rparr>"

definition inline_cascade :: "string list \<Rightarrow> GearRemovalCascade \<Rightarrow> GearRemovalCascade" where
  "inline_cascade is c =
     c\<lparr>ca_stationChains := map (\<lambda>chain. chain\<lparr>sc_feedlineRuns := map (\<lambda>run. run\<lparr>
           run_inlineComponentIds := filter (\<lambda>i. i \<notin> set is) (run_inlineComponentIds run)\<rparr>) (sc_feedlineRuns chain)\<rparr>) (ca_stationChains c),
       ca_stationPresets := map (\<lambda>p. p\<lparr>sp_inlineComponentIds := map_option (filter (\<lambda>i. i \<notin> set is)) (sp_inlineComponentIds p)\<rparr>)
         (ca_stationPresets c)\<rparr>"

definition custom_radio_cascade :: "string list \<Rightarrow> GearRemovalCascade \<Rightarrow> GearRemovalCascade" where
  "custom_radio_cascade is c =
     (let affectedRadioIds = ids (filter (\<lambda>r. ra_equipmentId r \<in> set is) (ca_radios c))
      in if affectedRadioIds = [] then c
         else let c1 = radio_cascade affectedRadioIds
                (c\<lparr>ca_radios := filter (\<lambda>r. gear_id r \<notin> set affectedRadioIds) (ca_radios c)\<rparr>)
              in c1\<lparr>ca_removedRadioIds := ca_removedRadioIds c1 @ affectedRadioIds\<rparr>)"

fun applyGearRemovalCascade :: "GearDeletionTable \<Rightarrow> string list \<Rightarrow> GearRemovalCascade \<Rightarrow> GearRemovalCascade" where
  "applyGearRemovalCascade UserRadios is c = radio_cascade is c"
| "applyGearRemovalCascade Antennas is c = antenna_cascade is c"
| "applyGearRemovalCascade Feedlines is c = feedline_cascade is c"
| "applyGearRemovalCascade Accessories is c = accessory_cascade is c"
| "applyGearRemovalCascade InlineComponents is c = inline_cascade is c"
| "applyGearRemovalCascade StationPresets is c =
     c\<lparr>ca_activePresetId := (if active_in (ca_activePresetId c) is then None else ca_activePresetId c)\<rparr>"
| "applyGearRemovalCascade StationChains is c =
     c\<lparr>ca_activeChainId := (if active_in (ca_activeChainId c) is then None else ca_activeChainId c)\<rparr>"
| "applyGearRemovalCascade CustomRadios is c = custom_radio_cascade is c"

definition cascade_of :: "UserRadio list \<Rightarrow> ShackStore \<Rightarrow> GearRemovalCascade" where
  "cascade_of rs s = \<lparr>ca_stationPresets = stationPresets s, ca_stationChains = stationChains s,
     ca_activeRadioId = activeRadioId s, ca_activePresetId = activePresetId s, ca_activeChainId = activeChainId s,
     ca_radios = rs, ca_orphanedPresetIds = [], ca_removedRadioIds = []\<rparr>"

definition cascade_entries :: "GearRemovalCascade \<Rightarrow> (GearDeletionTable \<times> string) list" where
  "cascade_entries c = map (Pair UserRadios) (ca_removedRadioIds c) @ map (Pair StationPresets) (ca_orphanedPresetIds c)"

definition put_cascade :: "GearRemovalCascade \<Rightarrow> ShackStore \<Rightarrow> ShackStore" where
  "put_cascade c s = s\<lparr>radios := ca_radios c, stationPresets := ca_stationPresets c, stationChains := ca_stationChains c,
     activeRadioId := ca_activeRadioId c, activePresetId := ca_activePresetId c, activeChainId := ca_activeChainId c\<rparr>"

definition acknowledgeGearDeletions :: "string list \<Rightarrow> string \<Rightarrow> ShackStore \<Rightarrow> ShackStore" where
  "acknowledgeGearDeletions keys ownerId s =
     s\<lparr>pendingGearDeletions := removeAcknowledgedGearDeletions (pendingGearDeletions s) keys ownerId\<rparr>"

definition applyGearRemoval :: "int \<Rightarrow> GearDeletionTable \<Rightarrow> string list \<Rightarrow> string \<Rightarrow> ShackStore \<Rightarrow> ShackStore" where
  "applyGearRemoval now table is ownerId s =
     (let cascade = applyGearRemovalCascade table is (cascade_of (radios s) s);
          deletionIntents = cascade_entries cascade
      in put_cascade cascade (s\<lparr>pendingGearDeletions := (if deletionIntents \<noteq> []
           then enqueueGearDeletionIntents (pendingGearDeletions s) ownerId deletionIntents now else pendingGearDeletions s)\<rparr>))"

definition removeGearWithTombstones :: "int \<Rightarrow> GearDeletionTable \<Rightarrow> string list \<Rightarrow> string \<Rightarrow> ShackStore \<Rightarrow> ShackStore" where
  "removeGearWithTombstones now table is ownerId s =
     (let cascade = applyGearRemovalCascade table is (cascade_of (radios s) s)
      in put_cascade cascade (s\<lparr>pendingGearDeletions := enqueueGearDeletionIntents (pendingGearDeletions s) ownerId
           (map (Pair table) is @ cascade_entries cascade) now\<rparr>))"

end
