(* ===== verification/ShackRows.thy ===== *)
theory ShackRows
  imports ShackStore LogRows
begin

text \<open>
  The rows the shack is stored in and their converters (\<open>src/lib/sync/modules/shackSync.ts\<close>). A
  row has its columns as a map, \<open>None\<close> for a null column; the JSON column that carries the
  whole local object (\<open>_snapshot\<close>) is a field of its own. Columns inside a JSON column are
  named with a dot.
\<close>

section \<open>Rows\<close>

record 'i GearRow = TombstoneRow +
  gr_id :: string
  gr_created_at :: int
  gr_col :: "string \<rightharpoonup> jv"
  gr_snapshot :: "'i option"

record PresetRow = TombstoneRow +
  pw_id :: string
  pw_name :: string
  pw_description :: "string option"
  pw_radio_instance_id :: "string option"
  pw_antenna_id :: "string option"
  pw_feedline_id :: "string option"
  pw_accessory_ids :: "string list"
  pw_linked_location_id :: "string option"
  pw_created_at :: int

record StationChainRow = TombstoneRow +
  cw_id :: string
  cw_name :: string
  cw_nodes :: "ChainNode list option"
  cw_feedline_runs :: "FeedlineRun list option"
  cw_operating_power_watts :: rat
  cw_linked_location_id :: "string option"
  cw_shack_accessory_ids :: "string list option"
  cw_notes :: "string option"
  cw_created_at :: int

record EquipmentHistoryRow =
  hw_id :: string
  hw_timestamp :: int
  hw_action :: EquipmentHistoryAction
  hw_equipment_type :: EquipmentType
  hw_equipment_id :: string
  hw_equipment_name :: string
  hw_details :: "string option"
  hw_created_at :: int

definition FEET_TO_METERS :: rat where "FEET_TO_METERS = 3048 / 10000"

definition maxTimestamp :: "int list \<Rightarrow> int option" where
  "maxTimestamp ts = foldl (\<lambda>m t. case m of None \<Rightarrow> Some t | Some x \<Rightarrow> if t > x then Some t else m) None ts"

section \<open>Columns\<close>

definition col_string :: "jv option \<Rightarrow> string" where
  \<comment> \<open>a text column that is not null\<close>
  "col_string v = (case v of Some (JStr s) \<Rightarrow> s | _ \<Rightarrow> [])"

definition col_text :: "jv option \<Rightarrow> string option" where
  \<comment> \<open>\<open>column ?? undefined\<close> of a text column\<close>
  "col_text v = (case v of Some (JStr s) \<Rightarrow> Some s | _ \<Rightarrow> None)"

definition text_col :: "string option \<Rightarrow> jv option" where
  "text_col v = map_option JStr v"

definition picked :: "(string \<times> jv option) list \<Rightarrow> string \<rightharpoonup> jv" where
  \<comment> \<open>the object with these properties, the undefined ones left out\<close>
  "picked kvs k = Option.bind (map_of kvs k) (\<lambda>v. v)"

definition num_col :: "jv option \<Rightarrow> rat" where
  "num_col v = (case v of Some (JNum q) \<Rightarrow> q | _ \<Rightarrow> 0)"

section \<open>Local objects to rows\<close>

definition radioToRow :: "int \<Rightarrow> UserRadio \<Rightarrow> UserRadio GearRow" where
  "radioToRow now radio =
     \<lparr>tr_updated_at = now, tr_deleted_at = None, gr_id = gear_id radio, gr_created_at = ra_addedAt radio,
      gr_col = picked [(''equipment_id'', Some (JStr (ra_equipmentId radio))), (''nickname'', text_col (ra_nickname radio)),
        (''tx_power_setting'', coalesce (ra_customPowerLimit radio) None),
        (''purchase_date'', coalesce (ra_other radio ''purchaseDate'') None),
        (''firmware_version'', coalesce (ra_other radio ''firmwareRevision'') None),
        (''notes'', coalesce (ra_other radio ''notes'') None),
        (''wiring'', coalesce (ra_other radio ''wiringConfiguration'') None)],
      gr_snapshot = Some radio\<rparr>"

definition antennaToRow :: "int \<Rightarrow> UserGear \<Rightarrow> UserGear GearRow" where
  "antennaToRow now antenna =
     (let a = ge_other antenna
      in \<lparr>tr_updated_at = now, tr_deleted_at = None, gr_id = gear_id antenna, gr_created_at = ge_addedAt antenna,
          gr_col = picked [(''name'', Some (JStr (ge_name antenna))), (''type'', a ''antennaType''), (''bands'', a ''bands''),
            (''height_agl'', a ''heightMeters''), (''azimuth'', coalesce (a ''azimuthDeg'') None),
            (''is_rotatable'', coalesce (a ''isRotatable'') (Some (JBool False))),
            (''is_portable'', Some (JBool (a ''mounting'' = Some (JStr ''portable'')))),
            (''polarization'', a ''polarization''), (''mounting'', a ''mounting''),
            (''manufacturer'', coalesce (a ''manufacturer'') None), (''notes'', coalesce (a ''notes'') None),
            (''gain_dbi'', coalesce (a ''gainDbiOverride'') None), (''swr_data.swr'', coalesce (a ''swrByBand'') None)],
          gr_snapshot = Some antenna\<rparr>)"

definition feedlineToRow :: "int \<Rightarrow> UserGear \<Rightarrow> UserGear GearRow" where
  "feedlineToRow now feedline =
     (let f = ge_other feedline
      in \<lparr>tr_updated_at = now, tr_deleted_at = None, gr_id = gear_id feedline, gr_created_at = ge_addedAt feedline,
          gr_col = picked [(''type'', f ''feedlineType''),
            (''length_meters'', Some (JNum (num_col (f ''lengthFeet'') * FEET_TO_METERS))),
            (''connectors.connectorType'', f ''connectorType''),
            (''connectors.connectorTypeFarEnd'', coalesce (f ''connectorTypeFarEnd'') None),
            (''connectors.connectorCount'', f ''connectorCount''), (''condition'', f ''condition''),
            (''manufacturer'', coalesce (f ''manufacturer'') None), (''notes'', coalesce (f ''notes'') None),
            (''installation_date'', if js_truthy (f ''yearInstalled'') then Some (JStr (String_of (f ''yearInstalled'') @ ''-01-01'')) else None)],
          gr_snapshot = Some feedline\<rparr>)"

definition category_text :: "AccessoryCategory \<Rightarrow> string" where
  "category_text c = (case c of Amplifier \<Rightarrow> ''amplifier'' | Tuner \<Rightarrow> ''tuner'' | AccFilter \<Rightarrow> ''filter'' | AccSwitch \<Rightarrow> ''switch''
     | PowerSupply \<Rightarrow> ''power_supply'' | Grounding \<Rightarrow> ''grounding'' | Rotator \<Rightarrow> ''rotator'' | Keyer \<Rightarrow> ''keyer'' | AudioDsp \<Rightarrow> ''audio_dsp'')"

definition ALL_CATEGORIES :: "AccessoryCategory list" where
  "ALL_CATEGORIES = [Amplifier, Tuner, AccFilter, AccSwitch, PowerSupply, Grounding, Rotator, Keyer, AudioDsp]"

definition text_category :: "string \<Rightarrow> AccessoryCategory" where
  \<comment> \<open>a stored category is one of the nine\<close>
  "text_category t = (case find (\<lambda>c. category_text c = t) ALL_CATEGORIES of Some c \<Rightarrow> c | None \<Rightarrow> Amplifier)"

definition accessoryToRow :: "int \<Rightarrow> UserAccessory \<Rightarrow> UserAccessory GearRow" where
  "accessoryToRow now accessory =
     (let a = ge_other accessory
      in \<lparr>tr_updated_at = now, tr_deleted_at = None, gr_id = gear_id accessory, gr_created_at = ge_addedAt accessory,
          gr_col = picked [(''model'', Some (JStr (ge_name accessory))), (''category'', Some (JStr (category_text (ac_category accessory)))),
            (''bands'', case a ''bands'' of Some (JArr vs) \<Rightarrow> Some (JArr vs) | _ \<Rightarrow> Some (JArr [])),
            (''manufacturer'', coalesce (a ''manufacturer'') None), (''notes'', coalesce (a ''notes'') None)],
          gr_snapshot = Some accessory\<rparr>)"

definition inlineToRow :: "int \<Rightarrow> UserGear \<Rightarrow> UserGear GearRow" where
  "inlineToRow now component =
     (let c = ge_other component
      in \<lparr>tr_updated_at = now, tr_deleted_at = None, gr_id = gear_id component, gr_created_at = ge_addedAt component,
          gr_col = picked [(''name'', Some (JStr (ge_name component))), (''component_type'', c ''componentType''),
            (''insertion_loss_db'', c ''insertionLossDb''), (''manufacturer'', coalesce (c ''manufacturer'') None),
            (''notes'', coalesce (c ''notes'') None)],
          gr_snapshot = Some component\<rparr>)"

definition customRadioToRow :: "int \<Rightarrow> RadioEquipment \<Rightarrow> RadioEquipment GearRow" where
  "customRadioToRow now radio =
     \<lparr>tr_updated_at = now, tr_deleted_at = None, gr_id = gear_id radio, gr_created_at = now,
      gr_col = picked [(''display_name'', text_col (re_displayName radio)), (''manufacturer'', re_other radio ''manufacturer'')],
      gr_snapshot = Some radio\<rparr>"

definition presetToRow :: "int \<Rightarrow> StationPreset \<Rightarrow> PresetRow" where
  "presetToRow now preset =
     \<lparr>tr_updated_at = now, tr_deleted_at = None, pw_id = gear_id preset, pw_name = sp_name preset,
      pw_description = sp_notes preset, pw_radio_instance_id = Some (sp_radioId preset),
      pw_antenna_id = Some (sp_antennaId preset), pw_feedline_id = sp_feedlineId preset,
      pw_accessory_ids = sp_accessoryIds preset, pw_linked_location_id = sp_linkedLocationId preset,
      pw_created_at = sp_createdAt preset\<rparr>"

definition chainToRow :: "int \<Rightarrow> StationChain \<Rightarrow> StationChainRow" where
  "chainToRow now chain =
     \<lparr>tr_updated_at = now, tr_deleted_at = None, cw_id = gear_id chain, cw_name = sc_name chain,
      cw_nodes = Some (sc_nodes chain), cw_feedline_runs = Some (sc_feedlineRuns chain),
      cw_operating_power_watts = sc_operatingPowerWatts chain, cw_linked_location_id = sc_linkedLocationId chain,
      cw_shack_accessory_ids = Some (sc_shackAccessoryIds chain), cw_notes = sc_notes chain,
      cw_created_at = sc_createdAt chain\<rparr>"

definition historyToRow :: "EquipmentHistoryEntry \<Rightarrow> EquipmentHistoryRow" where
  "historyToRow entry =
     \<lparr>hw_id = eh_id entry, hw_timestamp = eh_timestamp entry, hw_action = eh_action entry,
      hw_equipment_type = eh_equipmentType entry, hw_equipment_id = eh_equipmentId entry,
      hw_equipment_name = eh_equipmentName entry, hw_details = eh_details entry, hw_created_at = eh_timestamp entry\<rparr>"

section \<open>Rows to local objects\<close>

definition rowToRadio :: "UserRadio GearRow \<Rightarrow> UserRadio" where
  "rowToRadio row =
     (case gr_snapshot row of
        Some radio \<Rightarrow> radio
      | None \<Rightarrow>
          \<lparr>gear_id = gr_id row, ra_equipmentId = col_string (gr_col row ''equipment_id''), ra_nickname = col_text (gr_col row ''nickname''),
           ra_customPowerLimit = coalesce (gr_col row ''tx_power_setting'') None, ra_imageId = None, ra_galleryImageIds = None,
           ra_addedAt = gr_created_at row,
           ra_other = picked [(''purchaseDate'', coalesce (gr_col row ''purchase_date'') None),
             (''firmwareRevision'', coalesce (gr_col row ''firmware_version'') None),
             (''wiringConfiguration'', coalesce (gr_col row ''wiring'') None), (''notes'', coalesce (gr_col row ''notes'') None)]\<rparr>)"

definition gear_object :: "string \<Rightarrow> string \<Rightarrow> int \<Rightarrow> (string \<times> jv option) list \<Rightarrow> UserGear" where
  "gear_object i name addedAt kvs =
     \<lparr>gear_id = i, ge_name = name, ge_imageId = None, ge_galleryImageIds = None, ge_addedAt = addedAt, ge_other = picked kvs\<rparr>"

definition rowToAntenna :: "UserGear GearRow \<Rightarrow> UserGear" where
  "rowToAntenna row =
     (case gr_snapshot row of
        Some antenna \<Rightarrow> antenna
      | None \<Rightarrow> let c = gr_col row
          in gear_object (gr_id row) (col_string (c ''name'')) (gr_created_at row)
               [(''antennaType'', c ''type''), (''gainPatternType'', c ''type''), (''bands'', c ''bands''),
                (''heightMeters'', coalesce (c ''height_agl'') (Some (JNum 0))), (''azimuthDeg'', coalesce (c ''azimuth'') None),
                (''isRotatable'', c ''is_rotatable''), (''polarization'', coalesce (c ''polarization'') (Some (JStr ''vertical''))),
                (''mounting'', coalesce (c ''mounting'') (Some (JStr ''mast''))), (''manufacturer'', coalesce (c ''manufacturer'') None),
                (''gainDbiOverride'', Some (case c ''gain_dbi'' of None \<Rightarrow> JNull | Some v \<Rightarrow> v)),
                (''swrByBand'', coalesce (c ''swr_data.swr'') None), (''notes'', coalesce (c ''notes'') None)])"

definition year_of :: "jv option \<Rightarrow> jv option" where
  \<comment> \<open>\<open>d ? parseInt(d.slice(0, 4), 10) || undefined : undefined\<close>\<close>
  "year_of d =
     (let digits = takeWhile isDigit (take 4 (col_string d)); y = digits_value digits
      in if js_truthy d \<and> digits \<noteq> [] \<and> y \<noteq> 0 then Some (JNum (of_nat y)) else None)"

definition rowToFeedline :: "UserGear GearRow \<Rightarrow> UserGear" where
  "rowToFeedline row =
     (case gr_snapshot row of
        Some feedline \<Rightarrow> feedline
      | None \<Rightarrow> let c = gr_col row
          in gear_object (gr_id row) (col_string (c ''type'')) (gr_created_at row)
               [(''feedlineType'', c ''type''), (''lengthFeet'', Some (JNum (num_col (c ''length_meters'') / FEET_TO_METERS))),
                (''connectorCount'', coalesce (c ''connectors.connectorCount'') (Some (JNum 2))),
                (''connectorType'', coalesce (c ''connectors.connectorType'') (Some (JStr ''pl259''))),
                (''connectorTypeFarEnd'', coalesce (c ''connectors.connectorTypeFarEnd'') None),
                (''condition'', coalesce (c ''condition'') (Some (JStr ''good''))), (''manufacturer'', coalesce (c ''manufacturer'') None),
                (''yearInstalled'', year_of (c ''installation_date'')), (''notes'', coalesce (c ''notes'') None)])"

definition rowToAccessory :: "UserAccessory GearRow \<Rightarrow> UserAccessory" where
  "rowToAccessory row =
     (case gr_snapshot row of
        Some accessory \<Rightarrow> accessory
      | None \<Rightarrow> let c = gr_col row
          in \<lparr>gear_id = gr_id row, ge_name = col_string (c ''model''), ge_imageId = None, ge_galleryImageIds = None,
              ge_addedAt = gr_created_at row,
              ge_other = picked [(''manufacturer'', coalesce (c ''manufacturer'') None), (''notes'', coalesce (c ''notes'') None)],
              ac_category = text_category (col_string (c ''category''))\<rparr>)"

definition rowToInline :: "UserGear GearRow \<Rightarrow> UserGear" where
  "rowToInline row =
     (case gr_snapshot row of
        Some component \<Rightarrow> component
      | None \<Rightarrow> let c = gr_col row
          in gear_object (gr_id row) (col_string (c ''name'')) (gr_created_at row)
               [(''componentType'', c ''component_type''), (''insertionLossDb'', c ''insertion_loss_db''),
                (''manufacturer'', coalesce (c ''manufacturer'') None), (''notes'', coalesce (c ''notes'') None)])"

definition rowToCustomRadio :: "RadioEquipment GearRow \<Rightarrow> RadioEquipment" where
  "rowToCustomRadio row =
     (case gr_snapshot row of
        Some radio \<Rightarrow> radio
      | None \<Rightarrow> let c = gr_col row; name = col_text (c ''display_name'')
          in \<lparr>gear_id = gr_id row, re_displayName = name,
              re_other = picked [(''manufacturer'', c ''manufacturer''), (''model'', Some (JStr (or_else name ''Unknown''))),
                (''receiver'', Some (JObj [(''rmdr'', JNum 0), (''imdr3'', JNum 0), (''blockingGain'', JNum 0), (''sensitivity'', JNum 1)])),
                (''maxPower'', Some (JNum 100)), (''minPower'', Some (JNum 5)), (''modes'', Some (JArr [])), (''bands'', Some (JArr [])),
                (''tier'', Some (JStr ''entry''))]\<rparr>)"

definition rowToPreset :: "PresetRow \<Rightarrow> StationPreset" where
  "rowToPreset row =
     \<lparr>gear_id = pw_id row, sp_name = pw_name row, sp_radioId = or_else (pw_radio_instance_id row) [],
      sp_antennaId = or_else (pw_antenna_id row) [], sp_feedlineId = pw_feedline_id row, sp_inlineComponentIds = None,
      sp_accessoryIds = pw_accessory_ids row, sp_operatingPowerWatts = 100, sp_linkedLocationId = None,
      sp_notes = pw_description row, sp_createdAt = pw_created_at row\<rparr>"

definition rowToChain :: "StationChainRow \<Rightarrow> StationChain" where
  "rowToChain row =
     \<lparr>gear_id = cw_id row, sc_name = cw_name row, sc_nodes = or_else (cw_nodes row) [],
      sc_feedlineRuns = or_else (cw_feedline_runs row) [], sc_operatingPowerWatts = cw_operating_power_watts row,
      sc_linkedLocationId = cw_linked_location_id row, sc_shackAccessoryIds = or_else (cw_shack_accessory_ids row) [],
      sc_notes = cw_notes row, sc_createdAt = cw_created_at row\<rparr>"

definition rowToHistory :: "EquipmentHistoryRow \<Rightarrow> EquipmentHistoryEntry" where
  "rowToHistory row =
     \<lparr>eh_id = hw_id row, eh_timestamp = hw_timestamp row, eh_action = hw_action row, eh_equipmentType = hw_equipment_type row,
      eh_equipmentId = hw_equipment_id row, eh_equipmentName = hw_equipment_name row, eh_details = hw_details row\<rparr>"

section \<open>Properties\<close>

text \<open>
  Everything a device pushes except presets is read back unchanged: radios, antennas,
  feedlines, accessories, inline components and custom radios by their snapshot, chains and
  history entries by their columns.
\<close>

theorem pushed_gear_read_back:
  "rowToRadio (radioToRow now r) = r \<and> rowToAntenna (antennaToRow now a) = a \<and> rowToFeedline (feedlineToRow now f) = f \<and>
   rowToAccessory (accessoryToRow now x) = x \<and> rowToInline (inlineToRow now i) = i \<and>
   rowToCustomRadio (customRadioToRow now q) = q \<and> rowToChain (chainToRow now c) = c \<and> rowToHistory (historyToRow h) = h"
  by (simp add: rowToRadio_def radioToRow_def rowToAntenna_def antennaToRow_def rowToFeedline_def feedlineToRow_def
      rowToAccessory_def accessoryToRow_def rowToInline_def inlineToRow_def rowToCustomRadio_def customRadioToRow_def
      rowToChain_def chainToRow_def rowToHistory_def historyToRow_def Let_def or_else_def)

text \<open>
  A preset read back from its own row has an operating power of 100 watts, no saved location
  and no inline components, whatever it had: the power and the components have no column, and
  the column of the location is written but not read.
\<close>

theorem pushed_preset_loses_settings:
  "rowToPreset (presetToRow now p) = p\<lparr>sp_operatingPowerWatts := 100, sp_linkedLocationId := None, sp_inlineComponentIds := None\<rparr>"
  by (simp add: rowToPreset_def presetToRow_def or_else_def)

lemma category_round_trip: "text_category (category_text c) = c"
  by (cases c) (simp_all add: text_category_def category_text_def ALL_CATEGORIES_def)

end
