(* ===== verification/ShackActions.thy ===== *)
theory ShackActions
  imports ShackStore
begin

text \<open>
  The actions of the store (\<open>src/stores/shackStore.ts\<close>) on the data of \<open>ShackStore\<close>. Adding
  and duplicating return the id of the new item when there is room; updating returns \<open>Ok\<close> or
  an error; removing returns the images whose blobs it deletes. The ids an action draws are
  \<open>cx_uuid cx 0\<close>, \<open>cx_uuid cx 1\<close> and so on, the id of its history entry the last.
\<close>

datatype shack_result = Ok | Err string

section \<open>Radios\<close>

definition createUserRadioInstance :: "ShackContext \<Rightarrow> string \<Rightarrow> string option \<Rightarrow> UserRadio" where
  "createUserRadioInstance cx equipmentId nickname =
     \<lparr>gear_id = cx_uuid cx 0, ra_equipmentId = equipmentId, ra_nickname = nickname, ra_customPowerLimit = None,
      ra_imageId = None, ra_galleryImageIds = None, ra_addedAt = cx_now cx, ra_other = Map.empty\<rparr>"

definition truthy_id :: "string option \<Rightarrow> bool" where
  "truthy_id v \<longleftrightarrow> v \<noteq> None \<and> v \<noteq> Some []"

definition addRadio :: "ShackContext \<Rightarrow> string \<Rightarrow> string option \<Rightarrow> ShackStore \<Rightarrow> string option \<times> ShackStore" where
  "addRadio cx radioId nickname s =
     (case find (\<lambda>r. ra_equipmentId r = radioId) (radios s) of
        Some existing \<Rightarrow> (Some (gear_id existing), s)
      | None \<Rightarrow>
          if length (radios s) \<ge> MAX_RADIOS then (None, s)
          else let newRadio = createUserRadioInstance cx radioId nickname;
                   updatedRadios = radios s @ [newRadio];
                   active = (if truthy_id (activeRadioId s) then activeRadioId s
                     else if length updatedRadios = 1 then Some (gear_id newRadio) else None);
                   s1 = s\<lparr>radios := updatedRadios, activeRadioId := active\<rparr>;
                   name = or_else nickname (or_else (display_name (resolveEquipmentById cx radioId (customRadios s1))) radioId)
               in (Some (gear_id newRadio), hist cx 1 Added EqRadio (gear_id newRadio) name None s1))"

definition addRadioInstance :: "ShackContext \<Rightarrow> string \<Rightarrow> string option \<Rightarrow> ShackStore \<Rightarrow> string option \<times> ShackStore" where
  "addRadioInstance cx radioId nickname s =
     (if length (radios s) \<ge> MAX_RADIOS then (None, s)
      else let newRadio = createUserRadioInstance cx radioId nickname;
               active = (if truthy_id (activeRadioId s) then activeRadioId s else Some (gear_id newRadio));
               s1 = s\<lparr>radios := radios s @ [newRadio], activeRadioId := active\<rparr>;
               name = or_else nickname (or_else (display_name (resolveEquipmentById cx radioId (customRadios s1))) radioId)
           in (Some (gear_id newRadio), hist cx 1 Added EqRadio (gear_id newRadio) name None s1))"

definition bad_power :: "jv option \<Rightarrow> bool" where
  \<comment> \<open>a number that is not finite or not positive\<close>
  "bad_power v = (case v of Some (JNum q) \<Rightarrow> q \<le> 0 | Some JNotFinite \<Rightarrow> True | _ \<Rightarrow> False)"

definition updateRadioInstance ::
    "ShackContext \<Rightarrow> string \<Rightarrow> jv option \<Rightarrow> (UserRadio \<Rightarrow> UserRadio) \<Rightarrow> ShackStore \<Rightarrow> shack_result \<times> ShackStore" where
  \<comment> \<open>\<open>limit\<close> is the update's \<open>customPowerLimit\<close>\<close>
  "updateRadioInstance cx i limit upd s =
     (if \<not> list_ex (is_id i) (radios s) then (Err ''Radio instance not found'', s)
      else if bad_power limit then (Err ''Power limit must be a positive number'', s)
      else let s1 = s\<lparr>radios := update_first (is_id i) upd (radios s)\<rparr>
           in (Ok, hist cx 0 Modified EqRadio i (radio_name cx (find (is_id i) (radios s1)) s1) None s1))"

definition removeRadio :: "ShackContext \<Rightarrow> string \<Rightarrow> ShackStore \<Rightarrow> string list \<times> ShackStore" where
  "removeRadio cx radioId s =
     (let radio = find (is_id radioId) (radios s);
          name = radio_name cx radio s;
          detached = item_images radio_images radio;
          updatedRadios = without radioId (radios s);
          cascade = applyGearRemovalCascade UserRadios [radioId] (cascade_of updatedRadios s);
          s1 = s\<lparr>pendingGearDeletions := enqueueGearDeletionIntents (pendingGearDeletions s) (cx_owner cx)
                 ((UserRadios, radioId) # map (Pair StationPresets) (ca_orphanedPresetIds cascade)) (cx_now cx),
               radios := updatedRadios, activeRadioId := ca_activeRadioId cascade,
               stationChains := ca_stationChains cascade, stationPresets := ca_stationPresets cascade,
               activePresetId := ca_activePresetId cascade\<rparr>;
          s2 = hist cx 0 Removed EqRadio radioId name None s1
      in (purgeUnreferencedImages cx detached s2, s2))"

definition setActiveRadio :: "string option \<Rightarrow> ShackStore \<Rightarrow> ShackStore" where
  "setActiveRadio i s = s\<lparr>activeRadioId := i\<rparr>"

section \<open>Custom radios\<close>

definition toLowerCase :: "string \<Rightarrow> string" where
  "toLowerCase = map (\<lambda>c. let n = (of_char c :: nat) in if 65 \<le> n \<and> n \<le> 90 then char_of (n + 32) else c)"

definition same_display :: "string \<Rightarrow> RadioEquipment \<Rightarrow> bool" where
  "same_display normalized r \<longleftrightarrow> toLowerCase (trim (or_else (re_displayName r) [])) = normalized"

definition addCustomRadio ::
    "ShackContext \<Rightarrow> string option \<Rightarrow> (string \<rightharpoonup> jv) \<Rightarrow> ShackStore \<Rightarrow> (string + string) \<times> ShackStore" where
  \<comment> \<open>\<open>Inl\<close> the error, \<open>Inr\<close> the id\<close>
  "addCustomRadio cx name other s =
     (let i = ''custom-'' @ cx_uuid cx 0;
          displayName = trim (or_else name [])
      in if displayName = [] then (Inl ''Custom radio name is required'', s)
         else if list_ex (same_display (toLowerCase displayName)) (customRadios s)
         then (Inl (''A custom radio named \"'' @ displayName @ ''\" already exists''), s)
         else let s1 = s\<lparr>customRadios := customRadios s @ [\<lparr>gear_id = i, re_displayName = Some displayName, re_other = other\<rparr>]\<rparr>
              in (Inr i, hist cx 1 Added EqRadio i displayName None s1))"

definition updateCustomRadio ::
    "ShackContext \<Rightarrow> string \<Rightarrow> string option \<Rightarrow> (string \<rightharpoonup> jv) \<Rightarrow> ShackStore \<Rightarrow> shack_result \<times> ShackStore" where
  \<comment> \<open>\<open>name\<close> is the update's display name when it is a string, \<open>other\<close> its other properties\<close>
  "updateCustomRadio cx i name other s =
     (case index_from (is_id i) (customRadios s) of
        None \<Rightarrow> (Err ''Custom radio not found'', s)
      | Some idx \<Rightarrow>
          let nextDisplayName = (case name of Some n \<Rightarrow> trim n | None \<Rightarrow> or_else (re_displayName (customRadios s ! idx)) [])
          in if nextDisplayName = [] then (Err ''Custom radio name is required'', s)
             else if list_ex (same_display (toLowerCase nextDisplayName)) (remove_at idx (customRadios s))
             then (Err (''A custom radio named \"'' @ nextDisplayName @ ''\" already exists''), s)
             else let s1 = s\<lparr>customRadios := (customRadios s)[idx := (customRadios s ! idx)\<lparr>
                        re_displayName := Some nextDisplayName, re_other := re_other (customRadios s ! idx) ++ other\<rparr>]\<rparr>
                  in (Ok, hist cx 0 Modified EqRadio i nextDisplayName None s1))"

definition removeCustomRadio :: "ShackContext \<Rightarrow> string \<Rightarrow> ShackStore \<Rightarrow> string list \<times> ShackStore" where
  "removeCustomRadio cx i s =
     (let name = or_else (display_name (find (is_id i) (customRadios s))) ''Unknown'';
          affectedRadioIds = ids (filter (\<lambda>r. ra_equipmentId r = i) (radios s));
          detached = concat (map radio_images (filter (\<lambda>r. gear_id r \<in> set affectedRadioIds) (radios s)));
          cascade = applyGearRemovalCascade CustomRadios [i] (cascade_of (radios s) s);
          s1 = s\<lparr>pendingGearDeletions := enqueueGearDeletionIntents (pendingGearDeletions s) (cx_owner cx)
                 ((CustomRadios, i) # cascade_entries cascade) (cx_now cx),
               customRadios := without i (customRadios s), radios := ca_radios cascade,
               activeRadioId := ca_activeRadioId cascade, stationChains := ca_stationChains cascade,
               stationPresets := ca_stationPresets cascade, activePresetId := ca_activePresetId cascade\<rparr>;
          s2 = hist cx 0 Removed EqRadio i name None s1
      in (purgeUnreferencedImages cx detached s2, s2))"

section \<open>Antennas\<close>

definition addAntenna :: "ShackContext \<Rightarrow> UserGear \<Rightarrow> ShackStore \<Rightarrow> string option \<times> ShackStore" where
  "addAntenna cx item s =
     (if length (antennas s) \<ge> MAX_ANTENNAS then (None, s)
      else let s1 = s\<lparr>antennas := antennas s @ [item\<lparr>gear_id := cx_uuid cx 0, ge_addedAt := cx_now cx\<rparr>]\<rparr>
           in (Some (cx_uuid cx 0), hist cx 1 Added EqAntenna (cx_uuid cx 0) (ge_name item) None s1))"

definition updateAntenna :: "ShackContext \<Rightarrow> string \<Rightarrow> (UserGear \<Rightarrow> UserGear) \<Rightarrow> ShackStore \<Rightarrow> shack_result \<times> ShackStore" where
  "updateAntenna cx i upd s =
     (if \<not> list_ex (is_id i) (antennas s) then (Err ''Antenna not found'', s)
      else let s1 = s\<lparr>antennas := update_first (is_id i) upd (antennas s)\<rparr>
           in (Ok, hist cx 0 Modified EqAntenna i (item_name ge_name (find (is_id i) (antennas s1))) None s1))"

definition removeAntenna :: "ShackContext \<Rightarrow> string \<Rightarrow> ShackStore \<Rightarrow> string list \<times> ShackStore" where
  "removeAntenna cx i s =
     (let item = find (is_id i) (antennas s);
          cascade = applyGearRemovalCascade Antennas [i] (cascade_of (radios s) s);
          s1 = s\<lparr>pendingGearDeletions := enqueueGearDeletionIntents (pendingGearDeletions s) (cx_owner cx)
                 ((Antennas, i) # map (Pair StationPresets) (ca_orphanedPresetIds cascade)) (cx_now cx),
               antennas := without i (antennas s), stationPresets := ca_stationPresets cascade,
               stationChains := ca_stationChains cascade, activePresetId := ca_activePresetId cascade\<rparr>;
          s2 = hist cx 0 Removed EqAntenna i (item_name ge_name item) None s1
      in (purgeUnreferencedImages cx (item_images gear_images item) s2, s2))"

definition duplicateAntenna :: "ShackContext \<Rightarrow> string \<Rightarrow> ShackStore \<Rightarrow> string option \<times> ShackStore" where
  "duplicateAntenna cx i s =
     (case find (is_id i) (antennas s) of
        None \<Rightarrow> (None, s)
      | Some current \<Rightarrow>
          if length (antennas s) \<ge> MAX_ANTENNAS then (None, s)
          else let name = ge_name current @ '' (copy)'';
                   s1 = s\<lparr>antennas := antennas s @ [current\<lparr>gear_id := cx_uuid cx 0, ge_name := name, ge_addedAt := cx_now cx\<rparr>]\<rparr>
               in (Some (cx_uuid cx 0), hist cx 1 Duplicated EqAntenna (cx_uuid cx 0) name (Some (''Duplicated from '' @ ge_name current)) s1))"

section \<open>Feedlines\<close>

definition addFeedline :: "ShackContext \<Rightarrow> UserGear \<Rightarrow> ShackStore \<Rightarrow> string option \<times> ShackStore" where
  "addFeedline cx item s =
     (if length (feedlines s) \<ge> MAX_FEEDLINES then (None, s)
      else let s1 = s\<lparr>feedlines := feedlines s @ [item\<lparr>gear_id := cx_uuid cx 0, ge_addedAt := cx_now cx\<rparr>]\<rparr>
           in (Some (cx_uuid cx 0), hist cx 1 Added EqFeedline (cx_uuid cx 0) (ge_name item) None s1))"

definition updateFeedline :: "ShackContext \<Rightarrow> string \<Rightarrow> (UserGear \<Rightarrow> UserGear) \<Rightarrow> ShackStore \<Rightarrow> shack_result \<times> ShackStore" where
  "updateFeedline cx i upd s =
     (if \<not> list_ex (is_id i) (feedlines s) then (Err ''Feedline not found'', s)
      else let s1 = s\<lparr>feedlines := update_first (is_id i) upd (feedlines s)\<rparr>
           in (Ok, hist cx 0 Modified EqFeedline i (item_name ge_name (find (is_id i) (feedlines s1))) None s1))"

definition removeFeedline :: "ShackContext \<Rightarrow> string \<Rightarrow> ShackStore \<Rightarrow> string list \<times> ShackStore" where
  "removeFeedline cx i s =
     (let item = find (is_id i) (feedlines s);
          cascade = applyGearRemovalCascade Feedlines [i] (cascade_of (radios s) s);
          s1 = s\<lparr>pendingGearDeletions := enqueueGearDeletionIntent (pendingGearDeletions s) (cx_owner cx) Feedlines i (cx_now cx),
               feedlines := without i (feedlines s), stationPresets := ca_stationPresets cascade,
               stationChains := ca_stationChains cascade\<rparr>;
          s2 = hist cx 0 Removed EqFeedline i (item_name ge_name item) None s1
      in (purgeUnreferencedImages cx (item_images gear_images item) s2, s2))"

definition duplicateFeedline :: "ShackContext \<Rightarrow> string \<Rightarrow> ShackStore \<Rightarrow> string option \<times> ShackStore" where
  "duplicateFeedline cx i s =
     (case find (is_id i) (feedlines s) of
        None \<Rightarrow> (None, s)
      | Some current \<Rightarrow>
          if length (feedlines s) \<ge> MAX_FEEDLINES then (None, s)
          else let name = ge_name current @ '' (copy)'';
                   s1 = s\<lparr>feedlines := feedlines s @ [current\<lparr>gear_id := cx_uuid cx 0, ge_name := name, ge_addedAt := cx_now cx\<rparr>]\<rparr>
               in (Some (cx_uuid cx 0), hist cx 1 Duplicated EqFeedline (cx_uuid cx 0) name (Some (''Duplicated from '' @ ge_name current)) s1))"

section \<open>Inline components\<close>

definition addInlineComponent :: "ShackContext \<Rightarrow> UserGear \<Rightarrow> ShackStore \<Rightarrow> string option \<times> ShackStore" where
  "addInlineComponent cx item s =
     (if length (inlineComponents s) \<ge> MAX_INLINE_COMPONENTS then (None, s)
      else let s1 = s\<lparr>inlineComponents := inlineComponents s @ [item\<lparr>gear_id := cx_uuid cx 0, ge_addedAt := cx_now cx\<rparr>]\<rparr>
           in (Some (cx_uuid cx 0), hist cx 1 Added EqInline (cx_uuid cx 0) (ge_name item) None s1))"

definition updateInlineComponent :: "ShackContext \<Rightarrow> string \<Rightarrow> (UserGear \<Rightarrow> UserGear) \<Rightarrow> ShackStore \<Rightarrow> shack_result \<times> ShackStore" where
  "updateInlineComponent cx i upd s =
     (if \<not> list_ex (is_id i) (inlineComponents s) then (Err ''Inline component not found'', s)
      else let s1 = s\<lparr>inlineComponents := update_first (is_id i) upd (inlineComponents s)\<rparr>
           in (Ok, hist cx 0 Modified EqInline i (item_name ge_name (find (is_id i) (inlineComponents s1))) None s1))"

definition removeInlineComponent :: "ShackContext \<Rightarrow> string \<Rightarrow> ShackStore \<Rightarrow> string list \<times> ShackStore" where
  "removeInlineComponent cx i s =
     (let item = find (is_id i) (inlineComponents s);
          cascade = applyGearRemovalCascade InlineComponents [i] (cascade_of (radios s) s);
          s1 = s\<lparr>pendingGearDeletions := enqueueGearDeletionIntent (pendingGearDeletions s) (cx_owner cx) InlineComponents i (cx_now cx),
               inlineComponents := without i (inlineComponents s), stationPresets := ca_stationPresets cascade,
               stationChains := ca_stationChains cascade\<rparr>;
          s2 = hist cx 0 Removed EqInline i (item_name ge_name item) None s1
      in (purgeUnreferencedImages cx (item_images gear_images item) s2, s2))"

definition duplicateInlineComponent :: "ShackContext \<Rightarrow> string \<Rightarrow> ShackStore \<Rightarrow> string option \<times> ShackStore" where
  "duplicateInlineComponent cx i s =
     (case find (is_id i) (inlineComponents s) of
        None \<Rightarrow> (None, s)
      | Some current \<Rightarrow>
          if length (inlineComponents s) \<ge> MAX_INLINE_COMPONENTS then (None, s)
          else let name = ge_name current @ '' (copy)'';
                   s1 = s\<lparr>inlineComponents := inlineComponents s @ [current\<lparr>gear_id := cx_uuid cx 0, ge_name := name, ge_addedAt := cx_now cx\<rparr>]\<rparr>
               in (Some (cx_uuid cx 0), hist cx 1 Duplicated EqInline (cx_uuid cx 0) name (Some (''Duplicated from '' @ ge_name current)) s1))"

section \<open>Accessories\<close>

definition addAccessory :: "ShackContext \<Rightarrow> UserAccessory \<Rightarrow> ShackStore \<Rightarrow> string option \<times> ShackStore" where
  "addAccessory cx item s =
     (if length (accessories s) \<ge> MAX_ACCESSORIES then (None, s)
      else let s1 = s\<lparr>accessories := accessories s @ [item\<lparr>gear_id := cx_uuid cx 0, ge_addedAt := cx_now cx\<rparr>]\<rparr>
           in (Some (cx_uuid cx 0), hist cx 1 Added EqAccessory (cx_uuid cx 0) (ge_name item) None s1))"

definition updateAccessory :: "ShackContext \<Rightarrow> string \<Rightarrow> (UserAccessory \<Rightarrow> UserAccessory) \<Rightarrow> ShackStore \<Rightarrow> shack_result \<times> ShackStore" where
  "updateAccessory cx i upd s =
     (if \<not> list_ex (is_id i) (accessories s) then (Err ''Accessory not found'', s)
      else let s1 = s\<lparr>accessories := update_first (is_id i) upd (accessories s)\<rparr>
           in (Ok, hist cx 0 Modified EqAccessory i (item_name ge_name (find (is_id i) (accessories s1))) None s1))"

definition removeAccessory :: "ShackContext \<Rightarrow> string \<Rightarrow> ShackStore \<Rightarrow> string list \<times> ShackStore" where
  "removeAccessory cx i s =
     (let item = find (is_id i) (accessories s);
          cascade = applyGearRemovalCascade Accessories [i] (cascade_of (radios s) s);
          s1 = s\<lparr>pendingGearDeletions := enqueueGearDeletionIntent (pendingGearDeletions s) (cx_owner cx) Accessories i (cx_now cx),
               accessories := without i (accessories s), stationPresets := ca_stationPresets cascade,
               stationChains := ca_stationChains cascade\<rparr>;
          s2 = hist cx 0 Removed EqAccessory i (item_name ge_name item) None s1
      in (purgeUnreferencedImages cx (item_images gear_images item) s2, s2))"

definition duplicateAccessory :: "ShackContext \<Rightarrow> string \<Rightarrow> ShackStore \<Rightarrow> string option \<times> ShackStore" where
  "duplicateAccessory cx i s =
     (case find (is_id i) (accessories s) of
        None \<Rightarrow> (None, s)
      | Some current \<Rightarrow>
          if length (accessories s) \<ge> MAX_ACCESSORIES then (None, s)
          else let name = ge_name current @ '' (copy)'';
                   s1 = s\<lparr>accessories := accessories s @ [current\<lparr>gear_id := cx_uuid cx 0, ge_name := name, ge_addedAt := cx_now cx\<rparr>]\<rparr>
               in (Some (cx_uuid cx 0), hist cx 1 Duplicated EqAccessory (cx_uuid cx 0) name (Some (''Duplicated from '' @ ge_name current)) s1))"

section \<open>Presets\<close>

definition addPreset :: "ShackContext \<Rightarrow> StationPreset \<Rightarrow> ShackStore \<Rightarrow> string option \<times> ShackStore" where
  "addPreset cx item s =
     (if length (stationPresets s) \<ge> MAX_PRESETS then (None, s)
      else let s1 = s\<lparr>stationPresets := stationPresets s @ [item\<lparr>gear_id := cx_uuid cx 0, sp_createdAt := cx_now cx\<rparr>]\<rparr>
           in (Some (cx_uuid cx 0), hist cx 1 Added EqPreset (cx_uuid cx 0) (sp_name item) None s1))"

definition updatePreset :: "ShackContext \<Rightarrow> string \<Rightarrow> (StationPreset \<Rightarrow> StationPreset) \<Rightarrow> ShackStore \<Rightarrow> shack_result \<times> ShackStore" where
  "updatePreset cx i upd s =
     (if \<not> list_ex (is_id i) (stationPresets s) then (Err ''Preset not found'', s)
      else let s1 = s\<lparr>stationPresets := update_first (is_id i) upd (stationPresets s)\<rparr>
           in (Ok, hist cx 0 Modified EqPreset i (item_name sp_name (find (is_id i) (stationPresets s1))) None s1))"

definition removePreset :: "ShackContext \<Rightarrow> string \<Rightarrow> ShackStore \<Rightarrow> ShackStore" where
  "removePreset cx i s =
     (let s1 = s\<lparr>pendingGearDeletions := enqueueGearDeletionIntent (pendingGearDeletions s) (cx_owner cx) StationPresets i (cx_now cx),
            stationPresets := without i (stationPresets s), activePresetId := (if activePresetId s = Some i then None else activePresetId s)\<rparr>
      in hist cx 0 Removed EqPreset i (item_name sp_name (find (is_id i) (stationPresets s))) None s1)"

definition setActivePreset :: "string option \<Rightarrow> ShackStore \<Rightarrow> ShackStore" where
  "setActivePreset i s = s\<lparr>activePresetId := i\<rparr>"

definition duplicatePreset :: "ShackContext \<Rightarrow> string \<Rightarrow> ShackStore \<Rightarrow> string option \<times> ShackStore" where
  "duplicatePreset cx i s =
     (case find (is_id i) (stationPresets s) of
        None \<Rightarrow> (None, s)
      | Some current \<Rightarrow>
          if length (stationPresets s) \<ge> MAX_PRESETS then (None, s)
          else let name = sp_name current @ '' (copy)'';
                   s1 = s\<lparr>stationPresets := stationPresets s @ [current\<lparr>gear_id := cx_uuid cx 0, sp_name := name, sp_createdAt := cx_now cx\<rparr>]\<rparr>
               in (Some (cx_uuid cx 0), hist cx 1 Duplicated EqPreset (cx_uuid cx 0) name (Some (''Duplicated from '' @ sp_name current)) s1))"

section \<open>Chains\<close>

definition addChain :: "ShackContext \<Rightarrow> StationChain \<Rightarrow> ShackStore \<Rightarrow> string option \<times> ShackStore" where
  "addChain cx item s =
     (if length (stationChains s) \<ge> MAX_CHAINS then (None, s)
      else let s1 = s\<lparr>stationChains := stationChains s @ [item\<lparr>gear_id := cx_uuid cx 0, sc_createdAt := cx_now cx\<rparr>]\<rparr>
           in (Some (cx_uuid cx 0), hist cx 1 Added EqChain (cx_uuid cx 0) (sc_name item) None s1))"

definition updateChain :: "ShackContext \<Rightarrow> string \<Rightarrow> (StationChain \<Rightarrow> StationChain) \<Rightarrow> ShackStore \<Rightarrow> shack_result \<times> ShackStore" where
  "updateChain cx i upd s =
     (if \<not> list_ex (is_id i) (stationChains s) then (Err ''Chain not found'', s)
      else let s1 = s\<lparr>stationChains := update_first (is_id i) upd (stationChains s)\<rparr>
           in (Ok, hist cx 0 Modified EqChain i (item_name sc_name (find (is_id i) (stationChains s1))) None s1))"

definition removeChain :: "ShackContext \<Rightarrow> string \<Rightarrow> ShackStore \<Rightarrow> ShackStore" where
  "removeChain cx i s =
     (let s1 = s\<lparr>pendingGearDeletions := enqueueGearDeletionIntent (pendingGearDeletions s) (cx_owner cx) StationChains i (cx_now cx),
            stationChains := without i (stationChains s), activeChainId := (if activeChainId s = Some i then None else activeChainId s)\<rparr>
      in hist cx 0 Removed EqChain i (item_name sc_name (find (is_id i) (stationChains s))) None s1)"

definition setActiveChain :: "string option \<Rightarrow> ShackStore \<Rightarrow> ShackStore" where
  "setActiveChain i s = s\<lparr>activeChainId := i\<rparr>"

definition fresh_runs :: "ShackContext \<Rightarrow> FeedlineRun list \<Rightarrow> FeedlineRun list" where
  "fresh_runs cx runs = map (\<lambda>(k, r). r\<lparr>run_id := cx_uuid cx (Suc k)\<rparr>) (enumerate 0 runs)"

definition run_id_map :: "ShackContext \<Rightarrow> FeedlineRun list \<Rightarrow> string \<rightharpoonup> string" where
  \<comment> \<open>\<open>runIdMap\<close>: the last entry for a key wins\<close>
  "run_id_map cx runs = map_of (rev (map (\<lambda>(k, r). (run_id r, cx_uuid cx (Suc k))) (enumerate 0 runs)))"

definition remap_node :: "(string \<rightharpoonup> string) \<Rightarrow> ChainNode \<Rightarrow> ChainNode" where
  "remap_node m n = (case n of
       FeedlineRunNode i \<Rightarrow> (case m i of Some j \<Rightarrow> if j \<noteq> [] then FeedlineRunNode j else n | None \<Rightarrow> n)
     | _ \<Rightarrow> n)"

definition duplicateChain :: "ShackContext \<Rightarrow> string \<Rightarrow> ShackStore \<Rightarrow> string option \<times> ShackStore" where
  "duplicateChain cx i s =
     (case find (is_id i) (stationChains s) of
        None \<Rightarrow> (None, s)
      | Some current \<Rightarrow>
          if length (stationChains s) \<ge> MAX_CHAINS then (None, s)
          else let runs = sc_feedlineRuns current;
                   name = sc_name current @ '' (copy)'';
                   s1 = s\<lparr>stationChains := stationChains s @ [current\<lparr>gear_id := cx_uuid cx 0, sc_name := name,
                         sc_nodes := map (remap_node (run_id_map cx runs)) (sc_nodes current),
                         sc_feedlineRuns := fresh_runs cx runs, sc_createdAt := cx_now cx\<rparr>]\<rparr>
               in (Some (cx_uuid cx 0), hist cx (Suc (length runs)) Duplicated EqChain (cx_uuid cx 0) name
                     (Some (''Duplicated from '' @ sc_name current)) s1))"

section \<open>Nodes of a chain\<close>

definition edit_chain ::
    "ShackContext \<Rightarrow> string \<Rightarrow> string \<Rightarrow> (StationChain \<Rightarrow> string + StationChain) \<Rightarrow> ShackStore \<Rightarrow> shack_result \<times> ShackStore" where
  \<comment> \<open>the frame of the actions on a chain: find it, replace it or report an error, log the change\<close>
  "edit_chain cx details chainId edit s =
     (case find (is_id chainId) (stationChains s) of
        None \<Rightarrow> (Err ''Chain not found'', s)
      | Some chain \<Rightarrow>
          (case edit chain of
             Inl e \<Rightarrow> (Err e, s)
           | Inr chain' \<Rightarrow>
               let s1 = s\<lparr>stationChains := update_first (is_id chainId) (\<lambda>_. chain') (stationChains s)\<rparr>
               in (Ok, hist cx 0 Modified EqChain chainId (item_name sc_name (find (is_id chainId) (stationChains s1)))
                     (Some details) s1)))"

definition node_type_name :: "ChainNode \<Rightarrow> string" where
  "node_type_name n = (case n of RadioNode i \<Rightarrow> ''radio'' | AccessoryNode i \<Rightarrow> ''accessory''
     | FeedlineRunNode i \<Rightarrow> ''feedline_run'' | AntennaNode i \<Rightarrow> ''antenna'')"

definition clamped :: "int \<Rightarrow> nat \<Rightarrow> nat" where
  \<comment> \<open>\<open>Math.max(0, Math.min(position, length))\<close>\<close>
  "clamped position len = nat (max 0 (min position (int len)))"

definition valid_index :: "int \<Rightarrow> 'a list \<Rightarrow> bool" where
  "valid_index k xs \<longleftrightarrow> \<not> (k < 0 \<or> k \<ge> int (length xs))"

definition addNodeToChain :: "ShackContext \<Rightarrow> string \<Rightarrow> ChainNode \<Rightarrow> int \<Rightarrow> ShackStore \<Rightarrow> shack_result \<times> ShackStore" where
  "addNodeToChain cx chainId node position =
     edit_chain cx (''Added '' @ node_type_name node @ '' node'') chainId (\<lambda>chain.
       if length (sc_nodes chain) \<ge> MAX_CHAIN_NODES then Inl ''Maximum chain nodes reached''
       else Inr (chain\<lparr>sc_nodes := splice_in (clamped position (length (sc_nodes chain))) node (sc_nodes chain)\<rparr>))"

definition removeNodeFromChain :: "ShackContext \<Rightarrow> string \<Rightarrow> int \<Rightarrow> ShackStore \<Rightarrow> shack_result \<times> ShackStore" where
  "removeNodeFromChain cx chainId position =
     edit_chain cx ''Removed node from chain'' chainId (\<lambda>chain.
       if \<not> valid_index position (sc_nodes chain) then Inl ''Invalid node position''
       else Inr (chain\<lparr>sc_nodes := remove_at (nat position) (sc_nodes chain),
              sc_feedlineRuns := (case sc_nodes chain ! nat position of
                  FeedlineRunNode i \<Rightarrow> filter (\<lambda>r. run_id r \<noteq> i) (sc_feedlineRuns chain)
                | _ \<Rightarrow> sc_feedlineRuns chain)\<rparr>))"

definition move_item :: "nat \<Rightarrow> nat \<Rightarrow> 'a list \<Rightarrow> 'a list" where
  \<comment> \<open>\<open>const [moved] = xs.splice(from, 1); xs.splice(to, 0, moved)\<close>\<close>
  "move_item k l xs = splice_in l (xs ! k) (remove_at k xs)"

definition reorderChainNodes :: "ShackContext \<Rightarrow> string \<Rightarrow> int \<Rightarrow> int \<Rightarrow> ShackStore \<Rightarrow> shack_result \<times> ShackStore" where
  "reorderChainNodes cx chainId fromIndex toIndex =
     edit_chain cx ''Reordered chain nodes'' chainId (\<lambda>chain.
       if \<not> valid_index fromIndex (sc_nodes chain) \<or> \<not> valid_index toIndex (sc_nodes chain) then Inl ''Invalid node index''
       else Inr (chain\<lparr>sc_nodes := move_item (nat fromIndex) (nat toIndex) (sc_nodes chain)\<rparr>))"

definition swapNodeEquipment :: "ShackContext \<Rightarrow> string \<Rightarrow> int \<Rightarrow> string \<Rightarrow> ShackStore \<Rightarrow> shack_result \<times> ShackStore" where
  "swapNodeEquipment cx chainId nodeIndex newId =
     edit_chain cx ''Swapped equipment in chain'' chainId (\<lambda>chain.
       if \<not> valid_index nodeIndex (sc_nodes chain) then Inl ''Invalid node index''
       else case sc_nodes chain ! nat nodeIndex of
              FeedlineRunNode i \<Rightarrow>
                if \<not> list_ex (\<lambda>r. run_id r = i) (sc_feedlineRuns chain) then Inl ''Feedline run not found''
                else Inr (chain\<lparr>sc_feedlineRuns := map (\<lambda>r. if run_id r = i then r\<lparr>run_feedlineId := newId\<rparr> else r) (sc_feedlineRuns chain)\<rparr>)
            | RadioNode i \<Rightarrow> Inr (chain\<lparr>sc_nodes := (sc_nodes chain)[nat nodeIndex := RadioNode newId]\<rparr>)
            | AntennaNode i \<Rightarrow> Inr (chain\<lparr>sc_nodes := (sc_nodes chain)[nat nodeIndex := AntennaNode newId]\<rparr>)
            | AccessoryNode i \<Rightarrow> Inr (chain\<lparr>sc_nodes := (sc_nodes chain)[nat nodeIndex := AccessoryNode newId]\<rparr>))"

definition accessory_category :: "ShackStore \<Rightarrow> string \<Rightarrow> AccessoryCategory option" where
  "accessory_category s i = map_option ac_category (find (is_id i) (accessories s))"

definition addFeedlineRun :: "ShackContext \<Rightarrow> string \<Rightarrow> FeedlineRun \<Rightarrow> ShackStore \<Rightarrow> string option \<times> ShackStore" where
  "addFeedlineRun cx chainId run s =
     (case find (is_id chainId) (stationChains s) of
        None \<Rightarrow> (None, s)
      | Some chain \<Rightarrow>
          if length (sc_nodes chain) \<ge> MAX_CHAIN_NODES then (None, s)
          else let newRunId = cx_uuid cx 0;
                   feedlineNode = FeedlineRunNode newRunId;
                   chain' = chain\<lparr>
                     sc_nodes := splice_in (computeInsertPosition (accessory_category s) (sc_nodes chain) feedlineNode) feedlineNode (sc_nodes chain),
                     sc_feedlineRuns := sc_feedlineRuns chain @ [run\<lparr>run_id := newRunId\<rparr>]\<rparr>;
                   s1 = s\<lparr>stationChains := update_first (is_id chainId) (\<lambda>_. chain') (stationChains s)\<rparr>
               in (Some newRunId, hist cx 1 Modified EqChain chainId
                     (item_name sc_name (find (is_id chainId) (stationChains s1))) (Some ''Added feedline run'') s1))"

definition updateFeedlineRun ::
    "ShackContext \<Rightarrow> string \<Rightarrow> string \<Rightarrow> (FeedlineRun \<Rightarrow> FeedlineRun) \<Rightarrow> ShackStore \<Rightarrow> shack_result \<times> ShackStore" where
  "updateFeedlineRun cx chainId runId upd =
     edit_chain cx ''Updated feedline run'' chainId (\<lambda>chain.
       if \<not> list_ex (\<lambda>r. run_id r = runId) (sc_feedlineRuns chain) then Inl ''Feedline run not found''
       else Inr (chain\<lparr>sc_feedlineRuns := update_first (\<lambda>r. run_id r = runId) upd (sc_feedlineRuns chain)\<rparr>))"

section \<open>Images\<close>

datatype image_kind = ImgRadio | ImgAntenna | ImgFeedline | ImgAccessory | ImgInline

definition set_radio_image :: "string option \<Rightarrow> string \<Rightarrow> UserRadio list \<Rightarrow> UserRadio list" where
  "set_radio_image v i = map (\<lambda>r. if gear_id r = i then r\<lparr>ra_imageId := v\<rparr> else r)"

definition set_gear_image :: "string option \<Rightarrow> string \<Rightarrow> 'g UserGear_scheme list \<Rightarrow> 'g UserGear_scheme list" where
  "set_gear_image v i = map (\<lambda>g. if gear_id g = i then g\<lparr>ge_imageId := v\<rparr> else g)"

definition put_image :: "image_kind \<Rightarrow> string \<Rightarrow> string option \<Rightarrow> ShackStore \<Rightarrow> ShackStore" where
  "put_image kind i v s =
     (case kind of
        ImgRadio \<Rightarrow> s\<lparr>radios := set_radio_image v i (radios s)\<rparr>
      | ImgAntenna \<Rightarrow> s\<lparr>antennas := set_gear_image v i (antennas s)\<rparr>
      | ImgFeedline \<Rightarrow> s\<lparr>feedlines := set_gear_image v i (feedlines s)\<rparr>
      | ImgAccessory \<Rightarrow> s\<lparr>accessories := set_gear_image v i (accessories s)\<rparr>
      | ImgInline \<Rightarrow> s\<lparr>inlineComponents := set_gear_image v i (inlineComponents s)\<rparr>)"

definition setEquipmentImage :: "image_kind \<Rightarrow> string \<Rightarrow> string \<Rightarrow> ShackStore \<Rightarrow> ShackStore" where
  "setEquipmentImage kind i imageId = put_image kind i (Some imageId)"

definition current_image :: "image_kind \<Rightarrow> string \<Rightarrow> ShackStore \<Rightarrow> string option" where
  "current_image kind i s =
     (case kind of
        ImgRadio \<Rightarrow> Option.bind (find (is_id i) (radios s)) ra_imageId
      | ImgAntenna \<Rightarrow> Option.bind (find (is_id i) (antennas s)) ge_imageId
      | ImgFeedline \<Rightarrow> Option.bind (find (is_id i) (feedlines s)) ge_imageId
      | ImgAccessory \<Rightarrow> Option.bind (find (is_id i) (accessories s)) ge_imageId
      | ImgInline \<Rightarrow> Option.bind (find (is_id i) (inlineComponents s)) ge_imageId)"

definition clearEquipmentImage :: "ShackContext \<Rightarrow> image_kind \<Rightarrow> string \<Rightarrow> ShackStore \<Rightarrow> string list \<times> ShackStore" where
  "clearEquipmentImage cx kind i s =
     (let s1 = put_image kind i None s
      in (case current_image kind i s of
            Some old \<Rightarrow> if old \<noteq> [] then purgeUnreferencedImages cx [old] s1 else []
          | None \<Rightarrow> [], s1))"

datatype gallery_kind = GalRadio | GalAntenna | GalAccessory

definition add_gallery :: "string \<Rightarrow> string list option \<Rightarrow> string list option" where
  "add_gallery imageId gallery =
     (let existing = or_else gallery []
      in if length existing \<ge> 5 then gallery
         else if imageId \<in> set existing then gallery
         else Some (existing @ [imageId]))"

definition remove_gallery :: "string \<Rightarrow> string list option \<Rightarrow> string list option" where
  "remove_gallery imageId gallery = Some (filter (\<lambda>i. i \<noteq> imageId) (or_else gallery []))"

definition edit_gallery :: "gallery_kind \<Rightarrow> string \<Rightarrow> (string list option \<Rightarrow> string list option) \<Rightarrow> ShackStore \<Rightarrow> ShackStore" where
  "edit_gallery kind i f s =
     (let gear = (\<lambda>g. if gear_id g = i then g\<lparr>ge_galleryImageIds := f (ge_galleryImageIds g)\<rparr> else g)
      in case kind of
           GalRadio \<Rightarrow> s\<lparr>radios := map (\<lambda>r. if gear_id r = i then r\<lparr>ra_galleryImageIds := f (ra_galleryImageIds r)\<rparr> else r) (radios s)\<rparr>
         | GalAntenna \<Rightarrow> s\<lparr>antennas := map gear (antennas s)\<rparr>
         | GalAccessory \<Rightarrow> s\<lparr>accessories := map (\<lambda>g. if gear_id g = i then g\<lparr>ge_galleryImageIds := f (ge_galleryImageIds g)\<rparr> else g) (accessories s)\<rparr>)"

definition addGalleryImage :: "gallery_kind \<Rightarrow> string \<Rightarrow> string \<Rightarrow> ShackStore \<Rightarrow> ShackStore" where
  "addGalleryImage kind i imageId = edit_gallery kind i (add_gallery imageId)"

definition removeGalleryImage :: "ShackContext \<Rightarrow> gallery_kind \<Rightarrow> string \<Rightarrow> string \<Rightarrow> ShackStore \<Rightarrow> string list \<times> ShackStore" where
  "removeGalleryImage cx kind i imageId s =
     (let s1 = edit_gallery kind i (remove_gallery imageId) s
      in (purgeUnreferencedImages cx [imageId] s1, s1))"

section \<open>Upgrade of a stored state\<close>

text \<open>
  A state stored by an earlier version, with the properties that version had. Upgrading to
  version 4 turns every preset into a chain with the preset's id; the ids of the feedline runs
  are one per preset, the one of a preset without a feedline is not used.
\<close>

record StoredShack =
  st_radios :: "UserRadio list option"
  st_antennas :: "UserGear list option"
  st_feedlines :: "UserGear list option"
  st_accessories :: "UserAccessory list option"
  st_stationPresets :: "StationPreset list option"
  st_activePresetId :: "string option option"
  st_inlineComponents :: "UserGear list option"
  st_equipmentHistory :: "EquipmentHistoryEntry list option"
  st_stationChains :: "StationChain list option"
  st_activeChainId :: "string option option"
  st_pendingGearDeletions :: "PendingGearDeletion list option"

definition preset_to_chain :: "string \<Rightarrow> StationPreset \<Rightarrow> StationChain" where
  \<comment> \<open>with the id drawn for the feedline run\<close>
  "preset_to_chain runId preset =
     (let feedline = (case sp_feedlineId preset of Some f \<Rightarrow> if f \<noteq> [] then Some f else None | None \<Rightarrow> None)
      in \<lparr>gear_id = gear_id preset, sc_name = sp_name preset,
          sc_nodes = (if sp_radioId preset \<noteq> [] then [RadioNode (sp_radioId preset)] else []) @
            map AccessoryNode (sp_accessoryIds preset) @
            (if feedline \<noteq> None then [FeedlineRunNode runId] else []) @
            (if sp_antennaId preset \<noteq> [] then [AntennaNode (sp_antennaId preset)] else []),
          sc_feedlineRuns = (case feedline of None \<Rightarrow> []
            | Some f \<Rightarrow> [\<lparr>run_id = runId, run_feedlineId = f, run_inlineComponentIds = or_else (sp_inlineComponentIds preset) []\<rparr>]),
          sc_operatingPowerWatts = sp_operatingPowerWatts preset, sc_linkedLocationId = sp_linkedLocationId preset,
          sc_shackAccessoryIds = [], sc_notes = sp_notes preset, sc_createdAt = sp_createdAt preset\<rparr>)"

definition default :: "'a \<Rightarrow> 'a option \<Rightarrow> 'a option" where
  "default d v = Some (or_else v d)"

definition migrate :: "(nat \<Rightarrow> string) \<Rightarrow> int \<Rightarrow> StoredShack \<Rightarrow> StoredShack" where
  "migrate uuid version0 st0 =
     (let st1 = (if version0 < 2 then st0\<lparr>st_antennas := default [] (st_antennas st0), st_feedlines := default [] (st_feedlines st0),
            st_accessories := default [] (st_accessories st0), st_stationPresets := default [] (st_stationPresets st0),
            st_activePresetId := default None (st_activePresetId st0)\<rparr> else st0);
          st2 = (if version0 < 3 then st1\<lparr>st_inlineComponents := default [] (st_inlineComponents st1),
            st_equipmentHistory := default [] (st_equipmentHistory st1)\<rparr> else st1);
          st3 = (if version0 < 4 then st2\<lparr>st_stationChains := Some (map (\<lambda>(k, p). preset_to_chain (uuid k) p)
              (enumerate 0 (or_else (st_stationPresets st2) []))),
            st_activeChainId := default None (st_activePresetId st2)\<rparr> else st2);
          st4 = (if version0 < 6 then st3\<lparr>st_pendingGearDeletions := default [] (st_pendingGearDeletions st3)\<rparr> else st3)
      in if version0 < 7 then st4\<lparr>st_pendingGearDeletions := Some []\<rparr> else st4)"

end
