(* ===== verification/ShackRefs.thy ===== *)
theory ShackRefs
  imports ShackActions
begin

text \<open>
  Referential integrity of the shack: what presets, chains and the active selections refer to
  exists, every removal keeps it so, and whatever a removal takes out of a table is queued for
  deletion at the service.
\<close>

section \<open>References\<close>

type_synonym inventory = "GearDeletionTable \<Rightarrow> string set"

fun inventory :: "ShackStore \<Rightarrow> inventory" where
  "inventory s UserRadios = set (ids (radios s))"
| "inventory s Antennas = set (ids (antennas s))"
| "inventory s Feedlines = set (ids (feedlines s))"
| "inventory s Accessories = set (ids (accessories s))"
| "inventory s StationPresets = set (ids (stationPresets s))"
| "inventory s InlineComponents = set (ids (inlineComponents s))"
| "inventory s StationChains = set (ids (stationChains s))"
| "inventory s CustomRadios = set (ids (customRadios s))"

fun node_ok :: "inventory \<Rightarrow> string set \<Rightarrow> ChainNode \<Rightarrow> bool" where
  "node_ok tbl runs (RadioNode i) = (i \<in> tbl UserRadios)"
| "node_ok tbl runs (AccessoryNode i) = (i \<in> tbl Accessories)"
| "node_ok tbl runs (FeedlineRunNode i) = (i \<in> runs)"
| "node_ok tbl runs (AntennaNode i) = (i \<in> tbl Antennas)"

definition run_ok :: "inventory \<Rightarrow> FeedlineRun \<Rightarrow> bool" where
  "run_ok tbl r \<longleftrightarrow> run_feedlineId r \<in> tbl Feedlines \<and> set (run_inlineComponentIds r) \<subseteq> tbl InlineComponents"

definition chain_ok :: "inventory \<Rightarrow> StationChain \<Rightarrow> bool" where
  "chain_ok tbl c \<longleftrightarrow> (\<forall>n \<in> set (sc_nodes c). node_ok tbl (run_id ` set (sc_feedlineRuns c)) n) \<and>
     (\<forall>r \<in> set (sc_feedlineRuns c). run_ok tbl r) \<and> set (sc_shackAccessoryIds c) \<subseteq> tbl Accessories"

definition ref_ok :: "string set \<Rightarrow> string option \<Rightarrow> bool" where
  \<comment> \<open>an absent or empty reference, or an existing item\<close>
  "ref_ok is v \<longleftrightarrow> v = None \<or> v = Some [] \<or> the v \<in> is"

definition preset_ok :: "inventory \<Rightarrow> StationPreset \<Rightarrow> bool" where
  "preset_ok tbl p \<longleftrightarrow> ref_ok (tbl UserRadios) (Some (sp_radioId p)) \<and> ref_ok (tbl Antennas) (Some (sp_antennaId p)) \<and>
     ref_ok (tbl Feedlines) (sp_feedlineId p) \<and> set (or_else (sp_inlineComponentIds p) []) \<subseteq> tbl InlineComponents \<and>
     set (sp_accessoryIds p) \<subseteq> tbl Accessories"

definition cascade_ok :: "inventory \<Rightarrow> GearRemovalCascade \<Rightarrow> bool" where
  "cascade_ok tbl c \<longleftrightarrow> (\<forall>p \<in> set (ca_stationPresets c). preset_ok tbl p) \<and> (\<forall>ch \<in> set (ca_stationChains c). chain_ok tbl ch) \<and>
     ref_ok (tbl UserRadios) (ca_activeRadioId c) \<and> ref_ok (tbl StationPresets) (ca_activePresetId c) \<and>
     ref_ok (tbl StationChains) (ca_activeChainId c)"

definition references_ok :: "ShackStore \<Rightarrow> bool" where
  "references_ok s \<longleftrightarrow> cascade_ok (inventory s) (cascade_of (radios s) s)"

definition lost :: "GearDeletionTable \<Rightarrow> string list \<Rightarrow> GearRemovalCascade \<Rightarrow> GearDeletionTable \<Rightarrow> string set" where
  \<comment> \<open>what a removal takes out of the tables\<close>
  "lost t is c = (\<lambda>t'. (if t' = t then set is else {}) \<union> {i. (t', i) \<in> set (cascade_entries c)})"

section \<open>The cascade\<close>

lemma gear_ids_simps [simp]: "ids [] = []" "ids (x # xs) = gear_id x # ids xs" "ids (xs @ ys) = ids xs @ ids ys"
  by (simp_all add: ids_def)

lemma set_ids: "set (ids xs) = gear_id ` set xs"
  by (simp add: ids_def)

lemma ref_ok_simps [simp]: "ref_ok is None" "ref_ok is (Some i) \<longleftrightarrow> i = [] \<or> i \<in> is"
  by (auto simp: ref_ok_def)

lemma ref_ok_mono: "ref_ok is v \<Longrightarrow> is \<subseteq> js \<Longrightarrow> ref_ok js v"
  by (cases v) auto

lemma node_ok_mono: "node_ok tbl runs n \<Longrightarrow> (\<And>t. tbl t \<subseteq> tbl' t) \<Longrightarrow> node_ok tbl' runs n"
  by (cases n) auto

lemma chain_ok_mono: "chain_ok tbl c \<Longrightarrow> (\<And>t. tbl t \<subseteq> tbl' t) \<Longrightarrow> chain_ok tbl' c"
  unfolding chain_ok_def run_ok_def by (meson node_ok_mono subset_iff)

lemma preset_ok_mono: "preset_ok tbl p \<Longrightarrow> (\<And>t. tbl t \<subseteq> tbl' t) \<Longrightarrow> preset_ok tbl' p"
  unfolding preset_ok_def by (meson ref_ok_mono subset_trans)

lemma cascade_ok_mono: "cascade_ok tbl c \<Longrightarrow> (\<And>t. tbl t \<subseteq> tbl' t) \<Longrightarrow> cascade_ok tbl' c"
  unfolding cascade_ok_def by (meson chain_ok_mono preset_ok_mono ref_ok_mono)

lemma active_in_iff: "active_in a is \<longleftrightarrow> (\<exists>i. a = Some i \<and> i \<noteq> [] \<and> i \<in> set is)"
  by (auto simp: active_in_def split: option.splits)

lemma active_kept: "ref_ok is a \<Longrightarrow> \<not> active_in a ds \<Longrightarrow> ref_ok (is - set ds) a"
  by (cases a) (auto simp: active_in_iff)

lemma entries_simps [simp]:
  "(UserRadios, i) \<in> set (cascade_entries c) \<longleftrightarrow> i \<in> set (ca_removedRadioIds c)"
  "(StationPresets, i) \<in> set (cascade_entries c) \<longleftrightarrow> i \<in> set (ca_orphanedPresetIds c)"
  "t \<noteq> UserRadios \<Longrightarrow> t \<noteq> StationPresets \<Longrightarrow> (t, i) \<notin> set (cascade_entries c)"
  by (auto simp: cascade_entries_def)

lemma node_without:
  "node_ok tbl runs n \<Longrightarrow> \<not> (case n of RadioNode i \<Rightarrow> i \<in> set ds | _ \<Rightarrow> False) \<Longrightarrow> tbl' UserRadios = tbl UserRadios - set ds \<Longrightarrow>
     tbl' Antennas = tbl Antennas \<Longrightarrow> tbl' Accessories = tbl Accessories \<Longrightarrow> node_ok tbl' runs n"
  "node_ok tbl runs n \<Longrightarrow> \<not> (case n of AntennaNode i \<Rightarrow> i \<in> set ds | _ \<Rightarrow> False) \<Longrightarrow> tbl' Antennas = tbl Antennas - set ds \<Longrightarrow>
     tbl' UserRadios = tbl UserRadios \<Longrightarrow> tbl' Accessories = tbl Accessories \<Longrightarrow> node_ok tbl' runs n"
  "node_ok tbl runs n \<Longrightarrow> \<not> (case n of AccessoryNode i \<Rightarrow> i \<in> set ds | _ \<Rightarrow> False) \<Longrightarrow> tbl' Accessories = tbl Accessories - set ds \<Longrightarrow>
     tbl' UserRadios = tbl UserRadios \<Longrightarrow> tbl' Antennas = tbl Antennas \<Longrightarrow> node_ok tbl' runs n"
  by (cases n; simp)+

lemma node_ok_cong:
  "node_ok tbl runs n \<Longrightarrow> tbl' UserRadios = tbl UserRadios \<Longrightarrow> tbl' Antennas = tbl Antennas \<Longrightarrow>
     tbl' Accessories = tbl Accessories \<Longrightarrow> node_ok tbl' runs n"
  by (cases n) simp_all

lemma nodes_dropped:
  assumes "\<forall>ch \<in> set chs. chain_ok tbl ch" "\<And>runs n. node_ok tbl runs n \<Longrightarrow> \<not> p n \<Longrightarrow> node_ok tbl' runs n"
    "tbl' Feedlines = tbl Feedlines" "tbl' InlineComponents = tbl InlineComponents" "tbl' Accessories = tbl Accessories"
  shows "\<forall>ch \<in> set (drop_nodes p chs). chain_ok tbl' ch"
  using assms by (auto simp: drop_nodes_def chain_ok_def run_ok_def)

lemma drop_presets_simps [simp]:
  "ca_stationChains (drop_presets p c) = ca_stationChains c" "ca_activeRadioId (drop_presets p c) = ca_activeRadioId c"
  "ca_activeChainId (drop_presets p c) = ca_activeChainId c" "ca_radios (drop_presets p c) = ca_radios c"
  "ca_removedRadioIds (drop_presets p c) = ca_removedRadioIds c"
  by (simp_all add: drop_presets_def Let_def)

lemma presets_dropped:
  assumes "\<forall>q \<in> set (ca_stationPresets c). preset_ok tbl q" "\<And>q. preset_ok tbl q \<Longrightarrow> \<not> p q \<Longrightarrow> preset_ok tbl' q"
  shows "\<forall>q \<in> set (ca_stationPresets (drop_presets p c)). preset_ok tbl' q"
  using assms by (auto simp: drop_presets_def Let_def)

lemma active_preset_dropped:
  assumes "ref_ok is (ca_activePresetId c)" "ca_orphanedPresetIds c = []"
  shows "ref_ok (is - set (ca_orphanedPresetIds (drop_presets p c))) (ca_activePresetId (drop_presets p c))"
  using assms by (auto simp: drop_presets_def Let_def intro: active_kept)

definition after_cascade :: "inventory \<Rightarrow> GearDeletionTable \<Rightarrow> string list \<Rightarrow> GearRemovalCascade \<Rightarrow> inventory" where
  "after_cascade tbl t ds c = (\<lambda>t'. tbl t' - lost t ds c t')"

lemma after_simps:
  "after_cascade tbl t ds c UserRadios = tbl UserRadios - (if t = UserRadios then set ds else {}) - set (ca_removedRadioIds c)"
  "after_cascade tbl t ds c StationPresets = tbl StationPresets - (if t = StationPresets then set ds else {}) - set (ca_orphanedPresetIds c)"
  "t' \<noteq> UserRadios \<Longrightarrow> t' \<noteq> StationPresets \<Longrightarrow> after_cascade tbl t ds c t' = tbl t' - (if t = t' then set ds else {})"
  by (auto simp: after_cascade_def lost_def)

definition fresh_cascade :: "GearRemovalCascade \<Rightarrow> bool" where
  "fresh_cascade c \<longleftrightarrow> ca_orphanedPresetIds c = [] \<and> ca_removedRadioIds c = []"

lemma radio_cascade_ok:
  assumes c: "cascade_ok tbl c" and e: "fresh_cascade c"
    and rs: "set (ids (ca_radios c)) \<subseteq> tbl UserRadios - set ds"
  shows "cascade_ok (after_cascade tbl UserRadios ds (radio_cascade ds c)) (radio_cascade ds c)"
proof -
  let ?p = "\<lambda>p. refers (sp_radioId p) ds"
  define c1 where "c1 = c\<lparr>ca_activeRadioId := (if active_in (ca_activeRadioId c) ds
      then (case ca_radios c of [] \<Rightarrow> None | r # rs \<Rightarrow> Some (gear_id r)) else ca_activeRadioId c),
    ca_stationChains := drop_nodes (\<lambda>n. case n of RadioNode i \<Rightarrow> i \<in> set ds | _ \<Rightarrow> False) (ca_stationChains c)\<rparr>"
  have r: "radio_cascade ds c = drop_presets ?p c1" by (simp add: radio_cascade_def c1_def)
  define t where "t = after_cascade tbl UserRadios ds (drop_presets ?p c1)"
  have e1: "ca_removedRadioIds c1 = []" "ca_orphanedPresetIds c1 = []" using e by (simp_all add: c1_def fresh_cascade_def)
  have t: "t UserRadios = tbl UserRadios - set ds" "t Antennas = tbl Antennas" "t Feedlines = tbl Feedlines"
    "t InlineComponents = tbl InlineComponents" "t Accessories = tbl Accessories" "t StationChains = tbl StationChains"
    "t StationPresets = tbl StationPresets - set (ca_orphanedPresetIds (drop_presets ?p c1))"
    by (simp_all add: t_def after_simps e1)
  have dc: "ca_stationChains c1 = drop_nodes (\<lambda>n. case n of RadioNode i \<Rightarrow> i \<in> set ds | _ \<Rightarrow> False) (ca_stationChains c)"
    by (simp add: c1_def)
  have ch: "\<forall>ch \<in> set (ca_stationChains c1). chain_ok t ch"
    unfolding dc by (rule nodes_dropped[of _ tbl], use c in \<open>simp add: cascade_ok_def\<close>, erule node_without(1), assumption) (simp_all add: t)
  have ps: "\<forall>q \<in> set (ca_stationPresets (drop_presets ?p c1)). preset_ok t q"
    by (rule presets_dropped[of _ tbl], use c in \<open>simp add: cascade_ok_def c1_def\<close>) (auto simp: preset_ok_def t refers_def)
  have ac: "ref_ok (t UserRadios) (ca_activeRadioId c1)"
    using c rs by (auto simp: c1_def t cascade_ok_def intro!: active_kept split: list.splits)
  have ap: "ref_ok (t StationPresets) (ca_activePresetId (drop_presets ?p c1))"
    unfolding t by (rule active_preset_dropped) (use c e1 in \<open>simp_all add: cascade_ok_def c1_def\<close>)
  show ?thesis
    unfolding r t_def[symmetric] using ch ps ac ap c by (simp add: cascade_ok_def t) (simp add: c1_def)
qed

lemma other_cascade_simps [simp]:
  "ca_activeRadioId (feedline_cascade ds c) = ca_activeRadioId c" "ca_activePresetId (feedline_cascade ds c) = ca_activePresetId c"
  "ca_activeChainId (feedline_cascade ds c) = ca_activeChainId c" "ca_radios (feedline_cascade ds c) = ca_radios c"
  "ca_orphanedPresetIds (feedline_cascade ds c) = ca_orphanedPresetIds c" "ca_removedRadioIds (feedline_cascade ds c) = ca_removedRadioIds c"
  "ca_activeRadioId (accessory_cascade ds c) = ca_activeRadioId c" "ca_activePresetId (accessory_cascade ds c) = ca_activePresetId c"
  "ca_activeChainId (accessory_cascade ds c) = ca_activeChainId c" "ca_radios (accessory_cascade ds c) = ca_radios c"
  "ca_orphanedPresetIds (accessory_cascade ds c) = ca_orphanedPresetIds c" "ca_removedRadioIds (accessory_cascade ds c) = ca_removedRadioIds c"
  "ca_activeRadioId (inline_cascade ds c) = ca_activeRadioId c" "ca_activePresetId (inline_cascade ds c) = ca_activePresetId c"
  "ca_activeChainId (inline_cascade ds c) = ca_activeChainId c" "ca_radios (inline_cascade ds c) = ca_radios c"
  "ca_orphanedPresetIds (inline_cascade ds c) = ca_orphanedPresetIds c" "ca_removedRadioIds (inline_cascade ds c) = ca_removedRadioIds c"
  by (simp_all add: feedline_cascade_def accessory_cascade_def inline_cascade_def Let_def)

lemma antenna_cascade_ok:
  assumes c: "cascade_ok tbl c" and e: "fresh_cascade c"
  shows "cascade_ok (after_cascade tbl Antennas ds (antenna_cascade ds c)) (antenna_cascade ds c)"
proof -
  let ?p = "\<lambda>p. refers (sp_antennaId p) ds"
  define c1 where "c1 = c\<lparr>ca_stationChains := drop_nodes (\<lambda>n. case n of AntennaNode i \<Rightarrow> i \<in> set ds | _ \<Rightarrow> False) (ca_stationChains c)\<rparr>"
  have r: "antenna_cascade ds c = drop_presets ?p c1" by (simp add: antenna_cascade_def c1_def)
  define t where "t = after_cascade tbl Antennas ds (drop_presets ?p c1)"
  have e1: "ca_removedRadioIds c1 = []" "ca_orphanedPresetIds c1 = []" using e by (simp_all add: c1_def fresh_cascade_def)
  have t: "t UserRadios = tbl UserRadios" "t Antennas = tbl Antennas - set ds" "t Feedlines = tbl Feedlines"
    "t InlineComponents = tbl InlineComponents" "t Accessories = tbl Accessories" "t StationChains = tbl StationChains"
    "t StationPresets = tbl StationPresets - set (ca_orphanedPresetIds (drop_presets ?p c1))"
    by (simp_all add: t_def after_simps e1)
  have dc: "ca_stationChains c1 = drop_nodes (\<lambda>n. case n of AntennaNode i \<Rightarrow> i \<in> set ds | _ \<Rightarrow> False) (ca_stationChains c)"
    by (simp add: c1_def)
  have ch: "\<forall>ch \<in> set (ca_stationChains c1). chain_ok t ch"
    unfolding dc by (rule nodes_dropped[of _ tbl], use c in \<open>simp add: cascade_ok_def\<close>, erule node_without(2), assumption) (simp_all add: t)
  have ps: "\<forall>q \<in> set (ca_stationPresets (drop_presets ?p c1)). preset_ok t q"
    by (rule presets_dropped[of _ tbl], use c in \<open>simp add: cascade_ok_def c1_def\<close>) (auto simp: preset_ok_def t refers_def)
  have ap: "ref_ok (t StationPresets) (ca_activePresetId (drop_presets ?p c1))"
    unfolding t by (rule active_preset_dropped) (use c e1 in \<open>simp_all add: cascade_ok_def c1_def\<close>)
  show ?thesis
    unfolding r t_def[symmetric] using ch ps ap c by (simp add: cascade_ok_def t) (simp add: c1_def)
qed

definition affected_runs :: "string list \<Rightarrow> StationChain list \<Rightarrow> string set" where
  "affected_runs ds chs = {i. \<exists>ch \<in> set chs. \<exists>r \<in> set (sc_feedlineRuns ch). run_id r = i \<and> run_feedlineId r \<in> set ds}"

definition without_feedline :: "string list \<Rightarrow> string set \<Rightarrow> StationChain \<Rightarrow> StationChain" where
  "without_feedline ds A ch = ch\<lparr>sc_feedlineRuns := filter (\<lambda>run. run_feedlineId run \<notin> set ds) (sc_feedlineRuns ch),
     sc_nodes := filter (\<lambda>n. \<not> (case n of FeedlineRunNode i \<Rightarrow> i \<in> A | _ \<Rightarrow> False)) (sc_nodes ch)\<rparr>"

lemma feedline_chains:
  "ca_stationChains (feedline_cascade ds c) = map (without_feedline ds (affected_runs ds (ca_stationChains c))) (ca_stationChains c)"
proof -
  have e: "set (concat (map (\<lambda>chain. map run_id (filter (\<lambda>run. run_feedlineId run \<in> set ds) (sc_feedlineRuns chain))) chs)) =
      affected_runs ds chs" for chs
    by (auto simp: affected_runs_def)
  then show ?thesis by (simp add: feedline_cascade_def drop_nodes_def Let_def comp_def e without_feedline_def[abs_def] del: set_concat cong: ChainNode.case_cong)
qed

lemma feedline_cascade_ok:
  assumes c: "cascade_ok tbl c" and e: "fresh_cascade c"
  shows "cascade_ok (after_cascade tbl Feedlines ds (feedline_cascade ds c)) (feedline_cascade ds c)"
proof -
  define t where "t = after_cascade tbl Feedlines ds (feedline_cascade ds c)"
  have t: "t UserRadios = tbl UserRadios" "t Antennas = tbl Antennas" "t Feedlines = tbl Feedlines - set ds"
    "t InlineComponents = tbl InlineComponents" "t Accessories = tbl Accessories" "t StationChains = tbl StationChains"
    "t StationPresets = tbl StationPresets"
    using e by (simp_all add: t_def after_simps fresh_cascade_def)
  have k: "chain_ok t (without_feedline ds A ch)"
    if ch: "chain_ok tbl ch" and A: "\<And>r. r \<in> set (sc_feedlineRuns ch) \<Longrightarrow> run_feedlineId r \<in> set ds \<Longrightarrow> run_id r \<in> A" for ch A
  proof -
    have "node_ok t (run_id ` {r \<in> set (sc_feedlineRuns ch). run_feedlineId r \<notin> set ds}) n"
      if "n \<in> set (sc_nodes ch)" "\<not> (case n of FeedlineRunNode i \<Rightarrow> i \<in> A | _ \<Rightarrow> False)" for n
    proof (cases n)
      case (FeedlineRunNode i)
      have "node_ok tbl (run_id ` set (sc_feedlineRuns ch)) n" using ch that(1) by (simp add: chain_ok_def)
      then obtain r where r: "r \<in> set (sc_feedlineRuns ch)" "run_id r = i"
        using FeedlineRunNode by auto
      have "run_feedlineId r \<notin> set ds" using A[OF r(1)] that(2) r(2) FeedlineRunNode by auto
      then show ?thesis using r FeedlineRunNode by auto
    qed (use ch that in \<open>auto simp: chain_ok_def t dest!: bspec[of _ _ n]\<close>)
    then show ?thesis using ch by (auto simp: chain_ok_def run_ok_def t without_feedline_def)
  qed
  have "chain_ok t (without_feedline ds (affected_runs ds (ca_stationChains c)) ch)" if "ch \<in> set (ca_stationChains c)" for ch
    by (rule k) (use c that in \<open>auto simp: cascade_ok_def affected_runs_def\<close>)
  then have "\<forall>ch \<in> set (ca_stationChains (feedline_cascade ds c)). chain_ok t ch"
    by (simp add: feedline_chains)
  moreover have "\<forall>q \<in> set (ca_stationPresets (feedline_cascade ds c)). preset_ok t q"
    using c by (auto simp: feedline_cascade_def Let_def cascade_ok_def preset_ok_def refers_def t split: option.splits)
  ultimately show ?thesis
    unfolding t_def[symmetric] using c by (simp add: cascade_ok_def t)
qed

lemma accessory_cascade_ok:
  assumes c: "cascade_ok tbl c" and e: "fresh_cascade c"
  shows "cascade_ok (after_cascade tbl Accessories ds (accessory_cascade ds c)) (accessory_cascade ds c)"
proof -
  define t where "t = after_cascade tbl Accessories ds (accessory_cascade ds c)"
  have t: "t UserRadios = tbl UserRadios" "t Antennas = tbl Antennas" "t Feedlines = tbl Feedlines"
    "t InlineComponents = tbl InlineComponents" "t Accessories = tbl Accessories - set ds" "t StationChains = tbl StationChains"
    "t StationPresets = tbl StationPresets"
    using e by (simp_all add: t_def after_simps fresh_cascade_def)
  have n: "node_ok t runs n" if "node_ok tbl runs n" "\<not> (case n of AccessoryNode i \<Rightarrow> i \<in> set ds | _ \<Rightarrow> False)" for runs n
    using that by (rule node_without(3)) (simp_all add: t)
  have "\<forall>ch \<in> set (ca_stationChains (accessory_cascade ds c)). chain_ok t ch"
    using c n by (auto simp: accessory_cascade_def cascade_ok_def chain_ok_def run_ok_def t)
  moreover have "\<forall>q \<in> set (ca_stationPresets (accessory_cascade ds c)). preset_ok t q"
    using c by (auto simp: accessory_cascade_def cascade_ok_def preset_ok_def t)
  ultimately show ?thesis
    unfolding t_def[symmetric] using c by (simp add: cascade_ok_def t)
qed

lemma or_else_filter: "set (or_else (map_option (filter P) v) []) = {x \<in> set (or_else v []). P x}"
  by (cases v) (auto simp: or_else_def)

lemma inline_cascade_ok:
  assumes c: "cascade_ok tbl c" and e: "fresh_cascade c"
  shows "cascade_ok (after_cascade tbl InlineComponents ds (inline_cascade ds c)) (inline_cascade ds c)"
proof -
  define t where "t = after_cascade tbl InlineComponents ds (inline_cascade ds c)"
  have t: "t UserRadios = tbl UserRadios" "t Antennas = tbl Antennas" "t Feedlines = tbl Feedlines"
    "t InlineComponents = tbl InlineComponents - set ds" "t Accessories = tbl Accessories" "t StationChains = tbl StationChains"
    "t StationPresets = tbl StationPresets"
    using e by (simp_all add: t_def after_simps fresh_cascade_def)
  have n: "node_ok t runs n" if "node_ok tbl runs n" for runs n
    using that by (rule node_ok_cong) (simp_all add: t)
  have "\<forall>ch \<in> set (ca_stationChains (inline_cascade ds c)). chain_ok t ch"
    using c n by (auto simp: inline_cascade_def cascade_ok_def chain_ok_def run_ok_def t image_image) blast
  moreover have "\<forall>q \<in> set (ca_stationPresets (inline_cascade ds c)). preset_ok t q"
    using c by (auto simp: inline_cascade_def cascade_ok_def preset_ok_def t or_else_filter)
  ultimately show ?thesis
    unfolding t_def[symmetric] using c by (simp add: cascade_ok_def t)
qed

lemma parts_cong:
  assumes "\<And>t. t \<notin> {StationPresets, StationChains, CustomRadios} \<Longrightarrow> tbl' t = tbl t"
  shows "chain_ok tbl' ch = chain_ok tbl ch" "preset_ok tbl' p = preset_ok tbl p"
proof -
  have "node_ok tbl' runs n = node_ok tbl runs n" for runs n
    by (cases n) (simp_all add: assms)
  then show "chain_ok tbl' ch = chain_ok tbl ch" "preset_ok tbl' p = preset_ok tbl p"
    by (simp_all add: chain_ok_def run_ok_def preset_ok_def assms)
qed

lemma cascade_ok_cong:
  assumes "cascade_ok tbl c" "\<And>t. t \<noteq> CustomRadios \<Longrightarrow> tbl' t = tbl t"
  shows "cascade_ok tbl' c"
  using assms(1) parts_cong[of tbl' tbl] by (simp add: cascade_ok_def assms(2))

lemma custom_radio_cascade_ok:
  assumes c: "cascade_ok tbl c" and e: "fresh_cascade c" and rs: "set (ids (ca_radios c)) \<subseteq> tbl UserRadios"
  shows "cascade_ok (after_cascade tbl CustomRadios ds (custom_radio_cascade ds c)) (custom_radio_cascade ds c)"
proof -
  define a where "a = ids (filter (\<lambda>r. ra_equipmentId r \<in> set ds) (ca_radios c))"
  define c1 where "c1 = radio_cascade a (c\<lparr>ca_radios := filter (\<lambda>r. gear_id r \<notin> set a) (ca_radios c)\<rparr>)"
  have k: "cascade_ok (after_cascade tbl UserRadios a c1) c1"
    unfolding c1_def by (rule radio_cascade_ok) (use c e rs in \<open>auto simp: cascade_ok_def fresh_cascade_def set_ids\<close>)
  show ?thesis
  proof (cases "a = []")
    case True
    then have r: "custom_radio_cascade ds c = c" by (simp add: custom_radio_cascade_def a_def Let_def)
    show ?thesis
      unfolding r by (rule cascade_ok_cong[OF c]) (use e in \<open>auto simp: after_cascade_def lost_def cascade_entries_def fresh_cascade_def\<close>)
  next
    case False
    have rem: "ca_removedRadioIds c1 = []"
      using e by (simp add: c1_def radio_cascade_def fresh_cascade_def)
    have r: "custom_radio_cascade ds c = c1\<lparr>ca_removedRadioIds := a\<rparr>"
      using False by (simp add: custom_radio_cascade_def a_def[symmetric] c1_def[symmetric] Let_def rem)
    have "cascade_ok (after_cascade tbl CustomRadios ds (c1\<lparr>ca_removedRadioIds := a\<rparr>)) c1"
      by (rule cascade_ok_cong[OF k]) (auto simp: after_cascade_def lost_def cascade_entries_def rem)
    then show ?thesis unfolding r by (simp add: cascade_ok_def)
  qed
qed

lemma cascade_keeps_references:
  assumes "cascade_ok tbl c" "fresh_cascade c" "set (ids (ca_radios c)) \<subseteq> tbl UserRadios - (if t = UserRadios then set ds else {})"
  shows "cascade_ok (after_cascade tbl t ds (applyGearRemovalCascade t ds c)) (applyGearRemovalCascade t ds c)"
proof (cases t)
  case StationPresets
  then show ?thesis
    using assms parts_cong[of "after_cascade tbl t ds c" tbl]
    by (auto simp: cascade_ok_def after_simps fresh_cascade_def after_cascade_def lost_def cascade_entries_def intro: active_kept)
next
  case StationChains
  then show ?thesis
    using assms parts_cong[of "after_cascade tbl t ds c" tbl]
    by (auto simp: cascade_ok_def after_simps fresh_cascade_def after_cascade_def lost_def cascade_entries_def intro: active_kept)
qed (use assms in \<open>simp_all add: radio_cascade_ok antenna_cascade_ok feedline_cascade_ok accessory_cascade_ok inline_cascade_ok
    custom_radio_cascade_ok\<close>)

lemma drop_presets_ids:
  "ca_orphanedPresetIds c = [] \<Longrightarrow> set (ids (ca_stationPresets c)) - set (ca_orphanedPresetIds (drop_presets p c)) \<subseteq> set (ids (ca_stationPresets (drop_presets p c)))"
  by (auto simp: drop_presets_def Let_def set_ids)

lemma drop_nodes_ids [simp]: "ids (drop_nodes p chs) = ids chs"
  by (simp add: drop_nodes_def ids_def comp_def)

lemma radio_cascade_tables:
  assumes "fresh_cascade c"
  shows "set (ids (ca_stationPresets c)) - set (ca_orphanedPresetIds (radio_cascade ds c)) \<subseteq> set (ids (ca_stationPresets (radio_cascade ds c)))"
    "ids (ca_stationChains (radio_cascade ds c)) = ids (ca_stationChains c)"
    "ca_radios (radio_cascade ds c) = ca_radios c" "ca_removedRadioIds (radio_cascade ds c) = []"
  using assms drop_presets_ids[of "c\<lparr>ca_activeRadioId := a, ca_stationChains := chs\<rparr>" for a chs]
  by (simp_all add: radio_cascade_def fresh_cascade_def)

lemma cascade_tables:
  assumes "fresh_cascade c"
  shows "set (ids (ca_stationPresets c)) - set (ca_orphanedPresetIds (applyGearRemovalCascade t ds c)) \<subseteq>
      set (ids (ca_stationPresets (applyGearRemovalCascade t ds c)))"
    "ids (ca_stationChains (applyGearRemovalCascade t ds c)) = ids (ca_stationChains c)"
    "set (ids (ca_radios c)) - set (ca_removedRadioIds (applyGearRemovalCascade t ds c)) \<subseteq>
      set (ids (ca_radios (applyGearRemovalCascade t ds c)))"
proof -
  have f: "fresh_cascade (c\<lparr>ca_radios := rs\<rparr>)" for rs using assms by (simp add: fresh_cascade_def)
  note r = radio_cascade_tables[OF f, simplified]
  have "set (ids (ca_stationPresets c)) - set (ca_orphanedPresetIds (antenna_cascade ds c)) \<subseteq> set (ids (ca_stationPresets (antenna_cascade ds c)))"
    using assms drop_presets_ids[of "c\<lparr>ca_stationChains := chs\<rparr>" for chs] by (simp add: antenna_cascade_def fresh_cascade_def)
  moreover have "ids (ca_stationPresets (feedline_cascade ds c)) = ids (ca_stationPresets c)"
    by (auto simp: feedline_cascade_def Let_def ids_def split: option.splits)
  ultimately show "set (ids (ca_stationPresets c)) - set (ca_orphanedPresetIds (applyGearRemovalCascade t ds c)) \<subseteq>
      set (ids (ca_stationPresets (applyGearRemovalCascade t ds c)))"
    using radio_cascade_tables(1)[OF assms] r(1)
    by (cases t) (simp_all add: custom_radio_cascade_def Let_def accessory_cascade_def inline_cascade_def ids_def comp_def)
  show "ids (ca_stationChains (applyGearRemovalCascade t ds c)) = ids (ca_stationChains c)"
    using radio_cascade_tables(2)[OF assms] r(2)
    by (cases t) (simp_all add: antenna_cascade_def feedline_chains without_feedline_def custom_radio_cascade_def Let_def
        accessory_cascade_def inline_cascade_def, simp_all add: ids_def comp_def without_feedline_def)
  show "set (ids (ca_radios c)) - set (ca_removedRadioIds (applyGearRemovalCascade t ds c)) \<subseteq>
      set (ids (ca_radios (applyGearRemovalCascade t ds c)))"
    using r(3)
    by (cases t) (auto simp: radio_cascade_def antenna_cascade_def custom_radio_cascade_def Let_def set_ids)
qed

section \<open>Removals\<close>

fun remove_gear :: "ShackContext \<Rightarrow> GearDeletionTable \<Rightarrow> string \<Rightarrow> ShackStore \<Rightarrow> ShackStore" where
  \<comment> \<open>the removal action of each table\<close>
  "remove_gear cx UserRadios i s = snd (removeRadio cx i s)"
| "remove_gear cx Antennas i s = snd (removeAntenna cx i s)"
| "remove_gear cx Feedlines i s = snd (removeFeedline cx i s)"
| "remove_gear cx Accessories i s = snd (removeAccessory cx i s)"
| "remove_gear cx StationPresets i s = removePreset cx i s"
| "remove_gear cx InlineComponents i s = snd (removeInlineComponent cx i s)"
| "remove_gear cx StationChains i s = removeChain cx i s"
| "remove_gear cx CustomRadios i s = snd (removeCustomRadio cx i s)"

definition removal_cascade :: "GearDeletionTable \<Rightarrow> string \<Rightarrow> ShackStore \<Rightarrow> GearRemovalCascade" where
  "removal_cascade t i s = applyGearRemovalCascade t [i] (cascade_of (if t = UserRadios then without i (radios s) else radios s) s)"

lemma fresh_of [simp]: "fresh_cascade (cascade_of rs s)"
  by (simp add: fresh_cascade_def cascade_of_def)

lemma hist_simps [simp]:
  "radios (hist cx k a ty i n d s) = radios s" "customRadios (hist cx k a ty i n d s) = customRadios s"
  "activeRadioId (hist cx k a ty i n d s) = activeRadioId s" "antennas (hist cx k a ty i n d s) = antennas s"
  "feedlines (hist cx k a ty i n d s) = feedlines s" "inlineComponents (hist cx k a ty i n d s) = inlineComponents s"
  "accessories (hist cx k a ty i n d s) = accessories s" "stationPresets (hist cx k a ty i n d s) = stationPresets s"
  "activePresetId (hist cx k a ty i n d s) = activePresetId s" "stationChains (hist cx k a ty i n d s) = stationChains s"
  "activeChainId (hist cx k a ty i n d s) = activeChainId s"
  "pendingGearDeletions (hist cx k a ty i n d s) = pendingGearDeletions s"
  by (simp_all add: hist_def addHistoryEntry_def Let_def)

lemma cascade_of_simps [simp]:
  "ca_stationPresets (cascade_of rs s) = stationPresets s" "ca_stationChains (cascade_of rs s) = stationChains s"
  "ca_activeRadioId (cascade_of rs s) = activeRadioId s" "ca_activePresetId (cascade_of rs s) = activePresetId s"
  "ca_activeChainId (cascade_of rs s) = activeChainId s" "ca_radios (cascade_of rs s) = rs"
  "ca_orphanedPresetIds (cascade_of rs s) = []" "ca_removedRadioIds (cascade_of rs s) = []"
  by (simp_all add: cascade_of_def)

lemma cascade_ok_parts:
  "cascade_ok tbl c \<Longrightarrow> ca_stationPresets c = ca_stationPresets d \<Longrightarrow> ca_stationChains c = ca_stationChains d \<Longrightarrow>
     ca_activeRadioId c = ca_activeRadioId d \<Longrightarrow> ca_activePresetId c = ca_activePresetId d \<Longrightarrow> ca_activeChainId c = ca_activeChainId d \<Longrightarrow>
     cascade_ok tbl d"
  by (simp add: cascade_ok_def)

lemma unchanged_fields:
  "ca_activeRadioId (antenna_cascade ds c) = ca_activeRadioId c" "ca_activeChainId (antenna_cascade ds c) = ca_activeChainId c"
  "ca_radios (antenna_cascade ds c) = ca_radios c" "ca_removedRadioIds (antenna_cascade ds c) = ca_removedRadioIds c"
  "ca_activeChainId (radio_cascade ds c) = ca_activeChainId c" "ca_radios (radio_cascade ds c) = ca_radios c"
  "ca_removedRadioIds (radio_cascade ds c) = ca_removedRadioIds c"
  "ca_activeChainId (custom_radio_cascade ds c) = ca_activeChainId c"
  by (simp_all add: antenna_cascade_def radio_cascade_def custom_radio_cascade_def Let_def)

lemma removal_fields:
  assumes "t \<noteq> StationPresets" "t \<noteq> StationChains"
  shows "stationPresets (remove_gear cx t i s) = ca_stationPresets (removal_cascade t i s)"
    "stationChains (remove_gear cx t i s) = ca_stationChains (removal_cascade t i s)"
    "activeRadioId (remove_gear cx t i s) = ca_activeRadioId (removal_cascade t i s)"
    "activePresetId (remove_gear cx t i s) = ca_activePresetId (removal_cascade t i s)"
    "activeChainId (remove_gear cx t i s) = ca_activeChainId (removal_cascade t i s)"
    "radios (remove_gear cx t i s) = ca_radios (removal_cascade t i s)"
  using assms
  by (cases t; simp add: removal_cascade_def removeRadio_def removeAntenna_def removeFeedline_def removeAccessory_def
      removeInlineComponent_def removeCustomRadio_def Let_def unchanged_fields)+

lemmas removal_defs = removeRadio_def removeAntenna_def removeFeedline_def removeAccessory_def
  removeInlineComponent_def removeCustomRadio_def removePreset_def removeChain_def

lemma removal_pending:
  "queued (pendingGearDeletions (remove_gear cx t i s)) u t' i' \<longleftrightarrow>
     queued (pendingGearDeletions s) u t' i' \<or> (u = cx_owner cx \<and> i' \<in> lost t [i] (removal_cascade t i s) t')"
proof (cases t)
  case CustomRadios
  then show ?thesis
    by (auto simp: removal_defs Let_def queued_enqueues lost_def removal_cascade_def)
qed (auto simp: removal_defs Let_def queued_enqueues queued_enqueue lost_def removal_cascade_def cascade_entries_def
    unchanged_fields)

lemma removal_inventory:
  "inventory s t' - lost t [i] (removal_cascade t i s) t' \<subseteq> inventory (remove_gear cx t i s) t'"
proof (cases "t = StationPresets \<or> t = StationChains")
  case True
  then show ?thesis by (cases t') (auto simp: removal_defs Let_def lost_def without_def set_ids)
next
  case False
  then have f: "radios (remove_gear cx t i s) = ca_radios (removal_cascade t i s)"
    "stationPresets (remove_gear cx t i s) = ca_stationPresets (removal_cascade t i s)"
    "stationChains (remove_gear cx t i s) = ca_stationChains (removal_cascade t i s)"
    by (simp_all add: removal_fields)
  note k = cascade_tables[where c = "cascade_of (if t = UserRadios then without i (radios s) else radios s) s" and t = t and ds = "[i]",
      OF fresh_of, folded removal_cascade_def, simplified]
  show ?thesis
  proof (cases t')
    case UserRadios
    have "set (ids (radios s)) - (if t = UserRadios then {i} else {}) \<subseteq> set (ids (if t = UserRadios then without i (radios s) else radios s))"
      by (auto simp: set_ids without_def)
    then show ?thesis using k(3) by (auto simp: UserRadios f lost_def split: if_splits)
  next
    case StationPresets
    then show ?thesis using k(1) False by (auto simp: f lost_def)
  next
    case StationChains
    then show ?thesis using k(2) False by (auto simp: f lost_def)
  qed (use False in \<open>cases t; auto simp: removal_defs Let_def lost_def without_def set_ids\<close>)+
qed

lemma removal_gone: "i \<notin> inventory (remove_gear cx t i s) t"
  by (cases t) (auto simp: removal_defs Let_def without_def set_ids)

lemma removal_references:
  assumes "references_ok s"
  shows "references_ok (remove_gear cx t i s)"
proof -
  have c: "cascade_ok (after_cascade (inventory s) t [i] (removal_cascade t i s)) (removal_cascade t i s)"
    unfolding removal_cascade_def
    by (rule cascade_keeps_references) (use assms in \<open>auto simp: references_ok_def cascade_ok_def without_def set_ids\<close>)
  have m: "cascade_ok (inventory (remove_gear cx t i s)) (removal_cascade t i s)"
    by (rule cascade_ok_mono[OF c]) (use removal_inventory in \<open>auto simp: after_cascade_def\<close>)
  show ?thesis
  proof (cases "t = StationPresets \<or> t = StationChains")
    case False
    then show ?thesis
      unfolding references_ok_def by (intro cascade_ok_parts[OF m]) (simp_all add: removal_fields)
  next
    case True
    moreover have "removal_cascade t i s = (cascade_of (radios s) s)\<lparr>
        ca_activePresetId := (if t = StationPresets \<and> active_in (activePresetId s) [i] then None else activePresetId s),
        ca_activeChainId := (if t = StationChains \<and> active_in (activeChainId s) [i] then None else activeChainId s)\<rparr>"
      using True by (auto simp: removal_cascade_def cascade_of_def)
    ultimately show ?thesis
      using m by (auto simp: references_ok_def cascade_ok_def removal_defs Let_def without_def active_in_iff)
  qed
qed

section \<open>Tombstones from the service\<close>

lemma put_cascade_inventory:
  "inventory (put_cascade c s) UserRadios = set (ids (ca_radios c))"
  "inventory (put_cascade c s) StationPresets = set (ids (ca_stationPresets c))"
  "inventory (put_cascade c s) StationChains = set (ids (ca_stationChains c))"
  "t \<notin> {UserRadios, StationPresets, StationChains} \<Longrightarrow> inventory (put_cascade c s) t = inventory s t"
  by (simp_all add: put_cascade_def) (cases t; simp)

definition ok_but :: "inventory \<Rightarrow> ShackStore \<Rightarrow> bool" where
  \<comment> \<open>every reference is to an existing item or to one of the given ids\<close>
  "ok_but gone s \<longleftrightarrow> cascade_ok (\<lambda>t. inventory s t \<union> gone t) (cascade_of (radios s) s)"

lemma tombstone_step:
  assumes "ok_but gone s" "inventory s t \<inter> set ds = {}" "gone t \<subseteq> set ds"
  shows "ok_but (gone(t := {})) (applyGearRemoval now t ds u s)"
proof -
  let ?tbl = "\<lambda>t. inventory s t \<union> gone t"
  let ?c = "applyGearRemovalCascade t ds (cascade_of (radios s) s)"
  have c: "cascade_ok (after_cascade ?tbl t ds ?c) ?c"
    by (rule cascade_keeps_references) (use assms in \<open>auto simp: ok_but_def set_ids disjoint_iff\<close>)
  have "after_cascade ?tbl t ds ?c t' \<subseteq> inventory (put_cascade ?c (s\<lparr>pendingGearDeletions := p\<rparr>)) t' \<union> (gone(t := {})) t'" for t' p
  proof -
    note k = cascade_tables[where c = "cascade_of (radios s) s" and t = t and ds = ds, OF fresh_of, simplified]
    have i: "inventory (s\<lparr>pendingGearDeletions := p\<rparr>) t' = inventory s t'" by (cases t') simp_all
    consider "t' = UserRadios" | "t' = StationPresets" | "t' = StationChains" | "t' \<notin> {UserRadios, StationPresets, StationChains}"
      by auto
    then show ?thesis
    proof cases
      case 1
      show ?thesis unfolding 1 put_cascade_inventory(1)
        using k(3) assms(3) by (auto simp: after_cascade_def lost_def)
    next
      case 2
      show ?thesis unfolding 2 put_cascade_inventory(2)
        using k(1) assms(3) by (auto simp: after_cascade_def lost_def)
    next
      case 3
      show ?thesis unfolding 3 put_cascade_inventory(3)
        using k(2) assms(3) by (auto simp: after_cascade_def lost_def)
    next
      case 4
      show ?thesis unfolding put_cascade_inventory(4)[OF 4] i using assms(3) by (auto simp: after_cascade_def lost_def)
    qed
  qed
  then have m: "cascade_ok (\<lambda>t'. inventory (put_cascade ?c (s\<lparr>pendingGearDeletions := p\<rparr>)) t' \<union> (gone(t := {})) t') ?c" for p
    by (rule cascade_ok_mono[OF c])
  show ?thesis
    unfolding ok_but_def applyGearRemoval_def Let_def
    by (rule cascade_ok_parts[OF m]) (simp_all add: put_cascade_def)
qed

lemma removal_pending_applied:
  "queued (pendingGearDeletions (applyGearRemoval now t ds u s)) u' t' i \<longleftrightarrow> queued (pendingGearDeletions s) u' t' i \<or>
     (u' = u \<and> (t', i) \<in> set (cascade_entries (applyGearRemovalCascade t ds (cascade_of (radios s) s))))"
  by (auto simp: applyGearRemoval_def Let_def put_cascade_def queued_enqueues)

lemma ok_but_none: "ok_but (\<lambda>_. {}) s \<longleftrightarrow> references_ok s"
  by (simp add: ok_but_def references_ok_def)

section \<open>Properties\<close>

text \<open>
  C11: The removal of an item of any kind keeps the shack referentially intact: afterwards the item
  is gone, and every preset, chain, feedline run and active selection still refers only to
  items that exist.
\<close>

theorem removal_keeps_references:
  assumes "references_ok s"
  shows "references_ok (remove_gear cx t i s) \<and> i \<notin> inventory (remove_gear cx t i s) t"
  using removal_references[OF assms] removal_gone by blast

definition example_context :: ShackContext where
  "example_context = \<lparr>cx_uuid = (\<lambda>k. ''u'' @ nat_text k), cx_now = 7, cx_owner = ''op'', cx_catalog = (\<lambda>_. None),
     cx_profileImage = None\<rparr>"

definition example_shack :: ShackStore where
  "example_shack = new_shack\<lparr>
     radios := [\<lparr>gear_id = ''r1'', ra_equipmentId = ''custom-x'', ra_nickname = None, ra_customPowerLimit = None, ra_imageId = None,
       ra_galleryImageIds = None, ra_addedAt = 0, ra_other = Map.empty\<rparr>],
     customRadios := [\<lparr>gear_id = ''custom-x'', re_displayName = Some ''Kit'', re_other = Map.empty\<rparr>],
     feedlines := [\<lparr>gear_id = ''f1'', ge_name = ''Coax'', ge_imageId = None, ge_galleryImageIds = None, ge_addedAt = 0, ge_other = Map.empty\<rparr>],
     activeRadioId := Some ''r1'', activePresetId := Some ''p1'',
     stationPresets := [\<lparr>gear_id = ''p1'', sp_name = ''Home'', sp_radioId = ''r1'', sp_antennaId = [], sp_feedlineId = Some ''f1'',
       sp_inlineComponentIds = None, sp_accessoryIds = [], sp_operatingPowerWatts = 100, sp_linkedLocationId = None,
       sp_notes = None, sp_createdAt = 0\<rparr>],
     stationChains := [\<lparr>gear_id = ''c1'', sc_name = ''Home'', sc_nodes = [RadioNode ''r1'', FeedlineRunNode ''n1''],
       sc_feedlineRuns = [\<lparr>run_id = ''n1'', run_feedlineId = ''f1'', run_inlineComponentIds = []\<rparr>], sc_operatingPowerWatts = 100,
       sc_linkedLocationId = None, sc_shackAccessoryIds = [], sc_notes = None, sc_createdAt = 0\<rparr>]\<rparr>"

lemma example_ok: "references_ok example_shack"
  by (simp add: references_ok_def cascade_ok_def example_shack_def new_shack_def preset_ok_def chain_ok_def run_ok_def ids_def or_else_def)

theorem removal_keeps_references_witness:
  "references_ok (remove_gear example_context CustomRadios ''custom-x'' example_shack) \<and>
   ''custom-x'' \<notin> inventory (remove_gear example_context CustomRadios ''custom-x'' example_shack) CustomRadios"
  by (rule removal_keeps_references[OF example_ok])

text \<open>
  C25: Whatever a removal takes out of any table, the cascaded radios and presets included, is
  queued for deletion at the service under the user who is signed in.
\<close>

theorem removed_gear_is_queued:
  assumes "i' \<in> inventory s t'" "i' \<notin> inventory (remove_gear cx t i s) t'"
  shows "queued (pendingGearDeletions (remove_gear cx t i s)) (cx_owner cx) t' i'"
  using assms removal_inventory[of s t' t i cx] unfolding removal_pending by blast

theorem removed_gear_is_queued_witness:
  "queued (pendingGearDeletions (remove_gear example_context CustomRadios ''custom-x'' example_shack)) ''op'' StationPresets ''p1''"
proof -
  have "''p1'' \<in> inventory example_shack StationPresets" by (simp add: example_shack_def)
  moreover have "''p1'' \<notin> inventory (remove_gear example_context CustomRadios ''custom-x'' example_shack) StationPresets"
    by (simp add: removal_defs Let_def example_shack_def custom_radio_cascade_def radio_cascade_def drop_presets_def refers_def cascade_of_def)
  ultimately show ?thesis
    using removed_gear_is_queued[of "''p1''" example_shack StationPresets example_context CustomRadios "''custom-x''"]
    by (simp add: example_context_def)
qed

end
