(* ===== verification/ShackEdits.thy ===== *)
theory ShackEdits
  imports ShackRefs
begin

text \<open>
  Runs of local actions of the shack: the size limits, the length of the history and the
  identity of items hold in every state that actions reach, and the edits of a chain keep its
  nodes and feedline runs in step.
\<close>

section \<open>Actions\<close>

datatype shack_action =
    ActAddRadio string "string option"
  | ActAddRadioInstance string "string option"
  | ActUpdateRadio string "jv option" "UserRadio \<Rightarrow> UserRadio"
  | ActSetActiveRadio "string option"
  | ActAddCustomRadio "string option" "string \<rightharpoonup> jv"
  | ActUpdateCustomRadio string "string option" "string \<rightharpoonup> jv"
  | ActAddAntenna UserGear
  | ActUpdateAntenna string "UserGear \<Rightarrow> UserGear"
  | ActDuplicateAntenna string
  | ActAddFeedline UserGear
  | ActUpdateFeedline string "UserGear \<Rightarrow> UserGear"
  | ActDuplicateFeedline string
  | ActAddInline UserGear
  | ActUpdateInline string "UserGear \<Rightarrow> UserGear"
  | ActDuplicateInline string
  | ActAddAccessory UserAccessory
  | ActUpdateAccessory string "UserAccessory \<Rightarrow> UserAccessory"
  | ActDuplicateAccessory string
  | ActAddPreset StationPreset
  | ActUpdatePreset string "StationPreset \<Rightarrow> StationPreset"
  | ActDuplicatePreset string
  | ActSetActivePreset "string option"
  | ActAddChain StationChain
  | ActUpdateChain string "StationChain \<Rightarrow> StationChain"
  | ActDuplicateChain string
  | ActSetActiveChain "string option"
  | ActAddNode string ChainNode int
  | ActRemoveNode string int
  | ActReorder string int int
  | ActSwap string int string
  | ActAddRun string FeedlineRun
  | ActUpdateRun string string "FeedlineRun \<Rightarrow> FeedlineRun"
  | ActRemove GearDeletionTable string
  | ActSetImage image_kind string string
  | ActClearImage image_kind string
  | ActAddGallery gallery_kind string string
  | ActRemoveGallery gallery_kind string string

fun do_action :: "ShackContext \<Rightarrow> shack_action \<Rightarrow> ShackStore \<Rightarrow> ShackStore" where
  "do_action cx (ActAddRadio i n) s = snd (addRadio cx i n s)"
| "do_action cx (ActAddRadioInstance i n) s = snd (addRadioInstance cx i n s)"
| "do_action cx (ActUpdateRadio i l u) s = snd (updateRadioInstance cx i l u s)"
| "do_action cx (ActSetActiveRadio i) s = setActiveRadio i s"
| "do_action cx (ActAddCustomRadio n f) s = snd (addCustomRadio cx n f s)"
| "do_action cx (ActUpdateCustomRadio i n f) s = snd (updateCustomRadio cx i n f s)"
| "do_action cx (ActAddAntenna x) s = snd (addAntenna cx x s)"
| "do_action cx (ActUpdateAntenna i u) s = snd (updateAntenna cx i u s)"
| "do_action cx (ActDuplicateAntenna i) s = snd (duplicateAntenna cx i s)"
| "do_action cx (ActAddFeedline x) s = snd (addFeedline cx x s)"
| "do_action cx (ActUpdateFeedline i u) s = snd (updateFeedline cx i u s)"
| "do_action cx (ActDuplicateFeedline i) s = snd (duplicateFeedline cx i s)"
| "do_action cx (ActAddInline x) s = snd (addInlineComponent cx x s)"
| "do_action cx (ActUpdateInline i u) s = snd (updateInlineComponent cx i u s)"
| "do_action cx (ActDuplicateInline i) s = snd (duplicateInlineComponent cx i s)"
| "do_action cx (ActAddAccessory x) s = snd (addAccessory cx x s)"
| "do_action cx (ActUpdateAccessory i u) s = snd (updateAccessory cx i u s)"
| "do_action cx (ActDuplicateAccessory i) s = snd (duplicateAccessory cx i s)"
| "do_action cx (ActAddPreset x) s = snd (addPreset cx x s)"
| "do_action cx (ActUpdatePreset i u) s = snd (updatePreset cx i u s)"
| "do_action cx (ActDuplicatePreset i) s = snd (duplicatePreset cx i s)"
| "do_action cx (ActSetActivePreset i) s = setActivePreset i s"
| "do_action cx (ActAddChain x) s = snd (addChain cx x s)"
| "do_action cx (ActUpdateChain i u) s = snd (updateChain cx i u s)"
| "do_action cx (ActDuplicateChain i) s = snd (duplicateChain cx i s)"
| "do_action cx (ActSetActiveChain i) s = setActiveChain i s"
| "do_action cx (ActAddNode i n k) s = snd (addNodeToChain cx i n k s)"
| "do_action cx (ActRemoveNode i k) s = snd (removeNodeFromChain cx i k s)"
| "do_action cx (ActReorder i k l) s = snd (reorderChainNodes cx i k l s)"
| "do_action cx (ActSwap i k e) s = snd (swapNodeEquipment cx i k e s)"
| "do_action cx (ActAddRun i r) s = snd (addFeedlineRun cx i r s)"
| "do_action cx (ActUpdateRun i r u) s = snd (updateFeedlineRun cx i r u s)"
| "do_action cx (ActRemove t i) s = remove_gear cx t i s"
| "do_action cx (ActSetImage k i m) s = setEquipmentImage k i m s"
| "do_action cx (ActClearImage k i) s = snd (clearEquipmentImage cx k i s)"
| "do_action cx (ActAddGallery k i m) s = addGalleryImage k i m s"
| "do_action cx (ActRemoveGallery k i m) s = snd (removeGalleryImage cx k i m s)"

fun update_ok :: "shack_action \<Rightarrow> bool" where
  \<comment> \<open>the type of an update object excludes the id\<close>
  "update_ok (ActUpdateRadio i l u) = (\<forall>x. gear_id (u x) = gear_id x)"
| "update_ok (ActUpdateAntenna i u) = (\<forall>x. gear_id (u x) = gear_id x)"
| "update_ok (ActUpdateFeedline i u) = (\<forall>x. gear_id (u x) = gear_id x)"
| "update_ok (ActUpdateInline i u) = (\<forall>x. gear_id (u x) = gear_id x)"
| "update_ok (ActUpdateAccessory i u) = (\<forall>x. gear_id (u x) = gear_id x)"
| "update_ok (ActUpdatePreset i u) = (\<forall>x. gear_id (u x) = gear_id x)"
| "update_ok (ActUpdateChain i u) = (\<forall>x. gear_id (u x) = gear_id x)"
| "update_ok a = True"

section \<open>Tables under actions\<close>

definition kept :: "nat option \<Rightarrow> string \<Rightarrow> string list \<Rightarrow> string list \<Rightarrow> bool" where
  \<comment> \<open>a table's ids before and after: nothing new but the drawn id, within the limit, in step\<close>
  "kept cap u xs ys \<longleftrightarrow> set ys \<subseteq> insert u (set xs) \<and>
     (case cap of None \<Rightarrow> True | Some n \<Rightarrow> length xs \<le> n \<longrightarrow> length ys \<le> n) \<and>
     (distinct xs \<and> u \<notin> set xs \<longrightarrow> distinct ys)"

lemma kept_refl: "kept cap u xs xs"
  by (auto simp: kept_def split: option.split)

lemma length_ids [simp]: "length (ids xs) = length xs"
  by (simp add: ids_def)

lemma kept_append: "(case cap of None \<Rightarrow> True | Some n \<Rightarrow> \<not> length xs \<ge> n) \<Longrightarrow> kept cap u xs (xs @ [u])"
  by (auto simp: kept_def split: option.splits)

lemma kept_filter: "kept cap u (ids xs) (ids (filter p xs))"
  unfolding kept_def by (auto simp: ids_def distinct_map_filter split: option.split intro: le_trans[OF length_filter_le])

definition limit :: "GearDeletionTable \<Rightarrow> nat option" where
  "limit t = (case t of UserRadios \<Rightarrow> Some MAX_RADIOS | Antennas \<Rightarrow> Some MAX_ANTENNAS | Feedlines \<Rightarrow> Some MAX_FEEDLINES
     | Accessories \<Rightarrow> Some MAX_ACCESSORIES | StationPresets \<Rightarrow> Some MAX_PRESETS | InlineComponents \<Rightarrow> Some MAX_INLINE_COMPONENTS
     | StationChains \<Rightarrow> Some MAX_CHAINS | CustomRadios \<Rightarrow> None)"

fun table_ids :: "ShackStore \<Rightarrow> GearDeletionTable \<Rightarrow> string list" where
  "table_ids s UserRadios = ids (radios s)"
| "table_ids s Antennas = ids (antennas s)"
| "table_ids s Feedlines = ids (feedlines s)"
| "table_ids s Accessories = ids (accessories s)"
| "table_ids s StationPresets = ids (stationPresets s)"
| "table_ids s InlineComponents = ids (inlineComponents s)"
| "table_ids s StationChains = ids (stationChains s)"
| "table_ids s CustomRadios = ids (customRadios s)"

lemma table_set: "set (table_ids s t) = inventory s t"
  by (cases t) simp_all

lemma ids_update: "(\<And>x. gear_id (u x) = gear_id x) \<Longrightarrow> ids (update_first p u xs) = ids xs"
  unfolding ids_def by (rule map_update_first)

lemma ids_map: "(\<And>x. gear_id (f x) = gear_id x) \<Longrightarrow> ids (map f xs) = ids xs"
  by (simp add: ids_def)

lemma ids_list_update: "k < length xs \<Longrightarrow> gear_id y = gear_id (xs ! k) \<Longrightarrow> ids (xs[k := y]) = ids xs"
  by (simp add: ids_def map_update list_update_same_conv)

lemma ids_replace: "find (is_id i) xs = Some x \<Longrightarrow> gear_id y = gear_id x \<Longrightarrow> ids (update_first (is_id i) (\<lambda>_. y) xs) = ids xs"
  by (induction xs) (auto simp: is_id_def split: if_splits)

definition fresh_id :: "ShackContext \<Rightarrow> GearDeletionTable \<Rightarrow> string" where
  "fresh_id cx t = (if t = CustomRadios then ''custom-'' @ cx_uuid cx 0 else cx_uuid cx 0)"

lemma table_ids_hist [simp]: "table_ids (hist cx k a ty i n d s) t = table_ids s t"
  by (cases t) simp_all

lemma edit_chain_ids:
  "(\<And>c c'. edit c = Inr c' \<Longrightarrow> gear_id c' = gear_id c) \<Longrightarrow> table_ids (snd (edit_chain cx d i edit s)) t = table_ids s t"
  by (cases t) (auto simp: edit_chain_def Let_def ids_replace split: option.split sum.split)

lemma cascade_ids:
  "\<exists>p. ids (ca_stationPresets (applyGearRemovalCascade t ds c)) = ids (filter p (ca_stationPresets c))"
  "\<exists>q. ca_radios (applyGearRemovalCascade t ds c) = filter q (ca_radios c)"
proof -
  have all: "\<exists>p. ids xs = ids (filter p xs)" for xs :: "StationPreset list" by (rule exI[of _ "\<lambda>_. True"]) simp
  have r: "\<exists>q. xs = filter q xs" for xs :: "UserRadio list" by (rule exI[of _ "\<lambda>_. True"]) simp
  have d: "\<exists>p. ids (ca_stationPresets (drop_presets q c)) = ids (filter p (ca_stationPresets c))" for q c
    by (auto simp: drop_presets_def Let_def)
  have f: "ids (ca_stationPresets (feedline_cascade ds c)) = ids (ca_stationPresets c)"
    by (auto simp: feedline_cascade_def Let_def ids_def split: option.splits)
  have rad: "\<exists>p. ids (ca_stationPresets (radio_cascade ds c)) = ids (filter p (ca_stationPresets c))" for ds c
    unfolding radio_cascade_def using d[of _ "c\<lparr>ca_activeRadioId := a, ca_stationChains := chs\<rparr>" for a chs] by simp
  have ant: "\<exists>p. ids (ca_stationPresets (antenna_cascade ds c)) = ids (filter p (ca_stationPresets c))"
    unfolding antenna_cascade_def using d[of _ "c\<lparr>ca_stationChains := chs\<rparr>" for chs] by simp
  have cus: "\<exists>p. ids (ca_stationPresets (custom_radio_cascade ds c)) = ids (filter p (ca_stationPresets c))"
    unfolding custom_radio_cascade_def Let_def using all rad[of _ "c\<lparr>ca_radios := rs\<rparr>" for rs] by simp
  show "\<exists>p. ids (ca_stationPresets (applyGearRemovalCascade t ds c)) = ids (filter p (ca_stationPresets c))"
    using all rad ant cus f by (cases t) (simp_all add: accessory_cascade_def inline_cascade_def ids_map)
  show "\<exists>q. ca_radios (applyGearRemovalCascade t ds c) = filter q (ca_radios c)"
    using r by (cases t) (auto simp: radio_cascade_def antenna_cascade_def custom_radio_cascade_def Let_def)
qed

lemma remove_gear_kept: "kept cap u (table_ids s t') (table_ids (remove_gear cx t i s) t')"
proof -
  have w: "kept cap u (ids xs) (ids (without i xs))" for xs :: "'b GearItem_scheme list"
    unfolding without_def by (rule kept_filter)
  show ?thesis
  proof (cases "t = StationPresets \<or> t = StationChains")
    case True
    then show ?thesis by (cases t') (auto simp: removal_defs Let_def kept_refl w)
  next
    case False
    let ?c = "cascade_of (if t = UserRadios then without i (radios s) else radios s) s"
    obtain p where p: "ids (ca_stationPresets (removal_cascade t i s)) = ids (filter p (stationPresets s))"
      using cascade_ids(1)[of t "[i]" ?c] by (auto simp: removal_cascade_def)
    obtain q where q: "ca_radios (removal_cascade t i s) = filter q (radios s)"
      using cascade_ids(2)[of t "[i]" ?c] by (auto simp: removal_cascade_def without_def split: if_splits)
    have c: "ids (ca_stationChains (removal_cascade t i s)) = ids (stationChains s)"
      using cascade_tables(2)[of ?c t "[i]"] by (simp add: removal_cascade_def)
    have f: "t \<noteq> StationPresets" "t \<noteq> StationChains" using False by auto
    show ?thesis
    proof (cases t')
      case UserRadios then show ?thesis by (simp add: removal_fields[OF f] q kept_filter)
    next
      case StationPresets then show ?thesis by (simp add: removal_fields[OF f] p kept_filter)
    next
      case StationChains then show ?thesis by (simp add: removal_fields[OF f] c kept_refl)
    qed (use False in \<open>cases t; auto simp: removal_defs Let_def kept_refl w\<close>)+
  qed
qed

lemma find_id: "find (is_id i) xs = Some x \<Longrightarrow> gear_id x = i"
  by (auto simp: find_Some_iff is_id_def)

lemma put_image_ids: "table_ids (put_image k i v s) t = table_ids s t"
  by (cases k; cases t) (simp_all add: put_image_def set_radio_image_def set_gear_image_def ids_map)

lemma edit_gallery_ids: "table_ids (edit_gallery k i f s) t = table_ids s t"
  by (cases k; cases t) (simp_all add: edit_gallery_def Let_def ids_map)

lemma custom_kept: "table_ids (snd (updateCustomRadio cx i n f s)) t = table_ids s t"
  by (cases t) (auto simp: updateCustomRadio_def Let_def index_from_Some ids_list_update split: option.split)

lemmas action_defs = addRadio_def addRadioInstance_def updateRadioInstance_def setActiveRadio_def addCustomRadio_def
  addAntenna_def updateAntenna_def duplicateAntenna_def addFeedline_def updateFeedline_def duplicateFeedline_def
  addInlineComponent_def updateInlineComponent_def duplicateInlineComponent_def addAccessory_def updateAccessory_def
  duplicateAccessory_def addPreset_def updatePreset_def duplicatePreset_def setActivePreset_def addChain_def updateChain_def
  duplicateChain_def setActiveChain_def createUserRadioInstance_def

lemma chain_edit_ids:
  "table_ids (snd (addNodeToChain cx i n k s)) t = table_ids s t" "table_ids (snd (removeNodeFromChain cx i k s)) t = table_ids s t"
  "table_ids (snd (reorderChainNodes cx i k l s)) t = table_ids s t" "table_ids (snd (swapNodeEquipment cx i k e s)) t = table_ids s t"
  "table_ids (snd (updateFeedlineRun cx i r u s)) t = table_ids s t"
  unfolding addNodeToChain_def removeNodeFromChain_def reorderChainNodes_def swapNodeEquipment_def updateFeedlineRun_def
  by (rule edit_chain_ids; auto split: if_splits ChainNode.splits)+

lemma add_run_ids: "table_ids (snd (addFeedlineRun cx i r s)) t = table_ids s t"
  by (cases t) (auto simp: addFeedlineRun_def Let_def ids_replace split: option.split)

lemma action_kept:
  assumes "update_ok a"
  shows "kept (limit t) (fresh_id cx t) (table_ids s t) (table_ids (do_action cx a s) t)"
proof (cases a)
  case (ActRemove t' i)
  then show ?thesis by (simp add: remove_gear_kept)
qed (use assms in \<open>(simp add: kept_refl chain_edit_ids add_run_ids put_image_ids edit_gallery_ids custom_kept setEquipmentImage_def
      clearEquipmentImage_def addGalleryImage_def removeGalleryImage_def Let_def; fail)
    | (cases t; auto simp: action_defs Let_def limit_def fresh_id_def ids_update kept_refl intro!: kept_append split: option.split)\<close>)+

section \<open>Runs of actions\<close>

fun run_actions :: "(ShackContext \<times> shack_action) list \<Rightarrow> ShackStore \<Rightarrow> ShackStore" where
  "run_actions [] s = s"
| "run_actions ((cx, a) # as) s = run_actions as (do_action cx a s)"

definition shack_ok :: "ShackStore \<Rightarrow> bool" where
  \<comment> \<open>every table within its limit, without two items of one id, and a history of at most 200 entries\<close>
  "shack_ok s \<longleftrightarrow> (\<forall>t. distinct (table_ids s t) \<and> (case limit t of None \<Rightarrow> True | Some n \<Rightarrow> length (table_ids s t) \<le> n)) \<and>
     length (equipmentHistory s) \<le> 200"

fun fresh_run :: "(ShackContext \<times> shack_action) list \<Rightarrow> ShackStore \<Rightarrow> bool" where
  \<comment> \<open>no action draws an id that is in use\<close>
  "fresh_run [] s = True"
| "fresh_run ((cx, a) # as) s = ((\<forall>t. fresh_id cx t \<notin> set (table_ids s t)) \<and> fresh_run as (do_action cx a s))"

lemma hist_history: "length (equipmentHistory (hist cx k a ty i n d s)) \<le> 200"
  by (simp add: hist_def addHistoryEntry_def Let_def)

lemma action_history: "length (equipmentHistory s) \<le> 200 \<Longrightarrow> length (equipmentHistory (do_action cx a s)) \<le> 200"
proof (cases a)
  case (ActRemove t i)
  then show ?thesis by (cases t) (simp_all add: removal_defs Let_def hist_history)
qed (auto simp: action_defs Let_def hist_history updateCustomRadio_def addFeedlineRun_def edit_chain_def addNodeToChain_def
    removeNodeFromChain_def reorderChainNodes_def swapNodeEquipment_def updateFeedlineRun_def put_image_def edit_gallery_def
    setEquipmentImage_def clearEquipmentImage_def addGalleryImage_def removeGalleryImage_def
    split: option.split sum.split image_kind.split gallery_kind.split)

lemma action_ok:
  assumes "shack_ok s" "update_ok a" "\<forall>t. fresh_id cx t \<notin> set (table_ids s t)"
  shows "shack_ok (do_action cx a s)"
  unfolding shack_ok_def
proof (intro conjI allI)
  fix t
  have k: "kept (limit t) (fresh_id cx t) (table_ids s t) (table_ids (do_action cx a s) t)"
    by (rule action_kept[OF assms(2)])
  show "distinct (table_ids (do_action cx a s) t)" using k assms by (simp add: kept_def shack_ok_def)
  show "case limit t of None \<Rightarrow> True | Some n \<Rightarrow> length (table_ids (do_action cx a s) t) \<le> n"
    using k assms(1) by (auto simp: kept_def shack_ok_def split: option.splits)
qed (use assms(1) action_history in \<open>simp add: shack_ok_def\<close>)

lemma new_shack_ok: "shack_ok new_shack"
proof -
  have "table_ids new_shack t = []" for t by (cases t) (simp_all add: new_shack_def)
  then show ?thesis by (simp add: shack_ok_def new_shack_def split: option.split)
qed

lemma run_ok_actions:
  "shack_ok s \<Longrightarrow> \<forall>(cx, a) \<in> set as. update_ok a \<Longrightarrow> fresh_run as s \<Longrightarrow> shack_ok (run_actions as s)"
  by (induction as arbitrary: s) (auto simp: action_ok)

section \<open>Chains and their feedline runs\<close>

definition node_runs :: "ChainNode list \<Rightarrow> string list" where
  "node_runs ns = List.map_filter (\<lambda>n. case n of FeedlineRunNode i \<Rightarrow> Some i | _ \<Rightarrow> None) ns"

definition runs_in_step :: "StationChain \<Rightarrow> bool" where
  \<comment> \<open>every feedline run has exactly one node\<close>
  "runs_in_step ch \<longleftrightarrow> distinct (map run_id (sc_feedlineRuns ch)) \<and>
     mset (node_runs (sc_nodes ch)) = mset (map run_id (sc_feedlineRuns ch))"

fun chain_edit :: "shack_action \<Rightarrow> bool" where
  \<comment> \<open>the actions on the nodes and feedline runs of a chain; the type of the updates of a run has no id\<close>
  "chain_edit (ActAddNode i n k) = True"
| "chain_edit (ActRemoveNode i k) = True"
| "chain_edit (ActReorder i k l) = True"
| "chain_edit (ActSwap i k e) = True"
| "chain_edit (ActAddRun i r) = True"
| "chain_edit (ActUpdateRun i r u) = (\<forall>x. run_id (u x) = run_id x)"
| "chain_edit a = False"

definition adds_bare_run :: "shack_action \<Rightarrow> ShackStore \<Rightarrow> bool" where
  \<comment> \<open>a \<open>feedline_run\<close> node is added as a node, to a chain that has room for it\<close>
  "adds_bare_run a s = (case a of
       ActAddNode i (FeedlineRunNode r) k \<Rightarrow>
         (case find (is_id i) (stationChains s) of
            None \<Rightarrow> False
          | Some ch \<Rightarrow> length (sc_nodes ch) < MAX_CHAIN_NODES)
     | _ \<Rightarrow> False)"

lemma node_runs_simps [simp]:
  "node_runs [] = []" "node_runs (n # ns) = (case n of FeedlineRunNode i \<Rightarrow> i # node_runs ns | _ \<Rightarrow> node_runs ns)"
  "node_runs (ms @ ns) = node_runs ms @ node_runs ns"
  by (simp_all add: node_runs_def map_filter_simps map_filter_def split: ChainNode.split)

lemma node_runs_split: "k < length ns \<Longrightarrow> node_runs ns = node_runs (take k ns) @ node_runs [ns ! k] @ node_runs (drop (Suc k) ns)"
  by (metis Cons_nth_drop_Suc append_Cons append_Nil append_take_drop_id node_runs_simps(3))

lemma node_runs_splice: "mset (node_runs (splice_in k n ns)) = mset (node_runs ns) + mset (node_runs [n])"
proof -
  have "mset (node_runs ns) = mset (node_runs (take k ns)) + mset (node_runs (drop k ns))"
    by (metis append_take_drop_id mset_append node_runs_simps(3))
  then show ?thesis by (simp add: splice_in_def split: ChainNode.split)
qed

lemma node_runs_remove: "k < length ns \<Longrightarrow> mset (node_runs ns) = mset (node_runs (remove_at k ns)) + mset (node_runs [ns ! k])"
  using node_runs_split[of k ns] by (simp add: remove_at_def split: ChainNode.split)

lemma edit_in_step:
  assumes "\<forall>ch \<in> set (stationChains s). P ch" "\<And>c c'. P c \<Longrightarrow> edit c = Inr c' \<Longrightarrow> P c'"
  shows "\<forall>ch \<in> set (stationChains (snd (edit_chain cx d i edit s))). P ch"
proof -
  have u: "\<forall>ch \<in> set (update_first (is_id i) (\<lambda>_. c') xs). P ch" if "\<forall>ch \<in> set xs. P ch" "P c'" for c' xs
    using set_update_first[of "is_id i" "\<lambda>_. c'" xs] that by auto
  show ?thesis
  proof (cases "find (is_id i) (stationChains s)")
    case (Some c)
    then have c: "P c" using assms(1) by (auto simp: find_Some_iff)
    show ?thesis
    proof (cases "edit c")
      case (Inr c')
      then show ?thesis using u[OF assms(1) assms(2)[OF c Inr]] Some by (simp add: edit_chain_def Let_def)
    qed (use assms(1) Some in \<open>simp add: edit_chain_def\<close>)
  qed (use assms(1) in \<open>simp add: edit_chain_def\<close>)
qed

lemma distinct_filter_one: "distinct ys \<Longrightarrow> y \<in> set ys \<Longrightarrow> mset ys = add_mset y (mset (filter (\<lambda>x. x \<noteq> y) ys))"
proof -
  assume "distinct ys" "y \<in> set ys"
  then have "filter (\<lambda>x. x \<noteq> y) ys = remove1 y ys"
    by (auto simp: distinct_remove1_removeAll removeAll_filter_not_eq intro: filter_cong)
  then show ?thesis using \<open>y \<in> set ys\<close> by (simp add: insert_DiffM)
qed

lemma remove_node_in_step:
  assumes "runs_in_step c" "k < length (sc_nodes c)"
  shows "runs_in_step (c\<lparr>sc_nodes := remove_at k (sc_nodes c), sc_feedlineRuns := (case sc_nodes c ! k of
      FeedlineRunNode i \<Rightarrow> filter (\<lambda>r. run_id r \<noteq> i) (sc_feedlineRuns c) | _ \<Rightarrow> sc_feedlineRuns c)\<rparr>)"
proof -
  let ?rs = "map run_id (sc_feedlineRuns c)"
  have m: "mset ?rs = mset (node_runs (remove_at k (sc_nodes c))) + mset (node_runs [sc_nodes c ! k])"
    using node_runs_remove[OF assms(2)] assms(1) by (simp add: runs_in_step_def)
  show ?thesis
  proof (cases "sc_nodes c ! k")
    case (FeedlineRunNode i)
    have f: "map run_id (filter (\<lambda>r. run_id r \<noteq> i) (sc_feedlineRuns c)) = filter (\<lambda>x. x \<noteq> i) ?rs"
      by (simp add: filter_map comp_def)
    have "i \<in># mset ?rs" unfolding m FeedlineRunNode by simp
    then have "mset ?rs = add_mset i (mset (filter (\<lambda>x. x \<noteq> i) ?rs))"
      using assms(1) by (intro distinct_filter_one) (simp_all add: runs_in_step_def)
    then have "mset (node_runs (remove_at k (sc_nodes c))) = mset (filter (\<lambda>x. x \<noteq> i) ?rs)"
      using m FeedlineRunNode by simp
    moreover have "distinct (filter (\<lambda>x. x \<noteq> i) ?rs)" using assms(1) by (simp add: runs_in_step_def)
    ultimately show ?thesis
      by (simp add: runs_in_step_def FeedlineRunNode f del: mset_map mset_filter)
  qed (use assms(1) m in \<open>simp_all add: runs_in_step_def\<close>)
qed

lemma nodes_in_step:
  "runs_in_step c \<Longrightarrow> mset (node_runs ns) = mset (node_runs (sc_nodes c)) \<Longrightarrow> runs_in_step (c\<lparr>sc_nodes := ns\<rparr>)"
  by (simp add: runs_in_step_def)

lemma move_in_step: "k < length ns \<Longrightarrow> mset (node_runs (move_item k l ns)) = mset (node_runs ns)"
  using node_runs_remove[of k ns] by (simp only: move_item_def node_runs_splice)

lemma swap_in_step:
  assumes "k < length ns" "node_runs [ns ! k] = []" "node_runs [n] = []"
  shows "node_runs (ns[k := n]) = node_runs ns"
proof -
  have "ns[k := n] = take k ns @ n # drop (Suc k) ns" using assms(1) by (rule upd_conv_take_nth_drop)
  then show ?thesis using node_runs_split[OF assms(1)] assms(2,3)
    by (metis append_Cons append_Nil node_runs_simps(3))
qed

lemma runs_map_ids: "(\<And>r. run_id (f r) = run_id r) \<Longrightarrow> map run_id (map f rs) = map run_id rs"
  by simp

lemma remove_spliced: "k \<le> length xs \<Longrightarrow> remove_at k (splice_in k x xs) = xs"
  by (simp add: remove_at_def splice_in_def)

lemma splice_removed: "k < length xs \<Longrightarrow> splice_in k (xs ! k) (remove_at k xs) = xs"
  by (simp add: remove_at_def splice_in_def id_take_nth_drop[symmetric])

lemma length_splice [simp]: "length (splice_in k x xs) = Suc (length xs)"
  by (simp add: splice_in_def)

lemma move_back: "k < length xs \<Longrightarrow> l < length xs \<Longrightarrow> move_item l k (move_item k l xs) = xs"
proof -
  assume kl: "k < length xs" "l < length xs"
  then have "l \<le> length (remove_at k xs)" by simp
  then have "remove_at l (move_item k l xs) = remove_at k xs" "move_item k l xs ! l = xs ! k"
    by (simp_all add: move_item_def remove_spliced) (simp add: splice_in_def nth_append)
  then show ?thesis using kl(1) by (simp add: move_item_def[of l k] splice_removed)
qed

lemma length_move: "k < length xs \<Longrightarrow> length (move_item k l xs) = length xs"
  by (simp add: move_item_def)

lemma find_updated: "find (is_id i) xs = Some c \<Longrightarrow> gear_id c' = i \<Longrightarrow> find (is_id i) (update_first (is_id i) (\<lambda>_. c') xs) = Some c'"
  by (induction xs) (auto simp: is_id_def split: if_splits)

lemma update_twice: "find (is_id i) xs = Some c \<Longrightarrow> gear_id c' = i \<Longrightarrow>
  update_first (is_id i) (\<lambda>_. c) (update_first (is_id i) (\<lambda>_. c') xs) = xs"
  by (induction xs) (auto simp: is_id_def split: if_splits)

lemma edit_undone:
  assumes "find (is_id i) (stationChains s) = Some c" "edit c = Inr c'" "gear_id c' = i" "back c' = Inr c"
  shows "stationChains (snd (edit_chain cx' d' i back (snd (edit_chain cx d i edit s)))) = stationChains s"
  using assms by (simp add: edit_chain_def Let_def find_updated update_twice)

lemma add_run_in_step:
  assumes "\<forall>ch \<in> set (stationChains s). runs_in_step ch"
    "\<forall>ch \<in> set (stationChains s). cx_uuid cx 0 \<notin> set (map run_id (sc_feedlineRuns ch))"
  shows "\<forall>ch \<in> set (stationChains (snd (addFeedlineRun cx i r s))). runs_in_step ch"
proof (cases "find (is_id i) (stationChains s)")
  case (Some c)
  then have c: "c \<in> set (stationChains s)" by (auto simp: find_Some_iff)
  let ?n = "FeedlineRunNode (cx_uuid cx 0)"
  let ?c = "c\<lparr>sc_nodes := splice_in (computeInsertPosition (accessory_category s) (sc_nodes c) ?n) ?n (sc_nodes c),
    sc_feedlineRuns := sc_feedlineRuns c @ [r\<lparr>run_id := cx_uuid cx 0\<rparr>]\<rparr>"
  have "runs_in_step ?c"
    using assms c by (auto simp: runs_in_step_def node_runs_splice)
  then have "\<forall>ch \<in> set (update_first (is_id i) (\<lambda>_. ?c) (stationChains s)). runs_in_step ch"
    using set_update_first[of "is_id i" "\<lambda>_. ?c" "stationChains s"] assms(1) by auto
  then show ?thesis using Some assms(1) by (simp add: addFeedlineRun_def Let_def)
qed (use assms(1) in \<open>simp add: addFeedlineRun_def\<close>)

lemma add_node_in_step:
  assumes "\<forall>ch \<in> set (stationChains s). runs_in_step ch"
  shows "(\<forall>ch \<in> set (stationChains (snd (addNodeToChain cx i n k s))). runs_in_step ch) \<longleftrightarrow>
    \<not> adds_bare_run (ActAddNode i n k) s"
proof (cases "adds_bare_run (ActAddNode i n k) s")
  case False
  have "\<forall>ch \<in> set (stationChains (snd (addNodeToChain cx i n k s))). runs_in_step ch"
  proof (cases "\<exists>r. n = FeedlineRunNode r")
    case True
    then have "stationChains (snd (addNodeToChain cx i n k s)) = stationChains s"
      using False by (auto simp: adds_bare_run_def addNodeToChain_def edit_chain_def split: option.splits)
    then show ?thesis using assms by simp
  next
    case no: False
    show ?thesis
      unfolding addNodeToChain_def
      by (intro edit_in_step assms)
        (use no in \<open>auto intro!: nodes_in_step simp: node_runs_splice split: if_splits ChainNode.splits\<close>)
  qed
  then show ?thesis using False by simp
next
  case True
  then obtain r c where n: "n = FeedlineRunNode r" and c: "find (is_id i) (stationChains s) = Some c"
    "length (sc_nodes c) < MAX_CHAIN_NODES"
    by (auto simp: adds_bare_run_def split: ChainNode.splits option.splits)
  let ?c = "c\<lparr>sc_nodes := splice_in (clamped k (length (sc_nodes c))) n (sc_nodes c)\<rparr>"
  have i: "gear_id c = i" using c(1) by (auto simp: find_Some_iff is_id_def)
  have "mset (node_runs (sc_nodes ?c)) = add_mset r (mset (map run_id (sc_feedlineRuns ?c)))"
    using assms c(1) by (auto simp: find_Some_iff runs_in_step_def node_runs_splice n)
  then have "\<not> runs_in_step ?c" by (simp add: runs_in_step_def)
  moreover have "find (is_id i) (update_first (is_id i) (\<lambda>_. ?c) (stationChains s)) = Some ?c"
    by (rule find_updated[OF c(1)]) (simp add: i)
  then have "?c \<in> set (update_first (is_id i) (\<lambda>_. ?c) (stationChains s))"
    unfolding find_Some_iff by (metis nth_mem)
  ultimately show ?thesis
    using True c by (auto simp: addNodeToChain_def edit_chain_def Let_def)
qed

section \<open>Properties\<close>

text \<open>
  C7: In every state that local actions reach from the empty store, no table holds two items of
  one id, every limited table is within its limit and the history has at most 200 entries.
\<close>

theorem shack_within_limits:
  assumes "\<forall>(cx, a) \<in> set as. update_ok a" "fresh_run as new_shack"
  shows "shack_ok (run_actions as new_shack)"
  using run_ok_actions[OF new_shack_ok assms] .

definition later_context :: ShackContext where
  "later_context = example_context\<lparr>cx_uuid := (\<lambda>k. ''v'' @ nat_text k)\<rparr>"

theorem shack_within_limits_witness:
  "shack_ok (run_actions [(example_context, ActAddRadio ''ic-7300'' None), (later_context, ActRemove UserRadios ''u0'')] new_shack)"
proof (rule shack_within_limits)
  have "fresh_id example_context t \<notin> set (table_ids new_shack t)" for t
    by (cases t) (simp_all add: new_shack_def)
  moreover have "nat_text 0 = ''0''" by code_simp
  then have "fresh_id later_context t \<notin> set (table_ids (do_action example_context (ActAddRadio ''ic-7300'' None) new_shack) t)" for t
    by (cases t) (simp_all add: new_shack_def action_defs Let_def MAX_RADIOS_def fresh_id_def later_context_def example_context_def)
  ultimately show "fresh_run [(example_context, ActAddRadio ''ic-7300'' None), (later_context, ActRemove UserRadios ''u0'')] new_shack"
    by simp
qed simp

text \<open>
  C26: Which edits of the nodes of a chain keep nodes and feedline runs in step (every run of every
  chain has exactly one node, and every run node a run): all of them, with a fresh identifier for
  a new run, whether a node is added, removed, moved or exchanged or a run is added or updated,
  except one. Adding a \<open>feedline_run\<close> node as a node is accepted when the chain has room, adds no
  run, and always leaves that chain out of step.
\<close>

theorem chain_edits_keep_runs:
  assumes "\<forall>ch \<in> set (stationChains s). runs_in_step ch" "chain_edit a"
    "\<forall>ch \<in> set (stationChains s). cx_uuid cx 0 \<notin> set (map run_id (sc_feedlineRuns ch))"
  shows "(\<forall>ch \<in> set (stationChains (do_action cx a s)). runs_in_step ch) \<longleftrightarrow> \<not> adds_bare_run a s"
proof (cases a)
  case (ActAddNode i n k)
  show ?thesis unfolding ActAddNode do_action.simps by (rule add_node_in_step[OF assms(1)])
next
  case (ActRemoveNode i k)
  have "\<forall>ch \<in> set (stationChains (do_action cx a s)). runs_in_step ch"
    unfolding ActRemoveNode do_action.simps removeNodeFromChain_def
    by (intro edit_in_step assms(1)) (auto simp: valid_index_def intro!: remove_node_in_step split: if_splits)
  then show ?thesis by (simp add: adds_bare_run_def ActRemoveNode)
next
  case (ActReorder i k l)
  have "\<forall>ch \<in> set (stationChains (do_action cx a s)). runs_in_step ch"
    unfolding ActReorder do_action.simps reorderChainNodes_def
    by (intro edit_in_step assms(1)) (auto simp: valid_index_def intro!: nodes_in_step move_in_step split: if_splits)
  then show ?thesis by (simp add: adds_bare_run_def ActReorder)
next
  case (ActSwap i k e)
  have "\<forall>ch \<in> set (stationChains (do_action cx a s)). runs_in_step ch"
    unfolding ActSwap do_action.simps swapNodeEquipment_def
    by (intro edit_in_step assms(1))
      (auto simp: valid_index_def swap_in_step intro!: nodes_in_step split: if_splits ChainNode.splits, auto simp: runs_in_step_def comp_def if_distrib cong: if_cong)
  then show ?thesis by (simp add: adds_bare_run_def ActSwap)
next
  case (ActUpdateRun i r u)
  have "\<forall>ch \<in> set (stationChains (do_action cx a s)). runs_in_step ch"
    unfolding ActUpdateRun do_action.simps updateFeedlineRun_def
    by (intro edit_in_step assms(1))
      (use assms(2) in \<open>auto simp: ActUpdateRun runs_in_step_def map_update_first simp del: mset_map split: if_splits\<close>)
  then show ?thesis by (simp add: adds_bare_run_def ActUpdateRun)
next
  case (ActAddRun i r)
  then show ?thesis using add_run_in_step[OF assms(1,3), of i r] by (simp add: adds_bare_run_def)
qed (use assms(2) in simp_all)

theorem chain_edits_keep_runs_witness:
  "list_all runs_in_step
     (stationChains (do_action example_context (ActAddRun ''c1'' \<lparr>run_id = [], run_feedlineId = ''f1'', run_inlineComponentIds = []\<rparr>) example_shack)) \<and>
   \<not> list_all runs_in_step (stationChains (do_action example_context (ActAddNode ''c1'' (FeedlineRunNode ''run1'') 0) example_shack))"
proof -
  have s: "\<forall>ch \<in> set (stationChains example_shack). runs_in_step ch"
    "\<forall>ch \<in> set (stationChains example_shack). cx_uuid example_context 0 \<notin> set (map run_id (sc_feedlineRuns ch))"
    by (simp_all add: example_shack_def new_shack_def runs_in_step_def example_context_def)
  have "adds_bare_run (ActAddNode ''c1'' (FeedlineRunNode ''run1'') 0) example_shack"
    by (simp add: adds_bare_run_def example_shack_def new_shack_def is_id_def MAX_CHAIN_NODES_def)
  then show ?thesis
    using chain_edits_keep_runs[OF s(1) _ s(2), of "ActAddNode ''c1'' (FeedlineRunNode ''run1'') 0"]
      chain_edits_keep_runs[OF s(1) _ s(2), of "ActAddRun ''c1'' \<lparr>run_id = [], run_feedlineId = ''f1'', run_inlineComponentIds = []\<rparr>"]
    by (simp add: list_all_iff adds_bare_run_def del: do_action.simps)
qed

text \<open>
  Edits of a chain can be undone: removing the node just added at a position restores the
  chains, and so does moving a node back to where it was.
\<close>

theorem chain_edits_undone:
  assumes "find (is_id i) (stationChains s) = Some c"
    "length (sc_nodes c) < MAX_CHAIN_NODES" "0 \<le> k" "k \<le> int (length (sc_nodes c))" "\<forall>r. n \<noteq> FeedlineRunNode r"
    "valid_index a (sc_nodes c)" "valid_index b (sc_nodes c)"
  shows "stationChains (snd (removeNodeFromChain cx' i k (snd (addNodeToChain cx i n k s)))) = stationChains s \<and>
    stationChains (snd (reorderChainNodes cx' i b a (snd (reorderChainNodes cx i a b s)))) = stationChains s"
proof
  have i: "gear_id c = i" using assms(1) by (rule find_id)
  have ab: "nat a < length (sc_nodes c)" "nat b < length (sc_nodes c)" using assms(6,7) by (auto simp: valid_index_def)
  have p: "clamped k (length (sc_nodes c)) = nat k" "nat k \<le> length (sc_nodes c)" using assms(3,4) by (auto simp: clamped_def)
  show "stationChains (snd (removeNodeFromChain cx' i k (snd (addNodeToChain cx i n k s)))) = stationChains s"
    unfolding removeNodeFromChain_def addNodeToChain_def
  proof (rule edit_undone[OF assms(1)])
    show "(if MAX_CHAIN_NODES \<le> length (sc_nodes c) then Inl ''Maximum chain nodes reached''
        else Inr (c\<lparr>sc_nodes := splice_in (clamped k (length (sc_nodes c))) n (sc_nodes c)\<rparr>)) =
      Inr (c\<lparr>sc_nodes := splice_in (nat k) n (sc_nodes c)\<rparr>)" using assms(2) p by simp
    have "splice_in (nat k) n (sc_nodes c) ! nat k = n" using p(2) by (simp add: splice_in_def nth_append)
    moreover have "valid_index k (splice_in (nat k) n (sc_nodes c))" using assms(3,4) by (simp add: valid_index_def)
    ultimately show "(if \<not> valid_index k (sc_nodes (c\<lparr>sc_nodes := splice_in (nat k) n (sc_nodes c)\<rparr>)) then Inl ''Invalid node position''
        else Inr ((c\<lparr>sc_nodes := splice_in (nat k) n (sc_nodes c)\<rparr>)\<lparr>
          sc_nodes := remove_at (nat k) (sc_nodes (c\<lparr>sc_nodes := splice_in (nat k) n (sc_nodes c)\<rparr>)),
          sc_feedlineRuns := (case sc_nodes (c\<lparr>sc_nodes := splice_in (nat k) n (sc_nodes c)\<rparr>) ! nat k of
              FeedlineRunNode i \<Rightarrow> filter (\<lambda>r. run_id r \<noteq> i) (sc_feedlineRuns (c\<lparr>sc_nodes := splice_in (nat k) n (sc_nodes c)\<rparr>))
            | _ \<Rightarrow> sc_feedlineRuns (c\<lparr>sc_nodes := splice_in (nat k) n (sc_nodes c)\<rparr>))\<rparr>)) = Inr c"
      using p(2) assms(5) by (cases n) (simp_all add: remove_spliced)
  qed (simp add: i)
  show "stationChains (snd (reorderChainNodes cx' i b a (snd (reorderChainNodes cx i a b s)))) = stationChains s"
    unfolding reorderChainNodes_def
  proof (rule edit_undone[OF assms(1)])
    show "(if \<not> valid_index a (sc_nodes c) \<or> \<not> valid_index b (sc_nodes c) then Inl ''Invalid node index''
        else Inr (c\<lparr>sc_nodes := move_item (nat a) (nat b) (sc_nodes c)\<rparr>)) =
      Inr (c\<lparr>sc_nodes := move_item (nat a) (nat b) (sc_nodes c)\<rparr>)" using assms(6,7) by simp
    show "(if \<not> valid_index b (sc_nodes (c\<lparr>sc_nodes := move_item (nat a) (nat b) (sc_nodes c)\<rparr>)) \<or>
          \<not> valid_index a (sc_nodes (c\<lparr>sc_nodes := move_item (nat a) (nat b) (sc_nodes c)\<rparr>)) then Inl ''Invalid node index''
        else Inr ((c\<lparr>sc_nodes := move_item (nat a) (nat b) (sc_nodes c)\<rparr>)\<lparr>
          sc_nodes := move_item (nat b) (nat a) (sc_nodes (c\<lparr>sc_nodes := move_item (nat a) (nat b) (sc_nodes c)\<rparr>))\<rparr>)) = Inr c"
      using ab assms(6,7) by (simp add: valid_index_def length_move move_back)
  qed (simp add: i)
qed

theorem chain_edits_undone_witness:
  "stationChains (snd (removeNodeFromChain later_context ''c1'' 1 (snd (addNodeToChain example_context ''c1'' (AntennaNode ''a'') 1 example_shack)))) =
   stationChains example_shack"
  using chain_edits_undone[of "''c1''" example_shack _ 1 "AntennaNode ''a''" 0 1 later_context example_context]
  by (simp add: example_shack_def is_id_def MAX_CHAIN_NODES_def valid_index_def)

end
