(* ===== verification/ShackSync.thy ===== *)
theory ShackSync
  imports ShackRows ShackEdits
begin

text \<open>
  Pull and push of the shack (\<open>src/lib/sync/modules/shackSync.ts\<close>). What the queries of a pull
  answer, and what the updates, checks and upserts of a push answer, are parameters. Pull and push
  are atomic: the code awaits the nine queries of a pull and the requests of a push, and what an
  edit or a push between them would do is not modelled. The last part puts a device, the rows of its user at the service and the user's other devices into
  one step relation.
\<close>

section \<open>Pull\<close>

record ShackAnswers = \<comment> \<open>per query the error, or the rows (\<open>None\<close> for null)\<close>
  q_radios :: "string + UserRadio GearRow list option"
  q_antennas :: "string + UserGear GearRow list option"
  q_feedlines :: "string + UserGear GearRow list option"
  q_accessories :: "string + UserAccessory GearRow list option"
  q_presets :: "string + PresetRow list option"
  q_inline :: "string + UserGear GearRow list option"
  q_chains :: "string + StationChainRow list option"
  q_history :: "string + EquipmentHistoryRow list option"
  q_customRadios :: "string + RadioEquipment GearRow list option"

definition query_error :: "string \<Rightarrow> (string + 'r) \<Rightarrow> string list" where
  "query_error what q = (case q of Inl e \<Rightarrow> [''Shack '' @ what @ '' pull failed: '' @ e] | Inr r \<Rightarrow> [])"

definition pull_errors :: "ShackAnswers \<Rightarrow> string list" where
  \<comment> \<open>in the order of the queries; the first one is thrown\<close>
  "pull_errors q = query_error ''radios'' (q_radios q) @ query_error ''antennas'' (q_antennas q) @
     query_error ''feedlines'' (q_feedlines q) @ query_error ''accessories'' (q_accessories q) @
     query_error ''station presets'' (q_presets q) @ query_error ''inline components'' (q_inline q) @
     query_error ''station chains'' (q_chains q) @ query_error ''equipment history'' (q_history q) @
     query_error ''custom radios'' (q_customRadios q)"

definition rows_of :: "(string + 'r list option) \<Rightarrow> 'r list option" where
  "rows_of q = (case q of Inl e \<Rightarrow> None | Inr rows \<Rightarrow> rows)"

definition merged_or :: "'i list \<Rightarrow> 'i GearPullMergeResult option \<Rightarrow> 'i list" where
  "merged_or xs m = (case m of None \<Rightarrow> xs | Some r \<Rightarrow> gm_merged r)"

definition removed_of :: "'g GearItem_scheme GearPullMergeResult option \<Rightarrow> string list" where
  \<comment> \<open>\<open>merge?.removedIds ?? []\<close>\<close>
  "removed_of m = (case m of None \<Rightarrow> [] | Some r \<Rightarrow> gm_removedIds r)"

definition stamps_of :: "'g GearItem_scheme GearPullMergeResult option \<Rightarrow> int list" where
  "stamps_of m = (case m of None \<Rightarrow> [] | Some r \<Rightarrow> gm_timestamps r)"

definition merge_history :: "EquipmentHistoryRow list option \<Rightarrow> EquipmentHistoryEntry list \<Rightarrow> EquipmentHistoryEntry list" where
  "merge_history rows0 local =
     (case rows0 of
        None \<Rightarrow> local
      | Some rows \<Rightarrow> if rows = [] then local
          else let serverHistory = map rowToHistory rows;
                   localOnly = filter (\<lambda>h. eh_id h \<notin> eh_id ` set serverHistory) local
               in take 200 (sort_key (\<lambda>h. - eh_timestamp h) (serverHistory @ localOnly)))"

definition apply_removals :: "int \<Rightarrow> (GearDeletionTable \<times> string list) list \<Rightarrow> string \<Rightarrow> ShackStore \<Rightarrow> ShackStore" where
  "apply_removals now rs userId s =
     foldl (\<lambda>s (t, ds). if ds \<noteq> [] then applyGearRemoval now t ds userId s else s) s rs"

record ShackMerges =
  mg_radios :: "UserRadio GearPullMergeResult option"
  mg_antennas :: "UserGear GearPullMergeResult option"
  mg_feedlines :: "UserGear GearPullMergeResult option"
  mg_accessories :: "UserAccessory GearPullMergeResult option"
  mg_presets :: "StationPreset GearPullMergeResult option"
  mg_inline :: "UserGear GearPullMergeResult option"
  mg_chains :: "StationChain GearPullMergeResult option"
  mg_customRadios :: "RadioEquipment GearPullMergeResult option"

definition merge_all :: "string set \<Rightarrow> ShackAnswers \<Rightarrow> ShackStore \<Rightarrow> ShackMerges" where
  "merge_all pendingKeys q s =
     \<lparr>mg_radios = mergeGearPullRows (rows_of (q_radios q)) rowToRadio gr_id (radios s) UserRadios pendingKeys,
      mg_antennas = mergeGearPullRows (rows_of (q_antennas q)) rowToAntenna gr_id (antennas s) Antennas pendingKeys,
      mg_feedlines = mergeGearPullRows (rows_of (q_feedlines q)) rowToFeedline gr_id (feedlines s) Feedlines pendingKeys,
      mg_accessories = mergeGearPullRows (rows_of (q_accessories q)) rowToAccessory gr_id (accessories s) Accessories pendingKeys,
      mg_presets = mergeGearPullRows (rows_of (q_presets q)) rowToPreset pw_id (stationPresets s) StationPresets pendingKeys,
      mg_inline = mergeGearPullRows (rows_of (q_inline q)) rowToInline gr_id (inlineComponents s) InlineComponents pendingKeys,
      mg_chains = mergeGearPullRows (rows_of (q_chains q)) rowToChain cw_id (stationChains s) StationChains pendingKeys,
      mg_customRadios = mergeGearPullRows (rows_of (q_customRadios q)) rowToCustomRadio gr_id (customRadios s) CustomRadios pendingKeys\<rparr>"

definition put_merges :: "ShackMerges \<Rightarrow> ShackStore \<Rightarrow> ShackStore" where
  "put_merges m s = s\<lparr>radios := merged_or (radios s) (mg_radios m), antennas := merged_or (antennas s) (mg_antennas m),
     feedlines := merged_or (feedlines s) (mg_feedlines m), accessories := merged_or (accessories s) (mg_accessories m),
     stationPresets := merged_or (stationPresets s) (mg_presets m), inlineComponents := merged_or (inlineComponents s) (mg_inline m),
     stationChains := merged_or (stationChains s) (mg_chains m), customRadios := merged_or (customRadios s) (mg_customRadios m)\<rparr>"

definition removal_cascades :: "ShackMerges \<Rightarrow> (GearDeletionTable \<times> string list) list" where
  "removal_cascades m =
     [(UserRadios, removed_of (mg_radios m)), (Antennas, removed_of (mg_antennas m)), (Feedlines, removed_of (mg_feedlines m)),
      (Accessories, removed_of (mg_accessories m)), (InlineComponents, removed_of (mg_inline m)),
      (StationPresets, removed_of (mg_presets m)), (StationChains, removed_of (mg_chains m)),
      (CustomRadios, removed_of (mg_customRadios m))]"

definition ack_keys :: "ShackMerges \<Rightarrow> string list" where
  "ack_keys m = concat (map (\<lambda>(t, ds). pullAcknowledgementKeys t ds)
     [(UserRadios, removed_of (mg_radios m)), (Antennas, removed_of (mg_antennas m)), (Feedlines, removed_of (mg_feedlines m)),
      (Accessories, removed_of (mg_accessories m)), (StationPresets, removed_of (mg_presets m)),
      (InlineComponents, removed_of (mg_inline m)), (StationChains, removed_of (mg_chains m)),
      (CustomRadios, removed_of (mg_customRadios m))])"

definition history_stamps :: "EquipmentHistoryRow list option \<Rightarrow> int list" where
  "history_stamps rows = map hw_created_at (or_else rows [])"

definition shack_pull :: "int \<Rightarrow> ShackAnswers \<Rightarrow> string \<Rightarrow> ShackStore \<Rightarrow> (string + int option) \<times> ShackStore" where
  "shack_pull now q userId s =
     (case pull_errors q of
        e # _ \<Rightarrow> (Inl e, s)
      | [] \<Rightarrow>
          let m = merge_all (pendingGearDeletionKeys (pendingGearDeletions s) userId) q s;
              s1 = (put_merges m s)\<lparr>equipmentHistory := merge_history (rows_of (q_history q)) (equipmentHistory s)\<rparr>;
              s2 = apply_removals now (removal_cascades m) userId s1;
              acks = ack_keys m;
              s3 = (if acks \<noteq> [] then acknowledgeGearDeletions acks userId s2 else s2);
              stamps = stamps_of (mg_radios m) @ stamps_of (mg_antennas m) @ stamps_of (mg_feedlines m) @
                stamps_of (mg_accessories m) @ stamps_of (mg_presets m) @ stamps_of (mg_inline m) @ stamps_of (mg_chains m) @
                history_stamps (rows_of (q_history q)) @ stamps_of (mg_customRadios m)
          in (Inr (maxTimestamp stamps), s3))"

section \<open>Push\<close>

datatype ShackUpsert =
    UpRadios "UserRadio GearRow list"
  | UpAntennas "UserGear GearRow list"
  | UpFeedlines "UserGear GearRow list"
  | UpAccessories "UserAccessory GearRow list"
  | UpPresets "PresetRow list"
  | UpInline "UserGear GearRow list"
  | UpChains "StationChainRow list"
  | UpHistory "EquipmentHistoryRow list"
  | UpCustomRadios "RadioEquipment GearRow list"

fun upsert_name :: "ShackUpsert \<Rightarrow> string" where
  "upsert_name (UpRadios rs) = ''radios''"
| "upsert_name (UpAntennas rs) = ''antennas''"
| "upsert_name (UpFeedlines rs) = ''feedlines''"
| "upsert_name (UpAccessories rs) = ''accessories''"
| "upsert_name (UpPresets rs) = ''station presets''"
| "upsert_name (UpInline rs) = ''inline components''"
| "upsert_name (UpChains rs) = ''station chains''"
| "upsert_name (UpHistory rs) = ''equipment history''"
| "upsert_name (UpCustomRadios rs) = ''custom radios''"

definition upserts_of :: "int \<Rightarrow> ShackStore \<Rightarrow> ShackUpsert list" where
  \<comment> \<open>the tables that have items, in the order they are written\<close>
  "upserts_of now s =
     (if radios s \<noteq> [] then [UpRadios (map (radioToRow now) (radios s))] else []) @
     (if antennas s \<noteq> [] then [UpAntennas (map (antennaToRow now) (antennas s))] else []) @
     (if feedlines s \<noteq> [] then [UpFeedlines (map (feedlineToRow now) (feedlines s))] else []) @
     (if accessories s \<noteq> [] then [UpAccessories (map (accessoryToRow now) (accessories s))] else []) @
     (if stationPresets s \<noteq> [] then [UpPresets (map (presetToRow now) (stationPresets s))] else []) @
     (if inlineComponents s \<noteq> [] then [UpInline (map (inlineToRow now) (inlineComponents s))] else []) @
     (if stationChains s \<noteq> [] then [UpChains (map (chainToRow now) (stationChains s))] else []) @
     (if equipmentHistory s \<noteq> [] then [UpHistory (map historyToRow (equipmentHistory s))] else []) @
     (if customRadios s \<noteq> [] then [UpCustomRadios (map (customRadioToRow now) (customRadios s))] else [])"

fun do_upserts :: "(ShackUpsert \<Rightarrow> string option) \<Rightarrow> ShackUpsert list \<Rightarrow> string option" where
  "do_upserts up [] = None"
| "do_upserts up (u # us) =
     (case up u of
        Some e \<Rightarrow> Some (''Shack '' @ upsert_name u @ '' push failed: '' @ e)
      | None \<Rightarrow> do_upserts up us)"

definition shack_push ::
    "int \<Rightarrow> (PendingGearDeletion \<Rightarrow> string + nat) \<Rightarrow> (PendingGearDeletion \<Rightarrow> string + bool) \<Rightarrow> (ShackUpsert \<Rightarrow> string option) \<Rightarrow>
     string \<Rightarrow> ShackStore \<Rightarrow> string option \<times> ShackStore" where
  \<comment> \<open>the rows are built from the state before the acknowledgement\<close>
  "shack_push now upd verify up userId s =
     (case pushPendingGearDeletions upd verify userId (pendingGearDeletions s) of
        Inl e \<Rightarrow> (Some e, s)
      | Inr acks \<Rightarrow>
          let s1 = (if acks \<noteq> [] then acknowledgeGearDeletions acks userId s else s)
          in (do_upserts up (upserts_of now s), s1))"

section \<open>The world of one user\<close>

text \<open>
  The rows of the user at the service are a map per table: \<open>None\<close> when the row does not exist,
  else whether it is deleted. A row that is deleted stays deleted (the trigger
  \<open>reject_gear_tombstone_resurrection\<close> of the database refuses everything else, and an upsert
  does not write the column). The ids drawn so far on any device are remembered, and no device
  draws one twice.
\<close>

type_synonym gear_server = "GearDeletionTable \<Rightarrow> string \<Rightarrow> bool option"

record ShackWorld =
  w_store :: ShackStore
  w_server :: gear_server
  w_used :: "string set"

datatype push_answer = Updates | UpdatesNothing | UpdateFails | CheckFails

definition answer_update :: "gear_server \<Rightarrow> (PendingGearDeletion \<Rightarrow> push_answer) \<Rightarrow> PendingGearDeletion \<Rightarrow> string + nat" where
  "answer_update srv ans d =
     (case ans d of
        UpdateFails \<Rightarrow> Inl ''network''
      | Updates \<Rightarrow> Inr (if srv (gd_table d) (gd_recordId d) = None then 0 else 1)
      | _ \<Rightarrow> Inr 0)"

definition answer_check :: "gear_server \<Rightarrow> (PendingGearDeletion \<Rightarrow> push_answer) \<Rightarrow> PendingGearDeletion \<Rightarrow> string + bool" where
  "answer_check srv ans d =
     (if ans d = CheckFails then Inl ''network'' else Inr (srv (gd_table d) (gd_recordId d) \<noteq> None))"

definition tombstone :: "PendingGearDeletion \<Rightarrow> gear_server \<Rightarrow> gear_server" where
  "tombstone d srv = (\<lambda>t i. if t = gd_table d \<and> i = gd_recordId d \<and> srv t i \<noteq> None then Some True else srv t i)"

fun after_push :: "(PendingGearDeletion \<Rightarrow> push_answer) \<Rightarrow> PendingGearDeletion list \<Rightarrow> gear_server \<Rightarrow> gear_server" where
  \<comment> \<open>the updates that reach the service before a request fails\<close>
  "after_push ans [] srv = srv"
| "after_push ans (d # ds) srv =
     (case ans d of
        UpdateFails \<Rightarrow> srv
      | CheckFails \<Rightarrow> srv
      | Updates \<Rightarrow> after_push ans ds (tombstone d srv)
      | UpdatesNothing \<Rightarrow> after_push ans ds srv)"

definition after_upserts :: "GearDeletionTable set \<Rightarrow> ShackStore \<Rightarrow> gear_server \<Rightarrow> gear_server" where
  "after_upserts ts s srv = (\<lambda>t i. if t \<in> ts \<and> i \<in> inventory s t \<and> srv t i = None then Some False else srv t i)"

definition agrees :: "gear_server \<Rightarrow> GearDeletionTable \<Rightarrow> ('r TombstoneRow_scheme \<Rightarrow> string) \<Rightarrow>
    ('r TombstoneRow_scheme \<Rightarrow> 'g GearItem_scheme) \<Rightarrow> 'r TombstoneRow_scheme list option \<Rightarrow> bool" where
  \<comment> \<open>the rows are rows of the service, and a snapshot has the id of its row\<close>
  "agrees srv t getId toLocal rows \<longleftrightarrow>
     list_all (\<lambda>r. srv t (getId r) = Some (tr_deleted_at r \<noteq> None) \<and> gear_id (toLocal r) = getId r) (or_else rows [])"

definition answers_agree :: "gear_server \<Rightarrow> ShackAnswers \<Rightarrow> bool" where
  "answers_agree srv q \<longleftrightarrow>
     agrees srv UserRadios gr_id rowToRadio (rows_of (q_radios q)) \<and> agrees srv Antennas gr_id rowToAntenna (rows_of (q_antennas q)) \<and>
     agrees srv Feedlines gr_id rowToFeedline (rows_of (q_feedlines q)) \<and>
     agrees srv Accessories gr_id rowToAccessory (rows_of (q_accessories q)) \<and>
     agrees srv StationPresets pw_id rowToPreset (rows_of (q_presets q)) \<and>
     agrees srv InlineComponents gr_id rowToInline (rows_of (q_inline q)) \<and>
     agrees srv StationChains cw_id rowToChain (rows_of (q_chains q)) \<and>
     agrees srv CustomRadios gr_id rowToCustomRadio (rows_of (q_customRadios q))"

inductive shack_step :: "string \<Rightarrow> ShackWorld \<Rightarrow> ShackWorld \<Rightarrow> bool" for u where
  local_action: "cx_owner cx = u \<Longrightarrow> update_ok a \<Longrightarrow> fresh_id cx UserRadios \<notin> w_used w \<Longrightarrow> fresh_id cx CustomRadios \<notin> w_used w \<Longrightarrow>
    shack_step u w (w\<lparr>w_store := do_action cx a (w_store w),
      w_used := insert (fresh_id cx UserRadios) (insert (fresh_id cx CustomRadios) (w_used w))\<rparr>)"
| pull: "answers_agree (w_server w) q \<Longrightarrow> shack_step u w (w\<lparr>w_store := snd (shack_pull now q u (w_store w))\<rparr>)"
| push: "srv = after_push ans (filter (\<lambda>d. gd_ownerId d = u) (pendingGearDeletions (w_store w))) (w_server w) \<Longrightarrow>
    shack_step u w (w\<lparr>w_store := snd (shack_push now (answer_update (w_server w) ans) (answer_check (w_server w) ans) up u (w_store w)),
      w_server := after_upserts ts (w_store w) srv\<rparr>)"
| other_devices: "(\<And>t i. w_server w t i = Some True \<Longrightarrow> srv t i = Some True) \<Longrightarrow>
    (\<And>t i. srv t i = Some False \<Longrightarrow> w_server w t i = Some False \<or> i \<notin> w_used w) \<Longrightarrow> w_used w \<subseteq> used \<Longrightarrow>
    shack_step u w (w\<lparr>w_server := srv, w_used := used\<rparr>)"

section \<open>Pulls and deleted items\<close>

lemma merge_ids:
  assumes "agrees srv t g toLocal rows" "i \<in> set (ids (merged_or xs (mergeGearPullRows rows toLocal g xs t K)))"
  shows "(srv t i = Some False \<and> gearDeletionKey t i \<notin> K) \<or>
    (i \<in> set (ids xs) \<and> i \<notin> set (removed_of (mergeGearPullRows rows toLocal g xs t K)))"
proof (cases "rows = None \<or> rows = Some []")
  case True
  then show ?thesis using assms(2) by (auto simp: merge_result merged_or_def removed_of_def)
next
  case False
  then obtain rs where r: "rows = Some rs" "rs \<noteq> []" by auto
  then show ?thesis
    using assms by (auto simp: merge_result merged_or_def removed_of_def Let_def set_ids agrees_def or_else_def list_all_iff)
qed

lemma removed_deleted:
  assumes "agrees srv t g toLocal rows" "i \<in> set (removed_of (mergeGearPullRows rows toLocal g xs t K))"
  shows "srv t i = Some True"
  using assms by (auto simp: merge_result removed_of_def agrees_def or_else_def list_all_iff Let_def split: option.splits if_splits)

definition removed_at :: "ShackMerges \<Rightarrow> GearDeletionTable \<Rightarrow> string list" where
  "removed_at m t = (case t of UserRadios \<Rightarrow> removed_of (mg_radios m) | Antennas \<Rightarrow> removed_of (mg_antennas m)
     | Feedlines \<Rightarrow> removed_of (mg_feedlines m) | Accessories \<Rightarrow> removed_of (mg_accessories m)
     | StationPresets \<Rightarrow> removed_of (mg_presets m) | InlineComponents \<Rightarrow> removed_of (mg_inline m)
     | StationChains \<Rightarrow> removed_of (mg_chains m) | CustomRadios \<Rightarrow> removed_of (mg_customRadios m))"

lemma removed_at_simps [simp]:
  "removed_at m UserRadios = removed_of (mg_radios m)" "removed_at m Antennas = removed_of (mg_antennas m)"
  "removed_at m Feedlines = removed_of (mg_feedlines m)" "removed_at m Accessories = removed_of (mg_accessories m)"
  "removed_at m StationPresets = removed_of (mg_presets m)" "removed_at m InlineComponents = removed_of (mg_inline m)"
  "removed_at m StationChains = removed_of (mg_chains m)" "removed_at m CustomRadios = removed_of (mg_customRadios m)"
  by (simp_all add: removed_at_def)

lemma ack_keys_removed: "gearDeletionKey t i \<in> set (ack_keys m) \<longleftrightarrow> i \<in> set (removed_at m t)"
  by (cases t) (auto simp: ack_keys_def pullAcknowledgementKeys_def key_inj)

lemma merged_inventory:
  assumes "answers_agree srv q" "i \<in> inventory (put_merges (merge_all K q s) s) t"
  shows "(srv t i = Some False \<and> gearDeletionKey t i \<notin> K) \<or> (i \<in> inventory s t \<and> i \<notin> set (removed_at (merge_all K q s) t))"
  using assms by (cases t) (auto simp: answers_agree_def put_merges_def merge_all_def dest: merge_ids)

lemma merge_removed:
  assumes "answers_agree srv q" "i \<in> set (removed_at (merge_all K q s) t)"
  shows "srv t i = Some True"
  using assms by (cases t) (auto simp: answers_agree_def merge_all_def dest: removed_deleted)

lemma removal_shrinks: "inventory (applyGearRemoval now t ds u s) t' \<subseteq> inventory s t'"
proof -
  obtain p q where "ids (ca_stationPresets (applyGearRemovalCascade t ds (cascade_of (radios s) s))) = ids (filter p (stationPresets s))"
    "ca_radios (applyGearRemovalCascade t ds (cascade_of (radios s) s)) = filter q (radios s)"
    using cascade_ids[of t ds "cascade_of (radios s) s"] by auto
  moreover have "ids (ca_stationChains (applyGearRemovalCascade t ds (cascade_of (radios s) s))) = ids (stationChains s)"
    using cascade_tables(2)[of "cascade_of (radios s) s" t ds] by simp
  ultimately show ?thesis
    by (cases t') (auto simp: applyGearRemoval_def Let_def put_cascade_def set_ids)
qed

lemma removals_shrink: "inventory (apply_removals now rs u s) t \<subseteq> inventory s t"
  unfolding apply_removals_def
proof (induction rs arbitrary: s)
  case (Cons r rs)
  obtain t' ds where r: "r = (t', ds)" by force
  let ?s = "if ds \<noteq> [] then applyGearRemoval now t' ds u s else s"
  have "inventory ?s t \<subseteq> inventory s t" using removal_shrinks by simp
  from subset_trans[OF Cons.IH[of ?s] this] show ?case by (simp add: r)
qed simp

lemma removals_queue: "queued (pendingGearDeletions s) u' t i \<Longrightarrow> queued (pendingGearDeletions (apply_removals now rs u s)) u' t i"
  unfolding apply_removals_def
proof (induction rs arbitrary: s)
  case (Cons r rs)
  obtain t' ds where "r = (t', ds)" by force
  then show ?case using Cons by (auto simp: removal_pending_applied)
qed simp

lemma inventory_history [simp]: "inventory (s\<lparr>equipmentHistory := h\<rparr>) t = inventory s t"
  by (cases t) simp_all

lemma inventory_pending [simp]: "inventory (s\<lparr>pendingGearDeletions := p\<rparr>) t = inventory s t"
  by (cases t) simp_all

lemma inventory_ack [simp]: "inventory (acknowledgeGearDeletions ks u s) t = inventory s t"
  by (cases t) (simp_all add: acknowledgeGearDeletions_def)

lemma pull_inventory:
  assumes "answers_agree srv q" "i \<in> inventory (snd (shack_pull now q u s)) t"
  shows "(srv t i = Some False \<and> \<not> queued (pendingGearDeletions s) u t i) \<or> i \<in> inventory s t"
proof (cases "pull_errors q")
  case Nil
  let ?m = "merge_all (pendingGearDeletionKeys (pendingGearDeletions s) u) q s"
  have "i \<in> inventory (put_merges ?m s) t"
    using assms(2) Nil removals_shrink by (fastforce simp: shack_pull_def Let_def split: if_splits)
  from merged_inventory[OF assms(1) this] show ?thesis by (auto simp: pending_key_queued)
qed (use assms(2) in \<open>simp add: shack_pull_def\<close>)

lemma pull_queue:
  assumes "answers_agree srv q" "queued (pendingGearDeletions s) u t i"
  shows "queued (pendingGearDeletions (snd (shack_pull now q u s))) u t i \<or> srv t i = Some True"
proof (cases "pull_errors q")
  case Nil
  let ?m = "merge_all (pendingGearDeletionKeys (pendingGearDeletions s) u) q s"
  have "queued (pendingGearDeletions (apply_removals now (removal_cascades ?m) u
      ((put_merges ?m s)\<lparr>equipmentHistory := merge_history (rows_of (q_history q)) (equipmentHistory s)\<rparr>))) u t i"
    using assms(2) by (intro removals_queue) (simp add: put_merges_def)
  then show ?thesis
    using Nil merge_removed[OF assms(1)] by (auto simp: shack_pull_def Let_def acknowledgeGearDeletions_def queued_removed ack_keys_removed)
qed (use assms(2) in \<open>simp add: shack_pull_def\<close>)

section \<open>Pushes and deleted items\<close>

lemma push_loop_answered:
  "push_loop upd verify ds acc = Inr acks \<Longrightarrow> d \<in> set ds \<Longrightarrow> \<not> isl (upd d) \<and> (projr (upd d) > 0 \<or> \<not> isl (verify d))"
proof (induction ds arbitrary: acc)
  case (Cons e ds)
  then show ?case unfolding push_loop_step by auto
qed simp

lemma push_answered:
  assumes "pushPendingGearDeletions (answer_update srv ans) (answer_check srv ans) u pending = Inr acks"
  shows "list_all (\<lambda>d. ans d = Updates \<or> ans d = UpdatesNothing) (filter (\<lambda>d. gd_ownerId d = u) pending)"
proof (cases "filter (\<lambda>d. gd_ownerId d = u) pending = []")
  case False
  then have l: "push_loop (answer_update srv ans) (answer_check srv ans) (filter (\<lambda>d. gd_ownerId d = u) pending) [] = Inr acks"
    using assms by (simp add: pushPendingGearDeletions_def)
  show ?thesis unfolding list_all_iff
  proof
    fix d assume "d \<in> set (filter (\<lambda>d. gd_ownerId d = u) pending)"
    from push_loop_answered[OF l this] show "ans d = Updates \<or> ans d = UpdatesNothing"
      by (cases "ans d") (auto simp: answer_update_def answer_check_def)
  qed
qed simp

lemma after_push_none: "srv t i = None \<Longrightarrow> after_push ans ds srv t i = None"
  by (induction ds arbitrary: srv) (auto simp: tombstone_def split: push_answer.split)

lemma after_push_deleted: "srv t i = Some True \<Longrightarrow> after_push ans ds srv t i = Some True"
  by (induction ds arbitrary: srv) (auto simp: tombstone_def split: push_answer.split)

lemma after_push_not_active: "srv t i \<noteq> Some False \<Longrightarrow> after_push ans ds srv t i \<noteq> Some False"
  using after_push_none[of srv t i ans ds] after_push_deleted[of srv t i ans ds] by (cases "srv t i") auto

lemma after_push_updated:
  "list_all (\<lambda>d. ans d = Updates \<or> ans d = UpdatesNothing) ds \<Longrightarrow> d \<in> set ds \<Longrightarrow> ans d = Updates \<Longrightarrow>
     after_push ans ds srv (gd_table d) (gd_recordId d) \<noteq> Some False"
proof (induction ds arbitrary: srv)
  case (Cons e ds)
  show ?case
  proof (cases "d = e")
    case True
    have "tombstone d srv (gd_table d) (gd_recordId d) \<noteq> Some False" by (simp add: tombstone_def)
    then show ?thesis using True Cons.prems(3) after_push_not_active by simp
  next
    case False
    then show ?thesis using Cons by auto
  qed
qed simp

lemma after_upserts_not_active: "srv t i \<noteq> Some False \<Longrightarrow> i \<notin> inventory s t \<Longrightarrow> after_upserts ts s srv t i \<noteq> Some False"
  by (simp add: after_upserts_def)

lemma inventory_push [simp]: "inventory (snd (shack_push now upd ver up u s)) t = inventory s t"
  by (auto simp: shack_push_def Let_def split: sum.split)

lemma push_keeps_or_deletes:
  assumes "queued (pendingGearDeletions s) u t i"
  shows "queued (pendingGearDeletions (snd (shack_push now (answer_update srv ans) (answer_check srv ans) up u s))) u t i \<or>
    after_push ans (filter (\<lambda>d. gd_ownerId d = u) (pendingGearDeletions s)) srv t i \<noteq> Some False"
proof (cases "pushPendingGearDeletions (answer_update srv ans) (answer_check srv ans) u (pendingGearDeletions s)")
  case (Inr acks)
  show ?thesis
  proof (cases "gearDeletionKey t i \<in> set acks")
    case True
    then obtain d where d: "d \<in> set (pendingGearDeletions s)" "gd_ownerId d = u" "push_done (answer_update srv ans) (answer_check srv ans) d"
      "gd_table d = t" "gd_recordId d = i"
      unfolding push_result[OF Inr] by (auto simp: key_inj)
    have "ans d = Updates \<or> srv t i = None"
      using d(3-5) by (auto simp: push_done_def answer_update_def answer_check_def split: push_answer.splits if_splits)
    then show ?thesis
      using after_push_updated[OF push_answered[OF Inr], of d srv] d after_push_none[of srv t i] by auto
  next
    case False
    then show ?thesis using assms Inr by (simp add: shack_push_def Let_def acknowledgeGearDeletions_def queued_removed)
  qed
qed (use assms in \<open>simp add: shack_push_def\<close>)

section \<open>Local actions and deleted items\<close>

lemma action_inventory:
  assumes "update_ok a" "i \<noteq> fresh_id cx t"
  shows "i \<in> inventory (do_action cx a s) t \<Longrightarrow> i \<in> inventory s t"
  using action_kept[OF assms(1), of t cx s] assms(2) by (auto simp: kept_def table_set)

lemma action_queue: "queued (pendingGearDeletions s) u t i \<Longrightarrow> queued (pendingGearDeletions (do_action cx a s)) u t i"
proof (cases a)
  case (ActRemove t i)
  then show "queued (pendingGearDeletions s) u t' i' \<Longrightarrow> queued (pendingGearDeletions (do_action cx a s)) u t' i'" for t' i'
    by (simp add: removal_pending)
qed (auto simp: action_defs Let_def updateCustomRadio_def addFeedlineRun_def edit_chain_def addNodeToChain_def
    removeNodeFromChain_def reorderChainNodes_def swapNodeEquipment_def updateFeedlineRun_def put_image_def edit_gallery_def
    setEquipmentImage_def clearEquipmentImage_def addGalleryImage_def removeGalleryImage_def
    split: option.split sum.split image_kind.split gallery_kind.split)

definition stays_deleted :: "string \<Rightarrow> GearDeletionTable \<Rightarrow> string \<Rightarrow> ShackWorld \<Rightarrow> bool" where
  "stays_deleted u t i w \<longleftrightarrow> i \<in> w_used w \<and> i \<notin> inventory (w_store w) t \<and>
     (queued (pendingGearDeletions (w_store w)) u t i \<or> w_server w t i \<noteq> Some False)"

lemma step_stays_deleted: "shack_step u w w' \<Longrightarrow> stays_deleted u t i w \<Longrightarrow> stays_deleted u t i w'"
proof (induction rule: shack_step.induct)
  case (local_action cx a w)
  then have "i \<noteq> fresh_id cx t" by (auto simp: stays_deleted_def fresh_id_def split: if_splits)
  then show ?case using local_action action_inventory[of a i cx t] action_queue by (auto simp: stays_deleted_def)
next
  case (pull w q now)
  then show ?case
    using pull_inventory[OF pull(1), of i now u "w_store w" t] pull_queue[OF pull(1), of "w_store w" u t i now]
    by (auto simp: stays_deleted_def)
next
  case (push srv ans w ts now up)
  then show ?case
    using push_keeps_or_deletes[of "w_store w" u t i now "w_server w" ans up] after_push_not_active[of "w_server w" t i ans]
      after_upserts_not_active[of srv t i "w_store w" ts]
    by (auto simp: stays_deleted_def)
next
  case (other_devices w srv used)
  then show ?case by (auto simp: stays_deleted_def)
qed

section \<open>References after a pull\<close>

lemma removals_references:
  "ok_but gone s \<Longrightarrow> distinct (map fst rs) \<Longrightarrow> \<forall>(t, ds) \<in> set rs. gone t = set ds \<and> inventory s t \<inter> set ds = {} \<Longrightarrow>
     ok_but (\<lambda>t. if t \<in> fst ` set rs then {} else gone t) (apply_removals now rs u s)"
proof (induction rs arbitrary: gone s)
  case (Cons r rs)
  obtain t ds where r: "r = (t, ds)" by force
  define s' where "s' = (if ds \<noteq> [] then applyGearRemoval now t ds u s else s)"
  have "ok_but (gone(t := {})) s'"
  proof (cases "ds = []")
    case True
    then have "gone(t := {}) = gone" using Cons.prems(3) by (auto simp: r fun_upd_idem_iff)
    then show ?thesis using True Cons.prems(1) by (simp add: s'_def)
  next
    case False
    then show ?thesis using tombstone_step[OF Cons.prems(1), of t ds now u] Cons.prems(3) by (simp add: s'_def r)
  qed
  moreover have shrink: "inventory s' t' \<subseteq> inventory s t'" for t' by (simp add: s'_def removal_shrinks)
  have "(gone(t := {})) t' = set ds' \<and> inventory s' t' \<inter> set ds' = {}" if p: "(t', ds') \<in> set rs" for t' ds'
  proof -
    have "t' \<noteq> t" using Cons.prems(2) p by (force simp: r)
    moreover have "gone t' = set ds' \<and> inventory s t' \<inter> set ds' = {}" using Cons.prems(3) p by auto
    ultimately show ?thesis using shrink[of t'] by auto
  qed
  then have "\<forall>(t', ds) \<in> set rs. (gone(t := {})) t' = set ds \<and> inventory s' t' \<inter> set ds = {}" by blast
  moreover have "distinct (map fst rs)" using Cons.prems(2) by simp
  ultimately have "ok_but (\<lambda>t'. if t' \<in> fst ` set rs then {} else (gone(t := {})) t') (apply_removals now rs u s')"
    by (intro Cons.IH[of "gone(t := {})" s'])
  moreover have "apply_removals now (r # rs) u s = apply_removals now rs u s'"
    by (simp add: apply_removals_def r s'_def)
  moreover have "(\<lambda>t'. if t' \<in> fst ` set rs then {} else (gone(t := {})) t') = (\<lambda>t'. if t' \<in> fst ` set (r # rs) then {} else gone t')"
    by (rule ext) (simp add: r)
  ultimately show ?case by simp
qed (simp add: apply_removals_def)

lemma all_tables: "t \<in> fst ` set (removal_cascades m)"
  by (cases t) (simp_all add: removal_cascades_def)

lemma cascades_at: "(t, ds) \<in> set (removal_cascades m) \<Longrightarrow> ds = removed_at m t"
  by (auto simp: removal_cascades_def)

lemma distinct_cascades: "distinct (map fst (removal_cascades m))"
  by (simp add: removal_cascades_def)

lemma inventory_others:
  "inventory (s\<lparr>equipmentHistory := h\<rparr>) = inventory s"
  "inventory (s\<lparr>pendingGearDeletions := p\<rparr>) = inventory s"
  by (rule ext, simp)+

lemma references_history: "references_ok (s\<lparr>equipmentHistory := h\<rparr>) = references_ok s" "ok_but gone (s\<lparr>equipmentHistory := h\<rparr>) = ok_but gone s"
  by (simp_all add: references_ok_def ok_but_def cascade_of_def inventory_others)

lemma references_ack: "references_ok (acknowledgeGearDeletions ks u s) = references_ok s"
  by (simp add: references_ok_def cascade_of_def acknowledgeGearDeletions_def inventory_others)

lemma removal_others: "antennas (applyGearRemoval now t ds u s) = antennas s" "equipmentHistory (applyGearRemoval now t ds u s) = equipmentHistory s"
  by (simp_all add: applyGearRemoval_def Let_def put_cascade_def)

lemma removals_others:
  "antennas (apply_removals now rs u s) = antennas s \<and> equipmentHistory (apply_removals now rs u s) = equipmentHistory s"
  unfolding apply_removals_def by (induction rs arbitrary: s) (auto simp: removal_others)

lemmas removals_antennas = removals_others[THEN conjunct1]
lemmas removals_history = removals_others[THEN conjunct2]

lemma acknowledge_history:
  "equipmentHistory (acknowledgeGearDeletions ks u s) = equipmentHistory s" "antennas (acknowledgeGearDeletions ks u s) = antennas s"
  by (simp_all add: acknowledgeGearDeletions_def)

lemma newest_first: "sorted_wrt (\<lambda>a b. eh_timestamp b \<le> eh_timestamp a) (sort_key (\<lambda>h. - eh_timestamp h) hs)"
  using sorted_sort_key[of "\<lambda>h. - eh_timestamp h" hs] by (simp add: sorted_map)

definition empty_answers :: ShackAnswers where
  "empty_answers = \<lparr>q_radios = Inr None, q_antennas = Inr None, q_feedlines = Inr None, q_accessories = Inr None,
     q_presets = Inr None, q_inline = Inr None, q_chains = Inr None, q_history = Inr None, q_customRadios = Inr None\<rparr>"

definition dipole_row :: "UserGear GearRow" where
  "dipole_row = \<lparr>tr_updated_at = 3, tr_deleted_at = None, gr_id = ''a1'', gr_created_at = 0, gr_col = Map.empty,
     gr_snapshot = Some \<lparr>gear_id = ''a1'', ge_name = ''Dipole'', ge_imageId = None, ge_galleryImageIds = None, ge_addedAt = 0,
       ge_other = Map.empty\<rparr>\<rparr>"

section \<open>Properties\<close>

text \<open>
  C2: A deleted item stays deleted. Once the signed-in user has removed an item, no sequence of
  local actions, pulls and pushes of the device (each an atomic step, with any of its requests
  failing) and of changes by the user's other devices brings it back into the device's store; and as long as
  the service still has it undeleted, its deletion is queued.
\<close>

theorem deleted_gear_stays_deleted:
  assumes "cx_owner cx = u" "i \<in> w_used w"
    "(shack_step u)\<^sup>*\<^sup>* (w\<lparr>w_store := remove_gear cx t i (w_store w)\<rparr>) w'"
  shows "i \<notin> inventory (w_store w') t \<and>
    (queued (pendingGearDeletions (w_store w')) u t i \<or> w_server w' t i \<noteq> Some False)"
proof -
  have "stays_deleted u t i (w\<lparr>w_store := remove_gear cx t i (w_store w)\<rparr>)"
    using assms(1,2) removal_gone[of i cx t "w_store w"] by (simp add: stays_deleted_def removal_pending lost_def)
  with assms(3) have "stays_deleted u t i w'"
    by (induction rule: rtranclp_induct) (auto intro: step_stays_deleted)
  then show ?thesis by (simp add: stays_deleted_def)
qed

theorem deleted_gear_stays_deleted_witness:
  "''r1'' \<notin> inventory (snd (shack_pull 7 (empty_answers\<lparr>q_antennas := Inr (Some [dipole_row])\<rparr>) ''op''
     (remove_gear example_context UserRadios ''r1'' example_shack))) UserRadios"
proof -
  let ?w = "\<lparr>w_store = example_shack, w_server = (\<lambda>t i. Some False), w_used = {''r1''}\<rparr>"
  let ?q = "empty_answers\<lparr>q_antennas := Inr (Some [dipole_row])\<rparr>"
  let ?s = "remove_gear example_context UserRadios ''r1'' (w_store ?w)"
  have "shack_step ''op'' (?w\<lparr>w_store := ?s\<rparr>) ((?w\<lparr>w_store := ?s\<rparr>)\<lparr>w_store := snd (shack_pull 7 ?q ''op'' (w_store (?w\<lparr>w_store := ?s\<rparr>)))\<rparr>)"
    by (rule shack_step.pull) (simp add: empty_answers_def dipole_row_def answers_agree_def agrees_def rows_of_def or_else_def rowToAntenna_def)
  from deleted_gear_stays_deleted[of example_context "''op''" "''r1''" ?w UserRadios, OF _ _ r_into_rtranclp[of "shack_step ''op''", OF this]]
  show ?thesis by (simp add: example_context_def)
qed

text \<open>
  C12: A pull keeps the shack referentially intact. If the merged tables refer only to existing
  items and to items the service reports as deleted in this pull, the cleanup that follows
  removes exactly those references: afterwards everything refers to existing items.
\<close>

theorem pull_keeps_references:
  assumes "pull_errors q = []" "answers_agree srv q"
    "ok_but (\<lambda>t. set (removed_at (merge_all (pendingGearDeletionKeys (pendingGearDeletions s) u) q s) t))
      (put_merges (merge_all (pendingGearDeletionKeys (pendingGearDeletions s) u) q s) s)"
  shows "references_ok (snd (shack_pull now q u s))"
proof -
  let ?m = "merge_all (pendingGearDeletionKeys (pendingGearDeletions s) u) q s"
  let ?s = "(put_merges ?m s)\<lparr>equipmentHistory := merge_history (rows_of (q_history q)) (equipmentHistory s)\<rparr>"
  have "inventory ?s t \<inter> set (removed_at ?m t) = {}" for t
    using merged_inventory[OF assms(2)] merge_removed[OF assms(2)] by fastforce
  then have "\<forall>(t, ds) \<in> set (removal_cascades ?m). set (removed_at ?m t) = set ds \<and> inventory ?s t \<inter> set ds = {}"
    by (auto dest!: cascades_at)
  from removals_references[OF _ distinct_cascades this, of now u]
  have "ok_but (\<lambda>t. {}) (apply_removals now (removal_cascades ?m) u ?s)"
    using assms(3) by (simp add: all_tables references_history)
  then show ?thesis
    using assms(1) by (simp add: shack_pull_def Let_def ok_but_none references_ack)
qed

theorem pull_keeps_references_witness:
  "references_ok (snd (shack_pull 7 (empty_answers\<lparr>q_radios := Inr (Some [\<lparr>tr_updated_at = 3, tr_deleted_at = Some 3, gr_id = ''r1'',
     gr_created_at = 0, gr_col = Map.empty, gr_snapshot = None\<rparr>])\<rparr>) ''op'' example_shack))"
proof (rule pull_keeps_references[where srv = "\<lambda>t i. Some (t = UserRadios)"])
  have gone: "removed_at (merge_all K q example_shack) t = (if t = UserRadios then [''r1''] else [])"
    if "q = empty_answers\<lparr>q_radios := Inr (Some [\<lparr>tr_updated_at = 3, tr_deleted_at = Some 3, gr_id = ''r1'',
      gr_created_at = 0, gr_col = Map.empty, gr_snapshot = None\<rparr>])\<rparr>" for K q t
    by (cases t) (simp_all add: that merge_all_def empty_answers_def rows_of_def merge_result removed_of_def)
  show "ok_but (\<lambda>t. set (removed_at (merge_all (pendingGearDeletionKeys (pendingGearDeletions example_shack) ''op'')
      (empty_answers\<lparr>q_radios := Inr (Some [\<lparr>tr_updated_at = 3, tr_deleted_at = Some 3, gr_id = ''r1'',
        gr_created_at = 0, gr_col = Map.empty, gr_snapshot = None\<rparr>])\<rparr>) example_shack) t))
    (put_merges (merge_all (pendingGearDeletionKeys (pendingGearDeletions example_shack) ''op'')
      (empty_answers\<lparr>q_radios := Inr (Some [\<lparr>tr_updated_at = 3, tr_deleted_at = Some 3, gr_id = ''r1'',
        gr_created_at = 0, gr_col = Map.empty, gr_snapshot = None\<rparr>])\<rparr>) example_shack) example_shack)"
    by (simp add: gone ok_but_def cascade_ok_def put_merges_def merge_all_def empty_answers_def rows_of_def merge_result
        merged_or_def removed_of_def example_shack_def new_shack_def preset_ok_def chain_ok_def run_ok_def ids_def or_else_def cascade_of_def)
qed (simp_all add: empty_answers_def pull_errors_def query_error_def answers_agree_def agrees_def rows_of_def or_else_def
    rowToRadio_def)

text \<open>
  C27: An item removed while no user is signed in comes back. Its deletion is queued under the
  empty owner, which is no user's: as long as the service has the row undeleted, the first
  pull after signing in that reads the row puts the antenna back into the store.
\<close>

theorem signed_out_deletion_undone:
  assumes "cx_owner cx = []" "u \<noteq> []" "\<not> queued (pendingGearDeletions s) u Antennas i"
    "pull_errors q = []" "answers_agree srv q" "row \<in> set (or_else (rows_of (q_antennas q)) [])" "gr_id row = i"
    "tr_deleted_at row = None"
  shows "i \<notin> inventory (remove_gear cx Antennas i s) Antennas \<and>
    i \<in> inventory (snd (shack_pull now q u (remove_gear cx Antennas i s))) Antennas"
proof -
  let ?s = "remove_gear cx Antennas i s"
  let ?m = "merge_all (pendingGearDeletionKeys (pendingGearDeletions ?s) u) q ?s"
  have nq: "\<not> queued (pendingGearDeletions ?s) u Antennas i"
    using assms(1-3) unfolding removal_pending by simp
  obtain rows where r: "rows_of (q_antennas q) = Some rows" "row \<in> set rows"
    using assms(6) by (cases "rows_of (q_antennas q)") (auto simp: or_else_def)
  then have "rows \<noteq> []" by auto
  have "gear_id (rowToAntenna row) = i"
    using assms(5,7) r by (auto simp: answers_agree_def agrees_def or_else_def list_all_iff)
  then have "i \<in> inventory (put_merges ?m ?s) Antennas"
    using r \<open>rows \<noteq> []\<close> assms(7,8) nq
    by (auto simp: put_merges_def merge_all_def merge_result Let_def merged_or_def set_ids pending_key_queued intro!: image_eqI)
  then show ?thesis
    using assms(4) removal_gone[of i cx Antennas s] by (simp add: shack_pull_def Let_def removals_antennas lost_def acknowledge_history)
qed

theorem signed_out_deletion_undone_witness:
  "''a1'' \<in> inventory (snd (shack_pull 7 (empty_answers\<lparr>q_antennas := Inr (Some [dipole_row])\<rparr>) ''op''
     (remove_gear (example_context\<lparr>cx_owner := []\<rparr>) Antennas ''a1'' (example_shack\<lparr>antennas := [rowToAntenna dipole_row]\<rparr>)))) Antennas"
proof (rule signed_out_deletion_undone[where srv = "\<lambda>t i. Some False" and row = dipole_row, THEN conjunct2])
qed (simp_all add: empty_answers_def dipole_row_def example_shack_def new_shack_def queued_def pull_errors_def query_error_def
    answers_agree_def agrees_def rows_of_def or_else_def rowToAntenna_def)

text \<open>
  C28: After a pull that fills the equipment history, the next event drops the newest entry and not
  the oldest: the pull leaves the history newest first, and the store keeps the last 200.
\<close>

theorem pulled_history_drops_newest:
  assumes "pull_errors q = []" "rows_of (q_history q) = Some rows" "rows \<noteq> []"
    "h = equipmentHistory (snd (shack_pull now q u s))" "length h = 200"
  shows "(\<forall>e \<in> set h. eh_timestamp e \<le> eh_timestamp (hd h)) \<and>
    equipmentHistory (addHistoryEntry uuid later a ty i n d (snd (shack_pull now q u s))) =
      tl h @ [\<lparr>eh_id = uuid, eh_timestamp = later, eh_action = a, eh_equipmentType = ty,
        eh_equipmentId = i, eh_equipmentName = n, eh_details = d\<rparr>]"
proof -
  have "h = merge_history (Some rows) (equipmentHistory s)"
    using assms(1,2,4) by (simp add: shack_pull_def Let_def removals_history acknowledge_history)
  then have "sorted_wrt (\<lambda>a b. eh_timestamp b \<le> eh_timestamp a) h"
    using assms(3) by (simp add: merge_history_def Let_def newest_first sorted_wrt_take)
  moreover obtain x xs where "h = x # xs" using assms(5) by (cases h) auto
  ultimately show ?thesis
    using assms(5) unfolding assms(4)[symmetric] by (auto simp: addHistoryEntry_def Let_def assms(4)[symmetric])
qed

definition history_answers :: ShackAnswers where
  "history_answers = empty_answers\<lparr>q_history := Inr (Some (replicate 200 \<lparr>hw_id = ''h'', hw_timestamp = 5, hw_action = Added,
     hw_equipment_type = EqRadio, hw_equipment_id = ''r1'', hw_equipment_name = ''Kit'', hw_details = None, hw_created_at = 5\<rparr>))\<rparr>"

theorem pulled_history_drops_newest_witness:
  "equipmentHistory (addHistoryEntry ''e'' 9 Removed EqRadio ''r1'' ''Kit'' None (snd (shack_pull 7 history_answers ''op'' new_shack))) =
     tl (equipmentHistory (snd (shack_pull 7 history_answers ''op'' new_shack))) @
       [\<lparr>eh_id = ''e'', eh_timestamp = 9, eh_action = Removed, eh_equipmentType = EqRadio,
         eh_equipmentId = ''r1'', eh_equipmentName = ''Kit'', eh_details = None\<rparr>]"
proof (rule pulled_history_drops_newest[THEN conjunct2, OF _ _ _ refl])
  show "pull_errors history_answers = []" by (simp add: pull_errors_def query_error_def history_answers_def empty_answers_def)
  show "rows_of (q_history history_answers) = Some (replicate 200 \<lparr>hw_id = ''h'', hw_timestamp = 5, hw_action = Added,
     hw_equipment_type = EqRadio, hw_equipment_id = ''r1'', hw_equipment_name = ''Kit'', hw_details = None, hw_created_at = 5\<rparr>)"
    by (simp add: rows_of_def history_answers_def)
  then show "length (equipmentHistory (snd (shack_pull 7 history_answers ''op'' new_shack))) = 200"
    using \<open>pull_errors history_answers = []\<close>
    by (simp add: shack_pull_def Let_def removals_history acknowledge_history merge_history_def new_shack_def)
qed simp

end
