(* ===== verification/JsNumber.thy ===== *)
theory JsNumber
  imports TextOps
begin

text \<open>
  Numbers in texts: \<open>Number.parseInt(s, 10)\<close>, \<open>Number.parseFloat(s)\<close> and \<open>x.toFixed(f)\<close>. A
  finite number is the rational it denotes, so the reading of a decimal text is exact; \<open>toFixed\<close>
  is the one of numbers below 10 to the 21, the only ones the callers have.
\<close>

section \<open>Reading\<close>

datatype js_number = NaN | Infinite bool | Finite rat

definition isFinite :: "js_number \<Rightarrow> bool" where
  "isFinite x \<longleftrightarrow> (case x of Finite _ \<Rightarrow> True | _ \<Rightarrow> False)"

definition signed_text :: "string \<Rightarrow> bool \<times> string" where
  \<comment> \<open>whether a minus sign leads, and the text after the sign\<close>
  "signed_text s = (case s of [] \<Rightarrow> (False, [])
     | c # r \<Rightarrow> if c = CHR ''-'' then (True, r) else if c = CHR ''+'' then (False, r) else (False, s))"

definition parse_int :: "string \<Rightarrow> int option" where
  \<comment> \<open>\<open>None\<close> is \<open>NaN\<close>\<close>
  "parse_int s =
     (let (neg, r) = signed_text (dropWhile isSpace s); ds = takeWhile isDigit r
      in if ds = [] then None else Some ((if neg then -1 else 1) * int (digits_value ds)))"

definition exponent_text :: "string \<Rightarrow> int" where
  \<comment> \<open>the exponent part at the start of a text, 0 when there is none\<close>
  "exponent_text s = (case s of [] \<Rightarrow> 0
     | c # r \<Rightarrow> if c \<noteq> CHR ''e'' \<and> c \<noteq> CHR ''E'' then 0
         else let (neg, r') = signed_text r; ds = takeWhile isDigit r'
              in (if neg then -1 else 1) * int (digits_value ds))"

definition fraction_text :: "string \<Rightarrow> string \<times> string" where
  \<comment> \<open>the digits after a decimal point, and the text after them\<close>
  "fraction_text s = (case s of [] \<Rightarrow> ([], [])
     | c # r \<Rightarrow> if c = CHR ''.'' then (takeWhile isDigit r, dropWhile isDigit r) else ([], s))"

definition scale10 :: "int \<Rightarrow> rat \<Rightarrow> rat" where
  "scale10 e x = (if e \<ge> 0 then x * 10 ^ nat e else x / 10 ^ nat (- e))"

definition parse_float :: "string \<Rightarrow> js_number" where
  "parse_float s =
     (let (neg, r) = signed_text (dropWhile isSpace s);
          ds = takeWhile isDigit r;
          (fs, rest) = fraction_text (dropWhile isDigit r);
          x = (of_nat (digits_value ds) + of_nat (digits_value fs) / 10 ^ length fs :: rat)
      in if take 8 r = ''Infinity'' then Infinite neg
         else if ds = [] \<and> fs = [] then NaN
         else Finite (scale10 (exponent_text rest) ((if neg then -1 else 1) * x)))"

section \<open>Writing\<close>

definition fixed_digits :: "nat \<Rightarrow> nat \<Rightarrow> string" where
  \<comment> \<open>the number \<open>n\<close> of the last place, with \<open>f\<close> places after the point\<close>
  "fixed_digits f n =
     (if f = 0 then nat_text n
      else let ds = padStart (Suc f) CHR ''0'' (nat_text n)
           in take (length ds - f) ds @ ''.'' @ drop (length ds - f) ds)"

definition toFixed :: "nat \<Rightarrow> rat \<Rightarrow> string" where
  "toFixed f x =
     (if x < 0 then ''-'' @ fixed_digits f (nat \<lfloor>- x * 10 ^ f + 1 / 2\<rfloor>)
      else fixed_digits f (nat \<lfloor>x * 10 ^ f + 1 / 2\<rfloor>))"

section \<open>Lemmas\<close>

lemma digits_value_snoc: "digits_value (ds @ [c]) = digits_value ds * 10 + (code c - 48)"
  by (simp add: digits_value_def code_def)

lemma digits_value_append: "digits_value (xs @ ys) = digits_value xs * 10 ^ length ys + digits_value ys"
proof (induction ys rule: rev_induct)
  case (snoc y ys)
  have "digits_value (xs @ ys @ [y]) = digits_value (xs @ ys) * 10 + (code y - 48)"
    using digits_value_snoc[of "xs @ ys" y] by simp
  then show ?case using snoc by (simp add: digits_value_snoc algebra_simps)
qed (simp add: digits_value_def)

lemma digits_value_zeros: "digits_value (replicate k CHR ''0'' @ ds) = digits_value ds"
  by (induction k) (simp_all add: digits_value_def)

lemma nat_text_isDigit: "\<forall>c \<in> set (nat_text n). isDigit c"
  using nat_text_digits by (auto simp: isDigit_def code_def)

lemma nat_text_nonempty [simp]: "nat_text n \<noteq> []"
  by (subst nat_text.simps) simp


lemma digit_char: "isDigit c \<Longrightarrow> \<not> isSpace c \<and> c \<noteq> CHR ''-'' \<and> c \<noteq> CHR ''+'' \<and> c \<noteq> CHR ''I'' \<and> c \<noteq> CHR ''.''"
  by (auto simp: char_simps)

lemma signed_digits: "ds \<noteq> [] \<Longrightarrow> \<forall>c \<in> set ds. isDigit c \<Longrightarrow> signed_text (ds @ r) = (False, ds @ r) \<and> dropWhile isSpace (ds @ r) = ds @ r"
  using digit_char by (cases ds) (auto simp: signed_text_def)

lemma parse_int_digits [simp]:
  assumes "ds \<noteq> []" "\<forall>c \<in> set ds. isDigit c" "r = [] \<or> \<not> isDigit (hd r)"
  shows "parse_int (ds @ r) = Some (int (digits_value ds))"
proof -
  have "takeWhile isDigit (ds @ r) = ds" using assms(2,3) by (cases r) (auto simp: takeWhile_tail)
  then show ?thesis using signed_digits[OF assms(1,2), of r] assms(1) by (simp add: parse_int_def Let_def)
qed

lemma parse_int_nat_text [simp]: "parse_int (nat_text n) = Some (int n)"
  using parse_int_digits[of "nat_text n" "[]"] nat_text_isDigit by simp

lemma parse_decimal:
  assumes "ds \<noteq> []" "\<forall>c \<in> set ds. isDigit c" "\<forall>c \<in> set fs. isDigit c"
  shows "parse_float (ds @ ''.'' @ fs) = Finite (of_nat (digits_value (ds @ fs)) / 10 ^ length fs)"
proof -
  have t: "takeWhile isDigit (ds @ CHR ''.'' # fs) = ds" "dropWhile isDigit (ds @ CHR ''.'' # fs) = CHR ''.'' # fs"
    using assms(2) digit_char by (auto simp: takeWhile_tail dropWhile_append)
  have f: "takeWhile isDigit fs = fs" "dropWhile isDigit fs = []"
    using assms(3) by (auto simp: takeWhile_eq_all_conv dropWhile_eq_Nil_conv)
  have "take 8 (ds @ CHR ''.'' # fs) \<noteq> ''Infinity''"
    using assms(1,2) digit_char by (cases ds) auto
  then show ?thesis
    using assms(1) signed_digits[OF assms(1,2), of "CHR ''.'' # fs"]
    by (simp add: parse_float_def t f fraction_text_def exponent_text_def scale10_def digits_value_append field_simps)
qed

lemma parse_whole:
  assumes "ds \<noteq> []" "\<forall>c \<in> set ds. isDigit c"
  shows "parse_float ds = Finite (of_nat (digits_value ds))"
proof -
  have t: "takeWhile isDigit ds = ds" "dropWhile isDigit ds = []"
    using assms(2) by (auto simp: takeWhile_eq_all_conv dropWhile_eq_Nil_conv)
  have "take 8 ds \<noteq> ''Infinity''" using assms digit_char by (cases ds) auto
  then show ?thesis
    using assms(1) signed_digits[OF assms, of "[]"]
    by (simp add: parse_float_def t fraction_text_def exponent_text_def scale10_def digits_value_def)
qed

lemma parse_fixed_digits: "parse_float (fixed_digits f n) = Finite (of_nat n / 10 ^ f)"
proof (cases "f = 0")
  case True
  then show ?thesis using parse_whole[OF _ nat_text_isDigit] by (simp add: fixed_digits_def)
next
  case False
  define ds where "ds = padStart (Suc f) CHR ''0'' (nat_text n)"
  have d: "\<forall>c \<in> set ds. isDigit c" using nat_text_isDigit by (auto simp: ds_def padStart_def char_simps)
  have l: "f < length ds" by (simp add: ds_def padStart_def)
  have "take (length ds - f) ds \<noteq> []" using l by auto
  from parse_decimal[OF this, of "drop (length ds - f) ds"] d l
  have "parse_float (fixed_digits f n) = Finite (of_nat (digits_value ds) / 10 ^ f)"
    using False by (auto simp: fixed_digits_def ds_def[symmetric] Let_def dest: in_set_takeD in_set_dropD)
  then show ?thesis by (simp add: ds_def padStart_def digits_value_zeros)
qed

lemma parse_toFixed:
  "0 \<le> x \<Longrightarrow> parse_float (toFixed f x) = Finite (of_int \<lfloor>x * 10 ^ f + 1 / 2\<rfloor> / 10 ^ f)"
  by (simp add: toFixed_def parse_fixed_digits)

lemma fixed_digits_chars: "c \<in> set (fixed_digits f n) \<Longrightarrow> isDigit c \<or> c = CHR ''.''"
  using nat_text_isDigit
  by (auto simp: fixed_digits_def padStart_def Let_def char_simps dest!: in_set_takeD in_set_dropD split: if_splits)

lemma fixed_digits_nonempty [simp]: "fixed_digits f n \<noteq> []"
  by (simp add: fixed_digits_def Let_def)

lemma toFixed_rounds: "0 \<le> x \<Longrightarrow> \<bar>of_int \<lfloor>x * 10 ^ f + 1 / 2\<rfloor> / 10 ^ f - x\<bar> \<le> (1 / (2 * 10 ^ f) :: rat)"
proof -
  have "of_int \<lfloor>x * 10 ^ f + 1 / 2\<rfloor> \<le> x * 10 ^ f + 1 / 2" "x * 10 ^ f - 1 / 2 \<le> of_int \<lfloor>x * 10 ^ f + 1 / 2\<rfloor>"
    by linarith+
  then have "\<bar>of_int \<lfloor>x * 10 ^ f + 1 / 2\<rfloor> - x * 10 ^ f\<bar> \<le> 1 / 2"
    unfolding abs_le_iff by linarith
  moreover have "of_int \<lfloor>x * 10 ^ f + 1 / 2\<rfloor> / 10 ^ f - x = (of_int \<lfloor>x * 10 ^ f + 1 / 2\<rfloor> - x * 10 ^ f) / 10 ^ f"
    by (simp add: field_simps)
  ultimately show ?thesis by (simp add: abs_divide divide_le_cancel field_simps)
qed

end
