(* ===== verification/RotorWire.thy ===== *)
theory RotorWire
  imports JsNumber JsRegex JsonValue
begin

text \<open>
  The text protocol of the rotator client (\<open>bridge/src/rotor.ts\<close>): positions, headings and
  acknowledgements as \<open>rotctld\<close> writes and reads them, the validation of an untrusted heading
  and the configuration. An error stands for the message the code throws.
\<close>

section \<open>Errors and data\<close>

datatype rotor_error =
    ShutDown
  | NotConnected
  | ConnectionTimedOut
  | ConnectionClosed
  | CommandTimedOut
  | SocketError string
  | Interlocked string
  | GetPosError "int option"
  | InvalidPosition string
  | UnexpectedReport string string
  | ReportError string int
  | NotAnObject
  | InvalidAzimuth "jv option"
  | InvalidElevation "jv option"

record RotorHeading =
  azimuth :: rat
  elevation :: rat

type_synonym RotorPosition = RotorHeading

record RotorConfig =
  rc_host :: string
  rc_port :: nat

record RotorInterlockState =
  manualPttOwned :: bool
  txActive :: bool
  rigPtt :: bool

definition ROTOR_DEFAULT_HOST :: string where "ROTOR_DEFAULT_HOST = ''127.0.0.1''"
definition ROTOR_DEFAULT_PORT :: nat where "ROTOR_DEFAULT_PORT = 4533"
definition ROTOR_MAX_AZIMUTH_DEG :: rat where "ROTOR_MAX_AZIMUTH_DEG = 360"
definition ROTOR_MAX_ELEVATION_DEG :: rat where "ROTOR_MAX_ELEVATION_DEG = 90"

section \<open>Configuration\<close>

definition isRotorEnabled :: "(string \<rightharpoonup> string) \<Rightarrow> bool" where
  "isRotorEnabled env \<longleftrightarrow> env ''BRIDGE_ROTOR'' = Some ''1''"

definition resolveRotorConfig :: "(string \<rightharpoonup> string) \<Rightarrow> RotorConfig" where
  "resolveRotorConfig env =
     (let host = (case env ''ROTCTLD_HOST'' of None \<Rightarrow> [] | Some h \<Rightarrow> trim h);
          parsedPort = parse_int (case env ''ROTCTLD_PORT'' of None \<Rightarrow> [] | Some p \<Rightarrow> p)
      in \<lparr>rc_host = (if host = [] then ROTOR_DEFAULT_HOST else host),
          rc_port = (case parsedPort of None \<Rightarrow> ROTOR_DEFAULT_PORT
            | Some p \<Rightarrow> if p > 0 \<and> p \<le> 65535 then nat p else ROTOR_DEFAULT_PORT)\<rparr>)"

section \<open>Lines\<close>

abbreviation newline :: char where "newline \<equiv> CHR 0x0A"

fun split_lines :: "string \<Rightarrow> string list" where
  \<comment> \<open>\<open>s.split("\n")\<close>\<close>
  "split_lines [] = [[]]"
| "split_lines (c # s) =
     (if c = newline then [] # split_lines s
      else case split_lines s of [] \<Rightarrow> [[c]] | w # ws \<Rightarrow> (c # w) # ws)"

definition join_lines :: "string list \<Rightarrow> string" where
  \<comment> \<open>\<open>lines.join("\n")\<close>\<close>
  "join_lines ls = (case ls of [] \<Rightarrow> [] | w # ws \<Rightarrow> w @ concat (map (\<lambda>v. newline # v) ws))"

definition trimEnd :: "string \<Rightarrow> string" where
  "trimEnd s = rev (dropWhile isSpace (rev s))"

section \<open>Protocol\<close>

definition line_at :: "string list \<Rightarrow> nat \<Rightarrow> string" where
  \<comment> \<open>\<open>lines[i] ?? ""\<close>\<close>
  "line_at ls i = (if i < length ls then ls ! i else [])"

definition parseRotorPosition :: "string \<Rightarrow> rotor_error + RotorPosition" where
  "parseRotorPosition response =
     (let trimmed = trim response
      in if take 4 trimmed = ''RPRT'' then Inl (GetPosError (parse_int (line_at (split_ws trimmed) 1)))
         else let lines = filter (\<lambda>l. l \<noteq> []) (map trim (split_lines trimmed))
              in case (parse_float (line_at lines 0), parse_float (line_at lines 1)) of
                   (Finite az, Finite el) \<Rightarrow> Inr \<lparr>azimuth = az, elevation = el\<rparr>
                 | _ \<Rightarrow> Inl (InvalidPosition trimmed))"

definition formatSetPositionCommand :: "RotorHeading \<Rightarrow> string" where
  "formatSetPositionCommand h = ''P '' @ toFixed 2 (azimuth h) @ '' '' @ toFixed 2 (elevation h)"

fun exact :: "string \<Rightarrow> rx" where
  \<comment> \<open>a literal text without the flag \<open>i\<close>\<close>
  "exact [] = Rep (\<lambda>_. False) 0 None"
| "exact (x # xs) = Cat (one (\<lambda>c. c = x)) (exact xs)"

definition RPRT_REGEX :: rx where
  "RPRT_REGEX = Cat (exact ''RPRT'') (Cat blanks (Grp 1 (Cat (Opt (one (\<lambda>c. c = CHR ''-''))) (Rep isDigit 1 None))))"

definition parseRotorReport :: "string \<Rightarrow> string \<Rightarrow> rotor_error + unit" where
  "parseRotorReport response label =
     (let trimmed = trim response
      in case full_match RPRT_REGEX trimmed of
           None \<Rightarrow> Inl (UnexpectedReport label trimmed)
         | Some m \<Rightarrow>
             (case m 1 of None \<Rightarrow> Inl (UnexpectedReport label trimmed)
              | Some c \<Rightarrow> case parse_int c of
                  None \<Rightarrow> Inl (UnexpectedReport label trimmed)
                | Some n \<Rightarrow> if n \<noteq> 0 then Inl (ReportError label n) else Inr ()))"

definition nullish_prop :: "jv option \<Rightarrow> bool" where
  "nullish_prop v \<longleftrightarrow> v = None \<or> v = Some JNull"

fun spread :: "jv \<Rightarrow> (string \<times> jv) list" where
  \<comment> \<open>\<open>{...p}\<close>\<close>
  "spread (JObj kvs) = kvs"
| "spread (JArr xs) = map (\<lambda>(i, x). (nat_text i, x)) (enumerate 0 xs)"
| "spread _ = []"

definition is_object :: "jv \<Rightarrow> bool" where
  \<comment> \<open>\<open>typeof payload === "object" && payload !== null\<close>\<close>
  "is_object v = (case v of JObj _ \<Rightarrow> True | JArr _ \<Rightarrow> True | _ \<Rightarrow> False)"

definition applyKnownElevationFallback :: "jv \<Rightarrow> rat option \<Rightarrow> jv" where
  "applyKnownElevationFallback payload knownElevation =
     (if \<not> is_object payload then payload
      else case knownElevation of
          None \<Rightarrow> payload
        | Some e \<Rightarrow> if nullish_prop (get_prop payload ''elevation'')
            then JObj (filter (\<lambda>(k, v). k \<noteq> ''elevation'') (spread payload) @ [(''elevation'', JNum e)]) else payload)"

definition shouldBlockRotor :: "RotorInterlockState \<Rightarrow> bool" where
  "shouldBlockRotor s \<longleftrightarrow> manualPttOwned s \<or> txActive s \<or> rigPtt s"

definition validateRotorHeading :: "jv \<Rightarrow> rotor_error + RotorHeading" where
  "validateRotorHeading payload =
     (if \<not> is_object payload then Inl NotAnObject
      else case finite_num (get_prop payload ''azimuth'') of
          None \<Rightarrow> Inl (InvalidAzimuth (get_prop payload ''azimuth''))
        | Some az \<Rightarrow>
            if az < 0 \<or> az > ROTOR_MAX_AZIMUTH_DEG then Inl (InvalidAzimuth (get_prop payload ''azimuth''))
            else if nullish_prop (get_prop payload ''elevation'') then Inr \<lparr>azimuth = az, elevation = 0\<rparr>
            else case finite_num (get_prop payload ''elevation'') of
                None \<Rightarrow> Inl (InvalidElevation (get_prop payload ''elevation''))
              | Some el \<Rightarrow>
                  if el < 0 \<or> el > ROTOR_MAX_ELEVATION_DEG then Inl (InvalidElevation (get_prop payload ''elevation''))
                  else Inr \<lparr>azimuth = az, elevation = el\<rparr>)"

section \<open>Lemmas\<close>

lemma split_lines_plain: "newline \<notin> set s \<Longrightarrow> split_lines s = [s]"
  by (induction s) auto

lemma split_lines_append: "newline \<notin> set w \<Longrightarrow> split_lines (w @ newline # s) = w # split_lines s"
  by (induction w) auto

lemma fixed_char: "isDigit c \<or> c = CHR ''.'' \<Longrightarrow> \<not> isSpace c \<and> c \<noteq> newline \<and> c \<noteq> CHR ''R''"
  by (auto simp: char_simps)

lemma fixed_text:
  assumes "0 \<le> x"
  shows "toFixed f x \<noteq> []" "\<forall>c \<in> set (toFixed f x). \<not> isSpace c \<and> c \<noteq> newline \<and> c \<noteq> CHR ''R''"
proof -
  show "toFixed f x \<noteq> []" using assms by (simp add: toFixed_def)
  show "\<forall>c \<in> set (toFixed f x). \<not> isSpace c \<and> c \<noteq> newline \<and> c \<noteq> CHR ''R''"
  proof
    fix c assume "c \<in> set (toFixed f x)"
    then have "isDigit c \<or> c = CHR ''.''" using assms by (auto simp: toFixed_def dest: fixed_digits_chars)
    then show "\<not> isSpace c \<and> c \<noteq> newline \<and> c \<noteq> CHR ''R''" by (rule fixed_char)
  qed
qed

lemma dropWhile_none: "\<forall>c \<in> set s. \<not> P c \<Longrightarrow> dropWhile P s = s"
  by (cases s) simp_all

lemma trim_no_space: "\<forall>c \<in> set s. \<not> isSpace c \<Longrightarrow> trim s = s"
  by (simp add: trim_def dropWhile_none)

lemma trim_joined:
  assumes "a \<noteq> []" "e \<noteq> []" "\<forall>c \<in> set a. \<not> isSpace c" "\<forall>c \<in> set e. \<not> isSpace c"
  shows "trim (a @ newline # e) = a @ newline # e" "trim (a @ newline # e @ [newline]) = a @ newline # e"
proof -
  obtain c a' where a: "a = c # a'" using assms(1) by (cases a) auto
  obtain d e' where e: "rev e = d # e'" using assms(2) by (cases "rev e") auto
  then have "e = rev e' @ [d]" by (metis rev.simps(2) rev_rev_ident)
  then have "\<not> isSpace c" "\<not> isSpace d" using assms(3,4) by (auto simp: a)
  moreover have "isSpace newline" by (simp add: isSpace_def code_def)
  ultimately show "trim (a @ newline # e) = a @ newline # e" "trim (a @ newline # e @ [newline]) = a @ newline # e"
    using e by (simp_all add: trim_def a)
qed

definition hundredths :: "rat \<Rightarrow> rat" where
  "hundredths x = of_int \<lfloor>x * 100 + 1 / 2\<rfloor> / 100"

lemma hundredths_near: "0 \<le> x \<Longrightarrow> \<bar>hundredths x - x\<bar> \<le> 1 / 200"
  using toFixed_rounds[of x 2] by (simp add: hundredths_def)

lemma two_lines_parsed:
  assumes "a \<noteq> []" "e \<noteq> []" "\<forall>c \<in> set a. \<not> isSpace c \<and> c \<noteq> newline \<and> c \<noteq> CHR ''R''" "\<forall>c \<in> set e. \<not> isSpace c \<and> c \<noteq> newline \<and> c \<noteq> CHR ''R''"
    "parse_float a = Finite x" "parse_float e = Finite y" "trim t = a @ newline # e"
  shows "parseRotorPosition t = Inr \<lparr>azimuth = x, elevation = y\<rparr>"
proof -
  have r: "take 4 (a @ newline # e) \<noteq> ''RPRT''" using assms(1,3) by (cases a) auto
  have "newline \<notin> set a" "newline \<notin> set e" using assms(3,4) by blast+
  then have "split_lines (a @ newline # e) = [a, e]"
    by (simp only: split_lines_append split_lines_plain simp_thms)
  moreover have "trim a = a" "trim e = e" using assms(3,4) by (simp_all add: trim_no_space)
  ultimately have l: "filter (\<lambda>l. l \<noteq> []) (map trim (split_lines (a @ newline # e))) = [a, e]"
    using assms(1,2) by simp
  show ?thesis unfolding parseRotorPosition_def Let_def assms(7) l if_not_P[OF r] by (simp add: line_at_def assms(5,6))
qed

lemma fixed_lines:
  assumes "0 \<le> azimuth h" "0 \<le> elevation h"
  shows "trim (toFixed 2 (azimuth h) @ newline # toFixed 2 (elevation h)) = toFixed 2 (azimuth h) @ newline # toFixed 2 (elevation h)"
    "trim (toFixed 2 (azimuth h) @ newline # toFixed 2 (elevation h) @ [newline]) = toFixed 2 (azimuth h) @ newline # toFixed 2 (elevation h)"
    "trim t = toFixed 2 (azimuth h) @ newline # toFixed 2 (elevation h) \<Longrightarrow>
       parseRotorPosition t = Inr \<lparr>azimuth = hundredths (azimuth h), elevation = hundredths (elevation h)\<rparr>"
proof -
  let ?a = "toFixed 2 (azimuth h)" and ?e = "toFixed 2 (elevation h)"
  note a = fixed_text[OF assms(1), of 2] and e = fixed_text[OF assms(2), of 2]
  have "\<forall>c \<in> set ?a. \<not> isSpace c" "\<forall>c \<in> set ?e. \<not> isSpace c" using a(2) e(2) by blast+
  then show "trim (?a @ newline # ?e) = ?a @ newline # ?e" "trim (?a @ newline # ?e @ [newline]) = ?a @ newline # ?e"
    by (rule trim_joined[OF a(1) e(1)])+
  have "parse_float ?a = Finite (hundredths (azimuth h))" "parse_float ?e = Finite (hundredths (elevation h))"
    using assms by (simp_all add: parse_toFixed hundredths_def)
  then show "parseRotorPosition t = Inr \<lparr>azimuth = hundredths (azimuth h), elevation = hundredths (elevation h)\<rparr>"
    if "trim t = ?a @ newline # ?e" using two_lines_parsed[OF a(1) e(1) a(2) e(2)] that by blast
qed

text \<open>
  A position is read back as it was written with two decimals, each value within half a
  hundredth of a degree.
\<close>

theorem position_read_back:
  assumes "0 \<le> azimuth h" "0 \<le> elevation h"
  shows "parseRotorPosition (toFixed 2 (azimuth h) @ [newline] @ toFixed 2 (elevation h) @ [newline]) =
      Inr \<lparr>azimuth = hundredths (azimuth h), elevation = hundredths (elevation h)\<rparr> \<and>
    \<bar>hundredths (azimuth h) - azimuth h\<bar> \<le> 1 / 200 \<and> \<bar>hundredths (elevation h) - elevation h\<bar> \<le> 1 / 200"
  using fixed_lines[OF assms] hundredths_near assms by simp

theorem position_read_back_witness:
  "parseRotorPosition (toFixed 2 (1 / 3) @ [newline] @ toFixed 2 45 @ [newline]) = Inr \<lparr>azimuth = 33 / 100, elevation = 45\<rparr>"
proof -
  have "\<lfloor>203 / 6 :: rat\<rfloor> = 33" "\<lfloor>9001 / 2 :: rat\<rfloor> = 4500" by (rule floor_unique; simp)+
  then show ?thesis using position_read_back[of "\<lparr>azimuth = 1 / 3, elevation = 45\<rparr>"] by (simp add: hundredths_def)
qed

lemma validated_heading:
  "validateRotorHeading p = Inr h \<Longrightarrow> 0 \<le> azimuth h \<and> azimuth h \<le> 360 \<and> 0 \<le> elevation h \<and> elevation h \<le> 90"
  by (auto simp: validateRotorHeading_def ROTOR_MAX_AZIMUTH_DEG_def ROTOR_MAX_ELEVATION_DEG_def split: if_splits option.splits)

end
