(* ===== verification/RotorLink.thy ===== *)
theory RotorLink
  imports RotorWire PromiseQueue
begin

text \<open>
  The rotator client (\<open>bridge/src/rotor.ts\<close>, class \<open>RotorController\<close>): commands serialised by a
  promise chain, the connection, the line buffer, polling with back-off, shutdown and the
  transmit interlock.

  An asynchronous method is cut at its awaits. What runs when a promise settles is a list of
  jobs, in the order of the microtasks: when a command's promise settles, the chain is advanced
  and a caller of \<open>setHeading\<close>, \<open>stop\<close> or \<open>getPosition\<close> resumed before the next command starts,
  while a poll, which awaits through \<open>getPosition\<close>, resumes after it. Timers, the events of
  sockets, calls and the answer of the interlock are events. A socket has a number; one whose
  listeners are removed has no events. Events may come before all jobs have run, which the
  engine does not do, so statements about all runs hold for more than the real ones.
\<close>

section \<open>State\<close>

type_synonym sock = nat

datatype rotor_op = GetPosition | SetHeading RotorHeading | Stop

type_synonym rotor_call = "nat option \<times> rotor_op" \<comment> \<open>the promise of a caller, or none for a poll\<close>

datatype rotor_phase = AwaitConnect "sock option" | AwaitReply

datatype rotor_job = NextCommand | WriteNow | PollCont "rotor_error + string"

record RotorStatus =
  connected :: bool
  st_azimuth :: "rat option"
  st_elevation :: "rat option"
  moving :: bool
  st_error :: "rotor_error option"

datatype rotor_out =
    OpenSocket sock
  | DestroySocket sock
  | WriteLine sock rotor_call string
  | StatusOut RotorStatus
  | RotorSettled "nat \<times> rotor_op" "rotor_error + RotorPosition option"

record Rotor =
  pollIntervalMs :: nat
  started :: bool
  closed :: bool
  socket :: "sock option"
  connecting :: "sock option" \<comment> \<open>the attempt whose promise is kept\<close>
  connectingSocket :: "sock option"
  listening :: "sock list"
  nextSock :: nat
  responseBuffer :: string
  pendingLines :: "string list"
  expectedLines :: nat
  pendingReply :: bool \<comment> \<open>\<open>pendingResolve\<close> and \<open>pendingReject\<close> are set\<close>
  commandTimer :: bool
  pollTimer :: "nat option"
  reconnectAttempts :: nat
  status :: RotorStatus
  interlock :: "string option" \<comment> \<open>what the interlock answers now\<close>
  pendingCalls :: "rotor_call list"
  serving :: "(rotor_call \<times> rotor_phase) option"
  jobs :: "rotor_job list"

definition DISCONNECTED_STATUS :: RotorStatus where
  "DISCONNECTED_STATUS = \<lparr>connected = False, st_azimuth = None, st_elevation = None, moving = False, st_error = None\<rparr>"

definition RECONNECT_BASE_DELAY_MS :: nat where "RECONNECT_BASE_DELAY_MS = 1000"
definition RECONNECT_MAX_DELAY_MS :: nat where "RECONNECT_MAX_DELAY_MS = 30000"
definition MOVEMENT_EPSILON_DEG :: rat where "MOVEMENT_EPSILON_DEG = 1 / 2"

definition new_rotor :: "nat \<Rightarrow> Rotor" where
  "new_rotor interval = \<lparr>pollIntervalMs = interval, started = False, closed = False, socket = None, connecting = None,
     connectingSocket = None, listening = [], nextSock = 0, responseBuffer = [], pendingLines = [], expectedLines = 1,
     pendingReply = False, commandTimer = False, pollTimer = None, reconnectAttempts = 0, status = DISCONNECTED_STATUS,
     interlock = None, pendingCalls = [], serving = None, jobs = []\<rparr>"

section \<open>Status\<close>

definition emit :: "RotorStatus \<Rightarrow> Rotor \<Rightarrow> Rotor \<times> rotor_out list" where
  "emit next s = (if next = status s then (s, []) else (s\<lparr>status := next\<rparr>, [StatusOut next]))"

definition emitMotion :: "bool \<Rightarrow> Rotor \<Rightarrow> Rotor \<times> rotor_out list" where
  "emitMotion mv s = emit \<lparr>connected = True, st_azimuth = st_azimuth (status s), st_elevation = st_elevation (status s),
     moving = mv, st_error = None\<rparr> s"

definition hasMoved :: "RotorPosition \<Rightarrow> RotorStatus \<Rightarrow> bool" where
  "hasMoved p st = (case (st_azimuth st, st_elevation st) of
       (Some az, Some el) \<Rightarrow> \<bar>azimuth p - az\<bar> > MOVEMENT_EPSILON_DEG \<or> \<bar>elevation p - el\<bar> > MOVEMENT_EPSILON_DEG
     | _ \<Rightarrow> False)"

section \<open>Commands settle\<close>

definition finish :: "rotor_call \<Rightarrow> rotor_error + string \<Rightarrow> Rotor \<Rightarrow> Rotor \<times> rotor_out list" where
  \<comment> \<open>the promise of the command settles, and what awaits it\<close>
  "finish c r s =
     (let s1 = s\<lparr>serving := None, jobs := jobs s @ [NextCommand]\<rparr>
      in case c of
           (None, _) \<Rightarrow> (s1\<lparr>jobs := jobs s1 @ [PollCont r]\<rparr>, [])
         | (Some i, cmd) \<Rightarrow>
             (case cmd of
                GetPosition \<Rightarrow> (s1, [RotorSettled (i, cmd) (case r of Inl e \<Rightarrow> Inl e
                  | Inr t \<Rightarrow> case parseRotorPosition t of Inl e \<Rightarrow> Inl e | Inr p \<Rightarrow> Inr (Some p))])
              | SetHeading h \<Rightarrow>
                  (case (case r of Inl e \<Rightarrow> Inl e | Inr t \<Rightarrow> parseRotorReport t ''set_pos'') of
                     Inl e \<Rightarrow> (s1, [RotorSettled (i, cmd) (Inl e)])
                   | Inr _ \<Rightarrow> let (s2, os) = emitMotion True s1 in (s2, os @ [RotorSettled (i, cmd) (Inr None)]))
              | Stop \<Rightarrow>
                  (case (case r of Inl e \<Rightarrow> Inl e | Inr t \<Rightarrow> parseRotorReport t ''stop'') of
                     Inl e \<Rightarrow> (s1, [RotorSettled (i, cmd) (Inl e)])
                   | Inr _ \<Rightarrow> let (s2, os) = emitMotion False s1 in (s2, os @ [RotorSettled (i, cmd) (Inr None)]))))"

definition resetPending :: "Rotor \<Rightarrow> Rotor" where
  "resetPending s = s\<lparr>commandTimer := False, pendingReply := False, pendingLines := [], expectedLines := 1\<rparr>"

definition failPending :: "rotor_error \<Rightarrow> Rotor \<Rightarrow> Rotor \<times> rotor_out list" where
  "failPending e s =
     (case serving s of
        Some (c, AwaitReply) \<Rightarrow> if pendingReply s then finish c (Inl e) (resetPending s) else (resetPending s, [])
      | _ \<Rightarrow> (resetPending s, []))"

definition dropSocket :: "sock option \<Rightarrow> Rotor \<Rightarrow> Rotor \<times> rotor_out list" where
  \<comment> \<open>\<open>removeAllListeners\<close> and \<open>destroy\<close>\<close>
  "dropSocket k s = (case k of None \<Rightarrow> (s, [])
     | Some i \<Rightarrow> (s\<lparr>listening := filter (\<lambda>j. j \<noteq> i) (listening s)\<rparr>, [DestroySocket i]))"

definition closeSocket :: "rotor_error \<Rightarrow> Rotor \<Rightarrow> Rotor \<times> rotor_out list" where
  "closeSocket e s =
     (let (s1, o1) = dropSocket (connectingSocket s) (s\<lparr>connecting := None\<rparr>);
          (s2, o2) = dropSocket (socket s) (s1\<lparr>connectingSocket := None\<rparr>);
          (s3, o3) = failPending e (s2\<lparr>socket := None\<rparr>)
      in (s3\<lparr>responseBuffer := []\<rparr>, o1 @ o2 @ o3))"

definition rejectAttempt :: "sock \<Rightarrow> rotor_error \<Rightarrow> Rotor \<Rightarrow> Rotor \<times> rotor_out list" where
  \<comment> \<open>the promise of the attempt rejects: its \<open>finally\<close>, then the command that awaits it\<close>
  "rejectAttempt k e s =
     (let s1 = s\<lparr>connecting := None, connectingSocket := None\<rparr>
      in case serving s of
           Some (c, AwaitConnect (Some j)) \<Rightarrow> if j = k then finish c (Inl e) s1 else (s1, [])
         | _ \<Rightarrow> (s1, []))"

section \<open>Commands start\<close>

definition interlocked :: "rotor_op \<Rightarrow> bool" where
  "interlocked cmd \<longleftrightarrow> (case cmd of GetPosition \<Rightarrow> False | _ \<Rightarrow> True)"

definition connect :: "rotor_call \<Rightarrow> Rotor \<Rightarrow> Rotor \<times> rotor_out list" where
  "connect c s =
     (if socket s \<noteq> None then (s\<lparr>serving := Some (c, AwaitConnect None), jobs := jobs s @ [WriteNow]\<rparr>, [])
      else if connecting s \<noteq> None then (s\<lparr>serving := Some (c, AwaitConnect (connecting s))\<rparr>, [])
      else let k = nextSock s
           in (s\<lparr>serving := Some (c, AwaitConnect (Some k)), nextSock := Suc k, connecting := Some k,
                 connectingSocket := Some k, listening := k # listening s\<rparr>, [OpenSocket k]))"

definition start_command :: "rotor_call \<Rightarrow> Rotor \<Rightarrow> Rotor \<times> rotor_out list" where
  \<comment> \<open>\<open>run\<close> up to its await\<close>
  "start_command c s =
     (if closed s then finish c (Inl ShutDown) s
      else case (if interlocked (snd c) then interlock s else None) of
          Some reason \<Rightarrow> finish c (Inl (Interlocked reason)) s
        | None \<Rightarrow> connect c s)"

definition rotor_start_next :: "Rotor \<Rightarrow> Rotor \<times> rotor_out list" where
  "rotor_start_next s = (case (serving s, pendingCalls s) of
       (None, c # cs) \<Rightarrow> start_command c (s\<lparr>pendingCalls := cs\<rparr>)
     | _ \<Rightarrow> (s, []))"

definition expected_lines :: "rotor_op \<Rightarrow> nat" where
  "expected_lines cmd = (case cmd of GetPosition \<Rightarrow> 2 | _ \<Rightarrow> 1)"

definition command_text :: "rotor_op \<Rightarrow> string" where
  "command_text cmd = (case cmd of GetPosition \<Rightarrow> ''p'' | SetHeading h \<Rightarrow> formatSetPositionCommand h | Stop \<Rightarrow> ''S'')"

definition write_command :: "Rotor \<Rightarrow> Rotor \<times> rotor_out list" where
  \<comment> \<open>\<open>run\<close> after \<open>await this.connect()\<close>\<close>
  "write_command s =
     (case serving s of
        Some (c, AwaitConnect _) \<Rightarrow>
          (case socket s of
             None \<Rightarrow> finish c (Inl NotConnected) s
           | Some k \<Rightarrow> (s\<lparr>serving := Some (c, AwaitReply), pendingReply := True, responseBuffer := [], pendingLines := [],
                 expectedLines := expected_lines (snd c), commandTimer := True\<rparr>,
               [WriteLine k c (command_text (snd c) @ [newline])]))
      | _ \<Rightarrow> (s, []))"

definition command :: "rotor_call \<Rightarrow> Rotor \<Rightarrow> Rotor \<times> rotor_out list" where
  \<comment> \<open>a call of \<open>getPosition\<close>, \<open>setHeading\<close> or \<open>stop\<close> up to its first await\<close>
  "command c s =
     (if closed s
      then (case c of
              (None, _) \<Rightarrow> (s\<lparr>jobs := jobs s @ [PollCont (Inl ShutDown)]\<rparr>, [])
            | (Some i, cmd) \<Rightarrow> (s, [RotorSettled (i, cmd) (Inl ShutDown)]))
      else (s\<lparr>pendingCalls := pendingCalls s @ [c], jobs := jobs s @ [NextCommand]\<rparr>, []))"

section \<open>Replies\<close>

function reply_loop :: "nat \<Rightarrow> string \<Rightarrow> string list \<Rightarrow> string \<times> string list \<times> string option" where
  \<comment> \<open>the buffer and the lines left, and the response when it is complete\<close>
  "reply_loop expected buf lines =
     (case index_from (\<lambda>c. c = newline) buf of
        None \<Rightarrow> (buf, lines, None)
      | Some i \<Rightarrow>
          let lines' = lines @ [trimEnd (take i buf)]; rest = drop (Suc i) buf
          in if length lines' \<ge> expected then (rest, lines', Some (trim (join_lines lines')))
             else reply_loop expected rest lines')"
  by pat_completeness auto
termination
proof (relation "measure (\<lambda>(e, buf, l). length buf)", goal_cases)
  case (2 e buf l i l' rest)
  then have "buf \<noteq> []" by (cases buf) auto
  then show ?case using 2 by simp
qed simp

declare reply_loop.simps [simp del]

definition onData :: "string \<Rightarrow> Rotor \<Rightarrow> Rotor \<times> rotor_out list" where
  "onData d s =
     (let buf = responseBuffer s @ d
      in if \<not> pendingReply s then (s\<lparr>responseBuffer := buf\<rparr>, [])
         else case reply_loop (expectedLines s) buf (pendingLines s) of
             (rest, lines, None) \<Rightarrow> (s\<lparr>responseBuffer := rest, pendingLines := lines\<rparr>, [])
           | (rest, lines, Some response) \<Rightarrow>
               (case serving s of
                  Some (c, _) \<Rightarrow> finish c (Inr response) (resetPending (s\<lparr>responseBuffer := rest\<rparr>))
                | None \<Rightarrow> (resetPending (s\<lparr>responseBuffer := rest\<rparr>), [])))"

section \<open>Polling\<close>

definition schedulePoll :: "nat \<Rightarrow> Rotor \<Rightarrow> Rotor" where
  "schedulePoll delayMs s = (if \<not> started s \<or> pollTimer s \<noteq> None then s else s\<lparr>pollTimer := Some delayMs\<rparr>)"

definition poll_ended :: "rotor_error + string \<Rightarrow> Rotor \<Rightarrow> Rotor \<times> rotor_out list" where
  \<comment> \<open>\<open>poll\<close> after its await\<close>
  "poll_ended r s =
     (case (case r of Inl e \<Rightarrow> Inl e | Inr t \<Rightarrow> parseRotorPosition t) of
        Inr p \<Rightarrow>
          let (s1, os) = emit \<lparr>connected = True, st_azimuth = Some (azimuth p), st_elevation = Some (elevation p),
                moving = hasMoved p (status s), st_error = None\<rparr> (s\<lparr>reconnectAttempts := 0\<rparr>)
          in (schedulePoll (pollIntervalMs s) s1, os)
      | Inl e \<Rightarrow>
          let (s1, o1) = closeSocket e s;
              (s2, o2) = emit (DISCONNECTED_STATUS\<lparr>st_error := Some e\<rparr>) s1;
              delay = min (RECONNECT_BASE_DELAY_MS * 2 ^ reconnectAttempts s2) RECONNECT_MAX_DELAY_MS
          in (schedulePoll delay (s2\<lparr>reconnectAttempts := Suc (reconnectAttempts s2)\<rparr>), o1 @ o2))"

section \<open>Life cycle\<close>

definition start :: "Rotor \<Rightarrow> Rotor" where
  "start s = (if started s then s else schedulePoll 0 (s\<lparr>started := True, reconnectAttempts := 0\<rparr>))"

definition shutdown :: "Rotor \<Rightarrow> Rotor \<times> rotor_out list" where
  "shutdown s =
     (let s1 = s\<lparr>started := False, closed := True, pollTimer := None\<rparr>;
          (s2, o2) = (case connectingSocket s1 of
             None \<Rightarrow> (s1, [])
           | Some k \<Rightarrow> let (s', os) = rejectAttempt k ShutDown s1 in (s'\<lparr>connectingSocket := Some k\<rparr>, os));
          (s3, o3) = closeSocket ShutDown s2;
          (s4, o4) = emit DISCONNECTED_STATUS s3
      in (s4, o2 @ o3 @ o4))"

section \<open>Steps\<close>

datatype rotor_event =
    Start
  | Shutdown
  | Call nat rotor_op
  | InterlockAnswers "string option"
  | Job
  | PollTimerFires
  | CommandTimerFires
  | Connected sock
  | SocketFails sock string
  | SocketTimesOut sock
  | SocketCloses sock
  | SocketData sock string

definition run_job :: "Rotor \<Rightarrow> Rotor \<times> rotor_out list" where
  "run_job s = (case jobs s of
       [] \<Rightarrow> (s, [])
     | j # js \<Rightarrow> let s1 = s\<lparr>jobs := js\<rparr> in
         (case j of NextCommand \<Rightarrow> rotor_start_next s1 | WriteNow \<Rightarrow> write_command s1 | PollCont r \<Rightarrow> poll_ended r s1))"

fun rotor_step :: "Rotor \<Rightarrow> rotor_event \<Rightarrow> Rotor \<times> rotor_out list" where
  "rotor_step s Start = (start s, [])"
| "rotor_step s Shutdown = shutdown s"
| "rotor_step s (Call i cmd) = command (Some i, cmd) s"
| "rotor_step s (InterlockAnswers r) = (s\<lparr>interlock := r\<rparr>, [])"
| "rotor_step s Job = run_job s"
| "rotor_step s PollTimerFires =
     (if pollTimer s = None then (s, [])
      else if \<not> started s then (s\<lparr>pollTimer := None\<rparr>, []) else command (None, GetPosition) (s\<lparr>pollTimer := None\<rparr>))"
| "rotor_step s CommandTimerFires =
     (if commandTimer s then closeSocket CommandTimedOut (s\<lparr>commandTimer := False\<rparr>) else (s, []))"
| "rotor_step s (Connected k) =
     (if connectingSocket s = Some k
      then (s\<lparr>socket := Some k, connectingSocket := None, connecting := None, jobs := jobs s @ [WriteNow]\<rparr>, [])
      else (s, []))"
| "rotor_step s (SocketFails k msg) =
     (if k \<notin> set (listening s) then (s, [])
      else let (s1, o1) = failPending (SocketError msg) s
           in if connectingSocket s = Some k then let (s2, o2) = rejectAttempt k (SocketError msg) s1 in (s2, o1 @ o2)
              else (s1, o1))"
| "rotor_step s (SocketTimesOut k) =
     (if connectingSocket s = Some k
      then let (s1, o1) = rejectAttempt k ConnectionTimedOut s in (s1, DestroySocket k # o1) else (s, []))"
| "rotor_step s (SocketCloses k) =
     (if k \<notin> set (listening s) then (s, [])
      else let s1 = s\<lparr>socket := (if socket s = Some k then None else socket s),
                 connectingSocket := (if connectingSocket s = Some k then None else connectingSocket s),
                 listening := filter (\<lambda>j. j \<noteq> k) (listening s)\<rparr>;
               (s2, os) = failPending ConnectionClosed s1
           in (s2\<lparr>responseBuffer := []\<rparr>, os))"
| "rotor_step s (SocketData k d) = (if k \<in> set (listening s) then onData d s else (s, []))"

abbreviation rotor_run :: "Rotor \<Rightarrow> rotor_event list \<Rightarrow> Rotor \<times> rotor_out list" where
  "rotor_run \<equiv> steps rotor_step"

lemmas rotor_defs = rotor_start_next_def start_command_def connect_def write_command_def command_def finish_def emitMotion_def emit_def
  resetPending_def Let_def

section \<open>The queue contract\<close>

definition caller :: "rotor_call \<Rightarrow> (nat \<times> rotor_op) list" where
  "caller c = (case fst c of None \<Rightarrow> [] | Some i \<Rightarrow> [(i, snd c)])"

fun settled_call :: "rotor_out \<Rightarrow> (nat \<times> rotor_op) list" where
  "settled_call (RotorSettled c r) = [c]"
| "settled_call _ = []"

fun written_call :: "rotor_out \<Rightarrow> (nat \<times> rotor_op) list" where
  "written_call (WriteLine k c l) = caller c"
| "written_call _ = []"

definition settled_calls :: "rotor_out list \<Rightarrow> (nat \<times> rotor_op) list" where
  "settled_calls os = concat (map settled_call os)"

definition written_calls :: "rotor_out list \<Rightarrow> (nat \<times> rotor_op) list" where
  "written_calls os = concat (map written_call os)"

definition waiting_calls :: "Rotor \<Rightarrow> (nat \<times> rotor_op) list" where
  "waiting_calls s = concat (map caller (pendingCalls s))"

definition serving_calls :: "Rotor \<Rightarrow> (nat \<times> rotor_op) list" where
  "serving_calls s = (case serving s of None \<Rightarrow> [] | Some (c, p) \<Rightarrow> caller c)"

definition open_calls :: "Rotor \<Rightarrow> (nat \<times> rotor_op) list" where
  "open_calls s = serving_calls s @ waiting_calls s"

definition unwritten_calls :: "Rotor \<Rightarrow> (nat \<times> rotor_op) list" where
  "unwritten_calls s = (case serving s of Some (c, AwaitConnect k) \<Rightarrow> caller c | _ \<Rightarrow> []) @ waiting_calls s"

fun rotor_calls :: "rotor_event \<Rightarrow> (nat \<times> rotor_op) list" where
  "rotor_calls (Call i cmd) = [(i, cmd)]"
| "rotor_calls _ = []"

lemma calls_simps [simp]:
  "settled_calls [] = []" "settled_calls (xs @ ys) = settled_calls xs @ settled_calls ys"
  "settled_calls (x # xs) = settled_call x @ settled_calls xs"
  "written_calls [] = []" "written_calls (xs @ ys) = written_calls xs @ written_calls ys"
  "written_calls (x # xs) = written_call x @ written_calls xs"
  by (simp_all add: settled_calls_def written_calls_def)

definition ends_serving :: "Rotor \<Rightarrow> Rotor \<times> rotor_out list \<Rightarrow> bool" where
  \<comment> \<open>no command is written, and at most the one being served ends_serving\<close>
  "ends_serving s x \<longleftrightarrow> written_calls (snd x) = [] \<and> pendingCalls (fst x) = pendingCalls s \<and>
     ((settled_calls (snd x) = [] \<and> serving (fst x) = serving s) \<or>
      (settled_calls (snd x) = serving_calls s \<and> serving (fst x) = None))"

named_theorems ends_rules \<open>operations that end at most the command being served\<close>

lemma ends_seq: "ends_serving s x \<Longrightarrow> ends_serving (fst x) y \<Longrightarrow> ends_serving s (fst y, snd x @ snd y)"
  by (auto simp: ends_serving_def serving_calls_def)

lemma ends_same: "serving s' = serving s \<Longrightarrow> pendingCalls s' = pendingCalls s \<Longrightarrow> ends_serving s' x = ends_serving s x"
  by (simp add: ends_serving_def serving_calls_def)

lemma ends_upd: "ends_serving s x \<Longrightarrow> serving s' = serving (fst x) \<Longrightarrow> pendingCalls s' = pendingCalls (fst x) \<Longrightarrow> ends_serving s (s', snd x)"
  by (simp add: ends_serving_def)

lemma emit_frame [simp]:
  "serving (fst (emit n s)) = serving s" "pendingCalls (fst (emit n s)) = pendingCalls s" "written_calls (snd (emit n s)) = []"
  "settled_calls (snd (emit n s)) = []" "jobs (fst (emit n s)) = jobs s" "socket (fst (emit n s)) = socket s"
  "connectingSocket (fst (emit n s)) = connectingSocket s" "closed (fst (emit n s)) = closed s" "started (fst (emit n s)) = started s"
  "pollTimer (fst (emit n s)) = pollTimer s" "pollIntervalMs (fst (emit n s)) = pollIntervalMs s"
  "reconnectAttempts (fst (emit n s)) = reconnectAttempts s" "listening (fst (emit n s)) = listening s"
  "connecting (fst (emit n s)) = connecting s"
  by (simp_all add: emit_def)

lemma finish_frame [simp]:
  "serving (fst (finish c r s)) = None" "pendingCalls (fst (finish c r s)) = pendingCalls s" "written_calls (snd (finish c r s)) = []"
  "settled_calls (snd (finish c r s)) = caller c" "socket (fst (finish c r s)) = socket s"
  "connectingSocket (fst (finish c r s)) = connectingSocket s" "closed (fst (finish c r s)) = closed s"
  "started (fst (finish c r s)) = started s" "pollTimer (fst (finish c r s)) = pollTimer s"
  "pollIntervalMs (fst (finish c r s)) = pollIntervalMs s" "reconnectAttempts (fst (finish c r s)) = reconnectAttempts s"
  "listening (fst (finish c r s)) = listening s" "connecting (fst (finish c r s)) = connecting s"
  by (cases c; cases "fst c"; cases "snd c";
      simp add: finish_def emitMotion_def emit_def caller_def Let_def split: sum.split)+

lemma reset_frame [simp]:
  "serving (resetPending s) = serving s" "pendingCalls (resetPending s) = pendingCalls s" "socket (resetPending s) = socket s"
  "connectingSocket (resetPending s) = connectingSocket s" "closed (resetPending s) = closed s" "jobs (resetPending s) = jobs s"
  "started (resetPending s) = started s" "pollTimer (resetPending s) = pollTimer s" "pollIntervalMs (resetPending s) = pollIntervalMs s"
  "reconnectAttempts (resetPending s) = reconnectAttempts s" "listening (resetPending s) = listening s"
  "connecting (resetPending s) = connecting s"
  by (simp_all add: resetPending_def)

lemma ends_fail [ends_rules]: "ends_serving s (failPending e s)"
  by (auto simp: failPending_def ends_serving_def serving_calls_def split: option.split rotor_phase.split)

definition detached :: "Rotor \<Rightarrow> Rotor" where
  "detached s = s\<lparr>connecting := None, connectingSocket := None, socket := None,
     listening := filter (\<lambda>j. Some j \<noteq> connectingSocket s \<and> Some j \<noteq> socket s) (listening s)\<rparr>"

definition destroyed :: "Rotor \<Rightarrow> rotor_out list" where
  "destroyed s = map DestroySocket (List.map_filter id [connectingSocket s, socket s])"

lemma closeSocket_eq:
  "closeSocket e s = ((fst (failPending e (detached s)))\<lparr>responseBuffer := []\<rparr>, destroyed s @ snd (failPending e (detached s)))"
proof -
  have f: "filter (\<lambda>j. True) xs = xs" for xs :: "nat list" by simp
  have "snd (dropSocket (connectingSocket s) (s\<lparr>connecting := None\<rparr>)) @
      snd (dropSocket (socket s) ((fst (dropSocket (connectingSocket s) (s\<lparr>connecting := None\<rparr>)))\<lparr>connectingSocket := None\<rparr>)) = destroyed s"
    by (auto simp: dropSocket_def destroyed_def List.map_filter_simps split: option.split)
  moreover have "fst (dropSocket (socket s) ((fst (dropSocket (connectingSocket s) (s\<lparr>connecting := None\<rparr>)))\<lparr>connectingSocket := None\<rparr>))\<lparr>socket := None\<rparr>
      = detached s"
    by (cases "connectingSocket s"; cases "socket s") (simp_all add: dropSocket_def detached_def conj_commute)
  ultimately show ?thesis
    unfolding closeSocket_def Let_def case_prod_beta by (metis append.assoc fst_conv snd_conv)
qed

lemma destroyed_quiet [simp]: "written_calls (destroyed s) = []" "settled_calls (destroyed s) = []"
  by (auto simp: destroyed_def List.map_filter_def written_calls_def settled_calls_def)

lemma detached_frame [simp]:
  "serving (detached s) = serving s" "pendingCalls (detached s) = pendingCalls s" "socket (detached s) = None" "connectingSocket (detached s) = None"
  "closed (detached s) = closed s" "started (detached s) = started s" "pollTimer (detached s) = pollTimer s" "jobs (detached s) = jobs s"
  "pollIntervalMs (detached s) = pollIntervalMs s" "reconnectAttempts (detached s) = reconnectAttempts s" "connecting (detached s) = None"
  by (simp_all add: detached_def)

lemma ends_close [ends_rules]: "ends_serving s (closeSocket e s)"
  using ends_fail[of "detached s" e] unfolding closeSocket_eq by (auto simp: ends_serving_def serving_calls_def)

lemma ends_reject [ends_rules]: "ends_serving s (rejectAttempt k e s)"
  by (auto simp: rejectAttempt_def ends_serving_def serving_calls_def Let_def split: option.split rotor_phase.split)

lemma ends_data [ends_rules]: "ends_serving s (onData d s)"
  by (auto simp: onData_def ends_serving_def serving_calls_def Let_def split: option.split prod.split)

lemma schedule_frame [simp]: "serving (schedulePoll d s) = serving s" "pendingCalls (schedulePoll d s) = pendingCalls s"
  "socket (schedulePoll d s) = socket s" "connectingSocket (schedulePoll d s) = connectingSocket s" "closed (schedulePoll d s) = closed s"
  by (simp_all add: schedulePoll_def)

lemma ends_poll [ends_rules]: "ends_serving s (poll_ended r s)"
  using ends_close[of s]
  by (auto simp: poll_ended_def ends_serving_def serving_calls_def Let_def case_prod_beta split: sum.split)

lemma ends_shutdown [ends_rules]: "ends_serving s (shutdown s)"
proof -
  let ?s1 = "s\<lparr>started := False, closed := True, pollTimer := None\<rparr>"
  define x where "x = (case connectingSocket ?s1 of None \<Rightarrow> (?s1, [])
    | Some k \<Rightarrow> ((fst (rejectAttempt k ShutDown ?s1))\<lparr>connectingSocket := Some k\<rparr>, snd (rejectAttempt k ShutDown ?s1)))"
  have "ends_serving ?s1 x" using ends_reject[of ?s1 _ ShutDown] by (auto simp: x_def ends_serving_def split: option.split)
  from ends_seq[OF this ends_close[of "fst x" ShutDown]]
  have "ends_serving ?s1 (fst (closeSocket ShutDown (fst x)), snd x @ snd (closeSocket ShutDown (fst x)))" .
  moreover have "shutdown s = (fst (emit DISCONNECTED_STATUS (fst (closeSocket ShutDown (fst x)))),
      snd x @ snd (closeSocket ShutDown (fst x)) @ snd (emit DISCONNECTED_STATUS (fst (closeSocket ShutDown (fst x)))))"
    by (simp add: shutdown_def x_def Let_def case_prod_beta split: option.split)
  ultimately show ?thesis by (simp add: ends_serving_def serving_calls_def)
qed

lemma ends_steps:
  assumes "e \<noteq> Job" "\<forall>i cmd. e \<noteq> Call i cmd" "e \<noteq> PollTimerFires"
  shows "ends_serving s (rotor_step s e)"
proof (cases e)
  case (SocketFails k msg)
  have "ends_serving s (fst (rejectAttempt k (SocketError msg) (fst (failPending (SocketError msg) s))),
      snd (failPending (SocketError msg) s) @ snd (rejectAttempt k (SocketError msg) (fst (failPending (SocketError msg) s))))"
    by (rule ends_seq) (rule ends_rules)+
  then show ?thesis
    using ends_fail[of s "SocketError msg"] by (auto simp: SocketFails case_prod_beta Let_def ends_serving_def)
next
  case (SocketTimesOut k)
  then show ?thesis
    using ends_reject[of s k ConnectionTimedOut] by (auto simp: case_prod_beta Let_def ends_serving_def)
next
  case (SocketCloses k)
  let ?s1 = "s\<lparr>socket := (if socket s = Some k then None else socket s),
    connectingSocket := (if connectingSocket s = Some k then None else connectingSocket s),
    listening := filter (\<lambda>j. j \<noteq> k) (listening s)\<rparr>"
  show ?thesis
    using ends_fail[of ?s1 ConnectionClosed]
    by (simp add: SocketCloses case_prod_beta Let_def ends_serving_def serving_calls_def)
next
  case (CommandTimerFires)
  then show ?thesis
    using ends_close[of "s\<lparr>commandTimer := False\<rparr>" CommandTimedOut]
    by (auto simp: ends_serving_def serving_calls_def)
next
  case (SocketData k d)
  then show ?thesis using ends_data[of s d] by (auto simp: ends_serving_def)
next
  case Shutdown
  then show ?thesis using ends_shutdown by simp
qed (use assms in \<open>auto simp: ends_serving_def start_def\<close>)

lemma connect_frame:
  "settled_calls (snd (connect c s)) = []" "written_calls (snd (connect c s)) = []" "pendingCalls (fst (connect c s)) = pendingCalls s"
  "\<exists>k. serving (fst (connect c s)) = Some (c, AwaitConnect k)"
  by (simp_all add: connect_def Let_def)

lemma start_command_calls:
  "settled_calls (snd (start_command c s)) @ open_calls (fst (start_command c s)) = caller c @ waiting_calls s \<and>
   written_calls (snd (start_command c s)) = [] \<and>
   subseq (unwritten_calls (fst (start_command c s))) (caller c @ waiting_calls s)"
proof -
  obtain k where "serving (fst (connect c s)) = Some (c, AwaitConnect k)" using connect_frame(4) by blast
  then have "settled_calls (snd (connect c s)) @ open_calls (fst (connect c s)) = caller c @ waiting_calls s \<and>
      written_calls (snd (connect c s)) = [] \<and> unwritten_calls (fst (connect c s)) = caller c @ waiting_calls s"
    using connect_frame(1-3)[of c s] by (simp add: open_calls_def unwritten_calls_def serving_calls_def waiting_calls_def)
  moreover have "settled_calls (snd (finish c r s)) @ open_calls (fst (finish c r s)) = caller c @ waiting_calls s \<and>
      written_calls (snd (finish c r s)) = [] \<and> unwritten_calls (fst (finish c r s)) = waiting_calls s" for r
    by (simp add: open_calls_def unwritten_calls_def serving_calls_def waiting_calls_def)
  ultimately show ?thesis by (simp add: start_command_def list_emb_append2 split: option.split)
qed

lemma rotor_start_next_calls:
  "settled_calls (snd (rotor_start_next s)) @ open_calls (fst (rotor_start_next s)) = open_calls s"
  "subseq (written_calls (snd (rotor_start_next s)) @ unwritten_calls (fst (rotor_start_next s))) (unwritten_calls s)"
proof -
  have "settled_calls (snd (rotor_start_next s)) @ open_calls (fst (rotor_start_next s)) = open_calls s \<and>
    subseq (written_calls (snd (rotor_start_next s)) @ unwritten_calls (fst (rotor_start_next s))) (unwritten_calls s)"
  proof (cases "serving s = None \<and> pendingCalls s \<noteq> []")
    case True
    then obtain c cs where w: "serving s = None" "pendingCalls s = c # cs" by (cases "pendingCalls s") auto
    then show ?thesis
      using start_command_calls[of c "s\<lparr>pendingCalls := cs\<rparr>"]
      by (simp add: rotor_start_next_def open_calls_def[of s] unwritten_calls_def[of s] serving_calls_def[of s] waiting_calls_def)
  next
    case False
    then show ?thesis by (auto simp: rotor_start_next_def split: option.split list.split)
  qed
  then show "settled_calls (snd (rotor_start_next s)) @ open_calls (fst (rotor_start_next s)) = open_calls s"
    "subseq (written_calls (snd (rotor_start_next s)) @ unwritten_calls (fst (rotor_start_next s))) (unwritten_calls s)" by blast+
qed

lemma write_calls:
  "settled_calls (snd (write_command s)) @ open_calls (fst (write_command s)) = open_calls s"
  "subseq (written_calls (snd (write_command s)) @ unwritten_calls (fst (write_command s))) (unwritten_calls s)"
  by (auto simp: write_command_def open_calls_def unwritten_calls_def serving_calls_def waiting_calls_def
      split: option.split rotor_phase.split)

lemma command_calls:
  "settled_calls (snd (command c s)) @ open_calls (fst (command c s)) = (if closed s then caller c @ open_calls s else open_calls s @ caller c)"
  "subseq (written_calls (snd (command c s)) @ unwritten_calls (fst (command c s))) (unwritten_calls s @ caller c)"
  by (cases c; cases "fst c";
      auto simp: command_def open_calls_def unwritten_calls_def serving_calls_def waiting_calls_def caller_def
        split: option.split rotor_phase.split)+

lemma ends_calls:
  "ends_serving s x \<Longrightarrow> settled_calls (snd x) @ open_calls (fst x) = open_calls s"
  "ends_serving s x \<Longrightarrow> subseq (written_calls (snd x) @ unwritten_calls (fst x)) (unwritten_calls s)"
  by (auto simp: ends_serving_def open_calls_def unwritten_calls_def serving_calls_def waiting_calls_def split: option.split rotor_phase.split)

lemma calls_same:
  "serving s' = serving s \<Longrightarrow> pendingCalls s' = pendingCalls s \<Longrightarrow> open_calls s' = open_calls s"
  "serving s' = serving s \<Longrightarrow> pendingCalls s' = pendingCalls s \<Longrightarrow> unwritten_calls s' = unwritten_calls s"
  by (simp_all add: open_calls_def unwritten_calls_def serving_calls_def waiting_calls_def)

lemma job_calls:
  "settled_calls (snd (run_job s)) @ open_calls (fst (run_job s)) = open_calls s"
  "subseq (written_calls (snd (run_job s)) @ unwritten_calls (fst (run_job s))) (unwritten_calls s)"
proof -
  have "settled_calls (snd (run_job s)) @ open_calls (fst (run_job s)) = open_calls s \<and>
    subseq (written_calls (snd (run_job s)) @ unwritten_calls (fst (run_job s))) (unwritten_calls s)"
  proof (cases "jobs s")
    case (Cons j js)
    have "open_calls (s\<lparr>jobs := js\<rparr>) = open_calls s" "unwritten_calls (s\<lparr>jobs := js\<rparr>) = unwritten_calls s"
      by (rule calls_same; simp)+
    then show ?thesis
      using rotor_start_next_calls[of "s\<lparr>jobs := js\<rparr>"] write_calls[of "s\<lparr>jobs := js\<rparr>"] ends_calls[OF ends_poll[of "s\<lparr>jobs := js\<rparr>"]]
      by (cases j) (simp_all add: run_job_def Cons)
  qed (simp add: run_job_def)
  then show "settled_calls (snd (run_job s)) @ open_calls (fst (run_job s)) = open_calls s"
    "subseq (written_calls (snd (run_job s)) @ unwritten_calls (fst (run_job s))) (unwritten_calls s)" by blast+
qed

lemma timer_calls:
  "settled_calls (snd (rotor_step s PollTimerFires)) @ open_calls (fst (rotor_step s PollTimerFires)) = open_calls s"
  "subseq (written_calls (snd (rotor_step s PollTimerFires)) @ unwritten_calls (fst (rotor_step s PollTimerFires))) (unwritten_calls s)"
  using command_calls[of "(None, GetPosition)" "s\<lparr>pollTimer := None\<rparr>"] calls_same[of "s\<lparr>pollTimer := None\<rparr>" s]
  by (auto simp: caller_def)

lemma rotor_balance:
  "mset (settled_calls (snd (rotor_step s e))) + mset (open_calls (fst (rotor_step s e))) = mset (open_calls s) + mset (rotor_calls e)"
proof (cases "e = Job \<or> (\<exists>i cmd. e = Call i cmd) \<or> e = PollTimerFires")
  case True
  then consider "e = Job" | i cmd where "e = Call i cmd" | "e = PollTimerFires" by blast
  then show ?thesis
  proof cases
    case 1 then show ?thesis using arg_cong[OF job_calls(1)[of s], of mset] by simp
  next
    case (2 i cmd)
    then show ?thesis
      using arg_cong[OF command_calls(1)[of "(Some i, cmd)" s], of mset] by (simp add: caller_def split: if_splits)
  next
    case 3 then show ?thesis using arg_cong[OF timer_calls(1)[of s], of mset] by simp
  qed
next
  case False
  then have "ends_serving s (rotor_step s e)" by (intro ends_steps) auto
  from arg_cong[OF ends_calls(1)[OF this], of mset] show ?thesis using False by (cases e) auto
qed

lemma rotor_order:
  "subseq (written_calls (snd (rotor_step s e)) @ unwritten_calls (fst (rotor_step s e))) (unwritten_calls s @ rotor_calls e)"
proof (cases "e = Job \<or> (\<exists>i cmd. e = Call i cmd) \<or> e = PollTimerFires")
  case True
  then consider "e = Job" | i cmd where "e = Call i cmd" | "e = PollTimerFires" by blast
  then show ?thesis
  proof cases
    case 1 then show ?thesis using job_calls(2)[of s] by simp
  next
    case (2 i cmd) then show ?thesis using command_calls(2)[of "(Some i, cmd)" s] by (simp add: caller_def)
  next
    case 3 then show ?thesis using timer_calls(2)[of s] by simp
  qed
next
  case False
  then have "ends_serving s (rotor_step s e)" by (intro ends_steps) auto
  from ends_calls(2)[OF this] show ?thesis using False by (cases e) auto
qed

interpretation rq: fifo_queue rotor_step "\<lambda>_. True" open_calls rotor_calls settled_calls unwritten_calls written_calls
  by unfold_locales (simp_all add: rotor_balance rotor_order)

section \<open>What is written\<close>

fun written_line :: "rotor_out \<Rightarrow> (rotor_call \<times> string) list" where
  "written_line (WriteLine k c l) = [(c, l)]"
| "written_line _ = []"

definition written_lines :: "rotor_out list \<Rightarrow> (rotor_call \<times> string) list" where
  "written_lines os = concat (map written_line os)"

definition motion_lines :: "rotor_out list \<Rightarrow> string list" where
  \<comment> \<open>the lines written that do not ask for the position\<close>
  "motion_lines os = filter (\<lambda>l. l \<noteq> ''p'' @ [newline]) (map snd (written_lines os))"

lemma written_simps [simp]:
  "written_lines [] = []" "written_lines (xs @ ys) = written_lines xs @ written_lines ys"
  "written_lines (x # xs) = written_line x @ written_lines xs"
  by (simp_all add: written_lines_def)

lemma written_calls_lines: "written_calls os = concat (map (caller \<circ> fst) (written_lines os))"
proof (induction os)
  case (Cons x os)
  then show ?case by (cases x) simp_all
qed simp

definition poll_call :: "rotor_call \<Rightarrow> bool" where
  \<comment> \<open>a call without a promise is a poll, and a poll asks for the position\<close>
  "poll_call c \<longleftrightarrow> (fst c = None \<longrightarrow> snd c = GetPosition)"

definition polls_ok :: "Rotor \<Rightarrow> bool" where
  "polls_ok s \<longleftrightarrow> list_all poll_call (pendingCalls s) \<and> (case serving s of None \<Rightarrow> True | Some (c, p) \<Rightarrow> poll_call c)"

definition line_ok :: "rotor_call \<times> string \<Rightarrow> bool" where
  "line_ok x \<longleftrightarrow> poll_call (fst x) \<and> snd x = command_text (snd (fst x)) @ [newline]"

lemma ends_lines: "ends_serving s x \<Longrightarrow> polls_ok s \<Longrightarrow> polls_ok (fst x)"
  by (auto simp: ends_serving_def polls_ok_def)

lemma finish_lines [simp]: "written_lines (snd (finish c r s)) = []"
  by (cases c; cases "fst c"; cases "snd c"; simp add: finish_def emitMotion_def emit_def Let_def split: sum.split)

lemma emit_lines [simp]: "written_lines (snd (emit n s)) = []"
  by (simp add: emit_def)

lemma quiet_lines [simp]:
  "written_lines (snd (failPending e s)) = []" "written_lines (snd (rejectAttempt k e s)) = []" "written_lines (snd (onData d s)) = []"
  by (auto simp: failPending_def rejectAttempt_def onData_def Let_def split: option.split rotor_phase.split prod.split)

lemma destroyed_lines [simp]: "written_lines (destroyed s) = []"
  by (auto simp: destroyed_def List.map_filter_def written_lines_def)

lemma more_quiet_lines [simp]:
  "written_lines (snd (closeSocket e s)) = []" "written_lines (snd (poll_ended r s)) = []" "written_lines (snd (shutdown s)) = []"
  "written_lines (snd (connect c s)) = []" "written_lines (snd (rotor_start_next s)) = []" "written_lines (snd (command c s)) = []"
  by (auto simp: closeSocket_eq poll_ended_def shutdown_def connect_def rotor_start_next_def start_command_def command_def Let_def case_prod_beta
      split: option.split sum.split list.split)

lemma lines_step: "polls_ok s \<Longrightarrow> list_all line_ok (written_lines (snd (rotor_step s e))) \<and> polls_ok (fst (rotor_step s e))"
proof -
  assume ok: "polls_ok s"
  have cmd: "poll_call c \<Longrightarrow> polls_ok s' \<Longrightarrow> polls_ok (fst (command c s'))" for c s'
    by (auto simp: command_def polls_ok_def split: option.split prod.split)
  have start: "polls_ok s' \<Longrightarrow> polls_ok (fst (rotor_start_next s'))" for s'
    by (auto simp: rotor_start_next_def start_command_def connect_def polls_ok_def Let_def split: option.split list.split)
  have wr: "polls_ok s' \<Longrightarrow> list_all line_ok (written_lines (snd (write_command s'))) \<and> polls_ok (fst (write_command s'))" for s'
    by (auto simp: write_command_def polls_ok_def line_ok_def split: option.split rotor_phase.split)
  have upd: "polls_ok s' = polls_ok s" if "pendingCalls s' = pendingCalls s" "serving s' = serving s" for s'
    using that by (simp add: polls_ok_def)
  consider "e = Job" | i c where "e = Call i c" | "e = PollTimerFires" | "e \<noteq> Job" "\<forall>i cmd. e \<noteq> Call i cmd" "e \<noteq> PollTimerFires" by blast
  then show ?thesis
  proof cases
    case 1
    then show ?thesis
      using ok start[of "s\<lparr>jobs := js\<rparr>" for js] wr[of "s\<lparr>jobs := js\<rparr>" for js] ends_lines[OF ends_poll[of "s\<lparr>jobs := js\<rparr>" for js]] upd[of "s\<lparr>jobs := js\<rparr>" for js]
      by (auto simp: run_job_def Let_def split: list.split rotor_job.split)
  next
    case (2 i c)
    then show ?thesis using ok cmd[of "(Some i, c)" s] by (simp add: poll_call_def)
  next
    case 3
    then show ?thesis
      using ok cmd[of "(None, GetPosition)" "s\<lparr>pollTimer := None\<rparr>"] upd[of "s\<lparr>pollTimer := None\<rparr>"] by (simp add: poll_call_def)
  next
    case 4
    then show ?thesis
      using ends_lines[OF ends_steps[OF 4]] ok by (cases e) (auto simp: Let_def case_prod_beta)
  qed
qed

lemma lines_run: "polls_ok s \<Longrightarrow> list_all line_ok (written_lines (snd (rotor_run s es)))"
proof (induction es arbitrary: s)
  case (Cons e es)
  then show ?case using lines_step[of s e] by (auto simp: Let_def case_prod_beta)
qed simp

lemma motion_of_lines:
  "list_all line_ok ls \<Longrightarrow> filter (\<lambda>l. l \<noteq> ''p'' @ [newline]) (map snd ls) =
     map (\<lambda>c. command_text (snd c) @ [newline]) (filter (\<lambda>c. interlocked (snd c)) (concat (map (caller \<circ> fst) ls)))"
proof (induction ls)
  case (Cons x ls)
  obtain i cmd l where x: "x = ((i, cmd), l)" by (metis surj_pair)
  show ?case using Cons
    by (cases i; cases cmd) (auto simp: x line_ok_def poll_call_def caller_def command_text_def interlocked_def formatSetPositionCommand_def)
qed simp

section \<open>After a shutdown\<close>

fun on_wire :: "rotor_out \<Rightarrow> bool" where
  "on_wire (OpenSocket k) = True"
| "on_wire (WriteLine k c l) = True"
| "on_wire _ = False"

definition is_shut :: "Rotor \<Rightarrow> bool" where
  "is_shut s \<longleftrightarrow> closed s \<and> socket s = None \<and> connectingSocket s = None"

lemma finish_off [simp]: "\<not> list_ex on_wire (snd (finish c r s))"
  by (cases c; cases "fst c"; cases "snd c"; simp add: finish_def emitMotion_def emit_def Let_def split: sum.split)

lemma emit_off [simp]: "\<not> list_ex on_wire (snd (emit n s))"
  by (simp add: emit_def)

lemma quiet_off [simp]:
  "\<not> list_ex on_wire (snd (failPending e s))" "\<not> list_ex on_wire (snd (rejectAttempt k e s))" "\<not> list_ex on_wire (snd (onData d s))"
  "\<not> list_ex on_wire (destroyed s)"
  by (auto simp: failPending_def rejectAttempt_def onData_def destroyed_def List.map_filter_def Let_def
      split: option.split rotor_phase.split prod.split)

lemma fail_shut [simp]:
  "socket (fst (failPending e s)) = socket s" "connectingSocket (fst (failPending e s)) = connectingSocket s"
  "closed (fst (failPending e s)) = closed s" "connectingSocket (fst (rejectAttempt k e s)) = None"
  "socket (fst (rejectAttempt k e s)) = socket s" "closed (fst (rejectAttempt k e s)) = closed s"
  "socket (fst (onData d s)) = socket s" "connectingSocket (fst (onData d s)) = connectingSocket s" "closed (fst (onData d s)) = closed s"
  by (auto simp: failPending_def rejectAttempt_def onData_def Let_def split: option.split rotor_phase.split prod.split)

lemma close_shut [simp]:
  "socket (fst (closeSocket e s)) = None" "connectingSocket (fst (closeSocket e s)) = None" "closed (fst (closeSocket e s)) = closed s"
  "\<not> list_ex on_wire (snd (closeSocket e s))"
  by (simp_all add: closeSocket_eq)

lemma shutdown_shut: "is_shut (fst (shutdown s))" "\<not> list_ex on_wire (snd (shutdown s))"
  by (auto simp: shutdown_def is_shut_def Let_def case_prod_beta split: option.split)

lemma shut_step: "is_shut s \<Longrightarrow> is_shut (fst (rotor_step s e)) \<and> \<not> list_ex on_wire (snd (rotor_step s e))"
proof -
  assume s: "is_shut s"
  have job: "is_shut (fst (run_job s)) \<and> \<not> list_ex on_wire (snd (run_job s))"
    using s by (auto simp: is_shut_def run_job_def rotor_start_next_def start_command_def write_command_def poll_ended_def Let_def case_prod_beta
        split: list.split rotor_job.split option.split rotor_phase.split sum.split)
  show ?thesis
    using s job shutdown_shut
    by (cases e) (auto simp: is_shut_def start_def schedulePoll_def command_def Let_def case_prod_beta split: prod.split option.split)
qed

lemma shut_run: "is_shut s \<Longrightarrow> \<not> list_ex on_wire (snd (rotor_run s es))"
proof (induction es arbitrary: s)
  case (Cons e es)
  then show ?case using shut_step[of s e] by (auto simp: Let_def case_prod_beta)
qed simp

end
