(* ===== verification/RotorSafety.thy ===== *)
theory RotorSafety
  imports RotorLink
begin

text \<open>
  Properties of the rotator client over all runs: what can move the antenna, what happens after
  a shutdown, how replies are put together, the back-off, and two defects of the code.
\<close>

section \<open>A wedged queue\<close>

fun awaits_attempt :: "rotor_phase \<Rightarrow> bool" where
  "awaits_attempt (AwaitConnect (Some j)) = True"
| "awaits_attempt _ = False"

definition wedged :: "Rotor \<Rightarrow> bool" where
  \<comment> \<open>the command being served awaits a connection attempt nothing will settle\<close>
  "wedged s \<longleftrightarrow> connectingSocket s = None \<and> WriteNow \<notin> set (jobs s) \<and>
     (case serving s of Some (c, p) \<Rightarrow> awaits_attempt p | None \<Rightarrow> False)"

lemma fail_wedged: "serving s = Some (c, AwaitConnect k) \<Longrightarrow> failPending e s = (resetPending s, [])"
  by (simp add: failPending_def)

lemma wedged_upd:
  "wedged s \<Longrightarrow> connectingSocket s' = None \<Longrightarrow> serving s' = serving s \<Longrightarrow> WriteNow \<notin> set (jobs s') \<Longrightarrow> wedged s'"
  by (simp add: wedged_def)

lemma wedged_serving: "wedged s \<Longrightarrow> \<exists>c j. serving s = Some (c, AwaitConnect (Some j))"
  by (auto simp: wedged_def elim: awaits_attempt.elims split: option.splits)

lemma wedged_step:
  assumes "wedged s" "pendingReply s = False"
  shows "wedged (fst (rotor_step s e)) \<and> pendingReply (fst (rotor_step s e)) = False \<and>
    serving (fst (rotor_step s e)) = serving s \<and> \<not> list_ex on_wire (snd (rotor_step s e))"
proof -
  obtain c j where sv: "serving s = Some (c, AwaitConnect (Some j))" using wedged_serving[OF assms(1)] by blast
  have w: "connectingSocket s = None" "WriteNow \<notin> set (jobs s)" using assms(1) by (auto simp: wedged_def)
  have close: "closeSocket er s' = ((resetPending (detached s'))\<lparr>responseBuffer := []\<rparr>, destroyed s')" if "serving s' = serving s" for er s'
    using that sv by (simp add: closeSocket_eq fail_wedged)
  have job: "wedged (fst (run_job s)) \<and> pendingReply (fst (run_job s)) = False \<and> serving (fst (run_job s)) = serving s \<and>
      \<not> list_ex on_wire (snd (run_job s))"
  proof (cases "jobs s")
    case (Cons jb js)
    then show ?thesis
      using w sv assms(2)
      by (cases jb) (auto simp: run_job_def rotor_start_next_def poll_ended_def close wedged_def resetPending_def schedulePoll_def emit_def
          Let_def case_prod_beta split: sum.split)
  qed (use assms in \<open>simp add: run_job_def\<close>)
  show ?thesis
  proof (cases e)
    case Shutdown
    then show ?thesis using w sv
      by (simp add: shutdown_def close wedged_def resetPending_def emit_def Let_def case_prod_beta)
  next
    case CommandTimerFires
    then show ?thesis using w sv assms(2)
      by (simp add: close wedged_def resetPending_def)
  next
    case Job
    then show ?thesis using job by simp
  qed (use w sv assms(2) in \<open>auto simp: wedged_def start_def schedulePoll_def command_def resetPending_def fail_wedged onData_def
      Let_def case_prod_beta split: prod.split option.split\<close>)
qed

lemma wedged_run:
  "wedged s \<Longrightarrow> pendingReply s = False \<Longrightarrow>
     \<not> list_ex on_wire (snd (rotor_run s es)) \<and> serving (fst (rotor_run s es)) = serving s"
proof (induction es arbitrary: s)
  case (Cons e es)
  then show ?case using wedged_step[of s e] by (auto simp: Let_def case_prod_beta)
qed simp

section \<open>Replies in pieces\<close>

lemma reply_loop_append:
  "reply_loop n (buf @ d) lines =
     (case reply_loop n buf lines of
        (rest, lines', None) \<Rightarrow> reply_loop n (rest @ d) lines'
      | (rest, lines', Some r) \<Rightarrow> (rest @ d, lines', Some r))"
proof (induction n buf lines rule: reply_loop.induct)
  case (1 n buf lines)
  show ?case
  proof (cases "index_from (\<lambda>c. c = newline) buf")
    case None
    then show ?thesis by (simp add: reply_loop.simps[of n buf lines])
  next
    case (Some i)
    then have i: "index_from (\<lambda>c. c = newline) (buf @ d) = Some i" "i < length buf"
      by (simp add: index_from_append) (use Some in \<open>simp add: index_from_Some\<close>)
    show ?thesis
      using 1[OF Some refl refl] i Some
      by (simp add: Let_def reply_loop.simps[of n buf lines] reply_loop.simps[of n "buf @ d" lines])
  qed
qed

lemma reply_loop_rest: "reply_loop n buf lines = (rest, ls, None) \<Longrightarrow> reply_loop n rest ls' = (rest, ls', None)"
proof (induction n buf lines arbitrary: rest ls rule: reply_loop.induct)
  case (1 n buf lines)
  show ?case
  proof (cases "index_from (\<lambda>c. c = newline) buf")
    case None
    then show ?thesis using 1(2) by (auto simp: reply_loop.simps[of n buf lines] reply_loop.simps[of n rest ls'])
  next
    case (Some i)
    show ?thesis
      using 1(1)[OF Some refl refl] 1(2) Some by (auto simp: Let_def reply_loop.simps[of n buf lines] split: if_splits)
  qed
qed

lemma finish_output: "status s = status s' \<Longrightarrow> snd (finish c r s) = snd (finish c r s')"
  by (cases c; cases "fst c"; cases "snd c"; simp add: finish_def emitMotion_def emit_def Let_def split: sum.split)

lemma idle_data:
  assumes "\<not> pendingReply s" "k \<in> set (listening s)"
  shows "snd (rotor_run s (map (SocketData k) ds)) = []"
  using assms
proof (induction ds arbitrary: s)
  case (Cons d ds)
  then show ?case by (simp add: onData_def Let_def case_prod_beta)
qed simp

lemma finish_pending [simp]: "pendingReply (fst (finish c r s)) = pendingReply s"
  by (cases c; cases "fst c"; cases "snd c"; simp add: finish_def emitMotion_def emit_def Let_def split: sum.split)

lemma data_run:
  assumes "pendingReply s" "k \<in> set (listening s)" "serving s = Some (c, p)"
    "reply_loop (expectedLines s) (responseBuffer s @ concat ds) (pendingLines s) = (rest, ls, Some r)" "ds \<noteq> []"
    "reply_loop (expectedLines s) (responseBuffer s) (pendingLines s) = (responseBuffer s, pendingLines s, None)"
  shows "snd (rotor_run s (map (SocketData k) ds)) = snd (finish c (Inr r) s)"
  using assms
proof (induction ds arbitrary: s)
  case (Cons d ds)
  obtain rest1 ls1 r1 where l: "reply_loop (expectedLines s) (responseBuffer s @ d) (pendingLines s) = (rest1, ls1, r1)"
    by (metis surj_pair)
  have all: "reply_loop (expectedLines s) ((responseBuffer s @ d) @ concat ds) (pendingLines s) = (rest, ls, Some r)"
    using Cons.prems(4) by simp
  show ?case
  proof (cases r1)
    case None
    define s1 where "s1 = s\<lparr>responseBuffer := rest1, pendingLines := ls1\<rparr>"
    have step: "rotor_step s (SocketData k d) = (s1, [])"
      using Cons.prems(1,2) l None by (simp add: onData_def s1_def Let_def)
    have n: "reply_loop (expectedLines s) (rest1 @ concat ds) ls1 = (rest, ls, Some r)"
      using all unfolding reply_loop_append[of _ "responseBuffer s @ d"] l None by simp
    have stop: "reply_loop (expectedLines s) rest1 ls1 = (rest1, ls1, None)"
      using reply_loop_rest l unfolding None by blast
    have "ds \<noteq> []" using n stop by auto
    moreover have "snd (rotor_run s1 (map (SocketData k) ds)) = snd (finish c (Inr r) s1)"
      using Cons.IH[of s1] Cons.prems(1-3) n stop \<open>ds \<noteq> []\<close> by (simp add: s1_def)
    moreover have "snd (finish c (Inr r) s1) = snd (finish c (Inr r) s)" by (rule finish_output) (simp add: s1_def)
    ultimately show ?thesis using step by (simp add: Let_def case_prod_beta)
  next
    case (Some r')
    have "r' = r" using all unfolding reply_loop_append[of _ "responseBuffer s @ d"] l Some by simp
    let ?s0 = "resetPending (s\<lparr>responseBuffer := rest1\<rparr>)"
    have "rotor_step s (SocketData k d) = finish c (Inr r) ?s0"
      using Cons.prems(1-3) l Some \<open>r' = r\<close> by (simp add: onData_def Let_def)
    moreover have "snd (rotor_run (fst (finish c (Inr r) ?s0)) (map (SocketData k) ds)) = []"
      using Cons.prems(2) by (intro idle_data) (simp_all add: resetPending_def)
    moreover have "snd (finish c (Inr r) ?s0) = snd (finish c (Inr r) s)"
      by (rule finish_output) (simp add: resetPending_def)
    ultimately show ?thesis by (simp add: Let_def case_prod_beta)
  qed
qed simp

section \<open>Properties\<close>

text \<open>
  Every call of the client is answered once or still open: over any run from a new client, the
  calls whose promise has settled and those being served or waiting are, counted with
  multiplicity, the calls made.
\<close>

theorem rotor_conserves_calls:
  "mset (settled_calls (snd (rotor_run (new_rotor interval) es)) @ open_calls (fst (rotor_run (new_rotor interval) es)))
     = mset (concat (map rotor_calls es))"
  using rq.run_balance[of "new_rotor interval" es]
  by (simp add: new_rotor_def open_calls_def serving_calls_def waiting_calls_def)

text \<open>
  C29: The antenna moves only when told: the lines sent that are not position requests are the texts
  of some of the \<open>setHeading\<close> and \<open>stop\<close> calls made, each at most once and in the order of the calls.
  Polling, reconnecting and retrying send none.
\<close>

theorem rotor_moves_only_when_told:
  "\<exists>cs. subseq cs (filter (\<lambda>c. interlocked (snd c)) (concat (map rotor_calls es))) \<and>
     motion_lines (snd (rotor_run (new_rotor interval) es)) = map (\<lambda>c. command_text (snd c) @ [newline]) cs"
proof -
  let ?os = "snd (rotor_run (new_rotor interval) es)"
  have "polls_ok (new_rotor interval)" "unwritten_calls (new_rotor interval) = []"
    by (simp_all add: new_rotor_def polls_ok_def unwritten_calls_def waiting_calls_def)
  then have ok: "list_all line_ok (written_lines ?os)" and sub: "subseq (written_calls ?os) (concat (map rotor_calls es))"
    using lines_run rq.starts_in_order by blast+
  have "subseq (filter (\<lambda>c. interlocked (snd c)) (written_calls ?os)) (filter (\<lambda>c. interlocked (snd c)) (concat (map rotor_calls es)))"
    using sub by (rule subseq_filter)
  moreover have "motion_lines ?os = map (\<lambda>c. command_text (snd c) @ [newline]) (filter (\<lambda>c. interlocked (snd c)) (written_calls ?os))"
    unfolding motion_lines_def written_calls_lines by (rule motion_of_lines[OF ok])
  ultimately show ?thesis by blast
qed

text \<open>
  C32: After a shutdown the client is silent: whatever happens then, no socket is opened and nothing
  is written.
\<close>

theorem rotor_silent_after_shutdown: "\<not> list_ex on_wire (snd (rotor_run (fst (shutdown s)) es))"
  by (rule shut_run) (rule shutdown_shut)

definition unconnected :: "Rotor \<Rightarrow> bool" where
  \<comment> \<open>open for commands, with none in progress and no connection\<close>
  "unconnected s \<longleftrightarrow> \<not> closed s \<and> socket s = None \<and> connecting s = None \<and> connectingSocket s = None \<and>
     serving s = None \<and> pendingCalls s = [] \<and> jobs s = [] \<and> interlock s = None"

text \<open>
  C33: A defect of \<open>command\<close>: the interlock is asked before the connection is awaited and not again
  after it. On a client that has no connection, a heading command accepted while nothing
  transmits is sent when the connection comes up, although the interlock has been refusing
  motion since.
\<close>

theorem rotor_moves_while_transmitting:
  assumes "unconnected s"
  shows "let (s1, o1) = rotor_run s [Call i (SetHeading h), Job, InterlockAnswers (Some reason)];
             (s2, o2) = rotor_run s1 [Connected (nextSock s), Job]
         in interlock s1 = Some reason \<and> motion_lines o1 = [] \<and>
            o2 = [WriteLine (nextSock s) (Some i, SetHeading h) (formatSetPositionCommand h @ [newline])]"
  using assms
  by (simp add: unconnected_def run_job_def rotor_defs interlocked_def command_text_def motion_lines_def)

theorem rotor_moves_while_transmitting_witness:
  "snd (rotor_run (fst (rotor_run (new_rotor 1000) [Call 1 (SetHeading \<lparr>azimuth = 90, elevation = 0\<rparr>), Job, InterlockAnswers (Some ''tx'')]))
     [Connected 0, Job]) =
   [WriteLine 0 (Some 1, SetHeading \<lparr>azimuth = 90, elevation = 0\<rparr>) (formatSetPositionCommand \<lparr>azimuth = 90, elevation = 0\<rparr> @ [newline])]"
proof -
  have u: "unconnected (new_rotor 1000)" "nextSock (new_rotor 1000) = 0" by (simp_all add: unconnected_def new_rotor_def)
  then show ?thesis
    using rotor_moves_while_transmitting[OF u(1), of 1 "\<lparr>azimuth = 90, elevation = 0\<rparr>" "''tx''"]
    unfolding u(2) Let_def case_prod_beta by blast
qed

definition poll_connecting :: "sock \<Rightarrow> nat \<times> rotor_op \<Rightarrow> Rotor \<Rightarrow> bool" where
  \<comment> \<open>a poll awaits the attempt on socket \<open>k\<close>, and the command \<open>c\<close> waits behind it\<close>
  "poll_connecting k c s \<longleftrightarrow> \<not> closed s \<and> socket s = None \<and> connecting s = Some k \<and> connectingSocket s = Some k \<and>
     k \<in> set (listening s) \<and> serving s = Some ((None, GetPosition), AwaitConnect (Some k)) \<and>
     pendingCalls s = [(Some (fst c), snd c)] \<and> jobs s = [] \<and> interlock s = None"

text \<open>
  C31: A defect of \<open>poll\<close>: when the connection a poll awaits fails while a command waits behind it, the
  command starts and opens the next connection before the poll's handler runs, and the handler
  closes that one without settling its promise. From there on the command never settles and
  nothing is sent or opened again, whatever happens, until the process is restarted.
\<close>

theorem rotor_wedged:
  assumes "poll_connecting k c s"
  shows "let s1 = fst (rotor_run s [SocketFails k msg, Job, Job])
         in \<not> list_ex on_wire (snd (rotor_run s1 es)) \<and> serving_calls (fst (rotor_run s1 es)) = [c]"
proof -
  let ?s1 = "fst (rotor_run s [SocketFails k msg, Job, Job])"
  note a = assms[unfolded poll_connecting_def]
  have f: "failPending e s' = (resetPending s', [])" if "serving s' = Some (c', AwaitConnect j)" for e s' c' j
    using that by (simp add: failPending_def)
  have "wedged ?s1 \<and> pendingReply ?s1 = False \<and> serving_calls ?s1 = [c]"
    using a by (simp add: f rejectAttempt_def run_job_def rotor_defs poll_ended_def closeSocket_eq detached_def DISCONNECTED_STATUS_def
        schedulePoll_def wedged_def serving_calls_def caller_def)
  then show ?thesis using wedged_run[of ?s1 es] by (simp add: serving_calls_def Let_def)
qed

theorem rotor_wedged_witness:
  "let s = fst (rotor_run (new_rotor 1000) [Start, PollTimerFires, Job, Call 1 Stop, Job]);
       s1 = fst (rotor_run s [SocketFails 0 ''ECONNREFUSED'', Job, Job])
   in serving_calls (fst (rotor_run s1 [Call 2 Stop, Job, Start, PollTimerFires, Job])) = [(1, Stop)]"
proof -
  have "poll_connecting 0 (1, Stop) (fst (rotor_run (new_rotor 1000) [Start, PollTimerFires, Job, Call 1 Stop, Job]))"
    by (simp add: poll_connecting_def new_rotor_def start_def schedulePoll_def run_job_def rotor_defs interlocked_def)
  from rotor_wedged[OF this, of "''ECONNREFUSED''" "[Call 2 Stop, Job, Start, PollTimerFires, Job]"]
  show ?thesis unfolding Let_def by blast
qed

text \<open>
  C39: A reply is put together from pieces: while a position request awaits its reply with nothing
  received, the two lines of a position arriving cut into any pieces settle the call once, with
  the position rounded to hundredths, and with nothing else.
\<close>

theorem position_from_pieces:
  assumes "pendingReply s" "expectedLines s = 2" "responseBuffer s = []" "pendingLines s = []" "k \<in> set (listening s)"
    "serving s = Some ((Some i, GetPosition), AwaitReply)" "0 \<le> azimuth h" "0 \<le> elevation h"
    "concat ds = toFixed 2 (azimuth h) @ [newline] @ toFixed 2 (elevation h) @ [newline]"
  shows "snd (rotor_run s (map (SocketData k) ds)) =
    [RotorSettled (i, GetPosition) (Inr (Some \<lparr>azimuth = hundredths (azimuth h), elevation = hundredths (elevation h)\<rparr>))]"
proof -
  let ?a = "toFixed 2 (azimuth h)" and ?e = "toFixed 2 (elevation h)"
  note a = fixed_text[OF assms(7), of 2] and e = fixed_text[OF assms(8), of 2]
  have ia: "index_from (\<lambda>c. c = newline) (?a @ newline # t) = Some (length ?a)" for t
    by (auto simp: index_from_Some nth_append) (use a(2) in auto)
  have ie: "index_from (\<lambda>c. c = newline) (?e @ [newline]) = Some (length ?e)"
    by (auto simp: index_from_Some nth_append) (use e(2) in auto)
  have te: "trimEnd ?a = ?a" "trimEnd ?e = ?e" using a(2) e(2) by (simp_all add: trimEnd_def dropWhile_none)
  note tr = fixed_lines(1)[OF assms(7,8)]
  have "ds \<noteq> []" using assms(9) by auto
  moreover have "reply_loop 2 (responseBuffer s @ concat ds) [] = ([], [?a, ?e], Some (?a @ newline # ?e))"
    by (simp add: assms(3,9) reply_loop.simps[of 2 "?a @ _"] reply_loop.simps[of 2 "?e @ _"] ia ie te tr join_lines_def)
  moreover have "reply_loop 2 [] [] = ([], [], None)" by (simp add: reply_loop.simps)
  ultimately have "snd (rotor_run s (map (SocketData k) ds)) = snd (finish (Some i, GetPosition) (Inr (?a @ newline # ?e)) s)"
    using assms(1-6) by (intro data_run) auto
  moreover have "parseRotorPosition (?a @ newline # ?e) = Inr \<lparr>azimuth = hundredths (azimuth h), elevation = hundredths (elevation h)\<rparr>"
    by (rule fixed_lines(3)[OF assms(7,8)]) (rule fixed_lines(1)[OF assms(7,8)])
  ultimately show ?thesis by (simp add: finish_def)
qed

theorem position_from_pieces_witness:
  "snd (rotor_run (fst (rotor_run (new_rotor 1000) [Call 1 GetPosition, Job, Connected 0, Job]))
     (map (SocketData 0) [toFixed 2 (1 / 3), [newline], toFixed 2 45 @ [newline]])) =
   [RotorSettled (1, GetPosition) (Inr (Some \<lparr>azimuth = hundredths (1 / 3), elevation = hundredths 45\<rparr>))]"
proof -
  let ?s = "fst (rotor_run (new_rotor 1000) [Call 1 GetPosition, Job, Connected 0, Job])"
  have "pendingReply ?s \<and> expectedLines ?s = 2 \<and> responseBuffer ?s = [] \<and> pendingLines ?s = [] \<and> 0 \<in> set (listening ?s) \<and>
    serving ?s = Some ((Some 1, GetPosition), AwaitReply)"
    by (simp add: new_rotor_def run_job_def rotor_defs interlocked_def expected_lines_def)
  then have s: "pendingReply ?s" "expectedLines ?s = 2" "responseBuffer ?s = []" "pendingLines ?s = []" "0 \<in> set (listening ?s)"
    "serving ?s = Some ((Some 1, GetPosition), AwaitReply)" by blast+
  show ?thesis
    using position_from_pieces[OF s, of "\<lparr>azimuth = 1 / 3, elevation = 45\<rparr>" "[toFixed 2 (1 / 3), [newline], toFixed 2 45 @ [newline]]"]
    by (simp del: steps.simps)
qed

definition delay_ok :: "Rotor \<Rightarrow> bool" where
  "delay_ok s \<longleftrightarrow> (case pollTimer s of None \<Rightarrow> True
     | Some d \<Rightarrow> d = 0 \<or> d = pollIntervalMs s \<or> (RECONNECT_BASE_DELAY_MS \<le> d \<and> d \<le> RECONNECT_MAX_DELAY_MS))"

lemma timer_frame [simp]:
  "pollTimer (fst (failPending e s)) = pollTimer s" "pollIntervalMs (fst (failPending e s)) = pollIntervalMs s"
  "pollTimer (fst (rejectAttempt k e s)) = pollTimer s" "pollIntervalMs (fst (rejectAttempt k e s)) = pollIntervalMs s"
  "pollTimer (fst (onData d s)) = pollTimer s" "pollIntervalMs (fst (onData d s)) = pollIntervalMs s"
  "pollTimer (fst (command c s)) = pollTimer s" "pollIntervalMs (fst (command c s)) = pollIntervalMs s"
  by (auto simp: failPending_def rejectAttempt_def onData_def command_def Let_def split: option.split rotor_phase.split prod.split)

lemma timer_frame_close [simp]:
  "pollTimer (fst (closeSocket e s)) = pollTimer s" "pollIntervalMs (fst (closeSocket e s)) = pollIntervalMs s"
  by (simp_all add: closeSocket_eq)

lemma timer_frame_next [simp]:
  "pollTimer (fst (rotor_start_next s)) = pollTimer s" "pollIntervalMs (fst (rotor_start_next s)) = pollIntervalMs s"
  "pollTimer (fst (write_command s)) = pollTimer s" "pollIntervalMs (fst (write_command s)) = pollIntervalMs s"
  by (auto simp: rotor_start_next_def start_command_def connect_def write_command_def Let_def split: option.split list.split rotor_phase.split)

lemma delay_keep: "delay_ok s \<Longrightarrow> pollTimer s' = pollTimer s \<Longrightarrow> pollIntervalMs s' = pollIntervalMs s \<Longrightarrow> delay_ok s'"
  by (simp add: delay_ok_def split: option.splits)

lemma backoff_bounds:
  "RECONNECT_BASE_DELAY_MS \<le> min (RECONNECT_BASE_DELAY_MS * 2 ^ n) RECONNECT_MAX_DELAY_MS"
  "min (RECONNECT_BASE_DELAY_MS * 2 ^ n) RECONNECT_MAX_DELAY_MS \<le> RECONNECT_MAX_DELAY_MS"
proof -
  have "(1::nat) \<le> 2 ^ n" by simp
  then show "RECONNECT_BASE_DELAY_MS \<le> min (RECONNECT_BASE_DELAY_MS * 2 ^ n) RECONNECT_MAX_DELAY_MS"
    by (simp add: RECONNECT_BASE_DELAY_MS_def RECONNECT_MAX_DELAY_MS_def)
qed simp

lemma delay_schedule:
  "delay_ok s \<Longrightarrow> d = 0 \<or> d = pollIntervalMs s \<or> (RECONNECT_BASE_DELAY_MS \<le> d \<and> d \<le> RECONNECT_MAX_DELAY_MS) \<Longrightarrow> delay_ok (schedulePoll d s)"
  by (simp add: delay_ok_def schedulePoll_def)

lemma schedule_interval [simp]: "pollIntervalMs (schedulePoll d s) = pollIntervalMs s"
  by (simp add: schedulePoll_def)

lemma delay_poll:
  assumes "delay_ok s"
  shows "delay_ok (fst (poll_ended r s)) \<and> pollIntervalMs (fst (poll_ended r s)) = pollIntervalMs s"
proof (cases "case r of Inl e \<Rightarrow> Inl e | Inr t \<Rightarrow> parseRotorPosition t")
  case (Inl e)
  show ?thesis
    unfolding poll_ended_def Inl Let_def case_prod_beta sum.case fst_conv
    by (intro conjI delay_schedule disjI2 backoff_bounds) (simp_all add: delay_keep[OF assms])
next
  case (Inr p)
  show ?thesis
    unfolding poll_ended_def Inr Let_def case_prod_beta sum.case fst_conv
    by (intro conjI delay_schedule) (simp_all add: delay_keep[OF assms])
qed

lemma delay_step:
  assumes "delay_ok s"
  shows "delay_ok (fst (rotor_step s e)) \<and> pollIntervalMs (fst (rotor_step s e)) = pollIntervalMs s"
proof (cases e)
  case Start
  have "delay_ok (schedulePoll 0 (s\<lparr>started := True, reconnectAttempts := 0\<rparr>))"
    by (rule delay_schedule) (simp_all add: delay_keep[OF assms])
  then show ?thesis using assms by (simp add: Start start_def)
next
  case Shutdown
  then show ?thesis by (auto simp: shutdown_def delay_ok_def Let_def case_prod_beta split: option.split)
next
  case Job
  show ?thesis
  proof (cases "jobs s")
    case (Cons j js)
    have ok: "delay_ok (s\<lparr>jobs := js\<rparr>)" by (rule delay_keep[OF assms]) simp_all
    show ?thesis
      using delay_poll[OF ok] by (cases j) (simp_all add: Job run_job_def Cons delay_keep[OF ok])
  qed (simp add: Job run_job_def assms)
next
  case PollTimerFires
  then show ?thesis by (auto simp: delay_ok_def)
qed (simp_all add: Let_def case_prod_beta assms delay_keep[OF assms])

lemma delay_run: "delay_ok s \<Longrightarrow> delay_ok (fst (rotor_run s es)) \<and> pollIntervalMs (fst (rotor_run s es)) = pollIntervalMs s"
proof (induction es arbitrary: s)
  case (Cons e es)
  then show ?case using delay_step[of s e] by (simp add: Let_def case_prod_beta)
qed simp

text \<open>
  C38: The back-off is bounded: at any point of any run a scheduled poll is due at once, after the
  configured interval, or after between one second and thirty, however many attempts have failed.
\<close>

theorem reconnect_delay_bounds:
  "case pollTimer (fst (rotor_run (new_rotor interval) es)) of None \<Rightarrow> True
   | Some d \<Rightarrow> d = 0 \<or> d = interval \<or> (1000 \<le> d \<and> d \<le> 30000)"
proof -
  have "delay_ok (new_rotor interval)" "pollIntervalMs (new_rotor interval) = interval" by (simp_all add: delay_ok_def new_rotor_def)
  then show ?thesis
    using delay_run[of "new_rotor interval" es] by (auto simp: delay_ok_def RECONNECT_BASE_DELAY_MS_def RECONNECT_MAX_DELAY_MS_def split: option.splits)
qed

end
