(* ===== verification/WsjtxStream.thy ===== *)
theory WsjtxStream
  imports JsNumber BitStream
begin

text \<open>
  The binary encoding of the WSJT-X protocol: \<open>QDataStreamReader\<close> of \<open>bridge/src/wsjtx.ts\<close> and
  \<open>QDataStreamWriter\<close> of \<open>bridge/src/wsjtxEmitter.ts\<close>. A reader takes the bytes that remain and
  returns a value with the bytes left, or the error it throws; \<open>rbind\<close> is the sequence of two reads.
  A text stands for its UTF-8 bytes, one character for each, so reading ill-formed bytes, which
  the code replaces, is not distinguished; a double is its 64 bits.
\<close>

datatype stream_error = Underflow string | OutOfRange rat | InvalidTime

type_synonym 'a reader = "buffer \<Rightarrow> stream_error + 'a \<times> buffer"

definition rbind :: "'a reader \<Rightarrow> ('a \<Rightarrow> 'b reader) \<Rightarrow> 'b reader" where
  "rbind r f = (\<lambda>b. case r b of Inl e \<Rightarrow> Inl e | Inr (x, b') \<Rightarrow> f x b')"

definition give :: "'a \<Rightarrow> 'a reader" where
  "give x = (\<lambda>b. Inr (x, b))"

section \<open>Reading\<close>

definition be_value :: "buffer \<Rightarrow> nat" where
  "be_value bs = foldl (\<lambda>a b. a * 256 + unat b) 0 bs"

definition read_bytes :: "string \<Rightarrow> nat \<Rightarrow> buffer reader" where
  "read_bytes what n = (\<lambda>b. if length b < n then Inl (Underflow what) else Inr (take n b, drop n b))"

definition readUInt8 :: "nat reader" where
  "readUInt8 = rbind (read_bytes ''uint8'' 1) (\<lambda>bs. give (be_value bs))"

definition readUInt32 :: "nat reader" where
  "readUInt32 = rbind (read_bytes ''uint32'' 4) (\<lambda>bs. give (be_value bs))"

definition readInt32 :: "int reader" where
  "readInt32 = rbind (read_bytes ''int32'' 4) (\<lambda>bs.
     give (if be_value bs < 2 ^ 31 then int (be_value bs) else int (be_value bs) - 2 ^ 32))"

definition readBool :: "bool reader" where
  "readBool = rbind readUInt8 (\<lambda>v. give (v \<noteq> 0))"

definition readDouble :: "64 word reader" where
  "readDouble = rbind (read_bytes ''double'' 8) (\<lambda>bs. give (of_nat (be_value bs)))"

definition readQTime :: "nat reader" where
  "readQTime = readUInt32"

definition text_of :: "buffer \<Rightarrow> string" where
  "text_of bs = map (\<lambda>b. char_of (unat b)) bs"

definition readUtf8 :: "string option reader" where
  "readUtf8 = rbind readUInt32 (\<lambda>len. if len = 0xFFFFFFFF then give None
     else rbind (read_bytes ''utf8 string'' len) (\<lambda>bs. give (Some (text_of bs))))"

definition readUInt64 :: "nat reader" where
  "readUInt64 = rbind readUInt32 (\<lambda>high. rbind readUInt32 (\<lambda>low. give (high * 0x100000000 + low)))"

definition readQDateTime :: "int reader" where
  \<comment> \<open>the instant in milliseconds\<close>
  "readQDateTime = rbind readInt32 (\<lambda>julianHigh. rbind readUInt32 (\<lambda>julianLow. rbind readUInt32 (\<lambda>msFromMidnight.
     rbind readUInt8 (\<lambda>_. give ((julianHigh * 0x100000000 + int julianLow - 2440588) * 86400000 + int msFromMidnight)))))"

section \<open>Writing\<close>

definition js_trunc :: "rat \<Rightarrow> int" where
  "js_trunc x = (if x < 0 then \<lceil>x\<rceil> else \<lfloor>x\<rfloor>)"

definition to_uint32 :: "rat \<Rightarrow> nat" where
  \<comment> \<open>\<open>x >>> 0\<close>\<close>
  "to_uint32 x = nat (js_trunc x mod 2 ^ 32)"

definition writeUint8 :: "nat \<Rightarrow> buffer" where
  "writeUint8 v = be_bytes 1 v"

definition writeUint32 :: "nat \<Rightarrow> buffer" where
  "writeUint32 v = be_bytes 4 v"

definition writeInt32 :: "rat \<Rightarrow> stream_error + buffer" where
  "writeInt32 v = (if v < - (2 ^ 31) \<or> v > 2 ^ 31 - 1 then Inl (OutOfRange v) else Inr (be_bytes 4 (to_uint32 v)))"

definition writeUint64 :: "int \<Rightarrow> buffer" where
  "writeUint64 v = be_bytes 8 (nat (v mod 2 ^ 64))"

definition writeFloat64 :: "64 word \<Rightarrow> buffer" where
  "writeFloat64 v = be_bytes 8 (unat v)"

definition bytes_of :: "string \<Rightarrow> buffer" where
  "bytes_of s = map (\<lambda>c. of_nat (of_char c)) s"

definition writeString :: "string option \<Rightarrow> buffer" where
  "writeString v = (case v of None \<Rightarrow> writeUint32 0xFFFFFFFF | Some s \<Rightarrow> writeUint32 (length (bytes_of s)) @ bytes_of s)"

definition writeBool :: "bool \<Rightarrow> buffer" where
  \<comment> \<open>\<open>w.writeUint8(v ? 1 : 0)\<close>\<close>
  "writeBool v = writeUint8 (if v then 1 else 0)"

section \<open>Reading back\<close>

lemma be_value_snoc: "be_value (bs @ [b]) = be_value bs * 256 + unat b"
  by (simp add: be_value_def)

lemma be_value_bytes: "be_value (be_bytes n v) = v mod 256 ^ n"
proof (induction n arbitrary: v)
  case 0
  then show ?case by (simp add: be_value_def)
next
  case (Suc n)
  have "unat (of_nat (v AND 255) :: byte) = v mod 256"
    unfolding of_nat_and_255 by (simp add: unat_of_nat)
  then have "be_value (be_bytes (Suc n) v) = v div 256 mod 256 ^ n * 256 + v mod 256"
    by (simp add: be_value_snoc Suc drop_bit_eq_div)
  also have "\<dots> = v mod 256 ^ Suc n"
    by (simp add: mod_mult2_eq mult.commute)
  finally show ?case .
qed

lemma read_bytes_append [simp]: "length bs = n \<Longrightarrow> read_bytes what n (bs @ rest) = Inr (bs, rest)"
  by (simp add: read_bytes_def)

lemma read_bytes_all [simp]: "length bs = n \<Longrightarrow> read_bytes what n bs = Inr (bs, [])"
  by (simp add: read_bytes_def)

lemma rbind_simps [simp]: "r b = Inr (x, b') \<Longrightarrow> rbind r f b = f x b'" "r b = Inl e \<Longrightarrow> rbind r f b = Inl e"
  "give x b = Inr (x, b)"
  by (simp_all add: rbind_def give_def)

lemma read_uint32 [simp]: "readUInt32 (writeUint32 v @ rest) = Inr (v mod 2 ^ 32, rest)"
  by (simp add: readUInt32_def writeUint32_def be_value_bytes)

lemma read_uint8 [simp]: "readUInt8 (writeUint8 v @ rest) = Inr (v mod 256, rest)"
  by (simp add: readUInt8_def writeUint8_def be_value_bytes del: be_bytes.simps)

lemma read_bool [simp]: "readBool (writeBool v @ rest) = Inr (v, rest)"
  by (simp add: readBool_def writeBool_def)

lemma bind_bool [simp]: "rbind readBool f (writeBool v @ rest) = f v rest"
  unfolding rbind_def read_bool by simp

lemma read_time [simp]: "readQTime (writeUint32 v @ rest) = Inr (v mod 2 ^ 32, rest)"
  by (simp add: readQTime_def)

lemma read_double [simp]: "readDouble (writeFloat64 v @ rest) = Inr (v, rest)"
proof -
  have "unat v mod 256 ^ 8 = unat v" using unsigned_less[of v, where ?'a = nat] by simp
  then show ?thesis by (simp add: readDouble_def writeFloat64_def be_value_bytes)
qed

lemma text_bytes [simp]: "text_of (bytes_of s) = s" "length (bytes_of s) = length s"
  by (simp_all add: text_of_def bytes_of_def unat_of_nat comp_def)

lemma read_utf8 [simp]: "length s < 0xFFFFFFFF \<Longrightarrow> readUtf8 (writeString (Some s) @ rest) = Inr (Some s, rest)"
  by (simp add: readUtf8_def writeString_def)

lemma read_null [simp]: "readUtf8 (writeString None @ rest) = Inr (None, rest)"
  by (simp add: readUtf8_def writeString_def)

lemma to_uint32_less: "to_uint32 x < 2 ^ 32"
  by (simp add: to_uint32_def nat_less_iff)

lemma trunc_bounds: "- (2 ^ 31) \<le> x \<Longrightarrow> x \<le> 2 ^ 31 - 1 \<Longrightarrow> - (2 ^ 31) \<le> js_trunc x \<and> js_trunc x < 2 ^ 31"
  by (simp add: js_trunc_def ceiling_le_iff le_floor_iff floor_less_iff le_ceiling_iff ceiling_less_iff)

lemma read_int32:
  assumes "writeInt32 v = Inr bs"
  shows "readInt32 (bs @ rest) = Inr (js_trunc v, rest)"
proof -
  have v: "- (2 ^ 31) \<le> v" "v \<le> 2 ^ 31 - 1" and bs: "bs = be_bytes 4 (to_uint32 v)"
    using assms by (auto simp: writeInt32_def split: if_splits)
  have "to_uint32 v mod 256 ^ 4 = to_uint32 v" using to_uint32_less[of v] by simp
  moreover have "(if to_uint32 v < 2 ^ 31 then int (to_uint32 v) else int (to_uint32 v) - 2 ^ 32) = js_trunc v"
  proof (cases "js_trunc v < 0")
    case True
    have "js_trunc v mod 2 ^ 32 = (js_trunc v + 2 ^ 32) mod 2 ^ 32" by simp
    also have "\<dots> = js_trunc v + 2 ^ 32" using True trunc_bounds[OF v] by (intro mod_pos_pos_trivial) auto
    finally show ?thesis using True trunc_bounds[OF v] by (auto simp: to_uint32_def)
  qed (use trunc_bounds[OF v] in \<open>auto simp: to_uint32_def mod_pos_pos_trivial\<close>)
  ultimately show ?thesis by (simp add: readInt32_def bs be_value_bytes split: if_splits)
qed

end
