(* ===== verification/WsjtxLink.thy ===== *)
theory WsjtxLink
  imports WsjtxStream Ft8Messages PromiseQueue "HOL-Library.AList"
begin

text \<open>
  The WSJT-X link of the bridge: the emitter of decodes and status datagrams
  (\<open>bridge/src/wsjtxEmitter.ts\<close>) and the listener (\<open>bridge/src/wsjtx.ts\<close>) as a step function over
  received datagrams. A JavaScript \<open>Map\<close> is an association list in insertion order. One reading
  of the clock stands for all of a datagram; time stamps are instants in milliseconds.
\<close>

section \<open>Protocol\<close>

datatype WSJTXMessageType = Heartbeat | StatusMsg | DecodeMsg | ClearMsg | QSOLogged | CloseMsg | LoggedADIF

definition WSJTX_MAGIC :: nat where "WSJTX_MAGIC = 0xadbccbda"
definition WSJTX_SCHEMA_VERSION :: nat where "WSJTX_SCHEMA_VERSION = 2"
definition CLIENT_ID :: string where "CLIENT_ID = ''Propulse''"
definition STATS_WINDOW_MS :: int where "STATS_WINDOW_MS = 15 * 60 * 1000"

definition message_number :: "WSJTXMessageType \<Rightarrow> nat" where
  "message_number t = (case t of Heartbeat \<Rightarrow> 0 | StatusMsg \<Rightarrow> 1 | DecodeMsg \<Rightarrow> 2 | ClearMsg \<Rightarrow> 3 | QSOLogged \<Rightarrow> 5
     | CloseMsg \<Rightarrow> 6 | LoggedADIF \<Rightarrow> 12)"

definition message_type :: "nat \<Rightarrow> WSJTXMessageType option" where
  \<comment> \<open>the cases of the switch over the message type\<close>
  "message_type n = map_of (map (\<lambda>t. (message_number t, t))
     [Heartbeat, CloseMsg, StatusMsg, DecodeMsg, ClearMsg, QSOLogged, LoggedADIF]) n"

record WSJTXStatus =
  ws_frequency :: nat
  ws_mode :: string
  ws_dxCall :: "string option"
  ws_dxGrid :: "string option"
  ws_txEnabled :: bool
  ws_decoding :: bool
  ws_rxDF :: nat
  ws_txDF :: nat

record WSJTXDecode =
  wd_receivedAt :: int
  wd_offAir :: bool
  wd_dial :: "(nat \<times> string) option" \<comment> \<open>\<open>dialFrequencyHz\<close> and \<open>dialMode\<close>\<close>
  wd_isNew :: bool
  wd_time :: nat
  wd_snr :: int
  wd_deltaTime :: "64 word"
  wd_deltaFrequency :: nat
  wd_mode :: string
  wd_message :: string
  wd_lowConfidence :: bool
  wd_callsign :: "string option"
  wd_grid :: "string option"

record WSJTXQSOLogged =
  ql_callsign :: string
  ql_grid :: "string option"
  ql_frequency :: js_number
  ql_mode :: string
  ql_reportSent :: string
  ql_reportReceived :: string
  ql_txPower :: string
  ql_comments :: string
  ql_timestamp :: int
  ql_adifRecord :: "string option"

section \<open>Emitter\<close>

definition writeHeader :: "WSJTXMessageType \<Rightarrow> buffer" where
  "writeHeader t = writeUint32 WSJTX_MAGIC @ writeUint32 WSJTX_SCHEMA_VERSION @ writeUint32 (message_number t) @ writeString (Some CLIENT_ID)"

record EmitDecodeInput =
  ed_isNew :: bool
  ed_time :: rat
  ed_snr :: rat
  ed_deltaTime :: "64 word"
  ed_deltaFrequency :: rat
  ed_mode :: string
  ed_message :: string
  ed_lowConfidence :: bool

record EmitStatusInput =
  es_frequency :: rat
  es_mode :: string
  es_dxCall :: "string option"
  es_dxGrid :: "string option"
  es_txEnabled :: bool
  es_decoding :: bool
  es_rxDF :: rat
  es_txDF :: rat

record WSJTXEmitter =
  em_port :: nat
  em_host :: string
  em_socket :: bool
  em_active :: bool

definition new_emitter :: "nat \<Rightarrow> string \<Rightarrow> WSJTXEmitter" where
  "new_emitter port host = \<lparr>em_port = port, em_host = host, em_socket = False, em_active = False\<rparr>"

definition emitter_start :: "WSJTXEmitter \<Rightarrow> WSJTXEmitter" where
  "emitter_start w = (if em_socket w then w else w\<lparr>em_socket := True, em_active := True\<rparr>)"

definition emitter_stop :: "WSJTXEmitter \<Rightarrow> WSJTXEmitter" where
  "emitter_stop w = w\<lparr>em_active := False, em_socket := False\<rparr>"

definition setPort :: "nat \<Rightarrow> WSJTXEmitter \<Rightarrow> WSJTXEmitter" where
  "setPort port w = w\<lparr>em_port := port\<rparr>"

definition send_datagram :: "WSJTXEmitter \<Rightarrow> buffer \<Rightarrow> (buffer \<times> nat \<times> string) list" where
  "send_datagram w buf = (if \<not> em_socket w \<or> \<not> em_active w then [] else [(buf, em_port w, em_host w)])"

definition decode_datagram :: "EmitDecodeInput \<Rightarrow> stream_error + buffer" where
  "decode_datagram d =
     (case writeInt32 (ed_snr d) of
        Inl e \<Rightarrow> Inl e
      | Inr snr \<Rightarrow> Inr (writeHeader DecodeMsg @ writeBool (ed_isNew d) @ writeUint32 (to_uint32 (ed_time d)) @ snr @
          writeFloat64 (ed_deltaTime d) @ writeUint32 (to_uint32 (ed_deltaFrequency d)) @ writeString (Some (ed_mode d)) @
          writeString (Some (ed_message d)) @ writeBool (ed_lowConfidence d) @ writeUint8 0))"

definition emitDecode :: "EmitDecodeInput \<Rightarrow> WSJTXEmitter \<Rightarrow> stream_error + (buffer \<times> nat \<times> string) list" where
  "emitDecode d w = map_sum id (send_datagram w) (decode_datagram d)"

definition status_datagram :: "EmitStatusInput \<Rightarrow> buffer" where
  "status_datagram s = writeHeader StatusMsg @ writeUint32 0 @ writeUint64 (js_round (es_frequency s)) @
     writeString (Some (es_mode s)) @ writeString (es_dxCall s) @ writeString None @ writeString (Some (es_mode s)) @
     writeBool (es_txEnabled s) @ writeUint8 0 @ writeBool (es_decoding s) @ writeUint32 (to_uint32 (es_rxDF s)) @
     writeUint32 (to_uint32 (es_txDF s)) @ writeString None @ writeString None @ writeString (es_dxGrid s) @
     writeUint8 0 @ writeString None @ writeUint8 0 @ writeUint8 0 @ writeUint32 0 @ writeUint32 0 @
     writeString (Some ''Default'') @ writeString None"

definition emitStatus :: "EmitStatusInput \<Rightarrow> WSJTXEmitter \<Rightarrow> (buffer \<times> nat \<times> string) list" where
  "emitStatus s w = send_datagram w (status_datagram s)"

section \<open>Listener: state\<close>

record DecodeStats =
  recentDecodes :: "int list"
  uniqueCallsigns :: "(string \<times> int) list"

record WsjtxContext =
  lastSeen :: int
  ctx_status :: "WSJTXStatus option"

record WSJTXListener =
  statsPerInstance :: "(string \<times> DecodeStats) list"
  contexts :: "(string \<times> WsjtxContext) list"

definition new_listener :: WSJTXListener where
  "new_listener = \<lparr>statsPerInstance = [], contexts = []\<rparr>"

datatype wsjtx_error = StreamError stream_error | SchemaExceeds nat | NoFrequency string

datatype wsjtx_out =
    StatusEvent WSJTXStatus string
  | DecodeEvent WSJTXDecode string
  | QsoEvent WSJTXQSOLogged string
  | ClearEvent "string option" string
  | ErrorEvent wsjtx_error

definition createDecodeStats :: DecodeStats where
  "createDecodeStats = \<lparr>recentDecodes = [], uniqueCallsigns = []\<rparr>"

definition recordDecode :: "int \<Rightarrow> string option \<Rightarrow> DecodeStats \<Rightarrow> DecodeStats" where
  "recordDecode now caller stats =
     (let recent = recentDecodes stats @ [now];
          calls = (case caller of None \<Rightarrow> uniqueCallsigns stats
            | Some c \<Rightarrow> if c = [] then uniqueCallsigns stats else AList.update c now (uniqueCallsigns stats));
          cutoff = now - STATS_WINDOW_MS
      in \<lparr>recentDecodes = filter (\<lambda>t. t > cutoff) recent, uniqueCallsigns = filter (\<lambda>(c, t). \<not> t < cutoff) calls\<rparr>)"

definition getStats :: "int \<Rightarrow> WSJTXListener \<Rightarrow> (string \<times> nat \<times> nat) list" where
  \<comment> \<open>for each instance the decodes of the last minute and the callsigns\<close>
  "getStats now s = map (\<lambda>(i, st). (i, length (filter (\<lambda>t. t > now - 60000) (recentDecodes st)), length (uniqueCallsigns st)))
     (statsPerInstance s)"

definition extractCall :: "string \<Rightarrow> string option \<times> string option" where
  \<comment> \<open>\<open>extractCallInfo\<close> of the listener, with the patterns of the message parser\<close>
  "extractCall message =
     (let trimmed = trim message
      in case full_match CQ_REGEX trimmed of
           Some m \<Rightarrow> (m 2, m 3)
         | None \<Rightarrow> (case full_match QSO_GRID_REGEX trimmed of
             Some m \<Rightarrow> (m 2, m 3)
           | None \<Rightarrow> (case full_match QSO_REPORT_REGEX trimmed of
               Some m \<Rightarrow> (m 2, None)
             | None \<Rightarrow> (None, None))))"

section \<open>Listener: messages\<close>

definition or_else_text :: "string option \<Rightarrow> string" where
  \<comment> \<open>\<open>v ?? ""\<close>\<close>
  "or_else_text v = (case v of None \<Rightarrow> [] | Some s \<Rightarrow> s)"

definition status_reader :: "WSJTXStatus reader" where
  "status_reader =
     rbind readUInt64 (\<lambda>dialFrequency. rbind readUtf8 (\<lambda>mode. rbind readUtf8 (\<lambda>dxCall. rbind readUtf8 (\<lambda>_. rbind readUtf8 (\<lambda>_.
     rbind readBool (\<lambda>txEnabled. rbind readBool (\<lambda>_. rbind readBool (\<lambda>decoding. rbind readUInt32 (\<lambda>rxDF. rbind readUInt32 (\<lambda>txDF.
     rbind readUtf8 (\<lambda>_. rbind readUtf8 (\<lambda>_. rbind readUtf8 (\<lambda>dxGrid.
     give \<lparr>ws_frequency = dialFrequency, ws_mode = or_else_text mode, ws_dxCall = dxCall, ws_dxGrid = dxGrid,
       ws_txEnabled = txEnabled, ws_decoding = decoding, ws_rxDF = rxDF, ws_txDF = txDF\<rparr>)))))))))))))"

definition parseStatus :: "buffer \<Rightarrow> string \<Rightarrow> WSJTXListener \<Rightarrow> stream_error + WSJTXListener \<times> wsjtx_out list" where
  "parseStatus buf i s =
     (case status_reader buf of
        Inl e \<Rightarrow> Inl e
      | Inr (status, _) \<Rightarrow>
          Inr (case map_of (contexts s) i of
                 None \<Rightarrow> s
               | Some c \<Rightarrow> s\<lparr>contexts := AList.update i (c\<lparr>ctx_status := Some status\<rparr>) (contexts s)\<rparr>,
            [StatusEvent status i]))"

definition dial_of :: "bool \<Rightarrow> bool \<Rightarrow> WSJTXStatus option \<Rightarrow> (nat \<times> string) option" where
  "dial_of isNew offAir status =
     (case status of None \<Rightarrow> None
      | Some st \<Rightarrow> if isNew \<and> \<not> offAir \<and> ws_frequency st \<le> 2 ^ 53 - 1 \<and> ws_frequency st > 0
          then Some (ws_frequency st, ws_mode st) else None)"

definition decode_reader :: "int \<Rightarrow> WSJTXStatus option \<Rightarrow> WSJTXDecode reader" where
  "decode_reader now status =
     rbind readBool (\<lambda>isNew. rbind readQTime (\<lambda>time. rbind readInt32 (\<lambda>snr. rbind readDouble (\<lambda>deltaTime.
     rbind readUInt32 (\<lambda>deltaFrequency. rbind readUtf8 (\<lambda>mode. rbind readUtf8 (\<lambda>message. rbind readBool (\<lambda>lowConfidence.
     rbind (\<lambda>b. if b = [] then Inr (False, b) else readBool b) (\<lambda>offAir.
     give \<lparr>wd_receivedAt = now, wd_offAir = offAir, wd_dial = dial_of isNew offAir status, wd_isNew = isNew, wd_time = time,
       wd_snr = snr, wd_deltaTime = deltaTime, wd_deltaFrequency = deltaFrequency, wd_mode = or_else_text mode,
       wd_message = or_else_text message, wd_lowConfidence = lowConfidence,
       wd_callsign = fst (extractCall (or_else_text message)), wd_grid = snd (extractCall (or_else_text message))\<rparr>)))))))))"

definition status_of :: "string \<Rightarrow> WSJTXListener \<Rightarrow> WSJTXStatus option" where
  "status_of i s = (case map_of (contexts s) i of None \<Rightarrow> None | Some c \<Rightarrow> ctx_status c)"

definition parseDecode :: "int \<Rightarrow> buffer \<Rightarrow> string \<Rightarrow> WSJTXListener \<Rightarrow> stream_error + WSJTXListener \<times> wsjtx_out list" where
  "parseDecode now buf i s =
     (case decode_reader now (status_of i s) buf of
        Inl e \<Rightarrow> Inl e
      | Inr (d, _) \<Rightarrow>
          let stats = (case map_of (statsPerInstance s) i of None \<Rightarrow> createDecodeStats | Some st \<Rightarrow> st)
          in Inr (s\<lparr>statsPerInstance := AList.update i (recordDecode now (wd_callsign d) stats) (statsPerInstance s)\<rparr>, [DecodeEvent d i]))"

definition parseClear :: "buffer \<Rightarrow> string \<Rightarrow> WSJTXListener \<Rightarrow> WSJTXListener \<times> wsjtx_out list" where
  "parseClear buf i s =
     (s, [ClearEvent (case readUInt8 buf of Inl _ \<Rightarrow> None
        | Inr (windowId, _) \<Rightarrow> if windowId = 0 then Some ''band_activity'' else if windowId = 1 then Some ''rx_frequency'' else None) i])"

definition valid_time :: "int \<Rightarrow> bool" where
  \<comment> \<open>\<open>toISOString\<close> throws on other instants\<close>
  "valid_time ms \<longleftrightarrow> \<bar>ms\<bar> \<le> 8640000000000000"

definition qso_reader :: "WSJTXQSOLogged reader" where
  "qso_reader =
     rbind readQDateTime (\<lambda>dateTimeOff. rbind readUtf8 (\<lambda>callsign. rbind readUtf8 (\<lambda>grid. rbind readUInt64 (\<lambda>dialFrequency.
     rbind readUtf8 (\<lambda>mode. rbind readUtf8 (\<lambda>reportSent. rbind readUtf8 (\<lambda>reportReceived. rbind readUtf8 (\<lambda>txPower.
     rbind readUtf8 (\<lambda>comments. rbind readUtf8 (\<lambda>_. rbind readQDateTime (\<lambda>_.
     \<lambda>b. if \<not> valid_time dateTimeOff then Inl InvalidTime
       else Inr (\<lparr>ql_callsign = or_else_text callsign, ql_grid = grid, ql_frequency = Finite (of_nat dialFrequency),
         ql_mode = or_else_text mode, ql_reportSent = or_else_text reportSent, ql_reportReceived = or_else_text reportReceived,
         ql_txPower = or_else_text txPower, ql_comments = or_else_text comments, ql_timestamp = dateTimeOff,
         ql_adifRecord = None\<rparr>, b))))))))))))"

definition parseQSOLogged :: "buffer \<Rightarrow> string \<Rightarrow> WSJTXListener \<Rightarrow> stream_error + WSJTXListener \<times> wsjtx_out list" where
  "parseQSOLogged buf i s = (case qso_reader buf of Inl e \<Rightarrow> Inl e | Inr (q, _) \<Rightarrow> Inr (s, [QsoEvent q i]))"

fun first_match :: "rx \<Rightarrow> string \<Rightarrow> captures option" where
  \<comment> \<open>\<open>text.match(r)\<close> for a pattern that is not anchored\<close>
  "first_match r [] = (case rmatch r (\<lambda>_. None, []) of [] \<Rightarrow> None | (c, _) # _ \<Rightarrow> Some c)"
| "first_match r (x # s) = (case rmatch r (\<lambda>_. None, x # s) of [] \<Rightarrow> first_match r s | (c, _) # _ \<Rightarrow> Some c)"

definition adif_regex :: "string \<Rightarrow> rx" where
  \<comment> \<open>\<open><FIELD:\d+(?::[^>]*)?>([^<]*)\<close> under the flag \<open>i\<close>\<close>
  "adif_regex field = Cat (one (\<lambda>c. c = CHR ''<'')) (Cat (lit field) (Cat (one (\<lambda>c. c = CHR '':'')) (Cat (Rep isDigit 1 None)
     (Cat (Opt (Cat (one (\<lambda>c. c = CHR '':'')) (Rep (\<lambda>c. c \<noteq> CHR ''>'') 0 None)))
       (Cat (one (\<lambda>c. c = CHR ''>'')) (Grp 1 (Rep (\<lambda>c. c \<noteq> CHR ''<'') 0 None)))))))"

definition extractAdifField :: "string option \<Rightarrow> string \<Rightarrow> string option" where
  "extractAdifField adif field =
     (case adif of None \<Rightarrow> None
      | Some a \<Rightarrow> if a = [] then None
          else case first_match (adif_regex field) a of None \<Rightarrow> None | Some m \<Rightarrow> map_option trim (m 1))"

definition megahertz :: "js_number \<Rightarrow> js_number" where
  "megahertz x = (case x of Finite q \<Rightarrow> Finite (q * 1000000) | _ \<Rightarrow> x)"

definition adif_frequency :: "string option \<Rightarrow> js_number option" where
  \<comment> \<open>the frequency in Hz, when the field is there and a number\<close>
  "adif_frequency freqStr =
     (case freqStr of None \<Rightarrow> None
      | Some f \<Rightarrow> if f = [] then None else case megahertz (parse_float f) of NaN \<Rightarrow> None | x \<Rightarrow> Some x)"

definition parseLoggedADIF :: "int \<Rightarrow> buffer \<Rightarrow> string \<Rightarrow> WSJTXListener \<Rightarrow> stream_error + WSJTXListener \<times> wsjtx_out list" where
  "parseLoggedADIF now buf i s =
     (case readUtf8 buf of
        Inl e \<Rightarrow> Inl e
      | Inr (rec, _) \<Rightarrow>
          let callsign = or_else_text (extractAdifField rec ''CALL'');
              frequency = adif_frequency (extractAdifField rec ''FREQ'')
          in Inr (s, (if frequency = None then [ErrorEvent (NoFrequency callsign)] else []) @
               [QsoEvent \<lparr>ql_callsign = callsign, ql_grid = extractAdifField rec ''GRIDSQUARE'',
                  ql_frequency = (case frequency of None \<Rightarrow> Finite 0 | Some f \<Rightarrow> f),
                  ql_mode = or_else_text (extractAdifField rec ''MODE''),
                  ql_reportSent = or_else_text (extractAdifField rec ''RST_SENT''),
                  ql_reportReceived = or_else_text (extractAdifField rec ''RST_RCVD''),
                  ql_txPower = or_else_text (extractAdifField rec ''TX_PWR''),
                  ql_comments = or_else_text (extractAdifField rec ''COMMENT''),
                  ql_timestamp = now, ql_adifRecord = rec\<rparr> i]))"

section \<open>Listener: datagrams\<close>

definition expire_contexts :: "int \<Rightarrow> WSJTXListener \<Rightarrow> WSJTXListener" where
  "expire_contexts now s =
     (let expired = (\<lambda>c. now - lastSeen c \<ge> 120000 \<or> now < lastSeen c);
          gone = map fst (filter (\<lambda>(i, c). expired c) (contexts s))
      in s\<lparr>contexts := filter (\<lambda>(i, c). \<not> expired c) (contexts s),
           statsPerInstance := filter (\<lambda>(i, st). i \<notin> set gone) (statsPerInstance s)\<rparr>)"

definition touch_context :: "int \<Rightarrow> string \<Rightarrow> WSJTXListener \<Rightarrow> WSJTXListener" where
  \<comment> \<open>the context moves to the end, and the oldest leaves a full cache\<close>
  "touch_context now i s =
     (let c = (case map_of (contexts s) i of None \<Rightarrow> \<lparr>lastSeen = now, ctx_status = None\<rparr> | Some c \<Rightarrow> c);
          cs = AList.delete i (contexts s) @ [(i, c\<lparr>lastSeen := now\<rparr>)]
      in if length cs > 64
         then s\<lparr>contexts := AList.delete (fst (hd cs)) cs, statsPerInstance := AList.delete (fst (hd cs)) (statsPerInstance s)\<rparr>
         else s\<lparr>contexts := cs\<rparr>)"

definition caught :: "WSJTXListener \<Rightarrow> stream_error + WSJTXListener \<times> wsjtx_out list \<Rightarrow> WSJTXListener \<times> wsjtx_out list" where
  \<comment> \<open>the handler of \<open>message\<close> reports what is thrown\<close>
  "caught s r = (case r of Inl e \<Rightarrow> (s, [ErrorEvent (StreamError e)]) | Inr x \<Rightarrow> x)"

definition dispatch_message :: "int \<Rightarrow> nat \<Rightarrow> buffer \<Rightarrow> string \<Rightarrow> WSJTXListener \<Rightarrow> WSJTXListener \<times> wsjtx_out list" where
  "dispatch_message now msgType buf i s =
     (case message_type msgType of
        None \<Rightarrow> (s, [])
      | Some Heartbeat \<Rightarrow> (s, [])
      | Some CloseMsg \<Rightarrow> (s\<lparr>contexts := AList.delete i (contexts s), statsPerInstance := AList.delete i (statsPerInstance s)\<rparr>, [])
      | Some StatusMsg \<Rightarrow> caught s (parseStatus buf i s)
      | Some DecodeMsg \<Rightarrow> caught s (parseDecode now buf i s)
      | Some ClearMsg \<Rightarrow> parseClear buf i s
      | Some QSOLogged \<Rightarrow> caught s (parseQSOLogged buf i s)
      | Some LoggedADIF \<Rightarrow> caught s (parseLoggedADIF now buf i s))"

definition header_reader :: "(nat \<times> string) reader" where
  "header_reader = rbind readUInt32 (\<lambda>msgType. rbind readUtf8 (\<lambda>instanceId.
     give (msgType, case instanceId of None \<Rightarrow> ''WSJT-X'' | Some i \<Rightarrow> i)))"

definition handle_body :: "int \<Rightarrow> buffer \<Rightarrow> WSJTXListener \<Rightarrow> WSJTXListener \<times> wsjtx_out list" where
  \<comment> \<open>after the magic number and the schema version\<close>
  "handle_body now buf s =
     (case header_reader buf of
        Inl e \<Rightarrow> (s, [ErrorEvent (StreamError e)])
      | Inr ((msgType, i), rest) \<Rightarrow> dispatch_message now msgType rest i (touch_context now i (expire_contexts now s)))"

definition handleDatagram :: "int \<Rightarrow> buffer \<Rightarrow> WSJTXListener \<Rightarrow> WSJTXListener \<times> wsjtx_out list" where
  "handleDatagram now buf s =
     (if length buf < 12 then (s, [])
      else case rbind readUInt32 (\<lambda>magic. rbind readUInt32 (\<lambda>schema. give (magic, schema))) buf of
          Inl e \<Rightarrow> (s, [ErrorEvent (StreamError e)])
        | Inr ((magic, schema), rest) \<Rightarrow>
            if magic \<noteq> WSJTX_MAGIC then (s, [])
            else if schema > WSJTX_SCHEMA_VERSION
              then let errs = [ErrorEvent (SchemaExceeds schema)]
                   in if schema > WSJTX_SCHEMA_VERSION + 1 then (s, errs)
                      else let (s1, os) = handle_body now rest s in (s1, errs @ os)
            else handle_body now rest s)"

datatype wsjtx_event = Datagram int buffer | StopListening

fun wsjtx_step :: "WSJTXListener \<Rightarrow> wsjtx_event \<Rightarrow> WSJTXListener \<times> wsjtx_out list" where
  "wsjtx_step s (Datagram now buf) = handleDatagram now buf s"
| "wsjtx_step s StopListening = (new_listener, [])"

end
