(* ===== verification/WsjtxFeed.thy ===== *)
theory WsjtxFeed
  imports WsjtxLink
begin

text \<open>
  Properties of the WSJT-X link: what the listener makes of the emitter's datagrams, what it
  rejects, and what holds of its state over all runs.
\<close>

abbreviation wsjtx_run :: "WSJTXListener \<Rightarrow> wsjtx_event list \<Rightarrow> WSJTXListener \<times> wsjtx_out list" where
  "wsjtx_run \<equiv> steps wsjtx_step"

section \<open>Reading emitted datagrams\<close>

lemma length_writes [simp]:
  "length (writeUint32 v) = 4" "length (writeUint8 v) = 1" "length (writeBool x) = 1" "length (writeFloat64 w) = 8"
  "length (writeUint64 n) = 8" "length (writeString None) = 4" "length (writeString (Some t)) = 4 + length t"
  by (simp_all add: writeUint32_def writeUint8_def writeBool_def writeFloat64_def writeUint64_def writeString_def
      del: be_bytes.simps)

lemma handle_emitted:
  "handleDatagram now (writeHeader t @ body) s =
     dispatch_message now (message_number t) body CLIENT_ID (touch_context now CLIENT_ID (expire_contexts now s))"
proof -
  have t: "message_number t mod 2 ^ 32 = message_number t" by (cases t) (simp_all add: message_number_def)
  have c: "length CLIENT_ID < 0xFFFFFFFF" by (simp add: CLIENT_ID_def)
  have "header_reader (writeUint32 (message_number t) @ writeString (Some CLIENT_ID) @ body) = Inr ((message_number t, CLIENT_ID), body)"
    using c t by (simp add: header_reader_def)
  then show ?thesis
    by (simp add: handleDatagram_def writeHeader_def handle_body_def WSJTX_MAGIC_def WSJTX_SCHEMA_VERSION_def)
qed

lemma map_of_delete: "map_of (AList.delete i xs) j = (if j = i then None else map_of xs j)"
  by (simp add: delete_conv)

definition touched :: "int \<Rightarrow> string \<Rightarrow> WSJTXListener \<Rightarrow> WsjtxContext" where
  "touched now i s = (case map_of (contexts s) i of None \<Rightarrow> \<lparr>lastSeen = now, ctx_status = None\<rparr> | Some c \<Rightarrow> c)\<lparr>lastSeen := now\<rparr>"

lemma touch_contexts:
  "contexts (touch_context now i s) =
     (let cs = AList.delete i (contexts s) @ [(i, touched now i s)] in if length cs > 64 then AList.delete (fst (hd cs)) cs else cs)"
  by (simp add: touch_context_def touched_def Let_def)

lemma touched_present: "map_of (contexts (touch_context now i s)) i = Some (touched now i s)"
proof -
  define cs where "cs = AList.delete i (contexts s) @ [(i, touched now i s)]"
  have i: "map_of cs i = Some (touched now i s)" by (simp add: cs_def map_of_append map_of_delete map_add_def)
  have "fst (hd cs) \<noteq> i" if "length cs > 64"
  proof (cases "AList.delete i (contexts s)")
    case (Cons x xs)
    then have "fst x \<noteq> i" using AList.delete_notin_dom[of i "contexts s"] by force
    then show ?thesis by (simp add: cs_def Cons)
  qed (use that in \<open>simp add: cs_def\<close>)
  then show ?thesis using i unfolding touch_contexts Let_def cs_def[symmetric] by (auto simp: map_of_delete)
qed

lemma status_touched: "status_of i (touch_context now i s) = status_of i s"
  by (simp add: status_of_def touched_present) (simp add: touched_def split: option.split)

lemma map_sum_Inr: "decode_datagram d = Inr buf \<Longrightarrow> \<exists>snr. writeInt32 (ed_snr d) = Inr snr \<and>
  buf = writeHeader DecodeMsg @ writeBool (ed_isNew d) @ writeUint32 (to_uint32 (ed_time d)) @ snr @
          writeFloat64 (ed_deltaTime d) @ writeUint32 (to_uint32 (ed_deltaFrequency d)) @ writeString (Some (ed_mode d)) @
          writeString (Some (ed_message d)) @ writeBool (ed_lowConfidence d) @ writeUint8 0"
  by (auto simp: decode_datagram_def split: sum.splits)

definition heard :: "int \<Rightarrow> EmitDecodeInput \<Rightarrow> WSJTXStatus option \<Rightarrow> WSJTXDecode" where
  \<comment> \<open>an emitted decode as the listener reports it\<close>
  "heard now d status = \<lparr>wd_receivedAt = now, wd_offAir = False, wd_dial = dial_of (ed_isNew d) False status, wd_isNew = ed_isNew d,
     wd_time = to_uint32 (ed_time d), wd_snr = js_trunc (ed_snr d), wd_deltaTime = ed_deltaTime d,
     wd_deltaFrequency = to_uint32 (ed_deltaFrequency d), wd_mode = ed_mode d, wd_message = ed_message d,
     wd_lowConfidence = ed_lowConfidence d, wd_callsign = fst (extractCall (ed_message d)), wd_grid = snd (extractCall (ed_message d))\<rparr>"

lemma uint32_mod [simp]: "to_uint32 x mod 4294967296 = to_uint32 x"
  using to_uint32_less[of x] by simp

lemma read_decode_body:
  assumes "writeInt32 (ed_snr d) = Inr snr" "length (ed_mode d) < 0xFFFFFFFF" "length (ed_message d) < 0xFFFFFFFF"
  shows "decode_reader now status (writeBool (ed_isNew d) @ writeUint32 (to_uint32 (ed_time d)) @ snr @
          writeFloat64 (ed_deltaTime d) @ writeUint32 (to_uint32 (ed_deltaFrequency d)) @ writeString (Some (ed_mode d)) @
          writeString (Some (ed_message d)) @ writeBool (ed_lowConfidence d) @ writeUint8 0) = Inr (heard now d status, [])"
proof -
  have "(writeUint8 0 = []) = False" by (metis length_writes(2) length_0_conv zero_neq_one)
  moreover have "readBool (writeUint8 0) = Inr (False, [])" using read_bool[of False "[]"] by (simp add: writeBool_def)
  moreover note read_int32[OF assms(1)]
  ultimately show ?thesis using assms(2,3) by (simp add: decode_reader_def heard_def or_else_text_def)
qed

lemma decode_heard_aux:
  assumes "decode_datagram d = Inr buf" "length (ed_mode d) < 0xFFFFFFFF" "length (ed_message d) < 0xFFFFFFFF"
  shows "snd (handleDatagram now buf s) = [DecodeEvent (heard now d (status_of CLIENT_ID (expire_contexts now s))) CLIENT_ID]"
proof -
  obtain snr where snr: "writeInt32 (ed_snr d) = Inr snr" and buf: "buf = writeHeader DecodeMsg @ writeBool (ed_isNew d) @
      writeUint32 (to_uint32 (ed_time d)) @ snr @ writeFloat64 (ed_deltaTime d) @ writeUint32 (to_uint32 (ed_deltaFrequency d)) @
      writeString (Some (ed_mode d)) @ writeString (Some (ed_message d)) @ writeBool (ed_lowConfidence d) @ writeUint8 0"
    using map_sum_Inr[OF assms(1)] by blast
  show ?thesis
    unfolding buf handle_emitted
    by (simp add: dispatch_message_def message_type_def message_number_def parseDecode_def read_decode_body[OF snr assms(2,3)]
        caught_def status_touched Let_def del: append_assoc)
qed

text \<open>
  C34: A decode the emitter sends is reported by the listener, once and with the fields it was sent
  with (the numbers as the 32-bit fields carry them), under the emitter's name, whatever the
  listener has received before; the dial frequency is that of the instance's status.
\<close>

theorem decode_heard:
  assumes "decode_datagram d = Inr buf" "length (ed_mode d) < 0xFFFFFFFF" "length (ed_message d) < 0xFFFFFFFF"
  shows "snd (handleDatagram now buf s) = [DecodeEvent (heard now d (status_of CLIENT_ID (expire_contexts now s))) CLIENT_ID]"
  by (rule decode_heard_aux[OF assms])

section \<open>A status datagram\<close>

lemma be_bytes_add: "be_bytes (m + n) v = be_bytes m (drop_bit (8 * n) v) @ be_bytes n v"
  by (induction n arbitrary: v) (simp_all add: add.commute)

lemma be_bytes_mod: "be_bytes n (v mod 256 ^ n) = be_bytes n v"
proof (induction n arbitrary: v)
  case (Suc n)
  have "v mod 256 ^ Suc n div 256 = v div 256 mod 256 ^ n"
    by (simp add: mod_mult2_eq)
  moreover have "v mod 256 ^ Suc n mod 256 = v mod 256"
    by (simp add: mod_mod_cancel)
  moreover have "(of_nat x :: byte) = of_nat (x mod 256)" for x
    by (simp add: word_of_nat_eq_iff take_bit_eq_mod)
  ultimately have "(of_nat (v mod 256 ^ Suc n) :: byte) = of_nat v" by metis
  then show ?case
    using Suc[of "v div 256"] \<open>v mod 256 ^ Suc n div 256 = v div 256 mod 256 ^ n\<close>
    by (simp add: drop_bit_eq_div of_nat_and_255)
qed simp

lemma writeUint64_split: "writeUint64 v = writeUint32 (nat (v div 2 ^ 32 mod 2 ^ 32)) @ writeUint32 (nat (v mod 2 ^ 32))"
proof -
  have "writeUint64 v = be_bytes 4 (nat (v mod 2 ^ 64) div 2 ^ 32) @ be_bytes 4 (nat (v mod 2 ^ 64))"
    using be_bytes_add[of 4 4 "nat (v mod 2 ^ 64)"] by (simp add: writeUint64_def drop_bit_eq_div del: be_bytes.simps)
  also have "be_bytes 4 (nat (v mod 2 ^ 64)) = be_bytes 4 (nat (v mod 2 ^ 64) mod 256 ^ 4)"
    by (rule be_bytes_mod[symmetric])
  also have "nat (v mod 2 ^ 64) mod 256 ^ 4 = nat (v mod 2 ^ 32)"
  proof -
    have "v mod 2 ^ 64 mod 2 ^ 32 = v mod 2 ^ 32" by (rule mod_mod_cancel) simp
    moreover have "nat (v mod 2 ^ 64) mod 256 ^ 4 = nat (v mod 2 ^ 64 mod 2 ^ 32)"
      by (subst nat_mod_distrib) simp_all
    ultimately show ?thesis by (simp only:)
  qed
  also have "nat (v mod 2 ^ 64) div 2 ^ 32 = nat (v div 2 ^ 32 mod 2 ^ 32)"
  proof -
    have "v mod 2 ^ 64 div 2 ^ 32 = v div 2 ^ 32 mod 2 ^ 32"
      using zmod_zmult2_eq[of "2 ^ 32" v "2 ^ 32"] by simp
    moreover have "nat (v mod 2 ^ 64) div 2 ^ 32 = nat (v mod 2 ^ 64 div 2 ^ 32)"
      by (subst nat_div_distrib) simp_all
    ultimately show ?thesis by (simp only:)
  qed
  finally show ?thesis by (simp only: writeUint32_def)
qed

text \<open>
  C40: A defect of \<open>emitStatus\<close>: it writes a 32-bit zero before the dial frequency, which is not in the
  protocol (the identifier is the text of the header). The listener reads the dial frequency from
  that zero and the high half, and takes the low half for the length of the mode. A status whose
  rounded frequency has a low half (its rest modulo \<open>2\<^sup>3\<^sup>2\<close>) from 65536 up to below \<open>2\<^sup>3\<^sup>2 - 1\<close>, as
  every frequency from 65536 Hz to below \<open>2\<^sup>3\<^sup>2 - 1\<close> Hz (4.29 GHz) has, is therefore rejected when it
  is sent in one datagram of at most 65507 bytes: it is reported as an error, and no status event
  comes of it. Of the other frequencies and of longer datagrams the theorem says nothing.
\<close>

theorem emitted_status_unreadable:
  assumes "65536 \<le> js_round (es_frequency st) mod 2 ^ 32" "js_round (es_frequency st) mod 2 ^ 32 < 2 ^ 32 - 1"
    "length (status_datagram st) \<le> 65507"
  shows "snd (handleDatagram now (status_datagram st) s) = [ErrorEvent (StreamError (Underflow ''utf8 string''))]"
proof -
  define F where "F = nat (js_round (es_frequency st) mod 2 ^ 32)"
  define H where "H = nat (js_round (es_frequency st) div 2 ^ 32 mod 2 ^ 32)"
  have F: "65536 \<le> F" "F < 2 ^ 32 - 1" using assms(1,2) by (auto simp: F_def nat_less_iff)
  have H: "H < 2 ^ 32" by (auto simp: H_def nat_less_iff)
  obtain tl where d: "status_datagram st = writeHeader StatusMsg @ writeUint32 0 @ writeUint32 H @ writeUint32 F @ tl"
    by (simp add: status_datagram_def F_def H_def writeUint64_split)
  then have "length tl \<le> 65507" using assms(3) by simp
  then have "readUtf8 (writeUint32 F @ tl) = Inl (Underflow ''utf8 string'')"
    using F by (simp add: readUtf8_def rbind_def read_bytes_def)
  then have "status_reader (writeUint32 0 @ writeUint32 H @ writeUint32 F @ tl) = Inl (Underflow ''utf8 string'')"
    using H by (simp add: status_reader_def readUInt64_def rbind_def give_def)
  then show ?thesis
    unfolding d handle_emitted by (simp add: dispatch_message_def message_type_def message_number_def parseStatus_def caught_def)
qed

text \<open>A status for 14.074 MHz.\<close>

definition example_status :: EmitStatusInput where
  "example_status = \<lparr>es_frequency = 14074000, es_mode = ''FT8'', es_dxCall = None, es_dxGrid = None, es_txEnabled = False,
     es_decoding = True, es_rxDF = 1500, es_txDF = 1500\<rparr>"

theorem emitted_status_unreadable_witness:
  "snd (handleDatagram 0 (status_datagram example_status) new_listener) = [ErrorEvent (StreamError (Underflow ''utf8 string''))]"
proof (rule emitted_status_unreadable)
  have f: "js_round (es_frequency example_status) = 14074000"
    using js_round_numeral by (simp add: example_status_def)
  show "65536 \<le> js_round (es_frequency example_status) mod 2 ^ 32" "js_round (es_frequency example_status) mod 2 ^ 32 < 2 ^ 32 - 1"
    by (simp_all add: f)
  show "length (status_datagram example_status) \<le> 65507"
    by (simp add: status_datagram_def writeHeader_def CLIENT_ID_def example_status_def)
qed

definition example_decode :: EmitDecodeInput where
  "example_decode = \<lparr>ed_isNew = True, ed_time = 3600000, ed_snr = - 12, ed_deltaTime = 0, ed_deltaFrequency = 1500, ed_mode = ''~'',
     ed_message = ''CQ K1ABC FN42'', ed_lowConfidence = False\<rparr>"

theorem decode_heard_witness:
  "case decode_datagram example_decode of Inl e \<Rightarrow> False
   | Inr buf \<Rightarrow> snd (handleDatagram 0 buf new_listener) =
       [DecodeEvent (heard 0 example_decode (status_of CLIENT_ID (expire_contexts 0 new_listener))) CLIENT_ID]"
proof -
  obtain buf where b: "decode_datagram example_decode = Inr buf"
    by (simp add: decode_datagram_def writeInt32_def example_decode_def)
  show ?thesis using decode_heard[OF b, of 0 new_listener] by (simp add: b) (simp add: example_decode_def)
qed

section \<open>Truncated datagrams\<close>

definition strict :: "'a reader \<Rightarrow> bool" where
  \<comment> \<open>on a prefix the reader fails, or reads the same\<close>
  "strict r \<longleftrightarrow> (\<forall>p q x rest. r (p @ q) = Inr (x, rest) \<longrightarrow>
     (\<exists>e. r p = Inl e) \<or> (\<exists>rest'. r p = Inr (x, rest') \<and> rest = rest' @ q))"

lemma strictD: "strict r \<Longrightarrow> r (p @ q) = Inr (x, rest) \<Longrightarrow> r p = Inr (y, b) \<Longrightarrow> y = x \<and> rest = b @ q"
  unfolding strict_def by fastforce

definition tight :: "nat \<Rightarrow> 'a reader \<Rightarrow> bool" where
  \<comment> \<open>without more than \<open>k\<close> of the bytes it reads, the reader fails\<close>
  "tight k r \<longleftrightarrow> (\<forall>p q x rest. r (p @ q) = Inr (x, rest) \<longrightarrow> length q \<le> length rest + k \<or> (\<exists>e. r p = Inl e))"

lemma strict_bind: "strict r \<Longrightarrow> (\<And>y. strict (f y)) \<Longrightarrow> strict (rbind r f)"
  unfolding strict_def rbind_def
proof (intro allI impI, goal_cases)
  case (1 p q x rest)
  then obtain y b' where y: "r (p @ q) = Inr (y, b')" "f y b' = Inr (x, rest)" by (auto split: sum.splits)
  from 1(1) y(1) consider e where "r p = Inl e" | b'' where "r p = Inr (y, b'')" "b' = b'' @ q" by blast
  then show ?case
  proof cases
    case 2
    then show ?thesis using 1(2)[of y] y(2) by auto
  qed simp
qed

lemma tight_bind: "strict r \<Longrightarrow> (\<And>y. tight k (f y)) \<Longrightarrow> tight k (rbind r f)"
  unfolding strict_def tight_def rbind_def
proof (intro allI impI, goal_cases)
  case (1 p q x rest)
  then obtain y b' where y: "r (p @ q) = Inr (y, b')" "f y b' = Inr (x, rest)" by (auto split: sum.splits)
  from 1(1) y(1) consider e where "r p = Inl e" | b'' where "r p = Inr (y, b'')" "b' = b'' @ q" by blast
  then show ?case
  proof cases
    case 2
    then show ?thesis using 1(2)[of y] y(2) by auto
  qed simp
qed

lemma strict_bytes: "strict (read_bytes what n)"
  by (auto simp: strict_def read_bytes_def split: if_splits)

lemma strict_give: "strict (give x)"
  by (auto simp: strict_def give_def)

lemma strict_readers: "strict readUInt8" "strict readUInt32" "strict readInt32" "strict readBool" "strict readDouble" "strict readQTime" "strict readUtf8"
  by (auto simp: readUInt8_def readUInt32_def readInt32_def readBool_def readDouble_def readQTime_def readUtf8_def
      intro!: strict_bind strict_bytes strict_give)

lemma tight_off_air: "tight 1 (rbind (\<lambda>b. if b = [] then Inr (False, b) else readBool b) (\<lambda>offAir. give (f offAir)))"
proof -
  have "length q \<le> length rest + 1 \<or> (\<exists>e. rbind (\<lambda>b. if b = [] then Inr (False, b) else readBool b) (\<lambda>offAir. give (f offAir)) p = Inl e)"
    if r: "rbind (\<lambda>b. if b = [] then Inr (False, b) else readBool b) (\<lambda>offAir. give (f offAir)) (p @ q) = Inr (x, rest)" for p q x rest
  proof (cases "p @ q")
    case (Cons c b)
    then have "rest = b" using r by (auto simp: rbind_def give_def readBool_def readUInt8_def read_bytes_def split: if_splits)
    then have "length p + length q = length rest + 1" using arg_cong[OF Cons, of length] by simp
    then show ?thesis by simp
  qed simp
  then show ?thesis unfolding tight_def by blast
qed

lemma tight_decode: "tight 1 (decode_reader now status)"
  unfolding decode_reader_def by (intro tight_bind strict_readers tight_off_air)

definition is_error :: "wsjtx_out \<Rightarrow> bool" where
  "is_error x \<longleftrightarrow> (case x of ErrorEvent _ \<Rightarrow> True | _ \<Rightarrow> False)"

text \<open>
  A cut datagram is no decode: of an emitted decode that has lost two or more bytes at its end
  the listener reports at most errors. (The last byte alone is an optional field.)
\<close>

theorem truncated_decode_rejected:
  assumes "decode_datagram d = Inr (p @ q)" "2 \<le> length q" "length (ed_mode d) < 0xFFFFFFFF" "length (ed_message d) < 0xFFFFFFFF"
  shows "list_all is_error (snd (handleDatagram now p s))"
proof -
  obtain snr where snr: "writeInt32 (ed_snr d) = Inr snr" and buf: "p @ q = writeHeader DecodeMsg @ writeBool (ed_isNew d) @
      writeUint32 (to_uint32 (ed_time d)) @ snr @ writeFloat64 (ed_deltaTime d) @ writeUint32 (to_uint32 (ed_deltaFrequency d)) @
      writeString (Some (ed_mode d)) @ writeString (Some (ed_message d)) @ writeBool (ed_lowConfidence d) @ writeUint8 0"
    using map_sum_Inr[OF assms(1)] by blast
  note body = read_decode_body[OF snr assms(3,4)]
  define body where "body = writeBool (ed_isNew d) @ writeUint32 (to_uint32 (ed_time d)) @ snr @ writeFloat64 (ed_deltaTime d) @
    writeUint32 (to_uint32 (ed_deltaFrequency d)) @ writeString (Some (ed_mode d)) @ writeString (Some (ed_message d)) @
    writeBool (ed_lowConfidence d) @ writeUint8 0"
  have rd: "\<exists>e. decode_reader now status b = Inl e" if "b @ q = body" for b status
    using tight_decode[unfolded tight_def, rule_format, of now status b q] that assms(2)
      read_decode_body[OF snr assms(3,4), of now status] by (fastforce simp flip: body_def)
  define R where "R = writeUint32 (message_number DecodeMsg) @ writeString (Some CLIENT_ID) @ body"
  let ?A = "rbind readUInt32 (\<lambda>magic. rbind readUInt32 (\<lambda>schema. give (magic, schema)))"
  have c: "length CLIENT_ID < 0xFFFFFFFF" by (simp add: CLIENT_ID_def)
  have A: "?A (p @ q) = Inr ((WSJTX_MAGIC, WSJTX_SCHEMA_VERSION), R)" "strict ?A"
    by (auto simp: buf writeHeader_def WSJTX_MAGIC_def WSJTX_SCHEMA_VERSION_def body_def R_def intro!: strict_bind strict_readers strict_give)
  have H: "header_reader R = Inr ((message_number DecodeMsg, CLIENT_ID), body)" "strict header_reader"
    using c by (auto simp: header_reader_def message_number_def R_def intro!: strict_bind strict_readers strict_give)
  have b: "list_all is_error (snd (handle_body now b1 s))" if Rq: "R = b1 @ q" for b1
  proof (cases "header_reader b1")
    case (Inr hb)
    then obtain b2 where b2: "header_reader b1 = Inr ((message_number DecodeMsg, CLIENT_ID), b2)" "body = b2 @ q"
      using strictD[OF H(2) H(1)[unfolded Rq]] by (cases hb) blast
    obtain e where "decode_reader now (status_of CLIENT_ID (expire_contexts now s)) b2 = Inl e" using rd b2(2) by metis
    then show ?thesis
      by (simp add: handle_body_def b2(1) dispatch_message_def message_type_def message_number_def parseDecode_def caught_def
          status_touched is_error_def)
  qed (simp add: handle_body_def is_error_def)
  show ?thesis
  proof (cases "?A p")
    case (Inr mb)
    then obtain b1 where "?A p = Inr ((WSJTX_MAGIC, WSJTX_SCHEMA_VERSION), b1)" "R = b1 @ q"
      using strictD[OF A(2,1)] by (cases mb) blast
    then show ?thesis using b by (simp add: handleDatagram_def)
  qed (simp add: handleDatagram_def is_error_def)
qed

theorem truncated_decode_rejected_witness:
  "case decode_datagram example_decode of Inl e \<Rightarrow> False
   | Inr buf \<Rightarrow> list_all is_error (snd (handleDatagram 0 (take (length buf - 2) buf) new_listener))"
proof -
  obtain buf where b: "decode_datagram example_decode = Inr buf" "2 \<le> length buf"
    by (simp add: decode_datagram_def writeInt32_def example_decode_def)
  have "list_all is_error (snd (handleDatagram 0 (take (length buf - 2) buf) new_listener))"
    by (rule truncated_decode_rejected[of example_decode _ "drop (length buf - 2) buf"])
      (use b in \<open>simp_all\<close>, simp_all add: example_decode_def)
  then show ?thesis by (simp add: b)
qed

section \<open>The contexts\<close>

definition listener_ok :: "WSJTXListener \<Rightarrow> bool" where
  "listener_ok s \<longleftrightarrow> distinct (map fst (contexts s)) \<and> length (contexts s) \<le> 64 \<and>
     fst ` set (statsPerInstance s) \<subseteq> fst ` set (contexts s) \<and> sorted (map (\<lambda>x. lastSeen (snd x)) (contexts s))"

lemma expire_ok:
  assumes "listener_ok s"
  shows "listener_ok (expire_contexts now s) \<and> (\<forall>x \<in> set (contexts (expire_contexts now s)). lastSeen (snd x) \<le> now)"
proof -
  have "i \<in> fst ` set (filter (\<lambda>(i, c). \<not> (now - lastSeen c \<ge> 120000 \<or> now < lastSeen c)) (contexts s))"
    if "(i, st) \<in> set (statsPerInstance s)" "i \<notin> fst ` set (filter (\<lambda>(i, c). now - lastSeen c \<ge> 120000 \<or> now < lastSeen c) (contexts s))" for i st
  proof -
    have "i \<in> fst ` set (contexts s)" using assms that(1) by (force simp: listener_ok_def)
    then show ?thesis using that(2) by force
  qed
  then show ?thesis
    using assms unfolding listener_ok_def expire_contexts_def Let_def
    by (auto simp: distinct_map_filter sorted_filter le_trans[OF length_filter_le])
qed

lemma delete_filter: "AList.delete i xs = filter (\<lambda>x. fst x \<noteq> i) xs"
  by (auto simp: AList.delete_eq intro!: filter_cong)

lemma touch_ok:
  assumes "listener_ok s" "\<forall>x \<in> set (contexts s). lastSeen (snd x) \<le> now"
  shows "listener_ok (touch_context now i s)"
proof -
  define cs where "cs = AList.delete i (contexts s) @ [(i, touched now i s)]"
  have t: "lastSeen (touched now i s) = now" by (simp add: touched_def)
  have d: "distinct (map fst cs)" using assms(1) by (auto simp: cs_def listener_ok_def delete_filter distinct_map_filter)
  have so: "sorted (map (\<lambda>x. lastSeen (snd x)) cs)"
    using assms by (auto simp: cs_def listener_ok_def delete_filter t sorted_append sorted_filter)
  have l: "length cs \<le> 65"
    using assms(1) le_trans[OF length_delete_le[of i "contexts s"]] by (auto simp: cs_def listener_ok_def)
  have st: "fst ` set (statsPerInstance s) \<subseteq> fst ` set cs"
    using assms(1) by (force simp: cs_def listener_ok_def delete_filter)
  show ?thesis
  proof (cases "length cs > 64")
    case True
    then have ne: "cs \<noteq> []" by auto
    have "length (AList.delete (fst (hd cs)) cs) < length cs"
      unfolding delete_filter by (rule length_filter_less[of "hd cs"]) (simp_all add: ne)
    moreover have "fst ` set (AList.delete k (statsPerInstance s)) \<subseteq> fst ` set (AList.delete k cs)" for k
      using st by (force simp: delete_filter)
    ultimately show ?thesis
      using True d so l unfolding listener_ok_def touch_context_def Let_def touched_def[symmetric] cs_def[symmetric]
      by (auto simp: delete_filter distinct_map_filter sorted_filter)
  next
    case False
    then show ?thesis
      using d so st unfolding listener_ok_def touch_context_def Let_def touched_def[symmetric] cs_def[symmetric] by auto
  qed
qed

lemma update_same_times:
  "map_of xs i = Some c \<Longrightarrow> lastSeen v = lastSeen c \<Longrightarrow>
     map (\<lambda>x. lastSeen (snd x)) (AList.update i v xs) = map (\<lambda>x. lastSeen (snd x)) xs \<and> map fst (AList.update i v xs) = map fst xs"
  by (induction xs) auto

lemma dispatch_ok:
  assumes "listener_ok s" "map_of (contexts s) i \<noteq> None"
  shows "listener_ok (fst (dispatch_message now n buf i s))"
proof -
  have st: "listener_ok (fst (caught s (parseStatus buf i s)))"
  proof (cases "status_reader buf")
    case (Inr x)
    obtain c where c: "map_of (contexts s) i = Some c" using assms(2) by blast
    note u = update_same_times[OF c, of "c\<lparr>ctx_status := Some (fst x)\<rparr>", simplified]
    have "fst ` set (AList.update i (c\<lparr>ctx_status := Some (fst x)\<rparr>) (contexts s)) = fst ` set (contexts s)"
      using u by (metis list.set_map)
    moreover have "length (AList.update i (c\<lparr>ctx_status := Some (fst x)\<rparr>) (contexts s)) = length (contexts s)"
      using u by (metis length_map)
    ultimately show ?thesis using assms(1) u by (cases x) (simp add: caught_def parseStatus_def Inr c listener_ok_def)
  qed (simp add: caught_def parseStatus_def assms)
  have "i \<in> fst ` set (contexts s)" using assms(2) by (metis map_of_eq_None_iff)
  then have "listener_ok (fst (caught s (parseDecode now buf i s)))"
    using assms(1) by (auto simp: caught_def parseDecode_def listener_ok_def dom_update Let_def split: sum.split)
  moreover have "listener_ok (fst (caught s (parseQSOLogged buf i s)))" "listener_ok (fst (caught s (parseLoggedADIF now buf i s)))"
    using assms(1) by (auto simp: caught_def parseQSOLogged_def parseLoggedADIF_def Let_def split: sum.split)
  moreover have "listener_ok (s\<lparr>contexts := AList.delete i (contexts s), statsPerInstance := AList.delete i (statsPerInstance s)\<rparr>)"
    using assms(1) le_trans[OF length_delete_le[of i "contexts s"]]
    by (force simp: listener_ok_def delete_filter distinct_map_filter sorted_filter)
  ultimately show ?thesis
    using st assms(1) by (simp add: dispatch_message_def parseClear_def split: option.split WSJTXMessageType.split)
qed

lemma datagram_ok: "listener_ok s \<Longrightarrow> listener_ok (fst (handleDatagram now buf s))"
proof -
  assume s: "listener_ok s"
  have "listener_ok (fst (handle_body now b s))" for b
  proof (cases "header_reader b")
    case (Inr x)
    obtain n i r where x: "x = ((n, i), r)" by (metis surj_pair)
    have "listener_ok (touch_context now i (expire_contexts now s))" using expire_ok[OF s, of now] touch_ok by blast
    then show ?thesis by (simp add: handle_body_def Inr x dispatch_ok touched_present)
  qed (simp add: handle_body_def s)
  then show ?thesis using s by (auto simp: handleDatagram_def Let_def case_prod_beta split: sum.split)
qed

lemma listener_run_ok: "listener_ok s \<Longrightarrow> listener_ok (fst (wsjtx_run s es))"
proof (induction es arbitrary: s)
  case (Cons e es)
  have "listener_ok (fst (wsjtx_step s e))"
    using datagram_ok[OF Cons.prems] by (cases e) (simp_all add: listener_ok_def new_listener_def)
  then show ?case using Cons.IH by (simp add: Let_def case_prod_beta)
qed simp

text \<open>
  C37: The listener's memory is bounded: after any sequence of datagrams, from any number of
  senders and with any clock, it keeps at most 64 contexts, one per name, the least recently
  heard first, and statistics only for instances that have a context.
\<close>

theorem listener_contexts_bounded:
  "let s = fst (wsjtx_run new_listener es)
   in length (contexts s) \<le> 64 \<and> distinct (map fst (contexts s)) \<and> sorted (map (\<lambda>x. lastSeen (snd x)) (contexts s)) \<and>
      fst ` set (statsPerInstance s) \<subseteq> fst ` set (contexts s)"
proof -
  have "listener_ok new_listener" by (simp add: listener_ok_def new_listener_def)
  from listener_run_ok[OF this, of es] show ?thesis by (simp add: listener_ok_def Let_def)
qed

section \<open>The dial frequency\<close>

fun status_for :: "string \<Rightarrow> wsjtx_out \<Rightarrow> WSJTXStatus list" where
  "status_for i (StatusEvent st j) = (if j = i then [st] else [])"
| "status_for i _ = []"

definition last_status :: "string \<Rightarrow> wsjtx_out list \<Rightarrow> WSJTXStatus option" where
  "last_status i os = (let sts = concat (map (status_for i) os) in if sts = [] then None else Some (last sts))"

definition known :: "wsjtx_out list \<Rightarrow> WSJTXListener \<Rightarrow> bool" where
  \<comment> \<open>the status of a context is the last one reported for its name\<close>
  "known os s \<longleftrightarrow> (\<forall>i st. status_of i s = Some st \<longrightarrow> last_status i os = Some st)"

definition keeps :: "WSJTXListener \<Rightarrow> WSJTXListener \<times> wsjtx_out list \<Rightarrow> bool" where
  "keeps s x \<longleftrightarrow> (\<forall>i. (last_status i (snd x) = None \<and> (status_of i (fst x) = None \<or> status_of i (fst x) = status_of i s)) \<or>
     (last_status i (snd x) \<noteq> None \<and> (status_of i (fst x) = None \<or> status_of i (fst x) = last_status i (snd x))))"

lemma last_status_append: "last_status i (xs @ ys) = (case last_status i ys of None \<Rightarrow> last_status i xs | Some st \<Rightarrow> Some st)"
  by (simp add: last_status_def Let_def)

lemma known_step: "known os s \<Longrightarrow> keeps s x \<Longrightarrow> known (os @ snd x) (fst x)"
  unfolding known_def keeps_def last_status_append
proof (intro allI impI, goal_cases)
  case (1 i st)
  have "last_status i os = Some st" if "status_of i s = Some st" using 1(1) that by blast
  then show ?case using 1(2)[rule_format, of i] 1(3) by (auto split: option.split)
qed

lemma last_status_simps [simp]: "last_status i [] = None" "last_status i [ErrorEvent e] = None" "last_status i [DecodeEvent d j] = None"
  "last_status i [QsoEvent q j] = None" "last_status i [ClearEvent w j] = None" "last_status i [ErrorEvent e, QsoEvent q j] = None"
  "last_status i [StatusEvent st j] = (if j = i then Some st else None)"
  "last_status i (ErrorEvent e # os) = last_status i os"
  by (simp_all add: last_status_def Let_def)

lemma status_of_frame [simp]: "status_of i (s\<lparr>statsPerInstance := x\<rparr>) = status_of i s" "status_of i new_listener = None"
  by (simp_all add: status_of_def new_listener_def)

lemma status_of_filtered:
  "distinct (map fst (contexts s)) \<Longrightarrow> contexts s' = filter P (contexts s) \<Longrightarrow> status_of i s' = None \<or> status_of i s' = status_of i s"
proof -
  assume d: "distinct (map fst (contexts s))" and f: "contexts s' = filter P (contexts s)"
  show ?thesis
  proof (cases "map_of (contexts s') i")
    case (Some c)
    then have "(i, c) \<in> set (contexts s)" by (auto simp: f dest: map_of_SomeD)
    then have "map_of (contexts s) i = Some c" using d by simp
    then show ?thesis using Some by (simp add: status_of_def)
  qed (simp add: status_of_def)
qed

lemma status_touch: "status_of j (touch_context now i s) = None \<or> status_of j (touch_context now i s) = status_of j s"
proof (cases "j = i")
  case False
  then have "map_of (AList.delete i (contexts s) @ [(i, touched now i s)]) j = map_of (contexts s) j"
    by (auto simp: map_of_delete map_of_append map_add_def split: option.split)
  then have "map_of (contexts (touch_context now i s)) j = None \<or> map_of (contexts (touch_context now i s)) j = map_of (contexts s) j"
    unfolding touch_contexts Let_def by (auto simp only: map_of_delete split: if_splits)
  then show ?thesis by (auto simp: status_of_def)
qed (simp add: status_touched)

lemma keeps_dispatch: "keeps s (dispatch_message now n buf i s)"
proof -
  have st: "keeps s (caught s (parseStatus buf i s))"
    by (auto simp: keeps_def caught_def parseStatus_def status_of_def update_conv' split: sum.split option.split)
  have "keeps s (caught s (parseDecode now buf i s))" "keeps s (caught s (parseQSOLogged buf i s))" "keeps s (caught s (parseLoggedADIF now buf i s))"
    by (auto simp: keeps_def caught_def parseDecode_def parseQSOLogged_def parseLoggedADIF_def Let_def split: sum.split)
  moreover have "keeps s (s\<lparr>contexts := AList.delete i (contexts s), statsPerInstance := x\<rparr>, [])" for x
    by (simp add: keeps_def status_of_def map_of_delete)
  moreover have "keeps s (s, [])" "keeps s (parseClear buf i s)" by (simp_all add: keeps_def parseClear_def)
  ultimately show ?thesis using st by (simp add: dispatch_message_def split: option.split WSJTXMessageType.split)
qed

lemma keeps_after: "(\<And>j. status_of j s' = None \<or> status_of j s' = status_of j s) \<Longrightarrow> keeps s' x \<Longrightarrow> keeps s x"
  unfolding keeps_def by (metis (no_types))

lemma keeps_body: "listener_ok s \<Longrightarrow> keeps s (handle_body now b s)"
proof (cases "header_reader b")
  case (Inr x)
  assume ok: "listener_ok s"
  obtain n i r where x: "x = ((n, i), r)" by (metis surj_pair)
  let ?s1 = "expire_contexts now s"
  have "status_of j ?s1 = None \<or> status_of j ?s1 = status_of j s" for j
    using ok by (intro status_of_filtered) (auto simp: listener_ok_def expire_contexts_def Let_def)
  then have "status_of j (touch_context now i ?s1) = None \<or> status_of j (touch_context now i ?s1) = status_of j s" for j
    using status_touch[of j now i ?s1] by metis
  from keeps_after[OF this keeps_dispatch] show ?thesis by (simp add: handle_body_def Inr x)
qed (simp add: handle_body_def keeps_def)

lemma keeps_step: "listener_ok s \<Longrightarrow> keeps s (wsjtx_step s e)"
proof (cases e)
  case (Datagram now buf)
  assume "listener_ok s"
  from keeps_body[OF this, of now] show ?thesis
    by (auto simp: Datagram handleDatagram_def keeps_def Let_def case_prod_beta split: sum.split)
qed (simp add: keeps_def)

lemma known_run: "listener_ok s \<Longrightarrow> known os s \<Longrightarrow> known (os @ snd (wsjtx_run s es)) (fst (wsjtx_run s es))"
proof (induction es arbitrary: s os)
  case (Cons e es)
  have "listener_ok (fst (wsjtx_step s e))" using listener_run_ok[OF Cons.prems(1), of "[e]"] by (simp add: Let_def case_prod_beta)
  then show ?case
    using Cons.IH[OF _ known_step[OF Cons.prems(2) keeps_step[OF Cons.prems(1)]], of e] by (simp add: Let_def case_prod_beta)
qed simp

lemma decode_dial:
  "decode_reader now status buf = Inr (d, rest) \<Longrightarrow> wd_dial d = Some (f, m) \<Longrightarrow> \<exists>st. status = Some st \<and> f = ws_frequency st \<and> m = ws_mode st"
  by (auto simp: decode_reader_def rbind_def give_def dial_of_def split: sum.splits prod.splits option.splits if_splits)

lemma dispatch_dial:
  assumes "DecodeEvent d j \<in> set (snd (dispatch_message now n buf i s))" "wd_dial d = Some (f, m)"
  shows "\<exists>st. status_of j s = Some st \<and> f = ws_frequency st \<and> m = ws_mode st"
proof -
  have "j = i \<and> (\<exists>rest. decode_reader now (status_of i s) buf = Inr (d, rest))"
    using assms(1) by (auto simp: dispatch_message_def caught_def parseStatus_def parseDecode_def parseClear_def parseQSOLogged_def
        parseLoggedADIF_def Let_def split: option.splits WSJTXMessageType.splits sum.splits if_splits)
  then show ?thesis using decode_dial assms(2) by blast
qed

lemma datagram_dial:
  assumes "listener_ok s" "DecodeEvent d j \<in> set (snd (handleDatagram now buf s))" "wd_dial d = Some (f, m)"
  shows "\<exists>st. status_of j s = Some st \<and> f = ws_frequency st \<and> m = ws_mode st"
proof -
  have "\<exists>b. DecodeEvent d j \<in> set (snd (handle_body now b s))"
    using assms(2) by (auto simp: handleDatagram_def Let_def case_prod_beta split: sum.splits if_splits)
  then obtain b where "DecodeEvent d j \<in> set (snd (handle_body now b s))" ..
  then obtain n i r where "DecodeEvent d j \<in> set (snd (dispatch_message now n r i (touch_context now i (expire_contexts now s))))"
    by (auto simp: handle_body_def split: sum.splits)
  from dispatch_dial[OF this assms(3)] obtain st
    where st: "status_of j (touch_context now i (expire_contexts now s)) = Some st" "f = ws_frequency st" "m = ws_mode st" by blast
  moreover have "status_of j (expire_contexts now s) = None \<or> status_of j (expire_contexts now s) = status_of j s"
    using assms(1) by (intro status_of_filtered) (auto simp: listener_ok_def expire_contexts_def Let_def)
  ultimately show ?thesis using status_touch[of j now i "expire_contexts now s"] by fastforce
qed

text \<open>
  C36: A dial frequency is never made up: in any run, when a decode is reported with a dial frequency
  and mode, they are those of the last status reported for the same instance before it.
\<close>

theorem decode_dial_from_status:
  assumes "DecodeEvent d i \<in> set (snd (wsjtx_step (fst (wsjtx_run new_listener es)) e))" "wd_dial d = Some (f, m)"
  shows "\<exists>st. last_status i (snd (wsjtx_run new_listener es)) = Some st \<and> f = ws_frequency st \<and> m = ws_mode st"
proof -
  have ok: "listener_ok new_listener" "known [] new_listener" by (simp_all add: listener_ok_def new_listener_def known_def status_of_def)
  obtain now buf where e: "e = Datagram now buf" using assms(1) by (cases e) auto
  obtain st where "status_of i (fst (wsjtx_run new_listener es)) = Some st" "f = ws_frequency st" "m = ws_mode st"
    using datagram_dial[OF listener_run_ok[OF ok(1)]] assms unfolding e wsjtx_step.simps by blast
  then show ?thesis using known_run[OF ok] by (auto simp: known_def)
qed

definition example_sent :: buffer where
  \<comment> \<open>a status datagram as the protocol has it, for 14.074 MHz\<close>
  "example_sent = writeHeader StatusMsg @ writeUint32 0 @ writeUint32 14074000 @ writeString (Some ''FT8'') @ writeString None @
     writeString None @ writeString None @ writeBool False @ writeBool False @ writeBool True @ writeUint32 1500 @ writeUint32 1500 @
     writeString None @ writeString None @ writeString None"

lemma example_heard:
  "wsjtx_step new_listener (Datagram 0 example_sent) =
     (new_listener\<lparr>contexts := [(CLIENT_ID, \<lparr>lastSeen = 0, ctx_status = Some \<lparr>ws_frequency = 14074000, ws_mode = ''FT8'',
        ws_dxCall = None, ws_dxGrid = None, ws_txEnabled = False, ws_decoding = True, ws_rxDF = 1500, ws_txDF = 1500\<rparr>\<rparr>)]\<rparr>,
      [StatusEvent \<lparr>ws_frequency = 14074000, ws_mode = ''FT8'', ws_dxCall = None, ws_dxGrid = None, ws_txEnabled = False,
        ws_decoding = True, ws_rxDF = 1500, ws_txDF = 1500\<rparr> CLIENT_ID])"
proof -
  have n: "readUtf8 (writeString None) = Inr (None, [])" using read_null[of "[]"] by simp
  have r: "status_reader (writeUint32 0 @ writeUint32 14074000 @ writeString (Some ''FT8'') @ writeString None @
     writeString None @ writeString None @ writeBool False @ writeBool False @ writeBool True @ writeUint32 1500 @ writeUint32 1500 @
     writeString None @ writeString None @ writeString None) = Inr (\<lparr>ws_frequency = 14074000, ws_mode = ''FT8'', ws_dxCall = None,
     ws_dxGrid = None, ws_txEnabled = False, ws_decoding = True, ws_rxDF = 1500, ws_txDF = 1500\<rparr>, [])"
    by (simp add: status_reader_def readUInt64_def or_else_text_def n)
  show ?thesis
    unfolding wsjtx_step.simps example_sent_def handle_emitted
    by (simp add: dispatch_message_def message_type_def message_number_def parseStatus_def r caught_def
        touch_context_def expire_contexts_def new_listener_def Let_def)
qed

theorem decode_dial_from_status_witness:
  "\<exists>st. last_status CLIENT_ID (snd (wsjtx_run new_listener [Datagram 0 example_sent])) = Some st \<and>
     14074000 = ws_frequency st \<and> ''FT8'' = ws_mode st"
proof -
  obtain buf where b: "decode_datagram example_decode = Inr buf"
    by (simp add: decode_datagram_def writeInt32_def example_decode_def)
  let ?s = "fst (wsjtx_run new_listener [Datagram 0 example_sent])"
  let ?d = "heard 1000 example_decode (status_of CLIENT_ID (expire_contexts 1000 ?s))"
  have "snd (wsjtx_step ?s (Datagram 1000 buf)) = [DecodeEvent ?d CLIENT_ID]"
    unfolding wsjtx_step.simps by (rule decode_heard_aux[OF b]) (simp_all add: example_decode_def)
  moreover have "wd_dial ?d = Some (14074000, ''FT8'')"
    by (simp add: example_heard heard_def expire_contexts_def status_of_def dial_of_def example_decode_def Let_def
        del: wsjtx_step.simps)
  ultimately show ?thesis using decode_dial_from_status[of ?d CLIENT_ID "[Datagram 0 example_sent]" "Datagram 1000 buf"] by simp
qed

end
