(* ===== verification/Spec2Isabelle.thy ===== *)
theory Spec2Isabelle
  imports CivPolling PttSafety CollectorLadder QsoQueue WsprCodec Ft8Contacts LogbookSync ShackSync RotorSafety WsjtxFeed
begin

text \<open>
  Propulse: verification of the program's protocol, safety and evidence logic.

  The program. Propulse is an amateur-radio application. The browser client (src/src) shows
  propagation, keeps a log and runs digital modes. The bridge (src/bridge) is a local Node
  process that drives the operator's radio. The collector (src/collector) ingests reception
  reports and publishes, per band and scope, the state of an evidence ladder that the client
  also evaluates. This development models the parts that decide something: what bytes reach
  a transmitter and when, what the program claims to have observed, what is logged, and what
  survives being offline.

  Parts, theories and sources (paths below src/).

  Radio link. CivTypes (bridge/src/civ/types.ts: enumerations, mode tables, meter scales),
  CivCodec (codec.ts: BCD fields, frames, the buffering CivFrameParser as a record with
  append_chunk), CivFraming (the parser refines a byte automaton), CivCommands (commands.ts:
  every builder and parser; fields sent are read back), CivSession (session.ts: the promise
  queue, pending command, time-out, dispatcher, scope reassembly, as a step function over
  events), CivPolling (the poll cycle, optional fields and setters), PromiseQueue (the contract
  of a promise-chained queue, a locale interpreted on the session, on the PTT controller and on
  the rotator client).

  Transmitter safety. PttSafety (bridge/src/pttSafety.ts): every method is an operation of a
  promise chain with one awaited driver call, split at the await; timers and driver outcomes
  are events. The model adds the state of the transmitter, which the code cannot read.

  Rotator client. JsNumber (parsing and formatting of JavaScript numbers), RotorWire
  (bridge/src/rotor.ts: the text protocol, headings, configuration), RotorLink (the class
  RotorController as a step function: command chain, connection, line buffer, polling with
  back-off, shutdown; the jobs its promises leave run in the order of the microtasks) and
  RotorSafety (what holds of all its runs).

  WSJT-X link. WsjtxStream (the QDataStream reader and writer of bridge/src/wsjtx.ts and
  wsjtxEmitter.ts), WsjtxLink (the emitter, and the listener as a step function over datagrams)
  and WsjtxFeed (what the listener makes of the emitter's datagrams, its invariants).

  Evidence ladder. HoldMachine (src/lib/verdict/stateMachine.ts), JsonValue (values of unknown
  type), BandLadder (bandActivity.ts, verdictEngine.ts, ladder.ts, presentation.ts,
  bestBand.ts), CollectorLadder (collector/src/verdict and collectors/verdictLadder.ts: the
  port of the ladder, the opening timeline and the pure tick over the stored rows).

  Offline queues. OfflineQueue (the shared contract over a storage that may refuse a write),
  WriteQueue (src/lib/sync/writeQueue.ts), QsoQueue (src/lib/sync/syncQueue.ts).

  QSO and logbook synchronisation. PagedPull (the contract of a paged pull over a growing key,
  a locale interpreted on both pulls), LogRows (src/lib/sync/conflict.ts and the conversion of
  log entries to rows and back), LogRepair (logbookMetadataBackfill.ts: the repair both pulls await
  first, with its failures), QsoSync (src/lib/sync/syncEngine.ts: pull, push, conflicts, the
  version cursor; the service is a parameter), LogbookSync (modules/logbookSync.ts: pull, push,
  the write queue's operations).

  Shack. GearSync (src/lib/sync/shackDeletionIntent.ts, shackGearTombstone.ts: deletion intents,
  the merge of pulled rows, the push of intents), ChainOrdering (src/lib/chainOrdering.ts),
  ShackStore and ShackActions (src/stores/shackStore.ts: state, referential cleanup, every
  action and the migration; ids, clock, user and catalogue are a context argument), ShackRefs
  and ShackEdits (references, limits and chain edits), ShackRows (the row conversions of
  src/lib/sync/modules/shackSync.ts), ShackSync (its pull and push, and the step relation of a
  device, the service and the user's other devices).

  Digital modes. BitStream and TextOps (bit fields of big-endian buffers; JavaScript string
  operations), WsprCodec (src/lib/wspr/wsprCodec.ts), Ft8Constants and Ft8Encoder
  (src/lib/ft8/ft8Constants.ts, ft8Encoder.ts: packing, checksum, LDPC code, tones), JsRegex (a
  backtracking matcher with captures) and Ft8Messages (composition, and the parser of
  ft8MessageParser.ts with its regular expressions), Ft8Sequencer (ft8AutoSequencer.ts: the
  whole state machine; timers are handles in the state and their firing is an event),
  Ft8Contacts (runs of one sequencer, and of several stations on one channel).

  How they meet. The session sends what the command builders build and feeds received bytes
  through the frame parser; frequency_read_end_to_end below is that composition. The collector
  tick composes the ladder, the hold machine and the timeline. The sequencer composes messages,
  encodes them to tones and parses what it hears; the properties of Ft8Contacts compose all
  three. The shack's pull runs the store's cleanup and its push drains the store's queue of
  deletion intents; deleted_gear_stays_deleted is about all of them together.

  What the lemmas show. Codecs: encoders and parsers are inverse on the ranges the code accepts,
  fields have the widths the protocol gives them, and no field breaks the framing. Queues and
  controllers: every call is answered at most once and is otherwise open, answers belong to
  their commands, a keyed transmitter is watched except after a failed manual
  operation that left it on, the lockout holds, the antenna moves only when told.
  Ladder: more evidence never
  lowers a state, a verdict changes only after its hold and each transition is logged once.
  Offline queues: bounds, one entry per row, no resurrection. Synchronisation: what a pull has
  applied when it returns, what a push reports, that merging loses no confirmation. Shack: table
  limits, references, which edits keep runs and nodes of a chain in step, deleted items stay
  deleted. Sequencer: its states are
  consistent, it gives up on a silent station, and what a contact logs. Where a theorem shows a
  defect of the code (its text says so), it is a theorem about the code as it is.

  Bounds and termination. No definition uses fuel: loops are structural recursion or have a
  measure (the parser's buffer length, the remaining samples of a timeline). The two paged pulls
  run as long as the service returns full pages; they are partial functions with values in
  option, and their theorems prove that they return. Byte values are
  8-bit words, the shift register of the convolutional code is a 32-bit word, the checksum
  register is a natural number cut to 14 bits as the code does. JavaScript numbers that are
  only ever integers are integers, others are rationals.

  Not modelled, and why. Rounding of doubles, NaN and the infinities in arithmetic (the values
  of unknown type do have them). Sockets, serial ports, Supabase, IndexedDB, audio and the
  wall clock: they are events or parameters. What happens between the awaited requests of one pull
  or push (of the log or the shack): each is one step. The propagation, solar and map physics are
  floating-point numerics, and the React interface is rendering. The Rust daemon and the Python
  services are other languages. Still in the plan, in this order: logbook import and export, the sync manager, the
  cluster client, the contest engine.
\<close>

lemma frequency_reply_matches:
  "matchesPending (pending_of i (readFrequency addr) Data)
     (frame_of (controller addr) (radio addr) (cmd_byte READ_FREQ) data)"
  by (simp add: matchesPending_def pending_of_def sub_ok_def frame_of_def readFrequency_def buildFrame_def
      commandUsesSubCommand_def Let_def)

text \<open>
  C22: A frequency read works end to end. A fresh session on an open link writes the read request,
  and when the radio's reply with an encoded frequency arrives, the request's promise, and no
  other, resolves with a frame from which the command layer reads back the frequency; the
  session is idle again.
\<close>

theorem frequency_read_end_to_end:
  assumes "addr_clean addr" "0 \<le> js_round hz"
  shows "\<exists>s' f. run new_session [CallSend i True (readFrequency addr) Data, StartNext True,
       Incoming now (buildFrame (controller addr) (radio addr) (cmd_byte READ_FREQ) (encodeBcdFrequency hz))]
     = (s', [Wrote i (readFrequency addr), Resolved i (Some f)]) \<and>
     parseFrequencyResponse f = Some (nat (js_round hz mod 10 ^ 10)) \<and>
     active s' = None \<and> pendingCommand s' = None \<and> waiting s' = []"
proof -
  let ?f = "frame_of (controller addr) (radio addr) (cmd_byte READ_FREQ) (encodeBcdFrequency hz)"
  let ?b = "buildFrame (controller addr) (radio addr) (cmd_byte READ_FREQ) (encodeBcdFrequency hz)"
  have "frame_clean (controller addr) (radio addr) (cmd_byte READ_FREQ) []"
    using assms(1) by (simp add: addr_clean_def frame_clean_def)
  from freq.field_received[OF assms(2) this] have r: "snd (append_chunk new_parser ?b) = [?f]"
    by (simp add: received_def MAX_BUFFER_SIZE_def)
  have p: "parseFrequencyResponse ?f = Some (nat (js_round hz mod 10 ^ 10))"
    using freq.field_read[OF assms(2), of "[]"] freq.enc_width[of hz]
    by (simp add: parseFrequencyResponse_def frame_of_def)
  show ?thesis
    using r p frequency_reply_matches[of i addr "encodeBcdFrequency hz", unfolded pending_of_def Let_def]
    by (auto simp: sendCommand_def start_next_def handleIncomingData_def dispatch_frame_def CivSession.settle_def
        new_session_def pending_of_def case_prod_beta Let_def)
qed

theorem frequency_read_end_to_end_witness:
  "\<exists>s' f. run new_session [CallSend 7 True (readFrequency \<lparr>radio = 0x94, controller = 0xe0\<rparr>) Data, StartNext True,
       Incoming 1000 (buildFrame 0xe0 0x94 (cmd_byte READ_FREQ) (encodeBcdFrequency 14074000))]
     = (s', [Wrote 7 (readFrequency \<lparr>radio = 0x94, controller = 0xe0\<rparr>), Resolved 7 (Some f)]) \<and>
     parseFrequencyResponse f = Some 14074000 \<and>
     active s' = None \<and> pendingCommand s' = None \<and> waiting s' = []"
proof -
  have r: "js_round 14074000 = 14074000"
    by (simp add: js_round_def floor_eq_iff)
  show ?thesis
    using frequency_read_end_to_end[of "\<lparr>radio = 0x94, controller = 0xe0\<rparr>" 14074000 7 1000]
    by (simp add: addr_clean_def r)
qed

end
